(* ===== verification/Prelude.thy ===== *)
theory Prelude
  imports Main "HOL-Library.Word"
begin

text \<open>
  Shared vocabulary of the development: machine integer types, the faults a C++
  computation can end in, little-endian byte strings, and the process memory with its
  read and write operations and their separation laws.  The collection
  \<open>mem_laws\<close> holds the rewrite rules on memory that the components use, the
  collection \<open>wrap_laws\<close> the ones on wrap-around arithmetic.
\<close>

unbundle bit_operations_syntax

named_theorems mem_laws \<open>read-over-write laws of the process memory\<close>
named_theorems wrap_laws \<open>wrap-around arithmetic on 64-bit addresses\<close>

section \<open>Machine integers and faults\<close>

type_synonym u8 = "8 word"
type_synonym u16 = "16 word"
type_synonym u32 = "32 word"
type_synonym u64 = "64 word"
type_synonym byte = "8 word"
type_synonym bytes = "byte list"

text \<open>
  What a call can end in instead of returning: \<open>abort()\<close> (also \<open>exit(-1)\<close> and a
  failed \<open>assert\<close>), a read outside the array it indexes, a call through a null
  function pointer, and other undefined behaviour (a shift by the width or more, a
  dereferenced null pointer).
\<close>

datatype fault = Abort | OutOfBounds | NullCall | Undefined

type_synonym 'a res = "fault + 'a"

definition res_bind :: "'e + 'a \<Rightarrow> ('a \<Rightarrow> 'e + 'b) \<Rightarrow> 'e + 'b" where
  "res_bind r f = (case r of Inl e \<Rightarrow> Inl e | Inr x \<Rightarrow> f x)"

lemma res_bind_simps [simp]:
  "res_bind (Inl e) f = Inl e"
  "res_bind (Inr x) f = f x"
  by (simp_all add: res_bind_def)

lemma res_bind_Inr_iff: "res_bind r f = Inr y \<longleftrightarrow> (\<exists>x. r = Inr x \<and> f x = Inr y)"
  by (cases r) simp_all

lemma res_bind_assoc: "res_bind (res_bind r f) g = res_bind r (\<lambda>x. res_bind (f x) g)"
  by (cases r) simp_all

text \<open>Running a fallible function over a list, left to right, stopping at the first fault.\<close>

fun res_map :: "('a \<Rightarrow> 'e + 'b) \<Rightarrow> 'a list \<Rightarrow> 'e + 'b list" where
  "res_map f [] = Inr []"
| "res_map f (x # xs) = res_bind (f x) (\<lambda>y. res_bind (res_map f xs) (\<lambda>ys. Inr (y # ys)))"

lemma res_map_length: "res_map f xs = Inr ys \<Longrightarrow> length ys = length xs"
  by (induction xs arbitrary: ys) (auto simp: res_bind_Inr_iff)

lemma res_map_nth: "res_map f xs = Inr ys \<Longrightarrow> i < length xs \<Longrightarrow> f (xs ! i) = Inr (ys ! i)"
proof (induction xs arbitrary: ys i)
  case (Cons x xs)
  then show ?case by (cases i) (auto simp: res_bind_Inr_iff)
qed simp

lemma res_map_cong:
  "(\<And>x. x \<in> set xs \<Longrightarrow> f x = g x) \<Longrightarrow> res_map f xs = res_map g xs"
  by (induction xs) auto

section \<open>Little-endian byte strings\<close>

fun le_val :: "bytes \<Rightarrow> nat" where
  "le_val [] = 0"
| "le_val (b # bs) = unat b + 256 * le_val bs"

fun le_bytes :: "nat \<Rightarrow> nat \<Rightarrow> bytes" where
  "le_bytes 0 v = []"
| "le_bytes (Suc n) v = word_of_nat v # le_bytes n (v div 256)"

lemma length_le_bytes [simp]: "length (le_bytes n v) = n"
  by (induction n arbitrary: v) auto

lemma unat_byte_lt [simp]: "unat (b :: byte) < 256"
  using unsigned_less [of b, where 'a = nat] by simp

lemma le_val_bound: "le_val bs < 256 ^ length bs"
proof (induction bs)
  case (Cons b bs)
  have "unat b + 256 * le_val bs < 256 + 256 * le_val bs" by simp
  also have "\<dots> \<le> 256 * 256 ^ length bs" using Cons.IH by simp
  finally show ?case by simp
qed simp

lemma le_val_le_bytes: "le_val (le_bytes n v) = v mod 256 ^ n"
proof (induction n arbitrary: v)
  case (Suc n)
  have "v mod (256 * 256 ^ n) = 256 * (v div 256 mod 256 ^ n) + v mod 256"
    by (rule mod_mult2_eq)
  then show ?case using Suc.IH by (simp add: unat_of_nat)
qed simp

lemma le_val_le_bytes_id: "v < 256 ^ n \<Longrightarrow> le_val (le_bytes n v) = v"
  by (simp add: le_val_le_bytes)

lemma le_bytes_le_val: "length bs = n \<Longrightarrow> le_bytes n (le_val bs) = bs"
proof (induction bs arbitrary: n)
  case (Cons b bs)
  have "word_of_nat (unat b + 256 * le_val bs) = b"
    unfolding word_unat_eq_iff by (subst unat_of_nat) simp
  moreover have "(unat b + 256 * le_val bs) div 256 = le_val bs"
    by simp
  ultimately show ?case using Cons by auto
qed simp

lemma le_bytes_inject:
  "v < 256 ^ n \<Longrightarrow> w < 256 ^ n \<Longrightarrow> le_bytes n v = le_bytes n w \<longleftrightarrow> v = w"
  by (metis le_val_le_bytes_id)

lemma le_val_append: "le_val (xs @ ys) = le_val xs + 256 ^ length xs * le_val ys"
  by (induction xs) (simp_all add: algebra_simps)

lemma le_val_replicate_zero [simp]: "le_val (replicate n 0) = 0"
  by (induction n) simp_all

section \<open>Process memory\<close>

text \<open>
  The address space of the process, which guest code, the guest registers (the
  \<open>State\<close> object inside \<open>CPUState\<close>) and the host share.  Addresses wrap at
  \<open>2^64\<close> as pointer arithmetic on \<open>uintptr_t\<close> does.
\<close>

type_synonym mem = "u64 \<Rightarrow> byte"

definition mem_read :: "mem \<Rightarrow> u64 \<Rightarrow> nat \<Rightarrow> bytes" where
  "mem_read m a n = map (\<lambda>i. m (a + word_of_nat i)) [0..<n]"

definition mem_write :: "mem \<Rightarrow> u64 \<Rightarrow> bytes \<Rightarrow> mem" where
  "mem_write m a bs = (\<lambda>x. let d = unat (x - a) in if d < length bs then bs ! d else m x)"

lemma length_mem_read [simp]: "length (mem_read m a n) = n"
  by (simp add: mem_read_def)

lemma nth_mem_read: "i < n \<Longrightarrow> mem_read m a n ! i = m (a + word_of_nat i)"
  by (simp add: mem_read_def)

text \<open>Two address ranges that do not meet, on the ring of 64-bit addresses.\<close>

definition sep :: "u64 \<Rightarrow> nat \<Rightarrow> u64 \<Rightarrow> nat \<Rightarrow> bool" where
  "sep a n b k \<longleftrightarrow> n = 0 \<or> k = 0 \<or> n \<le> unat (b - a) \<and> k \<le> unat (a - b)"

lemma sep_sym: "sep a n b k \<longleftrightarrow> sep b k a n"
  by (auto simp: sep_def)

lemma unat_word_of_nat64: "i < 2 ^ 64 \<Longrightarrow> unat (word_of_nat i :: u64) = i"
  by (simp add: unat_of_nat)

lemma unat_minus_swap: "a \<noteq> b \<Longrightarrow> unat (b - a) = 2 ^ 64 - unat (a - b)" for a b :: u64
  using unsigned_less [of a, where 'a = nat] unsigned_less [of b, where 'a = nat]
  by (auto simp: unat_sub_if' word_unat_eq_iff)

lemma mem_read_write_same [mem_laws]:
  assumes "length bs \<le> 2 ^ 64"
  shows "mem_read (mem_write m a bs) a (length bs) = bs"
proof (rule nth_equalityI)
  fix i assume "i < length (mem_read (mem_write m a bs) a (length bs))"
  then have i: "i < length bs" by simp
  then have "unat (word_of_nat i :: u64) = i"
    using assms by (intro unat_word_of_nat64) simp
  with i show "mem_read (mem_write m a bs) a (length bs) ! i = bs ! i"
    by (simp add: nth_mem_read mem_write_def)
qed simp

lemma unat_add_sep:
  fixes a b :: u64
  assumes "n \<le> unat (b - a)" and "i < n" and "a \<noteq> b"
  shows "unat (a + word_of_nat i - b) = unat (a - b) + i"
proof -
  have ab: "unat (b - a) = 2 ^ 64 - unat (a - b)"
    by (rule unat_minus_swap [OF assms(3)])
  have lt: "unat (a - b) < 2 ^ 64" using unsigned_less [of "a - b", where 'a = nat] by simp
  have s: "unat (a - b) + i < 2 ^ 64"
    using assms(1,2) ab lt by linarith
  have i: "unat (word_of_nat i :: u64) = i"
    by (rule unat_word_of_nat64) (use s in linarith)
  have eq: "a + word_of_nat i - b = (a - b) + word_of_nat i"
    by (simp add: algebra_simps)
  show ?thesis unfolding eq
    by (subst unat_add_lem [THEN iffD1]) (use s i in simp_all)
qed

lemma mem_read_write_sep [mem_laws]:
  assumes "sep a n b (length bs)"
  shows "mem_read (mem_write m b bs) a n = mem_read m a n"
proof (cases "n = 0 \<or> bs = []")
  case True
  then show ?thesis by (auto simp: mem_read_def mem_write_def)
next
  case False
  with assms have ne: "a \<noteq> b" by (auto simp: sep_def)
  have "mem_write m b bs (a + word_of_nat i) = m (a + word_of_nat i)" if "i < n" for i
    using unat_add_sep [of n b a i] that assms ne False
    by (auto simp: mem_write_def sep_def Let_def)
  then show ?thesis by (simp add: mem_read_def)
qed

lemma mem_write_twice: "length bs = length cs \<Longrightarrow> mem_write (mem_write m a bs) a cs = mem_write m a cs"
  by (rule ext) (simp add: mem_write_def Let_def)

text \<open>Offsets from one base: the ranges \<open>[s + o1, s + o1 + n)\<close> and \<open>[s + o2, s + o2 + k)\<close>.\<close>

definition off_sep :: "nat \<Rightarrow> nat \<Rightarrow> nat \<Rightarrow> nat \<Rightarrow> bool" where
  "off_sep o1 n o2 k \<longleftrightarrow> o1 + n \<le> o2 \<or> o2 + k \<le> o1"

lemma unat_diff_off:
  assumes "o1 \<le> o2" and "o2 < 2 ^ 64"
  shows "unat ((s + word_of_nat o2) - (s + word_of_nat o1) :: u64) = o2 - o1"
proof -
  have eq: "(s + word_of_nat o2) - (s + word_of_nat o1) = (word_of_nat (o2 - o1) :: u64)"
    using assms by (simp add: of_nat_diff)
  show ?thesis unfolding eq using assms by (intro unat_word_of_nat64) simp
qed

lemma sep_offsets [wrap_laws]:
  assumes "off_sep o1 n o2 k" and "o1 + n \<le> 2 ^ 63" and "o2 + k \<le> 2 ^ 63"
  shows "sep (s + word_of_nat o1) n (s + word_of_nat o2) k"
proof (cases "o1 = o2")
  case True
  with assms show ?thesis by (auto simp: sep_def off_sep_def)
next
  case False
  then consider (lt) "o1 < o2" | (gt) "o2 < o1" by linarith
  then show ?thesis
  proof cases
    case lt
    have ne: "s + word_of_nat o1 \<noteq> (s + word_of_nat o2 :: u64)"
      using lt assms unat_word_of_nat64 [of o1] unat_word_of_nat64 [of o2] by fastforce
    have d: "unat ((s + word_of_nat o2) - (s + word_of_nat o1) :: u64) = o2 - o1"
      by (rule unat_diff_off) (use lt assms in simp_all)
    with unat_minus_swap [OF ne] have "unat ((s + word_of_nat o1) - (s + word_of_nat o2) :: u64) = 2 ^ 64 - (o2 - o1)"
      using unat_minus_swap [OF ne [symmetric]] by simp
    with d lt assms show ?thesis by (auto simp: sep_def off_sep_def)
  next
    case gt
    have ne: "s + word_of_nat o1 \<noteq> (s + word_of_nat o2 :: u64)"
      using gt assms unat_word_of_nat64 [of o1] unat_word_of_nat64 [of o2] by fastforce
    have d: "unat ((s + word_of_nat o1) - (s + word_of_nat o2) :: u64) = o1 - o2"
      by (rule unat_diff_off) (use gt assms in simp_all)
    with unat_minus_swap [OF ne] have "unat ((s + word_of_nat o2) - (s + word_of_nat o1) :: u64) = 2 ^ 64 - (o1 - o2)"
      by simp
    with d gt assms show ?thesis by (auto simp: sep_def off_sep_def)
  qed
qed

lemma sep_split:
  assumes "sep a n b (k + l)"
  shows "sep a n b k \<and> sep a n (b + word_of_nat k) l"
proof (cases "n = 0 \<or> l = 0")
  case False
  with assms have s: "n \<le> unat (b - a)" "k + l \<le> unat (a - b)" by (auto simp: sep_def)
  with False have ne: "a \<noteq> b" by auto
  have lt: "unat (a - b) < 2 ^ 64" using unsigned_less [of "a - b", where 'a = nat] by simp
  have k: "unat (word_of_nat k :: u64) = k"
    by (rule unat_word_of_nat64) (use s(2) lt in linarith)
  have ba: "unat (b - a) = 2 ^ 64 - unat (a - b)" by (rule unat_minus_swap [OF ne])
  have "unat (a - (b + word_of_nat k)) = unat (a - b) - k"
    using s(2) k unat_sub [of "word_of_nat k" "a - b"] by (simp add: word_le_nat_alt diff_diff_add)
  moreover have eq: "b + word_of_nat k - a = (b - a) + word_of_nat k" by (simp add: algebra_simps)
  have "unat (b + word_of_nat k - a) = unat (b - a) + k"
    unfolding eq by (subst unat_add_lem [THEN iffD1]) (use s(2) k ba lt False in auto)
  ultimately show ?thesis using s by (auto simp: sep_def)
qed (use assms in \<open>auto simp: sep_def\<close>)

text \<open>A 64-bit load and store, and the general \<open>memcpy\<close> of at most eight bytes into a \<open>uint64_t\<close>.\<close>

definition load64 :: "mem \<Rightarrow> u64 \<Rightarrow> u64" where
  "load64 m a = word_of_nat (le_val (mem_read m a 8))"

definition store64 :: "mem \<Rightarrow> u64 \<Rightarrow> u64 \<Rightarrow> mem" where
  "store64 m a v = mem_write m a (le_bytes 8 (unat v))"

definition load_upto64 :: "mem \<Rightarrow> u64 \<Rightarrow> nat \<Rightarrow> u64" where
  "load_upto64 m a n = word_of_nat (le_val (mem_read m a n))"

lemma load64_eq: "load64 m a = load_upto64 m a 8"
  by (simp add: load64_def load_upto64_def)

lemma unat_u64_lt: "unat (v :: u64) < 256 ^ 8"
  using unsigned_less [of v, where 'a = nat] by simp

lemma load64_store64 [simp]: "load64 (store64 m a v) a = v"
proof -
  have "mem_read (mem_write m a (le_bytes 8 (unat v))) a 8 = le_bytes 8 (unat v)"
    using mem_read_write_same [of "le_bytes 8 (unat v)" m a] by simp
  then show ?thesis
    by (simp add: load64_def store64_def le_val_le_bytes_id [OF unat_u64_lt])
qed

lemma load64_store64_sep [mem_laws]: "sep a 8 b 8 \<Longrightarrow> load64 (store64 m b v) a = load64 m a"
  by (simp add: load64_def store64_def mem_read_write_sep)

lemma load_upto64_store64_sep [mem_laws]:
  "sep a n b 8 \<Longrightarrow> load_upto64 (store64 m b v) a n = load_upto64 m a n"
  by (simp add: load_upto64_def store64_def mem_read_write_sep)

end
