(* ===== verification/Registers.thy ===== *)
theory Registers
  imports Prelude
begin

text \<open>
  \<open>include/Register.h\<close>: the unified \<open>Register\<close> enumeration.  The declaration is kept
  as data (\<open>Register_decl\<close>) and the values come from the C++ rule for enumerators, so
  that the aliases between the AArch64 and the x86-64 names are computed and not
  assumed; the constants \<open>X\<close>, \<open>Q\<close>, \<open>RAX\<close>, \<dots> used by the other theories are
  proved to be these values.  Also here: decimal numerals as \<open>std::to_string\<close>,
  \<open>std::format\<close> and \<open>std::from_chars\<close> write and read them.
\<close>

section \<open>Decimal numerals\<close>

fun digits :: "nat \<Rightarrow> string" where
  "digits n = (if n < 10 then [char_of (48 + n)] else digits (n div 10) @ [char_of (48 + n mod 10)])"

declare digits.simps [simp del]

definition is_digit :: "char \<Rightarrow> bool" where
  "is_digit c \<longleftrightarrow> 48 \<le> (of_char c :: nat) \<and> (of_char c :: nat) \<le> 57"

definition digit_val :: "char \<Rightarrow> nat" where
  "digit_val c = of_char c - 48"

definition dec_val :: "string \<Rightarrow> nat" where
  "dec_val ds = foldl (\<lambda>acc c. acc * 10 + digit_val c) 0 ds"

text \<open>
  \<open>std::from_chars\<close> into an \<open>int\<close>, base ten: the longest prefix of digits after an
  optional minus sign; \<open>None\<close> is \<open>errc::invalid_argument\<close> (no digits) or
  \<open>errc::result_out_of_range\<close>.  Characters after the digits are ignored.
\<close>

definition from_chars :: "string \<Rightarrow> int option" where
  "from_chars s =
     (let neg = (case s of [] \<Rightarrow> False | c # _ \<Rightarrow> c = CHR ''-'');
          ds = takeWhile is_digit (if neg then tl s else s);
          v = (if neg then - int (dec_val ds) else int (dec_val ds))
      in if ds = [] \<or> v < - (2 ^ 31) \<or> 2 ^ 31 - 1 < v then None else Some v)"

lemma of_char_digit: "n < 10 \<Longrightarrow> (of_char (char_of (48 + n) :: char) :: nat) = 48 + n"
  by simp

lemma digits_digit: "list_all is_digit (digits n)"
proof (induction n rule: digits.induct)
  case (1 n)
  have d: "is_digit (char_of (48 + k))" if "k < 10" for k :: nat
    using that by (simp add: is_digit_def)
  show ?case
    using "1" by (subst digits.simps) (simp add: d)
qed

lemma dec_val_snoc: "dec_val (ds @ [c]) = dec_val ds * 10 + digit_val c"
  by (simp add: dec_val_def)

lemma dec_val_digits: "dec_val (digits n) = n"
proof (induction n rule: digits.induct)
  case (1 n)
  show ?case
  proof (cases "n < 10")
    case True
    then show ?thesis by (subst digits.simps) (simp add: dec_val_def digit_val_def)
  next
    case False
    then have "dec_val (digits n) = dec_val (digits (n div 10)) * 10 + n mod 10"
      by (subst digits.simps) (simp add: dec_val_snoc digit_val_def)
    also have "\<dots> = n" using 1 [OF False] by simp
    finally show ?thesis .
  qed
qed

lemma digits_nonempty [simp]: "digits n \<noteq> []"
  by (subst digits.simps) simp

lemma digits_inject: "digits m = digits n \<longleftrightarrow> m = n"
  by (metis dec_val_digits)

lemma hd_digits: "\<exists>c cs. digits n = c # cs \<and> is_digit c"
proof -
  obtain c cs where "digits n = c # cs" by (cases "digits n") auto
  with digits_digit [of n] show ?thesis by simp
qed

text \<open>Reading back a printed number, whatever follows it.\<close>

lemma from_chars_digits:
  assumes "n < 2 ^ 31" and "case rest of [] \<Rightarrow> True | c # _ \<Rightarrow> \<not> is_digit c"
  shows "from_chars (digits n @ rest) = Some (int n)"
proof -
  obtain c cs where d: "digits n = c # cs" "is_digit c" using hd_digits by blast
  have minus: "c \<noteq> CHR ''-''" using d(2) by (auto simp: is_digit_def)
  have "takeWhile is_digit rest = []" using assms(2) by (auto split: list.splits)
  then have tw: "takeWhile is_digit (digits n @ rest) = digits n"
    using digits_digit [of n] by (simp add: list_all_iff takeWhile_append)
  have hd: "(case digits n @ rest of [] \<Rightarrow> False | c # _ \<Rightarrow> c = CHR ''-'') = False"
    using d minus by simp
  show ?thesis
    unfolding from_chars_def hd Let_def if_False tw dec_val_digits
    using assms(1) by simp
qed

section \<open>The Register enumeration\<close>

text \<open>
  An enumerator list: a name and, for an alias, the name it is set to.  The values follow
  the C++ rule: an initialiser gives the value, otherwise it is one more than that of the
  enumerator before (zero for the first).
\<close>

fun enum_values :: "int \<Rightarrow> (string \<times> int) list \<Rightarrow> (string \<times> string option) list \<Rightarrow> (string \<times> int) list" where
  "enum_values nxt acc [] = acc"
| "enum_values nxt acc ((name, None) # ds) = enum_values (nxt + 1) (acc @ [(name, nxt)]) ds"
| "enum_values nxt acc ((name, Some alias) # ds) =
     (case map_of acc alias of
        None \<Rightarrow> enum_values (nxt + 1) (acc @ [(name, nxt)]) ds
      | Some v \<Rightarrow> enum_values (v + 1) (acc @ [(name, v)]) ds)"

definition numbered :: "string \<Rightarrow> nat \<Rightarrow> (string \<times> string option) list" where
  "numbered p n = map (\<lambda>i. (p @ digits i, None)) [0..<n]"

definition Register_decl :: "(string \<times> string option) list" where
  "Register_decl =
     [(''ZERO'', None), (''PC'', None)] @ numbered ''X'' 32 @ [(''NZCV'', None)] @
     numbered ''Q'' 32 @ [(''FPSR'', None), (''FPCR'', None),
     (''FP'', Some ''X29''), (''LR'', Some ''X30''), (''SP'', Some ''X31''),
     (''RIP'', Some ''PC''), (''RBP'', Some ''FP''), (''RSP'', Some ''SP''),
     (''RAX'', None), (''RBX'', None), (''RCX'', None), (''RDI'', None), (''RDX'', None),
     (''RSI'', None), (''R8'', None), (''R9'', None), (''R10'', None), (''R11'', None),
     (''R12'', None), (''R13'', None), (''R14'', None), (''R15'', None), (''RFLAGS'', None),
     (''SS'', None), (''ES'', None), (''GS'', None), (''FS'', None), (''DS'', None), (''CS'', None)] @
     numbered ''ST'' 8 @ numbered ''MM'' 8 @ numbered ''XMM'' 32"

definition Register_enum :: "(string \<times> int) list" where
  "Register_enum = enum_values 0 [] Register_decl"

type_synonym Register = int

definition ZERO :: Register where "ZERO = 0"
definition PC :: Register where "PC = 1"
definition X :: "int \<Rightarrow> Register" where "X i = 2 + i"
definition NZCV :: Register where "NZCV = 34"
definition Q :: "int \<Rightarrow> Register" where "Q i = 35 + i"
definition FPSR :: Register where "FPSR = 67"
definition FPCR :: Register where "FPCR = 68"
definition FP :: Register where "FP = X 29"
definition LR :: Register where "LR = X 30"
definition SP :: Register where "SP = X 31"
definition RIP :: Register where "RIP = PC"
definition RBP :: Register where "RBP = FP"
definition RSP :: Register where "RSP = SP"
definition RAX :: Register where "RAX = 34"
definition RBX :: Register where "RBX = 35"
definition RCX :: Register where "RCX = 36"
definition RDI :: Register where "RDI = 37"
definition RDX :: Register where "RDX = 38"
definition RSI :: Register where "RSI = 39"
definition R :: "int \<Rightarrow> Register" where "R n = 32 + n"
definition RFLAGS :: Register where "RFLAGS = 48"
definition SS :: Register where "SS = 49"
definition ES :: Register where "ES = 50"
definition GS :: Register where "GS = 51"
definition FS :: Register where "FS = 52"
definition DS :: Register where "DS = 53"
definition CS :: Register where "CS = 54"
definition ST :: "int \<Rightarrow> Register" where "ST i = 55 + i"
definition MM :: "int \<Rightarrow> Register" where "MM i = 63 + i"
definition XMM :: "int \<Rightarrow> Register" where "XMM i = 71 + i"

lemmas reg_defs = ZERO_def PC_def X_def NZCV_def Q_def FPSR_def FPCR_def FP_def LR_def SP_def
  RIP_def RBP_def RSP_def RAX_def RBX_def RCX_def RDI_def RDX_def RSI_def R_def RFLAGS_def
  SS_def ES_def GS_def FS_def DS_def CS_def ST_def MM_def XMM_def

text \<open>The named constants, one entry per enumerator of the declaration.\<close>

definition Register_consts :: "(string \<times> Register) list" where
  "Register_consts =
     [(''ZERO'', ZERO), (''PC'', PC)] @ map (\<lambda>i. (''X'' @ digits i, X (int i))) [0..<32] @
     [(''NZCV'', NZCV)] @ map (\<lambda>i. (''Q'' @ digits i, Q (int i))) [0..<32] @
     [(''FPSR'', FPSR), (''FPCR'', FPCR), (''FP'', FP), (''LR'', LR), (''SP'', SP),
      (''RIP'', RIP), (''RBP'', RBP), (''RSP'', RSP), (''RAX'', RAX), (''RBX'', RBX), (''RCX'', RCX),
      (''RDI'', RDI), (''RDX'', RDX), (''RSI'', RSI)] @
     map (\<lambda>i. (''R'' @ digits i, R (int i))) [8..<16] @
     [(''RFLAGS'', RFLAGS), (''SS'', SS), (''ES'', ES), (''GS'', GS), (''FS'', FS), (''DS'', DS), (''CS'', CS)] @
     map (\<lambda>i. (''ST'' @ digits i, ST (int i))) [0..<8] @ map (\<lambda>i. (''MM'' @ digits i, MM (int i))) [0..<8] @
     map (\<lambda>i. (''XMM'' @ digits i, XMM (int i))) [0..<32]"

text \<open>
  The register constants of the model are the enumerator values of
  \<open>enum class Register\<close>, computed from its declaration by the C++ rule: one constant per
  enumerator, in order; in particular \<open>RAX\<close> continues after \<open>RSP = SP\<close> and so shares its
  number with \<open>NZCV\<close>.
\<close>

lemma Register_enum_values: "Register_enum = Register_consts \<and> RAX = NZCV \<and> RSP = X 31"
proof -
  have "Register_enum = Register_consts" by code_simp
  then show ?thesis by (simp add: reg_defs)
qed

end
