(* ===== verification/CPUState.thy ===== *)
theory CPUState
  imports Registers
begin

text \<open>
  \<open>src/CPUState.h\<close> and \<open>src/CPUState.cpp\<close>: the per-thread CPU state, register access
  by \<open>Register\<close> number for both guests, and the set-up and release of a thread context.

  The guest registers live in a \<open>State\<close> object of the Remill library, whose source is
  not part of the repository.  Its layout is therefore data of the model: every field the
  code names is a value of \<open>a64_field\<close> or \<open>x86_field\<close>, and the record \<open>cpu\<close> carries
  the offset of each.  \<open>a64_layout_ok\<close> and \<open>x86_layout_ok\<close> collect what the code
  relies on: distinct fields do not overlap, and the strides the source itself asserts.
  Registers are bytes of the process memory, so that the pointers the code hands out and
  the 64-bit writes through them mean what they mean in the program.

  The locale \<open>register_file\<close> is the contract between a register file and its clients;
  it is interpreted for the AArch64 and for the x86-64 accessors.
\<close>

section \<open>State fields\<close>

datatype a64_sr = SR_n | SR_z | SR_c | SR_v | SR_ixc | SR_ofc | SR_ufc | SR_idc | SR_ioc | SR_dzc
  | SR_tpidr_el0 | SR_tpidrro_el0
datatype a64_sleigh = SL_NG | SL_ZR | SL_CY | SL_OV | SL_shift_carry

datatype a64_field = A_gpr nat | A_sp | A_pc | A_pad nat | A_zero | A_v nat | A_nzcv | A_fpsr | A_fpcr
  | A_sr a64_sr | A_sleigh a64_sleigh

datatype x86_gpr = G_rax | G_rbx | G_rcx | G_rdx | G_rsi | G_rdi | G_rsp | G_rbp
  | G_r nat \<comment> \<open>\<open>r8\<close> is \<open>G_r 8\<close>\<close> | G_rip
datatype x86_flag = F_cf | F_pf | F_af | F_zf | F_sf | F_df | F_of
datatype x86_seg = S_ss | S_es | S_gs | S_fs | S_ds | S_cs
datatype x86_sw = W_c0 | W_c1 | W_c2 | W_c3 | W_pe | W_ue | W_oe | W_ze | W_de | W_ie | W_sf

datatype x86_field = X_gpr x86_gpr | X_pad nat | X_aflag x86_flag | X_rflag | X_seg x86_seg
  | X_base x86_seg | X_st nat | X_mmx nat | X_vec nat | X_k nat | X_sw x86_sw

text \<open>
  Sizes in bytes.  The strides of the vector, x87 and MMX elements are the ones the
  \<open>static_assert\<close>s of \<open>src/AArch64.cpp\<close> and \<open>src/X86.cpp\<close> state.
\<close>

fun a64_size :: "a64_field \<Rightarrow> nat" where
  "a64_size (A_v _) = 16"
| "a64_size (A_sr SR_tpidr_el0) = 8"
| "a64_size (A_sr SR_tpidrro_el0) = 8"
| "a64_size (A_sr _) = 1"
| "a64_size (A_sleigh _) = 1"
| "a64_size _ = 8"

fun a64_valid :: "a64_field \<Rightarrow> bool" where
  "a64_valid (A_gpr i) = (i \<le> 30)"
| "a64_valid (A_pad i) = (i \<le> 6)"
| "a64_valid (A_v i) = (i \<le> 31)"
| "a64_valid _ = True"

definition a64_layout_ok :: "(a64_field \<Rightarrow> nat) \<Rightarrow> bool" where
  "a64_layout_ok L \<longleftrightarrow>
     (\<forall>f g. a64_valid f \<longrightarrow> a64_valid g \<longrightarrow> f \<noteq> g \<longrightarrow> off_sep (L f) (a64_size f) (L g) (a64_size g)) \<and>
     (\<forall>f. a64_valid f \<longrightarrow> L f + a64_size f \<le> 2 ^ 31) \<and>
     (\<forall>i \<le> 30. L (A_gpr i) = L (A_gpr 0) + 16 * i) \<and> L A_sp = L (A_gpr 0) + 16 * 31 \<and>
     (\<forall>i \<le> 31. L (A_v i) = L (A_v 0) + 16 * i)"

fun x86_size :: "x86_field \<Rightarrow> nat" where
  "x86_size (X_aflag _) = 1"
| "x86_size (X_seg _) = 2"
| "x86_size (X_sw _) = 1"
| "x86_size (X_st _) = 16"
| "x86_size (X_mmx _) = 16"
| "x86_size (X_vec _) = 64"
| "x86_size _ = 8"

fun x86_valid :: "x86_field \<Rightarrow> bool" where
  "x86_valid (X_gpr (G_r i)) = (8 \<le> i \<and> i \<le> 15)"
| "x86_valid (X_pad i) = (i \<le> 10)"
| "x86_valid (X_st i) = (i \<le> 7)"
| "x86_valid (X_mmx i) = (i \<le> 7)"
| "x86_valid (X_vec i) = (i \<le> 31)"
| "x86_valid (X_k i) = (i \<le> 7)"
| "x86_valid _ = True"

definition x86_layout_ok :: "(x86_field \<Rightarrow> nat) \<Rightarrow> bool" where
  "x86_layout_ok L \<longleftrightarrow>
     (\<forall>f g. x86_valid f \<longrightarrow> x86_valid g \<longrightarrow> f \<noteq> g \<longrightarrow> off_sep (L f) (x86_size f) (L g) (x86_size g)) \<and>
     (\<forall>f. x86_valid f \<longrightarrow> L f + x86_size f \<le> 2 ^ 31) \<and>
     (\<forall>i \<in> {8..15}. L (X_gpr (G_r i)) = L (X_gpr (G_r 8)) + 16 * (i - 8)) \<and>
     (\<forall>i \<le> 7. L (X_st i) = L (X_st 0) + 16 * i) \<and> (\<forall>i \<le> 7. L (X_mmx i) = L (X_mmx 0) + 16 * i) \<and>
     (\<forall>i \<le> 31. L (X_vec i) = L (X_vec 0) + 64 * i)"

section \<open>The CPU state\<close>

record cpu =
  mem :: mem
  state_ptr :: u64 \<comment> \<open>address of the union of the two \<open>State\<close> objects\<close>
  state_size :: nat
  a64_lay :: "a64_field \<Rightarrow> nat"
  x86_lay :: "x86_field \<Rightarrow> nat"
  pcptr :: u64
  conv_pc :: u64 \<comment> \<open>\<open>CPUState::pc\<close>, the converted program counter\<close>
  rvalue :: u64
  retaddr :: u64
  stack :: u64 \<comment> \<open>\<open>0\<close> is \<open>nullptr\<close>\<close>
  stacksize :: u64

definition a64_addr :: "cpu \<Rightarrow> a64_field \<Rightarrow> u64" where
  "a64_addr c f = state_ptr c + word_of_nat (a64_lay c f)"

definition x86_addr :: "cpu \<Rightarrow> x86_field \<Rightarrow> u64" where
  "x86_addr c f = state_ptr c + word_of_nat (x86_lay c f)"

lemma addr_mem [simp]:
  "a64_addr (c\<lparr>mem := m\<rparr>) f = a64_addr c f" "x86_addr (c\<lparr>mem := m\<rparr>) g = x86_addr c g"
  by (simp_all add: a64_addr_def x86_addr_def)

definition put_bit :: "nat \<Rightarrow> bool \<Rightarrow> u64 \<Rightarrow> u64" where
  "put_bit i b w = (if b then set_bit i w else unset_bit i w)"

text \<open>
  Flag registers are mirrored: the semantics functions keep each flag in a byte, the
  debugger and the user see them as bits of one register.  \<open>flags_gather\<close> assigns the
  bit-fields of the register at \<open>r\<close> from the bytes, one assignment per entry, in order;
  \<open>flags_scatter\<close> the bytes from the bit-fields.
\<close>

fun flags_gather :: "(u64 \<times> nat) list \<Rightarrow> u64 \<Rightarrow> mem \<Rightarrow> mem" where
  "flags_gather [] r m = m"
| "flags_gather ((a, i) # fs) r m =
     flags_gather fs r (store64 m r (put_bit i (bit (m a) 0) (load64 m r)))"

fun flags_scatter :: "(u64 \<times> nat) list \<Rightarrow> u64 \<Rightarrow> mem \<Rightarrow> mem" where
  "flags_scatter [] r m = m"
| "flags_scatter ((a, i) # fs) r m = flags_scatter fs r (m(a := of_bool (bit (load64 m r) i)))"

definition a64_flags :: "cpu \<Rightarrow> (u64 \<times> nat) list" where
  "a64_flags c = [(a64_addr c (A_sr SR_n), 31), (a64_addr c (A_sr SR_z), 30),
     (a64_addr c (A_sr SR_c), 29), (a64_addr c (A_sr SR_v), 28)]"

definition x86_flags :: "cpu \<Rightarrow> (u64 \<times> nat) list" where
  "x86_flags c = [(x86_addr c (X_aflag F_af), 4), (x86_addr c (X_aflag F_cf), 0),
     (x86_addr c (X_aflag F_df), 10), (x86_addr c (X_aflag F_of), 11), (x86_addr c (X_aflag F_pf), 2),
     (x86_addr c (X_aflag F_sf), 7), (x86_addr c (X_aflag F_zf), 6)]"

text \<open>The \<open>switch\<close> of \<open>getRegisterAArch64\<close>: the field whose address it takes.\<close>

definition a64_reg_field :: "Register \<Rightarrow> a64_field option" where
  "a64_reg_field reg =
     (if reg = PC then Some A_pc
      else if reg = ZERO then Some A_zero
      else if X 0 \<le> reg \<and> reg \<le> X 30 then Some (A_gpr (nat (reg - X 0)))
      else if reg = X 31 then Some A_sp
      else if reg = NZCV then Some A_nzcv
      else if Q 0 \<le> reg \<and> reg \<le> Q 31 then Some (A_v (nat (reg - Q 0)))
      else if reg = FPSR then Some A_fpsr
      else if reg = FPCR then Some A_fpcr
      else None)"

definition getRegisterAArch64 :: "cpu \<Rightarrow> Register \<Rightarrow> u64 option \<times> cpu" where
  "getRegisterAArch64 c reg =
     (case a64_reg_field reg of
        None \<Rightarrow> (None, c)
      | Some f \<Rightarrow>
          (Some (a64_addr c f),
           if reg = NZCV then c\<lparr>mem := flags_gather (a64_flags c) (a64_addr c A_nzcv) (mem c)\<rparr> else c))"

definition setRegisterAArch64 :: "cpu \<Rightarrow> Register \<Rightarrow> u64 \<Rightarrow> bool \<times> cpu" where
  "setRegisterAArch64 c reg val =
     (case getRegisterAArch64 c reg of
        (None, c') \<Rightarrow> (False, c')
      | (Some p, c') \<Rightarrow>
          let m = store64 (mem c') p val in
          (True, c'\<lparr>mem := if reg = NZCV then flags_scatter (a64_flags c') (a64_addr c' A_nzcv) m else m\<rparr>))"

definition setRegisterNEON :: "cpu \<Rightarrow> Register \<Rightarrow> u64 \<Rightarrow> u64 \<Rightarrow> bool \<times> cpu" where
  "setRegisterNEON c reg lo hi =
     (if Q 0 \<le> reg \<and> reg \<le> Q 31
      then case getRegisterAArch64 c reg of
             (None, c') \<Rightarrow> (True, c')
           | (Some p, c') \<Rightarrow> (True, c'\<lparr>mem := store64 (store64 (mem c') p lo) (p + 8) hi\<rparr>)
      else (False, c))"

definition x86_gpr_reg :: "Register \<Rightarrow> x86_gpr option" where
  "x86_gpr_reg reg =
     (if reg = RIP then Some G_rip else if reg = RAX then Some G_rax else if reg = RBP then Some G_rbp
      else if reg = RBX then Some G_rbx else if reg = RCX then Some G_rcx else if reg = RDI then Some G_rdi
      else if reg = RDX then Some G_rdx else if reg = RSI then Some G_rsi else if reg = RSP then Some G_rsp
      else if R 8 \<le> reg \<and> reg \<le> R 15 then Some (G_r (nat (reg - R 0))) else None)"

definition x86_reg_field :: "Register \<Rightarrow> x86_field option" where
  "x86_reg_field reg =
     (case x86_gpr_reg reg of
        Some g \<Rightarrow> Some (X_gpr g)
      | None \<Rightarrow>
          if reg = ZERO then Some (X_pad 10)
          else if reg = RFLAGS then Some X_rflag
          else if reg = SS then Some (X_seg S_ss) else if reg = ES then Some (X_seg S_es)
          else if reg = GS then Some (X_seg S_gs) else if reg = FS then Some (X_seg S_fs)
          else if reg = DS then Some (X_seg S_ds) else if reg = CS then Some (X_seg S_cs)
          else if ST 0 \<le> reg \<and> reg \<le> ST 7 then Some (X_st (nat (reg - ST 0)))
          else if MM 0 \<le> reg \<and> reg \<le> MM 7 then Some (X_mmx (nat (reg - MM 0)))
          else if XMM 0 \<le> reg \<and> reg \<le> XMM 31 then Some (X_vec (nat (reg - XMM 0)))
          else None)"

definition getRegisterX86 :: "cpu \<Rightarrow> Register \<Rightarrow> u64 option \<times> cpu" where
  "getRegisterX86 c reg =
     (case x86_reg_field reg of
        None \<Rightarrow> (None, c)
      | Some f \<Rightarrow>
          (Some (x86_addr c f),
           if reg = RFLAGS then c\<lparr>mem := flags_gather (x86_flags c) (x86_addr c X_rflag) (mem c)\<rparr> else c))"

definition setRegisterX86 :: "cpu \<Rightarrow> Register \<Rightarrow> u64 \<Rightarrow> bool \<times> cpu" where
  "setRegisterX86 c reg val =
     (case getRegisterX86 c reg of
        (None, c') \<Rightarrow> (False, c')
      | (Some p, c') \<Rightarrow>
          let m = store64 (mem c') p val in
          (True, c'\<lparr>mem := if reg = RFLAGS then flags_scatter (x86_flags c') (x86_addr c' X_rflag) m else m\<rparr>))"

definition setRegisterSSE :: "cpu \<Rightarrow> Register \<Rightarrow> u64 \<Rightarrow> u64 \<Rightarrow> bool \<times> cpu" where
  "setRegisterSSE c reg lo hi =
     (if XMM 0 \<le> reg \<and> reg \<le> XMM 31
      then case getRegisterX86 c reg of
             (None, c') \<Rightarrow> (True, c')
           | (Some p, c') \<Rightarrow> (True, c'\<lparr>mem := store64 (store64 (mem c') p lo) (p + 8) hi\<rparr>)
      else (False, c))"

text \<open>
  \<open>initContext\<close> for a guest of the given architecture.  \<open>stack_size()\<close> and the address
  \<open>new char[]\<close> returns are inputs; \<open>new\<close> does not return null.
\<close>

definition initContext :: "bool \<Rightarrow> u64 \<Rightarrow> u64 \<Rightarrow> u64 \<Rightarrow> cpu \<Rightarrow> cpu" where
  "initContext arm64 os_stack_size new_stack entry c =
     (let c1 = (if stack c = 0 then c\<lparr>stacksize := os_stack_size, stack := new_stack\<rparr> else c);
          setr = (if arm64 then setRegisterAArch64 else setRegisterX86);
          getr = (if arm64 then getRegisterAArch64 else getRegisterX86);
          c2 = snd (setr c1 PC entry);
          c3 = snd (setr c2 SP (stack c2 + stacksize c2))
      in case getr c3 PC of (p, c4) \<Rightarrow> c4\<lparr>pcptr := (case p of None \<Rightarrow> 0 | Some a \<Rightarrow> a)\<rparr>)"

definition freeContext :: "cpu \<Rightarrow> cpu" where
  "freeContext c = c\<lparr>mem := mem_write (mem c) (state_ptr c) (replicate (state_size c) 0),
     pcptr := 0, conv_pc := 0, rvalue := 0, retaddr := 0, stack := 0, stacksize := 0\<rparr>"

text \<open>The value a caller reads through the returned pointer.\<close>

definition a64_value :: "cpu \<Rightarrow> Register \<Rightarrow> u64 option" where
  "a64_value c reg = (case getRegisterAArch64 c reg of (p, c') \<Rightarrow> map_option (load64 (mem c')) p)"

definition x86_value :: "cpu \<Rightarrow> Register \<Rightarrow> u64 option" where
  "x86_value c reg = (case getRegisterX86 c reg of (p, c') \<Rightarrow> map_option (load64 (mem c')) p)"

section \<open>Mirrored flags\<close>

lemma fun_upd_mem_write: "m(a := b) = mem_write m a [b]" for a :: u64
  by (rule ext) (auto simp: mem_write_def Let_def unat_eq_0)

lemma load64_upd_sep [mem_laws]: "sep r 8 a 1 \<Longrightarrow> load64 (m(a := b)) r = load64 m r"
  by (simp add: fun_upd_mem_write load64_def mem_read_write_sep)

lemma byte_store64_sep [mem_laws]: "sep r 8 a 1 \<Longrightarrow> store64 m r v a = m a"
  using mem_read_write_sep [of a 1 r "le_bytes 8 (unat v)" m]
  by (simp add: sep_sym [of a] store64_def mem_read_def)

lemma store64_load64_id: "store64 m r (load64 m r) = m"
proof (rule ext)
  fix x
  have l: "le_bytes 8 (unat (load64 m r)) = mem_read m r 8"
  proof -
    have "unat (load64 m r) = le_val (mem_read m r 8)"
      unfolding load64_def using le_val_bound [of "mem_read m r 8"]
      by (intro unat_word_of_nat64) simp
    then show ?thesis by (simp add: le_bytes_le_val)
  qed
  show "store64 m r (load64 m r) x = m x"
    by (auto simp: store64_def mem_write_def Let_def l nth_mem_read)
qed

lemma bit_of_bool_0: "bit (of_bool b :: byte) 0 = b"
  by (cases b) simp_all

lemma put_bit_id: "put_bit i (bit w i) w = w"
  by (rule bit_word_eqI) (auto simp: put_bit_def bit_simps)

definition flags_wf :: "(u64 \<times> nat) list \<Rightarrow> u64 \<Rightarrow> bool" where
  "flags_wf fs r \<longleftrightarrow> (\<forall>(a, i) \<in> set fs. sep r 8 a 1) \<and> distinct (map fst fs)"

lemma flags_wf_Cons:
  "flags_wf ((a, i) # fs) r \<longleftrightarrow> sep r 8 a 1 \<and> a \<notin> fst ` set fs \<and> flags_wf fs r"
  by (auto simp: flags_wf_def)

lemma scatter_other: "a \<notin> fst ` set fs \<Longrightarrow> flags_scatter fs r m a = m a"
  by (induction fs r m rule: flags_scatter.induct) auto

lemma scatter_reg: "flags_wf fs r \<Longrightarrow> load64 (flags_scatter fs r m) r = load64 m r"
  by (induction fs r m rule: flags_scatter.induct) (simp_all add: flags_wf_Cons load64_upd_sep)

lemma scatter_byte:
  "flags_wf fs r \<Longrightarrow> (a, i) \<in> set fs \<Longrightarrow> flags_scatter fs r m a = of_bool (bit (load64 m r) i)"
  by (induction fs r m rule: flags_scatter.induct)
    (auto simp: flags_wf_Cons load64_upd_sep scatter_other rev_image_eqI)

lemma scatter_frame:
  "\<forall>(a, i) \<in> set fs. sep p 8 a 1 \<Longrightarrow> load64 (flags_scatter fs r m) p = load64 m p"
  by (induction fs r m rule: flags_scatter.induct) (auto simp: load64_upd_sep)

lemma gather_id:
  "\<forall>(a, i) \<in> set fs. bit (m a) 0 = bit (load64 m r) i \<Longrightarrow> flags_gather fs r m = m"
  by (induction fs r m rule: flags_gather.induct) (auto simp: put_bit_id store64_load64_id)

lemma gather_frame: "sep p 8 r 8 \<Longrightarrow> load64 (flags_gather fs r m) p = load64 m p"
  by (induction fs r m rule: flags_gather.induct) (auto simp: load64_store64_sep)

definition gathered :: "(u64 \<times> nat) list \<Rightarrow> mem \<Rightarrow> u64 \<Rightarrow> u64" where
  "gathered fs m w = foldl (\<lambda>w (a, i). put_bit i (bit (m a) 0) w) w fs"

lemma gathered_cong: "\<forall>(a, i) \<in> set fs. m a = m' a \<Longrightarrow> gathered fs m w = gathered fs m' w"
  by (induction fs arbitrary: w) (auto simp: gathered_def)

lemma bit_put_bit: "j < 64 \<Longrightarrow> bit (put_bit i b w) j = (if i = j then b else bit w j)"
  by (auto simp: put_bit_def bit_simps)

lemma gathered_other: "j < 64 \<Longrightarrow> j \<notin> snd ` set fs \<Longrightarrow> bit (gathered fs m w) j = bit w j"
  by (induction fs arbitrary: w) (auto simp: gathered_def bit_put_bit)

lemma gathered_bit:
  "distinct (map snd fs) \<Longrightarrow> (a, i) \<in> set fs \<Longrightarrow> i < 64 \<Longrightarrow> bit (gathered fs m w) i = bit (m a) 0"
proof (induction fs arbitrary: w)
  case (Cons x fs)
  obtain b j where x: "x = (b, j)" by force
  have step: "gathered (x # fs) m w = gathered fs m (put_bit j (bit (m b) 0) w)"
    by (simp add: gathered_def x)
  show ?case
  proof (cases "i = j")
    case True
    with Cons.prems x have "j \<notin> snd ` set fs" "a = b" by (auto simp: rev_image_eqI)
    with True Cons.prems(3) show ?thesis by (simp add: step gathered_other bit_put_bit)
  next
    case False
    with Cons.prems x have "(a, i) \<in> set fs" by auto
    with Cons show ?thesis by (simp add: step)
  qed
qed simp

lemma load64_gather: "flags_wf fs r \<Longrightarrow> load64 (flags_gather fs r m) r = gathered fs m (load64 m r)"
proof (induction fs r m rule: flags_gather.induct)
  case (2 a i fs r m)
  let ?m = "store64 m r (put_bit i (bit (m a) 0) (load64 m r))"
  have "gathered fs ?m (load64 ?m r) = gathered fs m (load64 ?m r)"
    using "2.prems" by (intro gathered_cong) (auto simp: flags_wf_def byte_store64_sep)
  with 2 show ?case by (simp add: flags_wf_Cons) (simp add: gathered_def)
qed (simp add: gathered_def)

section \<open>Register files\<close>

text \<open>
  What a register file promises to its clients (the engine's \<open>getRegister\<close> and
  \<open>setRegister\<close>, the debugger, the interpreters): a write succeeds exactly for the
  registers that can be read, is read back, and leaves independent registers alone.
\<close>

locale register_file =
  fixes val :: "cpu \<Rightarrow> Register \<Rightarrow> u64 option"
    and wr :: "cpu \<Rightarrow> Register \<Rightarrow> u64 \<Rightarrow> bool \<times> cpu"
    and inv :: "cpu \<Rightarrow> bool"
    and indep :: "Register \<Rightarrow> Register \<Rightarrow> bool"
  assumes wr_ok: "inv c \<Longrightarrow> fst (wr c r v) \<longleftrightarrow> val c r \<noteq> None"
    and wr_fail: "val c r = None \<Longrightarrow> wr c r v = (False, c)"
    and wr_inv: "inv c \<Longrightarrow> inv (snd (wr c r v))"
    and val_dom: "val (snd (wr c r v)) r' = None \<longleftrightarrow> val c r' = None"
    and val_same: "inv c \<Longrightarrow> val c r \<noteq> None \<Longrightarrow> val (snd (wr c r v)) r = Some v"
    and val_other: "inv c \<Longrightarrow> indep r r' \<Longrightarrow> val (snd (wr c r v)) r' = val c r'"
begin

text \<open>A sequence of writes, as the command-line tools make for their \<open>-reg\<close> option.\<close>

lemma writes_other:
  "inv c \<Longrightarrow> \<forall>(r, v) \<in> set rvs. indep r r' \<Longrightarrow> val (fold (\<lambda>(r, v) c. snd (wr c r v)) rvs c) r' = val c r'"
  by (induction rvs arbitrary: c) (auto simp: wr_inv val_other)

lemma writes_inv: "inv c \<Longrightarrow> inv (fold (\<lambda>(r, v) c. snd (wr c r v)) rvs c)"
  by (induction rvs arbitrary: c) (auto simp: wr_inv)

lemma writes_dom: "val (fold (\<lambda>(r, v) c. snd (wr c r v)) rvs c) r' = None \<longleftrightarrow> val c r' = None"
  by (induction rvs arbitrary: c) (auto simp: val_dom)

lemma writes_read:
  assumes "inv c" and "val c r \<noteq> None" and "\<forall>(r', v') \<in> set post. indep r' r"
  shows "val (fold (\<lambda>(r, v) c. snd (wr c r v)) (pre @ (r, v) # post) c) r = Some v"
proof -
  define d where "d = fold (\<lambda>(r, v) c. snd (wr c r v)) pre c"
  have d: "inv d" "val d r \<noteq> None"
    using writes_inv [OF assms(1)] writes_dom [of pre c r] assms(2) by (auto simp: d_def)
  then have "val (snd (wr d r v)) r = Some v" by (simp add: val_same)
  with writes_other [OF wr_inv [OF d(1)] assms(3)] show ?thesis by (simp add: d_def)
qed

text \<open>Saving a register, overwriting it and writing the saved value back.\<close>

lemma save_restore:
  "inv c \<Longrightarrow> val c r = Some old \<Longrightarrow> val (snd (wr (snd (wr c r v)) r old)) r = val c r"
  using val_same [of c r v] val_same [of "snd (wr c r v)" r old] wr_inv [of c r v] by simp

end

text \<open>
  Both accessors of \<open>CPUState\<close> have the same shape: an address per register number and
  one flag register that mirrors single flag bytes.  A file of this shape that keeps its
  windows apart is a register file.
\<close>

locale mirrored_file =
  fixes getr :: "cpu \<Rightarrow> Register \<Rightarrow> u64 option \<times> cpu"
    and setr :: "cpu \<Rightarrow> Register \<Rightarrow> u64 \<Rightarrow> bool \<times> cpu"
    and val :: "cpu \<Rightarrow> Register \<Rightarrow> u64 option"
    and addr :: "cpu \<Rightarrow> Register \<Rightarrow> u64 option"
    and freg :: Register and fr :: "cpu \<Rightarrow> u64" and fl :: "cpu \<Rightarrow> (u64 \<times> nat) list"
    and inv :: "cpu \<Rightarrow> bool" and indep :: "Register \<Rightarrow> Register \<Rightarrow> bool"
  assumes getr_eq: "getr c r = (case addr c r of None \<Rightarrow> (None, c) | Some p \<Rightarrow>
      (Some p, if r = freg then c\<lparr>mem := flags_gather (fl c) (fr c) (mem c)\<rparr> else c))"
    and setr_eq: "setr c r v = (case getr c r of (None, c') \<Rightarrow> (False, c') | (Some p, c') \<Rightarrow>
      let m = store64 (mem c') p v in
      (True, c'\<lparr>mem := if r = freg then flags_scatter (fl c') (fr c') m else m\<rparr>))"
    and val_eq: "val c r = (case getr c r of (p, c') \<Rightarrow> map_option (load64 (mem c')) p)"
    and frame_mem: "addr (c\<lparr>mem := m\<rparr>) r = addr c r" "fl (c\<lparr>mem := m\<rparr>) = fl c"
      "fr (c\<lparr>mem := m\<rparr>) = fr c" "inv (c\<lparr>mem := m\<rparr>) = inv c"
    and addr_flag: "addr c freg = Some (fr c)"
    and flags_ok: "inv c \<Longrightarrow> flags_wf (fl c) (fr c)"
    and indep_sep: "inv c \<Longrightarrow> indep r r' \<Longrightarrow> addr c r = Some p \<Longrightarrow> addr c r' = Some q \<Longrightarrow> sep q 8 p 8"
    and indep_flag: "inv c \<Longrightarrow> indep r freg \<or> indep freg r \<Longrightarrow> addr c r = Some p \<Longrightarrow>
      (a, i) \<in> set (fl c) \<Longrightarrow> sep p 8 a 1"
    and indep_irrefl: "\<not> indep r r"
begin

lemma val_addr:
  "val c r = (case addr c r of None \<Rightarrow> None | Some p \<Rightarrow>
     Some (load64 (if r = freg then flags_gather (fl c) (fr c) (mem c) else mem c) p))"
  by (simp add: val_eq getr_eq split: option.split)

lemma setr_addr:
  "setr c r v = (case addr c r of None \<Rightarrow> (False, c) | Some p \<Rightarrow>
     (True, c\<lparr>mem := if r = freg
        then flags_scatter (fl c) (fr c) (store64 (flags_gather (fl c) (fr c) (mem c)) p v)
        else store64 (mem c) p v\<rparr>))"
  by (simp add: setr_eq getr_eq frame_mem Let_def split: option.split)

lemma flag_same: "inv c \<Longrightarrow> val (snd (setr c freg v)) freg = Some v"
proof -
  assume "inv c"
  then have wf: "flags_wf (fl c) (fr c)" by (rule flags_ok)
  let ?s = "store64 (flags_gather (fl c) (fr c) (mem c)) (fr c) v"
  have "flags_gather (fl c) (fr c) (flags_scatter (fl c) (fr c) ?s) = flags_scatter (fl c) (fr c) ?s"
    by (rule gather_id) (use wf in \<open>auto simp: scatter_byte scatter_reg bit_of_bool_0\<close>)
  with wf show ?thesis by (simp add: val_addr setr_addr addr_flag frame_mem scatter_reg)
qed

lemma flag_other:
  assumes "inv c" and "indep r freg"
  shows "val (snd (setr c r v)) freg = val c freg"
proof (cases "addr c r")
  case (Some p)
  have wf: "flags_wf (fl c) (fr c)" using assms(1) by (rule flags_ok)
  have ne: "r \<noteq> freg" using assms(2) indep_irrefl by auto
  have "\<forall>(a, i) \<in> set (fl c). store64 (mem c) p v a = mem c a"
    using indep_flag [OF assms(1) disjI1 [OF assms(2)] Some] by (auto simp: byte_store64_sep)
  then have g: "gathered (fl c) (store64 (mem c) p v) w = gathered (fl c) (mem c) w" for w
    by (rule gathered_cong)
  have "load64 (store64 (mem c) p v) (fr c) = load64 (mem c) (fr c)"
    by (rule load64_store64_sep) (rule indep_sep [OF assms Some addr_flag])
  with Some wf ne g show ?thesis
    by (simp add: val_addr setr_addr addr_flag frame_mem load64_gather)
qed (simp add: setr_addr)

lemma other_flag:
  assumes "inv c" and "indep freg r"
  shows "val (snd (setr c freg v)) r = val c r"
proof (cases "addr c r")
  case (Some p)
  have ne: "r \<noteq> freg" using assms(2) indep_irrefl by auto
  have b: "\<forall>(a, i) \<in> set (fl c). sep p 8 a 1"
    using indep_flag [OF assms(1) disjI2 [OF assms(2)] Some] by auto
  have s: "sep p 8 (fr c) 8" by (rule indep_sep [OF assms addr_flag Some])
  show ?thesis using Some ne
    by (simp add: val_addr setr_addr addr_flag frame_mem scatter_frame [OF b]
        load64_store64_sep [OF s] gather_frame [OF s])
qed (simp add: val_addr setr_addr addr_flag frame_mem)

end

sublocale mirrored_file \<subseteq> register_file val setr inv indep
proof unfold_locales
  fix c r v r'
  show "val c r = None \<Longrightarrow> setr c r v = (False, c)"
    by (simp add: val_addr setr_addr split: option.splits)
  show "val (snd (setr c r v)) r' = None \<longleftrightarrow> val c r' = None"
    by (cases "addr c r"; cases "addr c r'") (simp_all add: val_addr setr_addr frame_mem)
  assume inv: "inv c"
  then show "fst (setr c r v) = (val c r \<noteq> None)"
    by (simp add: val_addr setr_addr split: option.split)
  from inv show "inv (snd (setr c r v))"
    by (simp add: setr_addr frame_mem split: option.split)
  show "val c r \<noteq> None \<Longrightarrow> val (snd (setr c r v)) r = Some v"
    using flag_same [OF inv]
    by (cases "r = freg") (auto simp: val_addr setr_addr frame_mem split: option.splits)
  assume "indep r r'"
  then show "val (snd (setr c r v)) r' = val c r'"
    using flag_other [OF inv, of r v] other_flag [OF inv, of r' v] indep_sep [OF inv, of r r']
    by (cases "r = freg \<or> r' = freg")
      (auto simp: val_addr setr_addr frame_mem load64_store64_sep split: option.split)
qed

section \<open>The two guests\<close>

lemma reg_field_inj: "a64_reg_field r = Some f \<Longrightarrow> a64_reg_field r' = Some f \<Longrightarrow> r = r'"
  by (auto simp: a64_reg_field_def reg_defs split: if_splits)

lemma reg_field_valid: "a64_reg_field r = Some f \<Longrightarrow> a64_valid f \<and> 8 \<le> a64_size f"
  by (auto simp: a64_reg_field_def reg_defs split: if_splits)

lemma reg_field_no_sr: "a64_reg_field r \<noteq> Some (A_sr x)"
  by (auto simp: a64_reg_field_def split: if_splits)

lemma a64_sep:
  assumes "a64_layout_ok (a64_lay c)" and "a64_valid f" and "a64_valid g" and "f \<noteq> g"
    and "n \<le> a64_size f" and "k \<le> a64_size g"
  shows "sep (a64_addr c f) n (a64_addr c g) k"
proof -
  have "off_sep (a64_lay c f) (a64_size f) (a64_lay c g) (a64_size g)"
    using assms(1-4) by (auto simp: a64_layout_ok_def)
  then have o: "off_sep (a64_lay c f) n (a64_lay c g) k"
    using assms(5,6) by (auto simp: off_sep_def)
  have "a64_lay c f + a64_size f \<le> 2 ^ 31" "a64_lay c g + a64_size g \<le> 2 ^ 31"
    using assms(1-3) by (auto simp: a64_layout_ok_def)
  then show ?thesis unfolding a64_addr_def using o assms(5,6)
    by (intro sep_offsets) simp_all
qed

definition a64_inv :: "cpu \<Rightarrow> bool" where
  "a64_inv c \<longleftrightarrow> a64_layout_ok (a64_lay c)"

lemma a64_flags_wf: "a64_inv c \<Longrightarrow> flags_wf (a64_flags c) (a64_addr c A_nzcv)"
proof -
  assume i: "a64_inv c"
  have s: "sep (a64_addr c A_nzcv) 8 (a64_addr c (A_sr x)) 1" if "a64_size (A_sr x) = 1" for x
    using i that by (intro a64_sep) (simp_all add: a64_inv_def)
  have d: "a64_addr c (A_sr x) \<noteq> a64_addr c (A_sr y)" if "x \<noteq> y" "1 \<le> a64_size (A_sr x)" "1 \<le> a64_size (A_sr y)" for x y
    using a64_sep [of c "A_sr x" "A_sr y" 1 1] i that by (auto simp: a64_inv_def sep_def)
  show ?thesis using s d by (simp add: flags_wf_def a64_flags_def)
qed

interpretation a64_regs: mirrored_file getRegisterAArch64 setRegisterAArch64 a64_value
  "\<lambda>c r. map_option (a64_addr c) (a64_reg_field r)" NZCV "\<lambda>c. a64_addr c A_nzcv" a64_flags a64_inv "(\<noteq>)"
proof unfold_locales
  fix c r r' p q a i m v
  show "getRegisterAArch64 c r = (case map_option (a64_addr c) (a64_reg_field r) of None \<Rightarrow> (None, c)
      | Some p \<Rightarrow> (Some p, if r = NZCV then c\<lparr>mem := flags_gather (a64_flags c) (a64_addr c A_nzcv) (mem c)\<rparr> else c))"
    by (simp add: getRegisterAArch64_def split: option.split)
  show "setRegisterAArch64 c r v = (case getRegisterAArch64 c r of (None, c') \<Rightarrow> (False, c') | (Some p, c') \<Rightarrow>
      let m = store64 (mem c') p v in
      (True, c'\<lparr>mem := if r = NZCV then flags_scatter (a64_flags c') (a64_addr c' A_nzcv) m else m\<rparr>))"
    by (rule setRegisterAArch64_def)
  show "a64_value c r = (case getRegisterAArch64 c r of (p, c') \<Rightarrow> map_option (load64 (mem c')) p)"
    by (rule a64_value_def)
  have am: "a64_addr (c\<lparr>mem := m\<rparr>) = a64_addr c" by (rule ext) (simp add: a64_addr_def)
  show "map_option (a64_addr (c\<lparr>mem := m\<rparr>)) (a64_reg_field r) = map_option (a64_addr c) (a64_reg_field r)"
    "a64_flags (c\<lparr>mem := m\<rparr>) = a64_flags c" "a64_addr (c\<lparr>mem := m\<rparr>) A_nzcv = a64_addr c A_nzcv"
    "a64_inv (c\<lparr>mem := m\<rparr>) = a64_inv c"
    by (simp_all add: am a64_flags_def a64_inv_def)
  show "map_option (a64_addr c) (a64_reg_field NZCV) = Some (a64_addr c A_nzcv)"
    by (simp add: a64_reg_field_def reg_defs)
  assume i: "a64_inv c"
  then show "flags_wf (a64_flags c) (a64_addr c A_nzcv)" by (rule a64_flags_wf)
  assume p: "map_option (a64_addr c) (a64_reg_field r) = Some p"
  then obtain f where f: "a64_reg_field r = Some f" "p = a64_addr c f" by auto
  show "sep q 8 p 8" if "r \<noteq> r'" "map_option (a64_addr c) (a64_reg_field r') = Some q"
    using that f i reg_field_valid [of r f] reg_field_inj [of r f r'] reg_field_valid [of r']
    by (auto simp: a64_inv_def intro!: a64_sep)
  show "sep p 8 a 1" if "(a, i) \<in> set (a64_flags c)"
    using that f i reg_field_valid [of r f] reg_field_no_sr [of r]
    by (auto simp: a64_inv_def a64_flags_def intro!: a64_sep)
qed simp

text \<open>
  A segment register is a two-byte selector field accessed through an eight-byte pointer,
  so a write to one reaches into what follows it: the frame law is claimed for the other
  registers only.
\<close>

definition x86_indep :: "Register \<Rightarrow> Register \<Rightarrow> bool" where
  "x86_indep r r' \<longleftrightarrow> r \<noteq> r' \<and> \<not> (SS \<le> r \<and> r \<le> CS) \<and> \<not> (SS \<le> r' \<and> r' \<le> CS)"

definition x86_inv :: "cpu \<Rightarrow> bool" where
  "x86_inv c \<longleftrightarrow> x86_layout_ok (x86_lay c)"

fun x86_field_reg :: "x86_field \<Rightarrow> Register" where
  "x86_field_reg (X_gpr g) = (case g of G_rip \<Rightarrow> RIP | G_rax \<Rightarrow> RAX | G_rbp \<Rightarrow> RBP | G_rbx \<Rightarrow> RBX
     | G_rcx \<Rightarrow> RCX | G_rdi \<Rightarrow> RDI | G_rdx \<Rightarrow> RDX | G_rsi \<Rightarrow> RSI | G_rsp \<Rightarrow> RSP | G_r i \<Rightarrow> R (int i))"
| "x86_field_reg (X_seg g) = (case g of S_ss \<Rightarrow> SS | S_es \<Rightarrow> ES | S_gs \<Rightarrow> GS | S_fs \<Rightarrow> FS | S_ds \<Rightarrow> DS | S_cs \<Rightarrow> CS)"
| "x86_field_reg (X_st i) = ST (int i)"
| "x86_field_reg (X_mmx i) = MM (int i)"
| "x86_field_reg (X_vec i) = XMM (int i)"
| "x86_field_reg X_rflag = RFLAGS"
| "x86_field_reg _ = ZERO"

lemma x86_gpr_reg_inv: "x86_gpr_reg r = Some g \<Longrightarrow> x86_field_reg (X_gpr g) = r"
  by (simp add: x86_gpr_reg_def R_def split: if_splits) (auto simp: R_def)

lemma x86_reg_field_inv: "x86_reg_field r = Some f \<Longrightarrow> x86_field_reg f = r"
proof (cases "x86_gpr_reg r")
  case (Some g)
  then show "x86_reg_field r = Some f \<Longrightarrow> ?thesis"
    using x86_gpr_reg_inv [OF Some] by (auto simp: x86_reg_field_def)
next
  case None
  then show "x86_reg_field r = Some f \<Longrightarrow> ?thesis"
    by (simp add: x86_reg_field_def split: if_splits) (auto simp: ST_def MM_def XMM_def)
qed

lemma x86_field_inj: "x86_reg_field r = Some f \<Longrightarrow> x86_reg_field r' = Some f \<Longrightarrow> r = r'"
  by (metis x86_reg_field_inv)

lemma x86_gpr_valid: "x86_gpr_reg r = Some g \<Longrightarrow> x86_valid (X_gpr g)"
  by (simp add: x86_gpr_reg_def R_def split: if_splits) auto

lemma x86_field_cases:
  assumes "x86_reg_field r = Some f"
  shows "x86_valid f \<and> (8 \<le> x86_size f \<or> (\<exists>g. f = X_seg g))"
proof (cases "x86_gpr_reg r")
  case (Some g)
  with assms x86_gpr_valid [OF Some] show ?thesis by (auto simp: x86_reg_field_def)
next
  case None
  with assms show ?thesis
    by (simp add: x86_reg_field_def split: if_splits) (auto simp: ST_def MM_def XMM_def)
qed

lemma x86_seg_reg: "SS \<le> x86_field_reg (X_seg g) \<and> x86_field_reg (X_seg g) \<le> CS"
  by (cases g) (simp_all add: reg_defs)

lemma x86_field_valid:
  "x86_reg_field r = Some f \<Longrightarrow> \<not> (SS \<le> r \<and> r \<le> CS) \<Longrightarrow> x86_valid f \<and> 8 \<le> x86_size f"
  using x86_field_cases [of r f] x86_reg_field_inv [of r f] x86_seg_reg by blast

lemma x86_field_no_flag: "x86_reg_field r \<noteq> Some (X_aflag x)"
  using x86_field_cases [of r "X_aflag x"] by auto

lemma x86_sep:
  assumes "x86_inv c" and "x86_valid f" and "x86_valid g" and "f \<noteq> g"
    and "n \<le> x86_size f" and "k \<le> x86_size g"
  shows "sep (x86_addr c f) n (x86_addr c g) k"
proof -
  have "off_sep (x86_lay c f) (x86_size f) (x86_lay c g) (x86_size g)"
    using assms(1-4) by (auto simp: x86_inv_def x86_layout_ok_def)
  then have o: "off_sep (x86_lay c f) n (x86_lay c g) k"
    using assms(5,6) by (auto simp: off_sep_def)
  have "x86_lay c f + x86_size f \<le> 2 ^ 31" "x86_lay c g + x86_size g \<le> 2 ^ 31"
    using assms(1-3) by (auto simp: x86_inv_def x86_layout_ok_def)
  then show ?thesis unfolding x86_addr_def using o assms(5,6)
    by (intro sep_offsets) simp_all
qed

lemma x86_flags_wf: "x86_inv c \<Longrightarrow> flags_wf (x86_flags c) (x86_addr c X_rflag)"
proof -
  assume i: "x86_inv c"
  have s: "sep (x86_addr c X_rflag) 8 (x86_addr c (X_aflag x)) 1" for x
    using i by (intro x86_sep) simp_all
  have d: "x86_addr c (X_aflag x) \<noteq> x86_addr c (X_aflag y)" if "x \<noteq> y" for x y
    using x86_sep [of c "X_aflag x" "X_aflag y" 1 1] i that by (auto simp: sep_def)
  show ?thesis using s d by (simp add: flags_wf_def x86_flags_def)
qed

interpretation x86_regs: mirrored_file getRegisterX86 setRegisterX86 x86_value
  "\<lambda>c r. map_option (x86_addr c) (x86_reg_field r)" RFLAGS "\<lambda>c. x86_addr c X_rflag" x86_flags x86_inv x86_indep
proof unfold_locales
  fix c r r' p q a i m v
  show "getRegisterX86 c r = (case map_option (x86_addr c) (x86_reg_field r) of None \<Rightarrow> (None, c)
      | Some p \<Rightarrow> (Some p, if r = RFLAGS then c\<lparr>mem := flags_gather (x86_flags c) (x86_addr c X_rflag) (mem c)\<rparr> else c))"
    by (simp add: getRegisterX86_def split: option.split)
  show "setRegisterX86 c r v = (case getRegisterX86 c r of (None, c') \<Rightarrow> (False, c') | (Some p, c') \<Rightarrow>
      let m = store64 (mem c') p v in
      (True, c'\<lparr>mem := if r = RFLAGS then flags_scatter (x86_flags c') (x86_addr c' X_rflag) m else m\<rparr>))"
    by (rule setRegisterX86_def)
  show "x86_value c r = (case getRegisterX86 c r of (p, c') \<Rightarrow> map_option (load64 (mem c')) p)"
    by (rule x86_value_def)
  have am: "x86_addr (c\<lparr>mem := m\<rparr>) = x86_addr c" by (rule ext) (simp add: x86_addr_def)
  show "map_option (x86_addr (c\<lparr>mem := m\<rparr>)) (x86_reg_field r) = map_option (x86_addr c) (x86_reg_field r)"
    "x86_flags (c\<lparr>mem := m\<rparr>) = x86_flags c" "x86_addr (c\<lparr>mem := m\<rparr>) X_rflag = x86_addr c X_rflag"
    "x86_inv (c\<lparr>mem := m\<rparr>) = x86_inv c"
    by (simp_all add: am x86_flags_def x86_inv_def)
  show "map_option (x86_addr c) (x86_reg_field RFLAGS) = Some (x86_addr c X_rflag)"
    by (simp add: x86_reg_field_def x86_gpr_reg_def reg_defs)
  assume i: "x86_inv c"
  then show "flags_wf (x86_flags c) (x86_addr c X_rflag)" by (rule x86_flags_wf)
  assume p: "map_option (x86_addr c) (x86_reg_field r) = Some p"
  then obtain f where f: "x86_reg_field r = Some f" "p = x86_addr c f" by auto
  show "sep q 8 p 8" if "x86_indep r r'" "map_option (x86_addr c) (x86_reg_field r') = Some q"
    using that f i x86_field_valid [of r f] x86_field_inj [of r f r'] x86_field_valid [of r']
    by (auto simp: x86_indep_def intro!: x86_sep)
  show "sep p 8 a 1" if "x86_indep r RFLAGS \<or> x86_indep RFLAGS r" "(a, i) \<in> set (x86_flags c)"
    using that f i x86_field_valid [of r f] x86_field_no_flag [of r]
    by (auto simp: x86_indep_def x86_flags_def intro!: x86_sep)
qed (simp add: x86_indep_def)

section \<open>Concrete states\<close>

text \<open>
  One layout per guest that meets the assumptions, and a thread state that uses them: the
  laws of the register files are not vacuous.
\<close>

fun sr_index :: "a64_sr \<Rightarrow> nat" where
  "sr_index SR_n = 0" | "sr_index SR_z = 1" | "sr_index SR_c = 2" | "sr_index SR_v = 3"
| "sr_index SR_ixc = 4" | "sr_index SR_ofc = 5" | "sr_index SR_ufc = 6" | "sr_index SR_idc = 7"
| "sr_index SR_ioc = 8" | "sr_index SR_dzc = 9" | "sr_index SR_tpidr_el0 = 10" | "sr_index SR_tpidrro_el0 = 11"

fun sleigh_index :: "a64_sleigh \<Rightarrow> nat" where
  "sleigh_index SL_NG = 0" | "sleigh_index SL_ZR = 1" | "sleigh_index SL_CY = 2" | "sleigh_index SL_OV = 3"
| "sleigh_index SL_shift_carry = 4"

fun a64_layout0 :: "a64_field \<Rightarrow> nat" where
  "a64_layout0 (A_gpr i) = 16 * i"
| "a64_layout0 A_sp = 496"
| "a64_layout0 A_pc = 512"
| "a64_layout0 (A_v i) = 528 + 16 * i"
| "a64_layout0 (A_pad i) = 1040 + 8 * i"
| "a64_layout0 A_zero = 1104"
| "a64_layout0 A_nzcv = 1112"
| "a64_layout0 A_fpsr = 1120"
| "a64_layout0 A_fpcr = 1128"
| "a64_layout0 (A_sr x) = 1136 + 8 * sr_index x"
| "a64_layout0 (A_sleigh x) = 1264 + 8 * sleigh_index x"

fun gpr_index :: "x86_gpr \<Rightarrow> nat" where
  "gpr_index G_rax = 0" | "gpr_index G_rbx = 1" | "gpr_index G_rcx = 2" | "gpr_index G_rdx = 3"
| "gpr_index G_rsi = 4" | "gpr_index G_rdi = 5" | "gpr_index G_rsp = 6" | "gpr_index G_rbp = 7"
| "gpr_index (G_r i) = i" | "gpr_index G_rip = 16"

fun flag_index :: "x86_flag \<Rightarrow> nat" where
  "flag_index F_cf = 0" | "flag_index F_pf = 1" | "flag_index F_af = 2" | "flag_index F_zf = 3"
| "flag_index F_sf = 4" | "flag_index F_df = 5" | "flag_index F_of = 6"

fun seg_index :: "x86_seg \<Rightarrow> nat" where
  "seg_index S_ss = 0" | "seg_index S_es = 1" | "seg_index S_gs = 2" | "seg_index S_fs = 3"
| "seg_index S_ds = 4" | "seg_index S_cs = 5"

fun sw_index :: "x86_sw \<Rightarrow> nat" where
  "sw_index W_c0 = 0" | "sw_index W_c1 = 1" | "sw_index W_c2 = 2" | "sw_index W_c3 = 3" | "sw_index W_pe = 4"
| "sw_index W_ue = 5" | "sw_index W_oe = 6" | "sw_index W_ze = 7" | "sw_index W_de = 8" | "sw_index W_ie = 9"
| "sw_index W_sf = 10"

fun x86_layout0 :: "x86_field \<Rightarrow> nat" where
  "x86_layout0 (X_vec i) = 64 * i"
| "x86_layout0 (X_gpr g) = 2048 + 16 * gpr_index g"
| "x86_layout0 (X_st i) = 2320 + 16 * i"
| "x86_layout0 (X_mmx i) = 2448 + 16 * i"
| "x86_layout0 (X_k i) = 2576 + 8 * i"
| "x86_layout0 (X_pad i) = 2640 + 8 * i"
| "x86_layout0 (X_aflag x) = 2736 + 2 * flag_index x"
| "x86_layout0 X_rflag = 2760"
| "x86_layout0 (X_seg g) = 2768 + 4 * seg_index g"
| "x86_layout0 (X_base g) = 2800 + 8 * seg_index g"
| "x86_layout0 (X_sw x) = 2848 + 2 * sw_index x"

definition cpu0 :: cpu where
  "cpu0 = \<lparr>mem = (\<lambda>_. 0), state_ptr = 4096, state_size = 4096, a64_lay = a64_layout0, x86_lay = x86_layout0,
     pcptr = 0, conv_pc = 0, rvalue = 0, retaddr = 0, stack = 0, stacksize = 0\<rparr>"

lemma sr_index_bound: "sr_index x < 12" and sr_index_inj: "sr_index x = sr_index y \<longleftrightarrow> x = y"
  by (cases x; simp) (cases x; cases y; simp)

lemma sleigh_index_bound: "sleigh_index x < 5" and sleigh_index_inj: "sleigh_index x = sleigh_index y \<longleftrightarrow> x = y"
  by (cases x; simp) (cases x; cases y; simp)

lemma gpr_index_bound: "x86_valid (X_gpr x) \<Longrightarrow> gpr_index x < 17"
  and gpr_index_inj: "x86_valid (X_gpr x) \<Longrightarrow> x86_valid (X_gpr y) \<Longrightarrow> gpr_index x = gpr_index y \<longleftrightarrow> x = y"
  by (cases x; simp) (cases x; cases y; simp)

lemma flag_index_bound: "flag_index x < 7" and flag_index_inj: "flag_index x = flag_index y \<longleftrightarrow> x = y"
  by (cases x; simp) (cases x; cases y; simp)

lemma seg_index_bound: "seg_index x < 6" and seg_index_inj: "seg_index x = seg_index y \<longleftrightarrow> x = y"
  by (cases x; simp) (cases x; cases y; simp)

lemma sw_index_bound: "sw_index x < 11" and sw_index_inj: "sw_index x = sw_index y \<longleftrightarrow> x = y"
  by (cases x; simp) (cases x; cases y; simp)

lemma off_sep_array:
  "i \<noteq> j \<Longrightarrow> n \<le> s \<Longrightarrow> k \<le> s \<Longrightarrow> off_sep (b + s * i) n (b + s * j) k" for i j s :: nat
proof -
  assume a: "i \<noteq> j" "n \<le> s" "k \<le> s"
  have "s * Suc i \<le> s * j \<or> s * Suc j \<le> s * i"
    using a(1) by (metis Suc_leI linorder_neqE_nat mult_le_mono2)
  with a show ?thesis by (auto simp: off_sep_def)
qed

text \<open>Each constructor has a region of its own; inside a region the fields form an array.\<close>

fun a64_region :: "a64_field \<Rightarrow> nat \<times> nat" where
  "a64_region (A_gpr i) = (0, 496)" | "a64_region A_sp = (496, 512)" | "a64_region A_pc = (512, 528)"
| "a64_region (A_v i) = (528, 1040)" | "a64_region (A_pad i) = (1040, 1104)" | "a64_region A_zero = (1104, 1112)"
| "a64_region A_nzcv = (1112, 1120)" | "a64_region A_fpsr = (1120, 1128)" | "a64_region A_fpcr = (1128, 1136)"
| "a64_region (A_sr x) = (1136, 1264)" | "a64_region (A_sleigh x) = (1264, 1304)"

fun x86_region :: "x86_field \<Rightarrow> nat \<times> nat" where
  "x86_region (X_vec i) = (0, 2048)" | "x86_region (X_gpr g) = (2048, 2320)" | "x86_region (X_st i) = (2320, 2448)"
| "x86_region (X_mmx i) = (2448, 2576)" | "x86_region (X_k i) = (2576, 2640)" | "x86_region (X_pad i) = (2640, 2736)"
| "x86_region (X_aflag x) = (2736, 2760)" | "x86_region X_rflag = (2760, 2768)" | "x86_region (X_seg g) = (2768, 2800)"
| "x86_region (X_base g) = (2800, 2848)" | "x86_region (X_sw x) = (2848, 2870)"

definition within :: "nat \<Rightarrow> nat \<Rightarrow> nat \<times> nat \<Rightarrow> bool" where
  "within o1 n r \<longleftrightarrow> fst r \<le> o1 \<and> o1 + n \<le> snd r"

lemma within_apart:
  "within o1 n r \<Longrightarrow> within o2 k q \<Longrightarrow> snd r \<le> fst q \<or> snd q \<le> fst r \<Longrightarrow> off_sep o1 n o2 k"
  by (auto simp: within_def off_sep_def)

lemma sr_size_le: "a64_size (A_sr x) \<le> 8"
  by (cases x) simp_all

lemma a64_within: "a64_valid f \<Longrightarrow> within (a64_layout0 f) (a64_size f) (a64_region f)"
proof (cases f)
  case (A_sr x)
  then show ?thesis using sr_index_bound [of x] sr_size_le [of x] by (simp add: within_def)
next
  case (A_sleigh x)
  then show ?thesis using sleigh_index_bound [of x] by (simp add: within_def)
qed (simp_all add: within_def)

lemma x86_within: "x86_valid f \<Longrightarrow> within (x86_layout0 f) (x86_size f) (x86_region f)"
proof (cases f)
  case (X_gpr x)
  then show "x86_valid f \<Longrightarrow> ?thesis" using gpr_index_bound [of x] by (simp add: within_def)
next
  case (X_aflag x)
  then show ?thesis using flag_index_bound [of x] by (simp add: within_def)
next
  case (X_seg x)
  then show ?thesis using seg_index_bound [of x] by (simp add: within_def)
next
  case (X_base x)
  then show ?thesis using seg_index_bound [of x] by (simp add: within_def)
next
  case (X_sw x)
  then show ?thesis using sw_index_bound [of x] by (simp add: within_def)
qed (simp_all add: within_def)

lemma a64_layout0_sep:
  assumes "a64_valid f" and "a64_valid g" and "f \<noteq> g"
  shows "off_sep (a64_layout0 f) (a64_size f) (a64_layout0 g) (a64_size g)"
proof (cases "a64_region f = a64_region g")
  case True
  show ?thesis
  proof (cases f)
    case (A_gpr i)
    with True obtain j where "g = A_gpr j" by (cases g) auto
    with A_gpr assms off_sep_array [of i j 8 16 8 0] show ?thesis by simp
  qed (use True assms sr_size_le in \<open>cases g; auto intro!: off_sep_array simp: sr_index_inj sleigh_index_inj\<close>)+
next
  case False
  then have "snd (a64_region f) \<le> fst (a64_region g) \<or> snd (a64_region g) \<le> fst (a64_region f)"
    by (cases f; cases g) simp_all
  with a64_within [OF assms(1)] a64_within [OF assms(2)] show ?thesis by (rule within_apart)
qed

lemma x86_layout0_sep:
  assumes "x86_valid f" and "x86_valid g" and "f \<noteq> g"
  shows "off_sep (x86_layout0 f) (x86_size f) (x86_layout0 g) (x86_size g)"
proof (cases "x86_region f = x86_region g")
  case True
  show ?thesis
  proof (cases f)
    case (X_vec i)
    with True obtain j where "g = X_vec j" by (cases g) auto
    with X_vec assms off_sep_array [of i j 64 64 64 0] show ?thesis by simp
  next
    case (X_gpr x)
    with True obtain y where "g = X_gpr y" by (cases g) auto
    with X_gpr assms gpr_index_inj [of x y] show ?thesis by (auto intro!: off_sep_array)
  qed (use True assms in \<open>cases g; auto intro!: off_sep_array simp: flag_index_inj seg_index_inj sw_index_inj\<close>)+
next
  case False
  then have "snd (x86_region f) \<le> fst (x86_region g) \<or> snd (x86_region g) \<le> fst (x86_region f)"
    by (cases f; cases g) simp_all
  with x86_within [OF assms(1)] x86_within [OF assms(2)] show ?thesis by (rule within_apart)
qed

lemma a64_layout0_ok: "a64_layout_ok a64_layout0"
proof -
  have "a64_layout0 f + a64_size f \<le> 2 ^ 31" if "a64_valid f" for f
    using a64_within [OF that] by (cases f) (simp_all add: within_def)
  then show ?thesis using a64_layout0_sep by (auto simp: a64_layout_ok_def)
qed

lemma x86_layout0_ok: "x86_layout_ok x86_layout0"
proof -
  have "x86_layout0 f + x86_size f \<le> 2 ^ 31" if "x86_valid f" for f
    using x86_within [OF that] by (cases f) (simp_all add: within_def)
  then show ?thesis using x86_layout0_sep by (auto simp: x86_layout_ok_def)
qed

lemma cpu0_inv: "a64_inv cpu0" "x86_inv cpu0"
  by (simp_all add: a64_inv_def x86_inv_def cpu0_def a64_layout0_ok x86_layout0_ok)

section \<open>Properties of the accessors\<close>

lemma a64_reg_field_None: "a64_reg_field r = None \<longleftrightarrow> r < ZERO \<or> FPCR < r"
  by (simp add: a64_reg_field_def reg_defs) linarith

lemma a64_value_None: "a64_value c r = None \<longleftrightarrow> r < ZERO \<or> FPCR < r"
  by (simp add: a64_value_def getRegisterAArch64_def a64_reg_field_None [symmetric] split: option.split)

lemma x86_gpr_reg_None: "x86_gpr_reg r = None \<longleftrightarrow> r < PC \<or> RFLAGS \<le> r \<or> PC < r \<and> r < RBP \<or> r = LR"
  by (simp add: x86_gpr_reg_def reg_defs) presburger

lemma x86_reg_field_None:
  "x86_reg_field r = None \<longleftrightarrow> r < ZERO \<or> XMM 31 < r \<or> PC < r \<and> r < RBP \<or> r = LR"
proof (cases "x86_gpr_reg r")
  case None
  with x86_gpr_reg_None [of r] show ?thesis
    by (simp add: x86_reg_field_def reg_defs) linarith
next
  case (Some g)
  then have "x86_gpr_reg r \<noteq> None" by simp
  with Some show ?thesis unfolding x86_gpr_reg_None
    by (simp add: x86_reg_field_def reg_defs)
qed

text \<open>
  A register number is accepted by \<open>setRegisterAArch64\<close> exactly when it lies between
  \<open>ZERO\<close> and \<open>FPCR\<close>, by \<open>setRegisterX86\<close> exactly when it is one of the x86-64
  enumerators (\<open>X0\<close> to \<open>X28\<close> and \<open>LR\<close> have no x86-64 register); otherwise the call
  returns false and the thread state is unchanged.
\<close>

lemma register_numbers_accepted:
  "setRegisterAArch64 c r v =
     (if ZERO \<le> r \<and> r \<le> FPCR then (True, snd (setRegisterAArch64 c r v)) else (False, c)) \<and>
   setRegisterX86 c r v =
     (if r = ZERO \<or> r = RIP \<or> r = RBP \<or> RSP \<le> r \<and> r \<le> XMM 31
      then (True, snd (setRegisterX86 c r v)) else (False, c))"
  (is "?a \<and> ?x")
proof
  have "a64_reg_field r = None \<longleftrightarrow> \<not> (ZERO \<le> r \<and> r \<le> FPCR)"
    unfolding a64_reg_field_None by linarith
  then show ?a by (cases "a64_reg_field r") (simp_all add: a64_regs.setr_addr)
  have "x86_reg_field r = None \<longleftrightarrow> \<not> (r = ZERO \<or> r = RIP \<or> r = RBP \<or> RSP \<le> r \<and> r \<le> XMM 31)"
    unfolding x86_reg_field_None by (simp add: reg_defs) presburger
  then show ?x by (cases "x86_reg_field r") (simp_all add: x86_regs.setr_addr)
qed

text \<open>
  C34: After any sequence of \<open>setRegisterAArch64\<close> calls, every register the guest has
  reads back the value last written to it, the flag register \<open>NZCV\<close> with its separate
  flag bytes included, provided the fields of the \<open>State\<close> object do not overlap.
\<close>

theorem a64_register_writes:
  assumes "a64_inv c" and "ZERO \<le> r" and "r \<le> FPCR" and "r \<notin> fst ` set post"
  shows "a64_value (fold (\<lambda>(r, v) c. snd (setRegisterAArch64 c r v)) (pre @ (r, v) # post) c) r = Some v"
  using assms by (intro a64_regs.writes_read) (auto simp: a64_value_None rev_image_eqI)

theorem a64_register_writes_witness:
  "a64_value (fold (\<lambda>(r, v) c. snd (setRegisterAArch64 c r v)) [(X 3, 9), (NZCV, 0x80000000), (X 3, 8)] cpu0) NZCV
     = Some 0x80000000"
  using a64_register_writes [of cpu0 NZCV "[(X 3, 8)]" "[(X 3, 9)]" "0x80000000"] cpu0_inv
  by (simp add: reg_defs)

text \<open>
  The same for \<open>setRegisterX86\<close> and \<open>RFLAGS\<close>: a later write to another register
  does not disturb a register unless one of the two is a segment register, whose field is
  narrower than the eight bytes written.
\<close>

lemma x86_register_writes:
  assumes "x86_inv c" and "r = ZERO \<or> r = RIP \<or> r = RBP \<or> RSP \<le> r \<and> r \<le> XMM 31"
    and "\<forall>r' \<in> fst ` set post. x86_indep r' r"
  shows "x86_value (fold (\<lambda>(r, v) c. snd (setRegisterX86 c r v)) (pre @ (r, v) # post) c) r = Some v"
proof -
  have "x86_reg_field r \<noteq> None" using assms(2) by (auto simp: x86_reg_field_None reg_defs)
  then have "x86_value c r \<noteq> None"
    by (auto simp: x86_value_def getRegisterX86_def)
  with assms show ?thesis by (intro x86_regs.writes_read) auto
qed


text \<open>The two 64-bit halves that \<open>setRegisterNEON\<close> and \<open>setRegisterSSE\<close> store.\<close>

lemma store64_halves:
  "load64 (store64 (store64 m p lo) (p + 8) hi) p = lo \<and>
   load64 (store64 (store64 m p lo) (p + 8) hi) (p + 8) = hi"
proof -
  have "sep p 8 (p + 8) 8" by (simp add: sep_def)
  then show ?thesis by (simp add: mem_laws)
qed

lemma a64_vector_frame:
  assumes "a64_inv c" and "0 \<le> i" and "i \<le> 31" and "r \<noteq> Q i" and p: "p = a64_addr c (A_v (nat i))"
  shows "a64_value (c\<lparr>mem := store64 (store64 (mem c) p lo) (p + 8) hi\<rparr>) r = a64_value c r"
proof (cases "a64_reg_field r")
  case (Some f)
  let ?m = "store64 (store64 (mem c) p lo) (p + 8) hi"
  have fv: "f \<noteq> A_v (nat i)" "a64_reg_field (Q i) = Some (A_v (nat i))"
    using assms(2-4) Some reg_field_inj [of r f "Q i"] by (auto simp: a64_reg_field_def reg_defs)
  have half: "sep q n p 8 \<and> sep q n (p + 8) 8" if "sep q n p 16" for q n
    using that sep_split [of q n p 8 8] by simp
  have v: "sep (a64_addr c g) n p 16" if "a64_valid g" "g \<noteq> A_v (nat i)" "n \<le> a64_size g" for g n
    unfolding p using assms(1-3) that by (intro a64_sep) (auto simp: a64_inv_def)
  have frame: "load64 ?m (a64_addr c g) = load64 (mem c) (a64_addr c g)"
    if "a64_valid g" "g \<noteq> A_v (nat i)" "8 \<le> a64_size g" for g
    using half [OF v [OF that]] by (simp add: load64_store64_sep)
  have bytes: "?m (a64_addr c (A_sr x)) = mem c (a64_addr c (A_sr x))" for x
  proof -
    have "1 \<le> a64_size (A_sr x)" by (cases x) simp_all
    then have "sep (a64_addr c (A_sr x)) 1 p 16" by (intro v) simp_all
    then have "sep p 8 (a64_addr c (A_sr x)) 1" "sep (p + 8) 8 (a64_addr c (A_sr x)) 1"
      using half sep_sym by blast+
    then show ?thesis by (simp add: byte_store64_sep)
  qed
  have "gathered (a64_flags c) ?m w = gathered (a64_flags c) (mem c) w" for w
    by (rule gathered_cong) (auto simp: a64_flags_def bytes)
  moreover have "f = A_nzcv" if "r = NZCV" using that Some by (simp add: a64_reg_field_def reg_defs)
  ultimately show ?thesis
    using Some fv reg_field_valid [OF Some] a64_flags_wf [OF assms(1)]
    by (cases "r = NZCV") (simp_all add: a64_regs.val_addr a64_regs.frame_mem frame load64_gather)
qed (simp add: a64_regs.val_addr)

text \<open>
  \<open>setRegisterNEON\<close> on a vector register stores both halves (the low half is what
  \<open>getRegisterAArch64\<close> then points to, the high half is eight bytes further) and leaves
  every other register, \<open>NZCV\<close> included, as it was; on any other register number it
  returns false and changes nothing.
\<close>

lemma neon_write:
  assumes "a64_inv c" and "0 \<le> i" and "i \<le> 31" and "r \<noteq> Q i"
  shows "case setRegisterNEON c (Q i) lo hi of (ok, c') \<Rightarrow> ok \<and> a64_value c' (Q i) = Some lo \<and>
      load64 (mem c') (a64_addr c' (A_v (nat i)) + 8) = hi \<and> a64_value c' r = a64_value c r \<and>
      setRegisterNEON c (X i) lo hi = (False, c)"
proof -
  have f: "a64_reg_field (Q i) = Some (A_v (nat i))" "Q i \<noteq> NZCV"
    using assms(2,3) by (simp_all add: a64_reg_field_def reg_defs)
  show ?thesis
    using assms a64_vector_frame [OF assms refl] f
    by (simp add: setRegisterNEON_def getRegisterAArch64_def a64_value_def [of _ "Q i"] store64_halves)
      (simp add: reg_defs)
qed

text \<open>
  Writing \<open>NZCV\<close> sets the four flag bytes the semantics functions read to bits 31,
  30, 29 and 28 of the value, and reading \<open>NZCV\<close> after the semantics functions have
  changed a flag byte shows the new flag in its bit.
\<close>

lemma nzcv_mirrors_flags:
  assumes "a64_inv c"
  shows "list_all (\<lambda>(x, i).
      mem (snd (setRegisterAArch64 c NZCV v)) (a64_addr c (A_sr x)) = of_bool (bit v i) \<and>
      map_option (\<lambda>w. bit w i) (a64_value c NZCV) = Some (bit (mem c (a64_addr c (A_sr x))) 0))
    [(SR_n, 31), (SR_z, 30), (SR_c, 29), (SR_v, 28)]"
proof -
  have wf: "flags_wf (a64_flags c) (a64_addr c A_nzcv)" using assms by (rule a64_flags_wf)
  have f: "a64_reg_field NZCV = Some A_nzcv" by (simp add: a64_reg_field_def reg_defs)
  have fs: "a64_flags c = map (\<lambda>(x, i). (a64_addr c (A_sr x), i)) [(SR_n, 31), (SR_z, 30), (SR_c, 29), (SR_v, 28)]"
    by (simp add: a64_flags_def)
  have "mem (snd (setRegisterAArch64 c NZCV v)) a = of_bool (bit v i) \<and>
      map_option (\<lambda>w. bit w i) (a64_value c NZCV) = Some (bit (mem c a) 0)"
    if i: "(a, i) \<in> set (a64_flags c)" for a i
  proof
    show "mem (snd (setRegisterAArch64 c NZCV v)) a = of_bool (bit v i)"
      by (simp add: a64_regs.setr_addr f scatter_byte [OF wf i])
    have "i < 64" "distinct (map snd (a64_flags c))" using i by (auto simp: fs)
    with i show "map_option (\<lambda>w. bit w i) (a64_value c NZCV) = Some (bit (mem c a) 0)"
      by (simp add: a64_regs.val_addr f load64_gather [OF wf] gathered_bit)
  qed
  then show ?thesis unfolding list_all_iff fs by fastforce
qed


text \<open>
  \<open>initContext\<close> leaves a thread that starts at the entry address with the stack
  pointer at the end of its stack, allocates a stack only when the thread has none, and
  \<open>pcptr\<close> is the address of the guest's program counter: a program counter stored
  through it is the one \<open>getRegister\<close> reads.
\<close>

lemma initContext_a64:
  assumes "a64_inv c"
  shows "case initContext True ss ns entry c of c' \<Rightarrow>
     a64_value c' PC = Some entry \<and> a64_value c' SP = Some (stack c' + stacksize c') \<and>
     (stack c', stacksize c') = (if stack c = 0 then (ns, ss) else (stack c, stacksize c)) \<and>
     a64_value (c'\<lparr>mem := store64 (mem c') (pcptr c') pc\<rparr>) PC = Some pc"
proof -
  have f: "a64_reg_field PC = Some A_pc" "a64_reg_field SP = Some A_sp" "PC \<noteq> NZCV" "SP \<noteq> NZCV"
    by (simp_all add: a64_reg_field_def reg_defs)
  have s: "sep (a64_addr c A_pc) 8 (a64_addr c A_sp) 8"
    using assms by (intro a64_sep) (simp_all add: a64_inv_def)
  show ?thesis using f s
    by (simp add: initContext_def Let_def setRegisterAArch64_def getRegisterAArch64_def a64_value_def
        a64_addr_def load64_store64_sep)
qed


end
