(* ===== verification/StateOffsets.thy ===== *)
theory StateOffsets
  imports CPUState
begin

text \<open>
  The register offset tables: \<open>offset_reg\<close> of \<open>src/AArch64.cpp\<close> and \<open>src/X86.cpp\<close>, by
  \<open>Register\<close> number (for the generated native handlers) and by Remill register name (for
  the interpreter), and the name tables \<open>load_regoffs_aarch64\<close> and \<open>load_regoffs_x64\<close>
  that \<open>src/OpcodeEngine.cpp\<close> fills from them.

  A place is a field of the \<open>State\<close> object and a displacement from its start, which is how
  the source writes it (\<open>&state->gpr.x0 + 0x10 * num\<close>); the layout turns it into an offset.
  \<open>None\<close> is the call to \<open>abort()\<close> at the end of each function.  The Remill constant
  \<open>kNumVecRegisters\<close> and the offset of \<open>byte.high\<close> in its \<open>Reg\<close> union are parameters.
\<close>

definition place_offset :: "('f \<Rightarrow> nat) \<Rightarrow> ('f \<times> nat) option \<Rightarrow> nat res" where
  "place_offset L p = (case p of None \<Rightarrow> Inl Abort | Some (f, d) \<Rightarrow> Inr (L f + d))"

section \<open>By register number\<close>

definition a64_reg_place :: "Register \<Rightarrow> (a64_field \<times> nat) option" where
  "a64_reg_place reg =
     (if X 0 \<le> reg \<and> reg \<le> X 31 then Some (A_gpr 0, 16 * nat (reg - X 0))
      else if Q 0 \<le> reg \<and> reg \<le> Q 31 then Some (A_v 0, 16 * nat (reg - Q 0))
      else None)"

definition x86_reg_place :: "Register \<Rightarrow> (x86_field \<times> nat) option" where
  "x86_reg_place reg =
     (case x86_gpr_reg reg of
        Some g \<Rightarrow> Some (X_gpr g, 0)
      | None \<Rightarrow>
          if ST 0 \<le> reg \<and> reg \<le> ST 7 then Some (X_st 0, 16 * nat (reg - ST 0))
          else if MM 0 \<le> reg \<and> reg \<le> MM 7 then Some (X_mmx 0, 16 * nat (reg - MM 0))
          else if XMM 0 \<le> reg \<and> reg \<le> XMM 31 then Some (X_vec 0, 64 * nat (reg - XMM 0))
          else None)"

definition offset_reg_a64 :: "(a64_field \<Rightarrow> nat) \<Rightarrow> Register \<Rightarrow> nat res" where
  "offset_reg_a64 L reg = place_offset L (a64_reg_place reg)"

definition offset_reg_x86 :: "(x86_field \<Rightarrow> nat) \<Rightarrow> Register \<Rightarrow> nat res" where
  "offset_reg_x86 L reg = place_offset L (x86_reg_place reg)"

section \<open>By name\<close>

text \<open>The number after a prefix, when it parses and is in range.\<close>

definition num_in :: "string \<Rightarrow> int \<Rightarrow> int \<Rightarrow> nat option" where
  "num_in s lo hi = (case from_chars s of None \<Rightarrow> None
     | Some n \<Rightarrow> if lo \<le> n \<and> n \<le> hi then Some (nat n) else None)"

definition starts_with :: "string \<Rightarrow> string \<Rightarrow> bool" where
  "starts_with s p \<longleftrightarrow> take (length p) s = p"

text \<open>One \<open>if (reg.starts_with(...))\<close> block: the place it returns, if it returns.\<close>

definition numbered_place :: "string \<Rightarrow> string list \<Rightarrow> int \<Rightarrow> int \<Rightarrow> (nat \<Rightarrow> 'p) \<Rightarrow> 'p option" where
  "numbered_place reg ps lo hi mk =
     (if list_ex (starts_with reg) ps then map_option mk (num_in (drop (length (hd ps)) reg) lo hi) else None)"

definition a64_special_names :: "(string \<times> a64_field) list" where
  "a64_special_names =
     [(''SP'', A_sp), (''WSP'', A_sp), (''PC'', A_pc), (''XZR'', A_zero), (''WZR'', A_zero),
      (''BRANCH_TAKEN'', A_pad 0), (''NEXT_PC'', A_pad 1), (''RETURN_PC'', A_pad 2),
      (''IGNORE_WRITE_TO_WZR'', A_pad 3), (''IGNORE_WRITE_TO_XZR'', A_pad 4),
      (''SUPPRESS_WRITEBACK'', A_pad 5), (''MONITOR'', A_pad 6),
      (''TPIDR_EL0'', A_sr SR_tpidr_el0), (''TPIDRRO_EL0'', A_sr SR_tpidrro_el0),
      (''NZCV'', A_nzcv), (''FPCR'', A_fpcr), (''FPSR'', A_fpsr),
      (''N'', A_sr SR_n), (''Z'', A_sr SR_z), (''C'', A_sr SR_c), (''V'', A_sr SR_v),
      (''IXC'', A_sr SR_ixc), (''OFC'', A_sr SR_ofc), (''UFC'', A_sr SR_ufc), (''IDC'', A_sr SR_idc),
      (''IOC'', A_sr SR_ioc), (''DZC'', A_sr SR_dzc),
      (''NG'', A_sleigh SL_NG), (''ZR'', A_sleigh SL_ZR), (''CY'', A_sleigh SL_CY), (''OV'', A_sleigh SL_OV),
      (''SHIFT_CARRY'', A_sleigh SL_shift_carry)]"

definition a64_name_place :: "string \<Rightarrow> (a64_field \<times> nat) option" where
  "a64_name_place reg =
     (case numbered_place reg [''X''] 0 30 (\<lambda>n. (A_gpr 0, 16 * n)) of Some p \<Rightarrow> Some p | None \<Rightarrow>
     (case numbered_place reg [''W''] 0 30 (\<lambda>n. (A_gpr 0, 16 * n)) of Some p \<Rightarrow> Some p | None \<Rightarrow>
     (case numbered_place reg [''Q'', ''V''] 0 31 (\<lambda>n. (A_v n, 0)) of Some p \<Rightarrow> Some p | None \<Rightarrow>
     (case numbered_place reg [''D'', ''S'', ''H'', ''B''] 0 31 (\<lambda>n. (A_v n, 0)) of Some p \<Rightarrow> Some p | None \<Rightarrow>
        map_option (\<lambda>f. (f, 0)) (map_of a64_special_names reg)))))"

definition gpr_map :: "nat \<Rightarrow> (string \<times> x86_field \<times> nat) list" where
  "gpr_map bh =
     [(''RAX'', X_gpr G_rax, 0), (''EAX'', X_gpr G_rax, 0), (''AX'', X_gpr G_rax, 0), (''AL'', X_gpr G_rax, 0),
      (''AH'', X_gpr G_rax, bh),
      (''RBX'', X_gpr G_rbx, 0), (''EBX'', X_gpr G_rbx, 0), (''BX'', X_gpr G_rbx, 0), (''BL'', X_gpr G_rbx, 0),
      (''BH'', X_gpr G_rbx, bh),
      (''RCX'', X_gpr G_rcx, 0), (''ECX'', X_gpr G_rcx, 0), (''CX'', X_gpr G_rcx, 0), (''CL'', X_gpr G_rcx, 0),
      (''CH'', X_gpr G_rcx, bh),
      (''RDX'', X_gpr G_rdx, 0), (''EDX'', X_gpr G_rdx, 0), (''DX'', X_gpr G_rdx, 0), (''DL'', X_gpr G_rdx, 0),
      (''DH'', X_gpr G_rdx, bh),
      (''RSI'', X_gpr G_rsi, 0), (''ESI'', X_gpr G_rsi, 0), (''SI'', X_gpr G_rsi, 0), (''SIL'', X_gpr G_rsi, 0),
      (''RDI'', X_gpr G_rdi, 0), (''EDI'', X_gpr G_rdi, 0), (''DI'', X_gpr G_rdi, 0), (''DIL'', X_gpr G_rdi, 0),
      (''RSP'', X_gpr G_rsp, 0), (''ESP'', X_gpr G_rsp, 0), (''SP'', X_gpr G_rsp, 0), (''SPL'', X_gpr G_rsp, 0),
      (''RBP'', X_gpr G_rbp, 0), (''EBP'', X_gpr G_rbp, 0), (''BP'', X_gpr G_rbp, 0), (''BPL'', X_gpr G_rbp, 0),
      (''RIP'', X_gpr G_rip, 0), (''EIP'', X_gpr G_rip, 0), (''IP'', X_gpr G_rip, 0), (''PC'', X_gpr G_rip, 0)]"

text \<open>\<open>R8\<close> to \<open>R15\<close> with an optional size suffix.\<close>

definition gpr_num_suffix :: "string \<Rightarrow> string" where
  "gpr_num_suffix s =
     (case rev s of c # r \<Rightarrow> if c = CHR ''D'' \<or> c = CHR ''W'' \<or> c = CHR ''B'' then rev r else s | [] \<Rightarrow> s)"

definition x86_special_names :: "(string \<times> x86_field) list" where
  "x86_special_names =
     [(''CF'', X_aflag F_cf), (''PF'', X_aflag F_pf), (''AF'', X_aflag F_af), (''ZF'', X_aflag F_zf),
      (''SF'', X_aflag F_sf), (''DF'', X_aflag F_df), (''OF'', X_aflag F_of),
      (''RFLAGS'', X_rflag), (''EFLAGS'', X_rflag), (''FLAGS'', X_rflag),
      (''SS'', X_seg S_ss), (''ES'', X_seg S_es), (''GS'', X_seg S_gs), (''FS'', X_seg S_fs),
      (''DS'', X_seg S_ds), (''CS'', X_seg S_cs),
      (''SS_BASE'', X_base S_ss), (''ES_BASE'', X_base S_es), (''GS_BASE'', X_base S_gs), (''GSBASE'', X_base S_gs),
      (''FS_BASE'', X_base S_fs), (''FSBASE'', X_base S_fs), (''DS_BASE'', X_base S_ds), (''CS_BASE'', X_base S_cs),
      (''FPU_C0'', X_sw W_c0), (''FPU_C1'', X_sw W_c1), (''FPU_C2'', X_sw W_c2), (''FPU_C3'', X_sw W_c3),
      (''FPU_PE'', X_sw W_pe), (''FPU_UE'', X_sw W_ue), (''FPU_OE'', X_sw W_oe), (''FPU_ZE'', X_sw W_ze),
      (''FPU_DE'', X_sw W_de), (''FPU_IE'', X_sw W_ie), (''FPU_SF'', X_sw W_sf),
      (''BRANCH_TAKEN'', X_pad 0), (''NEXT_PC'', X_pad 1), (''RETURN_PC'', X_pad 2),
      (''SUPPRESS_WRITEBACK'', X_pad 3), (''MONITOR'', X_pad 4)]"

definition x86_name_place :: "nat \<Rightarrow> int \<Rightarrow> string \<Rightarrow> (x86_field \<times> nat) option" where
  "x86_name_place bh nvec reg =
     (case map_of (gpr_map bh) reg of Some p \<Rightarrow> Some p | None \<Rightarrow>
     (case (if starts_with reg ''R'' then num_in (gpr_num_suffix (drop 1 reg)) 8 15 else None) of
        Some n \<Rightarrow> Some (X_gpr (G_r 8), 16 * (n - 8)) | None \<Rightarrow>
     (case numbered_place reg [''ZMM'', ''YMM'', ''XMM''] 0 (nvec - 1) (\<lambda>n. (X_vec n, 0)) of Some p \<Rightarrow> Some p | None \<Rightarrow>
     (case numbered_place reg [''K''] 0 7 (\<lambda>n. (X_k n, 0)) of Some p \<Rightarrow> Some p | None \<Rightarrow>
     (case numbered_place reg [''MM''] 0 7 (\<lambda>n. (X_mmx n, 0)) of Some p \<Rightarrow> Some p | None \<Rightarrow>
     (case numbered_place reg [''ST''] 0 7 (\<lambda>n. (X_st n, 0)) of Some p \<Rightarrow> Some p | None \<Rightarrow>
        map_option (\<lambda>f. (f, 0)) (map_of x86_special_names reg)))))))"

definition offset_reg_a64_name :: "(a64_field \<Rightarrow> nat) \<Rightarrow> string \<Rightarrow> nat res" where
  "offset_reg_a64_name L reg = place_offset L (a64_name_place reg)"

definition offset_reg_x86_name :: "nat \<Rightarrow> int \<Rightarrow> (x86_field \<Rightarrow> nat) \<Rightarrow> string \<Rightarrow> nat res" where
  "offset_reg_x86_name bh nvec L reg = place_offset L (x86_name_place bh nvec reg)"

section \<open>The name tables of the interpreter\<close>

type_synonym regoffs = "string \<rightharpoonup> nat"

text \<open>A run of statements \<open>regoffs[name] = offset_reg(name)\<close>.\<close>

fun load_names :: "(string \<Rightarrow> nat res) \<Rightarrow> string list \<Rightarrow> regoffs \<Rightarrow> regoffs res" where
  "load_names f [] m = Inr m"
| "load_names f (n # ns) m = res_bind (f n) (\<lambda>off. load_names f ns (m(n \<mapsto> off)))"

definition regoff_names_a64 :: "string list" where
  "regoff_names_a64 =
     concat (map (\<lambda>i. [''X'' @ digits i, ''W'' @ digits i]) [0..<31]) @ [''SP'', ''WSP'', ''PC''] @
     concat (map (\<lambda>i. map (\<lambda>p. p @ digits i) [''V'', ''Q'', ''D'', ''S'', ''H'', ''B'']) [0..<32]) @
     [''XZR'', ''WZR'', ''BRANCH_TAKEN'', ''NEXT_PC'', ''RETURN_PC'', ''IGNORE_WRITE_TO_WZR'',
      ''IGNORE_WRITE_TO_XZR'', ''SUPPRESS_WRITEBACK'', ''MONITOR'', ''TPIDR_EL0'', ''TPIDRRO_EL0'',
      ''NZCV'', ''FPCR'', ''FPSR'', ''N'', ''Z'', ''C'', ''V'', ''IXC'', ''OFC'', ''UFC'', ''IDC'', ''IOC'', ''DZC'',
      ''NG'', ''ZR'', ''CY'', ''OV'', ''SHIFT_CARRY'']"

definition gpr_names :: "string list" where
  "gpr_names = [''RAX'', ''EAX'', ''AX'', ''AL'', ''AH'', ''RBX'', ''EBX'', ''BX'', ''BL'', ''BH'',
     ''RCX'', ''ECX'', ''CX'', ''CL'', ''CH'', ''RDX'', ''EDX'', ''DX'', ''DL'', ''DH'',
     ''RSI'', ''ESI'', ''SI'', ''SIL'', ''RDI'', ''EDI'', ''DI'', ''DIL'', ''RSP'', ''ESP'',
     ''SP'', ''SPL'', ''RBP'', ''EBP'', ''BP'', ''BPL'', ''RIP'', ''EIP'', ''IP'', ''PC'']"

definition misc_names :: "string list" where
  "misc_names = [''CF'', ''PF'', ''AF'', ''ZF'', ''SF'', ''DF'', ''OF'', ''RFLAGS'', ''EFLAGS'', ''FLAGS'',
     ''SS'', ''ES'', ''GS'', ''FS'', ''DS'', ''CS'', ''SS_BASE'', ''ES_BASE'', ''GS_BASE'', ''GSBASE'', ''FS_BASE'',
     ''FSBASE'', ''DS_BASE'', ''CS_BASE'', ''FPU_C0'', ''FPU_C1'', ''FPU_C2'', ''FPU_C3'',
     ''FPU_PE'', ''FPU_UE'', ''FPU_OE'', ''FPU_ZE'', ''FPU_DE'', ''FPU_IE'', ''FPU_SF'']"

definition regoff_names_x64 :: "string list" where
  "regoff_names_x64 =
     gpr_names @
     concat (map (\<lambda>i. map (\<lambda>s. ''R'' @ digits i @ s) [[], ''D'', ''W'', ''B'']) [8..<16]) @
     concat (map (\<lambda>i. map (\<lambda>p. p @ digits i) [''ZMM'', ''YMM'', ''XMM'']) [0..<32]) @
     map (\<lambda>i. ''K'' @ digits i) [0..<8] @
     concat (map (\<lambda>i. [''MM'' @ digits i, ''ST'' @ digits i]) [0..<8]) @
     misc_names @ [''BRANCH_TAKEN'', ''NEXT_PC'', ''RETURN_PC'', ''SUPPRESS_WRITEBACK'', ''MONITOR'']"

definition load_regoffs_aarch64 :: "(a64_field \<Rightarrow> nat) \<Rightarrow> regoffs \<Rightarrow> regoffs res" where
  "load_regoffs_aarch64 L m = load_names (offset_reg_a64_name L) regoff_names_a64 m"

definition load_regoffs_x64 :: "nat \<Rightarrow> int \<Rightarrow> (x86_field \<Rightarrow> nat) \<Rightarrow> regoffs \<Rightarrow> regoffs res" where
  "load_regoffs_x64 bh nvec L m = load_names (offset_reg_x86_name bh nvec L) regoff_names_x64 m"

section \<open>Lemmas\<close>

lemma load_names_total:
  "\<forall>n \<in> set ns. \<exists>off. f n = Inr off \<Longrightarrow>
     load_names f ns m = Inr (\<lambda>n. if n \<in> set ns then Some (projr (f n)) else m n)"
proof (induction ns arbitrary: m)
  case (Cons n ns)
  then obtain off where "f n = Inr off" by auto
  with Cons show ?case by (auto intro!: ext)
qed simp

lemma place_offset_total: "p \<noteq> None \<Longrightarrow> \<exists>off. place_offset L p = Inr off"
  by (auto simp: place_offset_def)

lemma num_in_digits: "lo \<le> int n \<Longrightarrow> int n \<le> hi \<Longrightarrow> n < 2 ^ 31 \<Longrightarrow> num_in (digits n) lo hi = Some n"
  using from_chars_digits [of n "[]"] by (simp add: num_in_def)

lemmas place_simps = numbered_place_def starts_with_def num_in_digits

lemma a64_numbered:
  "i \<le> 30 \<Longrightarrow> a64_name_place (''X'' @ digits i) = Some (A_gpr 0, 16 * i)"
  "i \<le> 30 \<Longrightarrow> a64_name_place (''W'' @ digits i) = Some (A_gpr 0, 16 * i)"
  "i \<le> 31 \<Longrightarrow> a64_name_place (''V'' @ digits i) = Some (A_v i, 0)"
  "i \<le> 31 \<Longrightarrow> a64_name_place (''Q'' @ digits i) = Some (A_v i, 0)"
  "i \<le> 31 \<Longrightarrow> a64_name_place (''D'' @ digits i) = Some (A_v i, 0)"
  "i \<le> 31 \<Longrightarrow> a64_name_place (''S'' @ digits i) = Some (A_v i, 0)"
  "i \<le> 31 \<Longrightarrow> a64_name_place (''H'' @ digits i) = Some (A_v i, 0)"
  "i \<le> 31 \<Longrightarrow> a64_name_place (''B'' @ digits i) = Some (A_v i, 0)"
  by (simp_all add: a64_name_place_def place_simps)

lemma list_all_concat_map: "list_all P (concat (map f xs)) \<longleftrightarrow> (\<forall>x \<in> set xs. list_all P (f x))"
  by (auto simp: list_all_iff)

lemma concat_map_memI: "x \<in> set xs \<Longrightarrow> y \<in> set (f x) \<Longrightarrow> y \<in> set (concat (map f xs))"
  by auto

lemma a64_names_placed: "list_all (\<lambda>n. a64_name_place n \<noteq> None) regoff_names_a64"
proof -
  have "list_all (\<lambda>n. a64_name_place n \<noteq> None) [''SP'', ''WSP'', ''PC'']"
    "list_all (\<lambda>n. a64_name_place n \<noteq> None)
     [''XZR'', ''WZR'', ''BRANCH_TAKEN'', ''NEXT_PC'', ''RETURN_PC'', ''IGNORE_WRITE_TO_WZR'',
      ''IGNORE_WRITE_TO_XZR'', ''SUPPRESS_WRITEBACK'', ''MONITOR'', ''TPIDR_EL0'', ''TPIDRRO_EL0'',
      ''NZCV'', ''FPCR'', ''FPSR'', ''N'', ''Z'', ''C'', ''V'', ''IXC'', ''OFC'', ''UFC'', ''IDC'', ''IOC'', ''DZC'',
      ''NG'', ''ZR'', ''CY'', ''OV'', ''SHIFT_CARRY'']"
    by code_simp+
  then show ?thesis unfolding regoff_names_a64_def
    by (simp only: list_all_append list_all_concat_map) (simp add: a64_numbered [simplified])
qed

lemma rev_digits: "\<exists>c cs. rev (digits i) = c # cs \<and> is_digit c"
proof -
  have "rev (digits i) \<noteq> []" "list_all is_digit (rev (digits i))" using digits_digit [of i] by simp_all
  then show ?thesis by (cases "rev (digits i)") auto
qed

lemma gpr_num_suffix_digits:
  "gpr_num_suffix (digits i) = digits i"
  "gpr_num_suffix (digits i @ ''D'') = digits i" "gpr_num_suffix (digits i @ ''W'') = digits i"
  "gpr_num_suffix (digits i @ ''B'') = digits i"
proof -
  obtain c cs where "rev (digits i) = c # cs" "is_digit c" using rev_digits by blast
  moreover have "\<not> is_digit (CHR ''D'')" "\<not> is_digit (CHR ''W'')" "\<not> is_digit (CHR ''B'')"
    by (simp_all add: is_digit_def)
  ultimately show "gpr_num_suffix (digits i) = digits i" by (auto simp: gpr_num_suffix_def)
qed (simp_all add: gpr_num_suffix_def)

lemma gpr_map_digit: "is_digit c \<Longrightarrow> map_of (gpr_map bh) (CHR ''R'' # c # cs) = None"
proof -
  assume "is_digit c"
  then have "c \<noteq> CHR ''A''" "c \<noteq> CHR ''B''" "c \<noteq> CHR ''C''" "c \<noteq> CHR ''D''" "c \<noteq> CHR ''S''" "c \<noteq> CHR ''I''"
    by (auto simp: is_digit_def)
  then show ?thesis by (simp add: gpr_map_def)
qed

lemma x86_numbered_R:
  assumes "8 \<le> i" and "i \<le> 15" and "gpr_num_suffix (digits i @ s) = digits i"
  shows "x86_name_place bh nvec (''R'' @ digits i @ s) = Some (X_gpr (G_r 8), 16 * (i - 8))"
proof -
  obtain c cs where "digits i = c # cs" "is_digit c" using hd_digits by blast
  then have "map_of (gpr_map bh) (CHR ''R'' # digits i @ s) = None" by (simp add: gpr_map_digit)
  then show ?thesis using assms by (simp add: x86_name_place_def place_simps)
qed

lemma x86_numbered:
  "int i < nvec \<Longrightarrow> nvec \<le> 32 \<Longrightarrow> x86_name_place bh nvec (''ZMM'' @ digits i) = Some (X_vec i, 0)"
  "int i < nvec \<Longrightarrow> nvec \<le> 32 \<Longrightarrow> x86_name_place bh nvec (''YMM'' @ digits i) = Some (X_vec i, 0)"
  "int i < nvec \<Longrightarrow> nvec \<le> 32 \<Longrightarrow> x86_name_place bh nvec (''XMM'' @ digits i) = Some (X_vec i, 0)"
  "i \<le> 7 \<Longrightarrow> x86_name_place bh nvec (''K'' @ digits i) = Some (X_k i, 0)"
  "i \<le> 7 \<Longrightarrow> x86_name_place bh nvec (''MM'' @ digits i) = Some (X_mmx i, 0)"
  "i \<le> 7 \<Longrightarrow> x86_name_place bh nvec (''ST'' @ digits i) = Some (X_st i, 0)"
  by (simp_all add: x86_name_place_def place_simps gpr_map_def)

lemma x86_names_placed: "list_all (\<lambda>n. x86_name_place 1 32 n \<noteq> None) regoff_names_x64"
proof -
  have "list_all (\<lambda>n. x86_name_place 1 32 n \<noteq> None) gpr_names" by code_simp
  moreover have "list_all (\<lambda>n. x86_name_place 1 32 n \<noteq> None) misc_names" by code_simp
  moreover have "list_all (\<lambda>n. x86_name_place 1 32 n \<noteq> None)
      [''BRANCH_TAKEN'', ''NEXT_PC'', ''RETURN_PC'', ''SUPPRESS_WRITEBACK'', ''MONITOR'']" by code_simp
  moreover have "\<forall>i \<in> set [8..<16]. list_all (\<lambda>n. x86_name_place 1 32 n \<noteq> None)
      (map (\<lambda>s. ''R'' @ digits i @ s) [[], ''D'', ''W'', ''B''])"
    using gpr_num_suffix_digits x86_numbered_R [of _ "[]"] x86_numbered_R [of _ "''D''"]
      x86_numbered_R [of _ "''W''"] x86_numbered_R [of _ "''B''"] by simp
  moreover have "\<forall>i \<in> set [0..<32]. list_all (\<lambda>n. x86_name_place 1 32 n \<noteq> None)
      (map (\<lambda>p. p @ digits i) [''ZMM'', ''YMM'', ''XMM''])"
    using x86_numbered(1-3) [of _ 32 1] by simp
  ultimately show ?thesis unfolding regoff_names_x64_def
    by (simp only: list_all_append list_all_concat_map) (simp add: list_all_iff x86_numbered(4-6) [simplified])
qed

text \<open>Two places with the same offset under every layout the code accepts.\<close>

definition a64_same_place :: "a64_field \<times> nat \<Rightarrow> a64_field \<Rightarrow> bool" where
  "a64_same_place p f \<longleftrightarrow>
     p = (f, 0) \<or> (\<exists>i \<le> 30. p = (A_gpr 0, 16 * i) \<and> f = A_gpr i) \<or> p = (A_gpr 0, 16 * 31) \<and> f = A_sp \<or>
     (\<exists>i \<le> 31. p = (A_v 0, 16 * i) \<and> f = A_v i)"

definition x86_same_place :: "x86_field \<times> nat \<Rightarrow> x86_field \<Rightarrow> bool" where
  "x86_same_place p f \<longleftrightarrow>
     p = (f, 0) \<or> (\<exists>i \<in> {8..15}. p = (X_gpr (G_r 8), 16 * (i - 8)) \<and> f = X_gpr (G_r i)) \<or>
     (\<exists>i \<le> 7. p = (X_st 0, 16 * i) \<and> f = X_st i) \<or> (\<exists>i \<le> 7. p = (X_mmx 0, 16 * i) \<and> f = X_mmx i) \<or>
     (\<exists>i \<le> 31. p = (X_vec 0, 64 * i) \<and> f = X_vec i)"

lemma a64_strides:
  assumes "a64_layout_ok L"
  shows "i \<le> 30 \<Longrightarrow> L (A_gpr 0) + 16 * i = L (A_gpr i)" "L (A_gpr 0) + 16 * 31 = L A_sp"
    "i \<le> 31 \<Longrightarrow> L (A_v 0) + 16 * i = L (A_v i)"
  using assms unfolding a64_layout_ok_def by metis+

lemma x86_strides:
  assumes "x86_layout_ok L"
  shows "i \<in> {8..15} \<Longrightarrow> L (X_gpr (G_r 8)) + 16 * (i - 8) = L (X_gpr (G_r i))"
    "i \<le> 7 \<Longrightarrow> L (X_st 0) + 16 * i = L (X_st i)" "i \<le> 7 \<Longrightarrow> L (X_mmx 0) + 16 * i = L (X_mmx i)"
    "i \<le> 31 \<Longrightarrow> L (X_vec 0) + 64 * i = L (X_vec i)"
  using assms unfolding x86_layout_ok_def by metis+

lemma a64_same_place_offset:
  assumes "a64_layout_ok L" and "a64_same_place p f"
  shows "place_offset L (Some p) = Inr (L f)"
  using assms(2) a64_strides [OF assms(1)] unfolding a64_same_place_def place_offset_def
  by (elim disjE exE conjE) simp_all

lemma x86_same_place_offset:
  assumes "x86_layout_ok L" and "x86_same_place p f"
  shows "place_offset L (Some p) = Inr (L f)"
  using assms(2) x86_strides [OF assms(1)] unfolding x86_same_place_def place_offset_def
  by (elim disjE exE bexE conjE) simp_all

text \<open>The registers that have an enumerator and a Remill name.\<close>

definition a64_named_regs :: "(string \<times> Register) list" where
  "a64_named_regs = map (\<lambda>i. (''X'' @ digits i, X (int i))) [0..<31] @
     map (\<lambda>i. (''Q'' @ digits i, Q (int i))) [0..<32] @
     [(''SP'', SP), (''PC'', PC), (''XZR'', ZERO), (''NZCV'', NZCV), (''FPSR'', FPSR), (''FPCR'', FPCR)]"

definition x86_named_regs :: "(string \<times> Register) list" where
  "x86_named_regs = map (\<lambda>i. (''R'' @ digits i, R (int i))) [8..<16] @
     map (\<lambda>i. (''XMM'' @ digits i, XMM (int i))) [0..<32] @
     map (\<lambda>i. (''MM'' @ digits i, MM (int i))) [0..<8] @ map (\<lambda>i. (''ST'' @ digits i, ST (int i))) [0..<8] @
     [(''RAX'', RAX), (''RBX'', RBX), (''RCX'', RCX), (''RDX'', RDX), (''RSI'', RSI), (''RDI'', RDI), (''RBP'', RBP),
      (''RSP'', RSP), (''RIP'', RIP), (''RFLAGS'', RFLAGS), (''SS'', SS), (''ES'', ES), (''GS'', GS), (''FS'', FS),
      (''DS'', DS), (''CS'', CS)]"

lemma a64_named:
  "list_all (\<lambda>(n, r). n \<in> set regoff_names_a64 \<and>
     (\<exists>p f. a64_name_place n = Some p \<and> a64_reg_field r = Some f \<and> a64_same_place p f)) a64_named_regs"
proof -
  have x: "a64_reg_field (X (int i)) = Some (A_gpr i)" if "i \<le> 30" for i
    using that by (simp add: a64_reg_field_def reg_defs)
  have q: "a64_reg_field (Q (int i)) = Some (A_v i)" if "i \<le> 31" for i
    using that by (simp add: a64_reg_field_def reg_defs)
  have sp: "list_all (\<lambda>(n, r). n \<in> set regoff_names_a64 \<and> a64_reg_field r = map_option fst (a64_name_place n) \<and>
      map_option snd (a64_name_place n) = Some 0)
    [(''SP'', SP), (''PC'', PC), (''XZR'', ZERO), (''NZCV'', NZCV), (''FPSR'', FPSR), (''FPCR'', FPCR)]"
    by code_simp
  have names: "''X'' @ digits i \<in> set regoff_names_a64" if "i \<le> 30" for i
    unfolding regoff_names_a64_def set_append by (rule UnI1, rule concat_map_memI [of i]) (use that in auto)
  have namesq: "''Q'' @ digits i \<in> set regoff_names_a64" if "i \<le> 31" for i
    unfolding regoff_names_a64_def set_append by (rule UnI2, rule UnI2, rule UnI1, rule concat_map_memI [of i]) (use that in auto)
  have "\<exists>p f. a64_name_place n = Some p \<and> a64_reg_field r = Some f \<and> a64_same_place p f"
    if "a64_reg_field r = map_option fst (a64_name_place n)" "map_option snd (a64_name_place n) = Some 0" for n r
    using that by (auto simp: a64_same_place_def)
  with sp show ?thesis unfolding a64_named_regs_def list_all_append
    using a64_numbered x q names namesq by (auto simp: list_all_iff a64_same_place_def)
qed

definition x86_entry_ok :: "string \<times> Register \<Rightarrow> bool" where
  "x86_entry_ok e \<longleftrightarrow> fst e \<in> set regoff_names_x64 \<and>
     (\<exists>p f. x86_name_place 1 32 (fst e) = Some p \<and> x86_reg_field (snd e) = Some f \<and> x86_same_place p f)"

lemma list_all_map_upt: "list_all P (map f [a..<b]) \<longleftrightarrow> (\<forall>i. a \<le> i \<longrightarrow> i < b \<longrightarrow> P (f i))"
  by (auto simp: list_all_iff)

lemma x86_entry_R: "8 \<le> i \<Longrightarrow> i \<le> 15 \<Longrightarrow> x86_entry_ok (''R'' @ digits i, R (int i))"
proof -
  assume i: "8 \<le> i" "i \<le> 15"
  have "''R'' @ digits i \<in> set regoff_names_x64"
    unfolding regoff_names_x64_def set_append by (rule UnI2, rule UnI1, rule concat_map_memI [of i]) (use i in auto)
  moreover have "x86_name_place 1 32 (''R'' @ digits i) = Some (X_gpr (G_r 8), 16 * (i - 8))"
    using x86_numbered_R [of i "[]" 1 32] i gpr_num_suffix_digits(1) by simp
  moreover have "x86_reg_field (R (int i)) = Some (X_gpr (G_r i))"
    using i by (simp add: x86_reg_field_def x86_gpr_reg_def reg_defs)
  moreover have "x86_same_place (X_gpr (G_r 8), 16 * (i - 8)) (X_gpr (G_r i))"
    unfolding x86_same_place_def by (intro disjI2 disjI1 bexI [of _ i]) (use i in simp_all)
  ultimately show ?thesis by (simp add: x86_entry_ok_def)
qed

lemma x86_entry_vec:
  "i \<le> 31 \<Longrightarrow> x86_entry_ok (''XMM'' @ digits i, XMM (int i))"
  "i \<le> 7 \<Longrightarrow> x86_entry_ok (''MM'' @ digits i, MM (int i))"
  "i \<le> 7 \<Longrightarrow> x86_entry_ok (''ST'' @ digits i, ST (int i))"
proof -
  have f: "i \<le> 31 \<Longrightarrow> x86_reg_field (XMM (int i)) = Some (X_vec i)"
    "i \<le> 7 \<Longrightarrow> x86_reg_field (MM (int i)) = Some (X_mmx i)" "i \<le> 7 \<Longrightarrow> x86_reg_field (ST (int i)) = Some (X_st i)"
    by (simp_all add: x86_reg_field_def x86_gpr_reg_def reg_defs)
  have n: "i \<le> 31 \<Longrightarrow> ''XMM'' @ digits i \<in> set regoff_names_x64"
    unfolding regoff_names_x64_def set_append by (rule UnI2, rule UnI2, rule UnI1, rule concat_map_memI [of i]) auto
  have mn: "i \<le> 7 \<Longrightarrow> ''MM'' @ digits i \<in> set regoff_names_x64" "i \<le> 7 \<Longrightarrow> ''ST'' @ digits i \<in> set regoff_names_x64"
    unfolding regoff_names_x64_def set_append
    by (rule UnI2, rule UnI2, rule UnI2, rule UnI2, rule UnI1, rule concat_map_memI [of i]; auto)+
  note place = x86_numbered(3) [of i 32 1] x86_numbered(5,6) [of i 1 32]
  show "i \<le> 31 \<Longrightarrow> x86_entry_ok (''XMM'' @ digits i, XMM (int i))"
    "i \<le> 7 \<Longrightarrow> x86_entry_ok (''MM'' @ digits i, MM (int i))"
    "i \<le> 7 \<Longrightarrow> x86_entry_ok (''ST'' @ digits i, ST (int i))"
    unfolding x86_entry_ok_def x86_same_place_def fst_conv snd_conv using f n mn place by simp_all
qed

lemma x86_named: "list_all x86_entry_ok x86_named_regs"
proof -
  have "list_all (\<lambda>e. fst e \<in> set regoff_names_x64 \<and> x86_reg_field (snd e) = map_option fst (x86_name_place 1 32 (fst e)) \<and>
      map_option snd (x86_name_place 1 32 (fst e)) = Some 0)
    [(''RAX'', RAX), (''RBX'', RBX), (''RCX'', RCX), (''RDX'', RDX), (''RSI'', RSI), (''RDI'', RDI), (''RBP'', RBP),
      (''RSP'', RSP), (''RIP'', RIP), (''RFLAGS'', RFLAGS), (''SS'', SS), (''ES'', ES), (''GS'', GS), (''FS'', FS),
      (''DS'', DS), (''CS'', CS)]"
    by code_simp
  moreover have "x86_entry_ok e" if "fst e \<in> set regoff_names_x64 \<and>
      x86_reg_field (snd e) = map_option fst (x86_name_place 1 32 (fst e)) \<and>
      map_option snd (x86_name_place 1 32 (fst e)) = Some 0" for e
    using that by (auto simp: x86_entry_ok_def x86_same_place_def)
  ultimately have "list_all x86_entry_ok
    [(''RAX'', RAX), (''RBX'', RBX), (''RCX'', RCX), (''RDX'', RDX), (''RSI'', RSI), (''RDI'', RDI), (''RBP'', RBP),
      (''RSP'', RSP), (''RIP'', RIP), (''RFLAGS'', RFLAGS), (''SS'', SS), (''ES'', ES), (''GS'', GS), (''FS'', FS),
      (''DS'', DS), (''CS'', CS)]"
    by (rule list.pred_mono_strong)
  then show ?thesis unfolding x86_named_regs_def list_all_append list_all_map_upt
    using x86_entry_R x86_entry_vec by simp
qed

lemma a64_reg_same_place:
  assumes "a64_reg_place r = Some p"
  shows "\<exists>f. a64_reg_field r = Some f \<and> a64_same_place p f"
proof (cases "r \<le> X 31")
  case True
  define i where "i = nat (r - 2)"
  from True assms have r: "r = 2 + int i" "i \<le> 31" "p = (A_gpr 0, 16 * i)"
    by (auto simp: a64_reg_place_def reg_defs i_def split: if_splits)
  have "a64_reg_field r = Some (if i = 31 then A_sp else A_gpr i)"
    using r(1,2) by (simp add: a64_reg_field_def reg_defs)
  with r(2,3) show ?thesis by (cases "i = 31") (simp_all add: a64_same_place_def)
next
  case False
  define i where "i = nat (r - 35)"
  from False assms have r: "r = 35 + int i" "i \<le> 31" "p = (A_v 0, 16 * i)"
    by (auto simp: a64_reg_place_def reg_defs i_def split: if_splits)
  have "a64_reg_field r = Some (A_v i)"
    using r(1,2) by (simp add: a64_reg_field_def reg_defs)
  with r(2,3) show ?thesis by (simp add: a64_same_place_def)
qed

section \<open>Properties\<close>

lemma a64_table:
  "load_regoffs_aarch64 L m = Inr (\<lambda>n. if n \<in> set regoff_names_a64 then Some (projr (offset_reg_a64_name L n)) else m n)"
proof -
  have "\<forall>n \<in> set regoff_names_a64. \<exists>off. offset_reg_a64_name L n = Inr off"
    using a64_names_placed place_offset_total unfolding list_all_iff offset_reg_a64_name_def by blast
  then show ?thesis unfolding load_regoffs_aarch64_def by (rule load_names_total)
qed

lemma x86_table:
  "load_regoffs_x64 1 32 L m = Inr (\<lambda>n. if n \<in> set regoff_names_x64 then Some (projr (offset_reg_x86_name 1 32 L n)) else m n)"
proof -
  have "\<forall>n \<in> set regoff_names_x64. \<exists>off. offset_reg_x86_name 1 32 L n = Inr off"
    using x86_names_placed place_offset_total unfolding list_all_iff offset_reg_x86_name_def by blast
  then show ?thesis unfolding load_regoffs_x64_def by (rule load_names_total)
qed

text \<open>
  Filling the AArch64 name table never aborts, and the entry of every named register
  is the offset in the \<open>State\<close> object of the very field that \<open>getRegisterAArch64\<close> hands
  out for that register: the interpreter and the debugger read and write the same bytes.
\<close>

lemma regoffs_aarch64_match_registers:
  assumes "a64_inv c" and "(n, r) \<in> set a64_named_regs"
  shows "\<exists>table off. load_regoffs_aarch64 (a64_lay c) Map.empty = Inr table \<and> table n = Some off \<and>
    fst (getRegisterAArch64 c r) = Some (state_ptr c + word_of_nat off)"
proof -
  from assms(2) a64_named obtain p f where p: "n \<in> set regoff_names_a64" "a64_name_place n = Some p"
    "a64_reg_field r = Some f" "a64_same_place p f"
    by (fastforce simp: list_all_iff)
  with assms(1) have "offset_reg_a64_name (a64_lay c) n = Inr (a64_lay c f)"
    by (simp add: offset_reg_a64_name_def a64_same_place_offset a64_inv_def)
  with p(1,3) show ?thesis
    by (simp add: a64_table getRegisterAArch64_def a64_addr_def)
qed


text \<open>
  The same for the x86-64 table, with the high byte of a \<open>Reg\<close> at displacement one
  and 32 vector registers.
\<close>

lemma regoffs_x64_match_registers:
  assumes "x86_inv c" and "(n, r) \<in> set x86_named_regs"
  shows "\<exists>table off. load_regoffs_x64 1 32 (x86_lay c) Map.empty = Inr table \<and> table n = Some off \<and>
    fst (getRegisterX86 c r) = Some (state_ptr c + word_of_nat off)"
proof -
  from assms(2) x86_named obtain p f where p: "n \<in> set regoff_names_x64" "x86_name_place 1 32 n = Some p"
    "x86_reg_field r = Some f" "x86_same_place p f"
    by (fastforce simp: list_all_iff x86_entry_ok_def)
  with assms(1) have "offset_reg_x86_name 1 32 (x86_lay c) n = Inr (x86_lay c f)"
    by (simp add: offset_reg_x86_name_def x86_same_place_offset x86_inv_def)
  with p(1,3) show ?thesis unfolding x86_table
    by (simp add: getRegisterX86_def x86_addr_def)
qed


text \<open>
  The offsets by \<open>Register\<close> number that the generated native handlers load from and
  store to are the offsets of the fields the accessors of \<open>CPUState\<close> use, for every
  register \<open>offset_reg\<close> accepts; it aborts on the others.
\<close>

lemma offset_reg_is_register_pointer:
  assumes "a64_inv c"
  shows "(case offset_reg_a64 (a64_lay c) r of
       Inr off \<Rightarrow> fst (getRegisterAArch64 c r) = Some (state_ptr c + word_of_nat off)
     | Inl e \<Rightarrow> e = Abort \<and> (r < X 0 \<or> r = NZCV \<or> Q 31 < r))"
proof (cases "a64_reg_place r")
  case None
  then show ?thesis by (auto simp: offset_reg_a64_def place_offset_def a64_reg_place_def reg_defs split: if_splits)
next
  case (Some p)
  then have "\<exists>f. a64_reg_field r = Some f \<and> a64_same_place p f" by (rule a64_reg_same_place)
  with Some assms show ?thesis
    by (auto simp: offset_reg_a64_def a64_same_place_offset a64_inv_def getRegisterAArch64_def a64_addr_def)
qed


end
