(* ===== verification/Utils.thy ===== *)
theory Utils
  imports Prelude
begin

text \<open>
  The header-only utilities of \<open>include/Utils.h\<close> and the string splitter of
  \<open>src/Utils.cpp\<close>: the branchless binary search every lookup table of the VM goes
  through, the page alignment helpers, the Fibonacci hashes of the opcode caches and the
  128-bit opcode key.  The locale \<open>search_order\<close> is the contract a table offers to
  \<open>binary_search\<close>; the components interpret it for their own records.
\<close>

section \<open>Branchless binary search\<close>

text \<open>A C++ array read: outside the array there is no value.\<close>

definition arr_at :: "'a list \<Rightarrow> nat \<Rightarrow> 'a res" where
  "arr_at arr i = (if i < length arr then Inr (arr ! i) else Inl OutOfBounds)"

lemma arr_at_simps [simp]:
  "i < length arr \<Longrightarrow> arr_at arr i = Inr (arr ! i)"
  "length arr \<le> i \<Longrightarrow> arr_at arr i = Inl OutOfBounds"
  by (simp_all add: arr_at_def)

text \<open>
  The loop of \<open>binary_search\<close>: \<open>base\<close> is the pointer, as an index into the array,
  and \<open>lt\<close> the element type's \<open>operator<\<close>.
\<close>

function binary_search_loop :: "('a \<Rightarrow> 'a \<Rightarrow> bool) \<Rightarrow> 'a list \<Rightarrow> 'a \<Rightarrow> nat \<Rightarrow> nat \<Rightarrow> nat res" where
  "binary_search_loop lt arr key base sz =
     (if sz > 1
      then let half = sz div 2 in
           res_bind (arr_at arr (base + half - 1))
             (\<lambda>x. binary_search_loop lt arr key
                     (if lt x key then base + half else base) (sz - half))
      else res_bind (arr_at arr base) (\<lambda>x. Inr (if lt x key then base + 1 else base)))"
  by pat_completeness auto
termination
  by (relation "measure (\<lambda>(lt, arr, key, base, sz). sz)") auto

declare binary_search_loop.simps [simp del]

definition binary_search :: "('a \<Rightarrow> 'a \<Rightarrow> bool) \<Rightarrow> 'a list \<Rightarrow> nat \<Rightarrow> 'a \<Rightarrow> nat res" where
  "binary_search lt arr sz key = binary_search_loop lt arr key 0 sz"

definition is_exact :: "('a \<Rightarrow> 'a \<Rightarrow> bool) \<Rightarrow> nat \<Rightarrow> 'a list \<Rightarrow> nat \<Rightarrow> 'a \<Rightarrow> bool res" where
  "is_exact eq found arr sz key =
     (if found \<noteq> sz then res_bind (arr_at arr found) (\<lambda>x. Inr (eq x key)) else Inr False)"

text \<open>
  What an element type promises to the searches of its tables: \<open>operator<\<close> is a
  strict weak order.  Entries that compare equal may occur more than once.
\<close>

definition split_at :: "('a \<Rightarrow> 'a \<Rightarrow> bool) \<Rightarrow> 'a list \<Rightarrow> 'a \<Rightarrow> nat \<Rightarrow> bool" where
  "split_at lt arr k i \<longleftrightarrow> i \<le> length arr \<and> (\<forall>j < i. lt (arr ! j) k) \<and>
     (\<forall>j. i \<le> j \<longrightarrow> j < length arr \<longrightarrow> \<not> lt (arr ! j) k)"

definition sorted_by :: "('a \<Rightarrow> 'a \<Rightarrow> bool) \<Rightarrow> 'a list \<Rightarrow> bool" where
  "sorted_by lt arr = sorted_wrt (\<lambda>x y. \<not> lt y x) arr"

lemma split_at_unique: "split_at lt arr k i \<Longrightarrow> split_at lt arr k j \<Longrightarrow> i = j"
  unfolding split_at_def by (metis linorder_neqE_nat order.strict_trans2 order_refl not_less)

locale search_order =
  fixes lt :: "'a \<Rightarrow> 'a \<Rightarrow> bool"
  assumes lt_irrefl: "\<not> lt x x"
    and lt_negtrans: "lt x z \<Longrightarrow> lt x y \<or> lt y z"
begin

lemma entry_below:
  "sorted_by lt arr \<Longrightarrow> i \<le> j \<Longrightarrow> j < length arr \<Longrightarrow> lt (arr ! j) k \<Longrightarrow> lt (arr ! i) k"
  using lt_negtrans [of "arr ! j" k "arr ! i"]
  by (cases "i = j") (auto simp: sorted_by_def sorted_wrt_iff_nth_less)

text \<open>The loop invariant: everything left of \<open>base\<close> is below the key, nothing from
  \<open>base + sz\<close> on is.\<close>

lemma loop_split:
  assumes sorted: "sorted_by lt arr"
    and "1 \<le> sz" and "base + sz \<le> length arr"
    and "\<forall>j < base. lt (arr ! j) k"
    and "\<forall>j. base + sz \<le> j \<longrightarrow> j < length arr \<longrightarrow> \<not> lt (arr ! j) k"
  shows "\<exists>i. binary_search_loop lt arr k base sz = Inr i \<and> split_at lt arr k i"
  using assms(2-)
proof (induction sz arbitrary: base rule: less_induct)
  case (less sz)
  show ?case
  proof (cases "sz > 1")
    case True
    define half where "half = sz div 2"
    define p where "p = base + half - 1"
    define base' where "base' = (if lt (arr ! p) k then base + half else base)"
    from True have h: "1 \<le> half" "half < sz" "half \<le> sz - half"
      by (auto simp: half_def)
    with less.prems have p: "p < length arr" by (simp add: p_def)
    have left: "\<forall>j < base'. lt (arr ! j) k"
    proof (intro allI impI)
      fix j assume j: "j < base'"
      show "lt (arr ! j) k"
      proof (cases "j < base")
        case True
        with less.prems show ?thesis by simp
      next
        case False
        with j have "lt (arr ! p) k" and "j \<le> p" by (auto simp: base'_def p_def split: if_splits)
        with p show ?thesis by (blast intro: entry_below [OF sorted])
      qed
    qed
    have right: "\<forall>j. base' + (sz - half) \<le> j \<longrightarrow> j < length arr \<longrightarrow> \<not> lt (arr ! j) k"
    proof (cases "lt (arr ! p) k")
      case True
      with h less.prems(4) show ?thesis by (auto simp: base'_def)
    next
      case False
      have "\<not> lt (arr ! j) k" if "p \<le> j" "j < length arr" for j
        using entry_below [OF sorted, of p j k] that False by blast
      with False h show ?thesis by (auto simp: base'_def p_def)
    qed
    have "\<exists>i. binary_search_loop lt arr k base' (sz - half) = Inr i \<and> split_at lt arr k i"
    proof (rule less.IH)
      show "sz - half < sz" and "1 \<le> sz - half" using h by simp_all
      show "base' + (sz - half) \<le> length arr" using h less.prems(2) by (cases "lt (arr ! p) k") (simp_all add: base'_def)
    qed (fact left, fact right)
    moreover have "binary_search_loop lt arr k base sz
        = binary_search_loop lt arr k base' (sz - half)"
      using True p
      by (subst binary_search_loop.simps)
        (simp add: Let_def base'_def p_def flip: half_def)
    ultimately show ?thesis by simp
  next
    case False
    with less.prems have one: "sz = 1" and b: "base < length arr" by simp_all
    let ?i = "if lt (arr ! base) k then base + 1 else base"
    have "binary_search_loop lt arr k base sz = Inr ?i"
      using one b by (subst binary_search_loop.simps) simp
    moreover have "split_at lt arr k ?i"
    proof (cases "lt (arr ! base) k")
      case True
      with less.prems one show ?thesis by (auto simp: split_at_def less_Suc_eq)
    next
      case False
      have "\<not> lt (arr ! j) k" if "base \<le> j" "j < length arr" for j
        using entry_below [OF sorted, of base j k] that False by blast
      with less.prems b False show ?thesis by (auto simp: split_at_def)
    qed
    ultimately show ?thesis by blast
  qed
qed

text \<open>On a non-empty sorted table the search returns the first entry not below the key.\<close>

lemma search_split:
  "sorted_by lt arr \<Longrightarrow> arr \<noteq> [] \<Longrightarrow> \<exists>i. binary_search lt arr (length arr) k = Inr i \<and> split_at lt arr k i"
  unfolding binary_search_def by (rule loop_split) (auto simp: Suc_le_eq)

lemma search_eqI:
  "sorted_by lt arr \<Longrightarrow> arr \<noteq> [] \<Longrightarrow> split_at lt arr k i \<Longrightarrow> binary_search lt arr (length arr) k = Inr i"
  by (metis search_split split_at_unique)

text \<open>Together with \<open>is_exact\<close>: the search finds an entry equivalent to the key iff there is one.\<close>

lemma search_hit_iff:
  assumes sorted: "sorted_by lt arr" and "arr \<noteq> []"
    and "binary_search lt arr (length arr) k = Inr i"
  shows "(i < length arr \<and> \<not> lt k (arr ! i)) \<longleftrightarrow> (\<exists>x \<in> set arr. \<not> lt x k \<and> \<not> lt k x)"
proof -
  from assms search_split [of arr k] have s: "split_at lt arr k i" by auto
  show ?thesis
  proof
    assume "i < length arr \<and> \<not> lt k (arr ! i)"
    with s show "\<exists>x \<in> set arr. \<not> lt x k \<and> \<not> lt k x" by (auto simp: split_at_def intro!: bexI)
  next
    assume "\<exists>x \<in> set arr. \<not> lt x k \<and> \<not> lt k x"
    then obtain j where j: "j < length arr" "\<not> lt (arr ! j) k" "\<not> lt k (arr ! j)"
      by (auto simp: in_set_conv_nth)
    with s have ij: "i \<le> j" by (auto simp: split_at_def not_le [symmetric])
    have "\<not> lt k (arr ! i)"
    proof
      assume "lt k (arr ! i)"
      moreover have "\<not> lt (arr ! j) (arr ! i)"
        using sorted ij j(1) lt_irrefl
        by (cases "i = j") (auto simp: sorted_by_def sorted_wrt_iff_nth_less)
      ultimately show False using lt_negtrans [of k "arr ! i" "arr ! j"] j(3) by blast
    qed
    with ij j show "i < length arr \<and> \<not> lt k (arr ! i)" by simp
  qed
qed

end

text \<open>Comparing by a key field of a linear order is such an order.\<close>

lemma search_order_key: "search_order (\<lambda>x y. f x < (f y :: 'k :: linorder))"
  by unfold_locales (auto simp: not_less)

lemma sorted_by_key: "sorted_by (\<lambda>x y. f x < (f y :: 'k :: linorder)) arr \<longleftrightarrow> sorted (map f arr)"
  by (simp add: sorted_by_def sorted_wrt_map not_less)

lemma binary_search_empty: "binary_search lt [] 0 k = Inl OutOfBounds"
  by (simp add: binary_search_def binary_search_loop.simps)

section \<open>Alignment\<close>

definition align_up :: "u64 \<Rightarrow> u64 \<Rightarrow> u64" where
  "align_up value align_size = (value + align_size - 1) AND NOT (align_size - 1)"

definition align_down :: "u64 \<Rightarrow> u64 \<Rightarrow> u64" where
  "align_down value align_size = value AND NOT (align_size - 1)"

lemma and_not_mask_unat: "unat (w AND NOT (mask k)) = unat w - unat w mod 2 ^ k" for w :: u64
proof -
  have "w AND NOT (mask k) = push_bit k (drop_bit k w)"
    by (rule bit_word_eqI) (auto simp: bit_simps)
  also have "\<dots> = w - take_bit k w"
    using bits_ident [of k w] by (simp add: algebra_simps)
  finally have eq: "w AND NOT (mask k) = w - take_bit k w" .
  have t: "unat (take_bit k w) = unat w mod 2 ^ k"
    by (simp only: unsigned_take_bit_eq take_bit_nat_def)
  then have "take_bit k w \<le> w" by (simp add: word_le_nat_alt)
  then have "unat (w - take_bit k w) = unat w - unat (take_bit k w)" by (rule unat_sub)
  with eq t show ?thesis by simp
qed

lemma pow2_minus_mask: "(2 :: u64) ^ k - 1 = mask k"
  by (simp add: mask_eq_exp_minus_1)

text \<open>With a power-of-two alignment, \<open>align_down\<close> rounds down to the multiple below.\<close>

lemma unat_align_down: "unat (align_down v (2 ^ k)) = unat v div 2 ^ k * 2 ^ k"
  unfolding align_down_def pow2_minus_mask and_not_mask_unat
  by (simp add: minus_mod_eq_div_mult)

lemma unat_pow2: "k < 64 \<Longrightarrow> unat ((2 :: u64) ^ k) = 2 ^ k"
  using unat_word_of_nat64 [of "2 ^ k"] power_strict_increasing [of k 64 "2 :: nat"] by simp

lemma unat_align_up:
  assumes "unat v + 2 ^ k \<le> 2 ^ 64" and "k < 64"
  shows "unat (align_up v (2 ^ k)) = (unat v + 2 ^ k - 1) div 2 ^ k * 2 ^ k"
proof -
  have p: "unat ((2 :: u64) ^ k - 1) = 2 ^ k - 1"
    using assms(2) by (subst unat_sub) (simp_all add: word_le_nat_alt unat_pow2)
  have one: "(1 :: nat) \<le> 2 ^ k" by simp
  have "unat v + (2 ^ k - 1) < 2 ^ 64" using assms(1) one by linarith
  then have "unat (v + (2 ^ k - 1)) = unat v + (2 ^ k - 1)"
    by (subst unat_add_lem [THEN iffD1]) (simp_all add: p)
  then have "unat (v + 2 ^ k - 1) = unat v + 2 ^ k - 1"
    using one by (simp add: algebra_simps)
  then show ?thesis
    by (simp add: align_up_def pow2_minus_mask and_not_mask_unat minus_mod_eq_div_mult)
qed

section \<open>Opcode hashes and the 128-bit opcode key\<close>

text \<open>
  \<open>fib_hash8\<close> on the five opcode widths.  In the 16-bit overload both factors are
  promoted to \<open>int\<close>; the model takes the product modulo \<open>2^32\<close>.
\<close>

datatype uint128_var_t = U128 (low: u64) (high: u64)

definition fib_hash8_u8 :: "u8 \<Rightarrow> u8" where
  "fib_hash8_u8 x = x"

definition fib_hash8_u16 :: "u16 \<Rightarrow> u8" where
  "fib_hash8_u16 x = ucast (drop_bit 8 ((ucast x :: u32) * 40503))"

definition fib_hash8_u32 :: "u32 \<Rightarrow> u8" where
  "fib_hash8_u32 x = ucast (drop_bit 24 (x * 2654435769))"

definition fib_hash8_u64 :: "u64 \<Rightarrow> u8" where
  "fib_hash8_u64 x = ucast (drop_bit 56 (x * 11400714819323198485))"

definition fib_hash8_u128 :: "uint128_var_t \<Rightarrow> u8" where
  "fib_hash8_u128 x = ucast (drop_bit 56 ((low x XOR high x) * 11400714819323198485))"

text \<open>\<open>operator<=>\<close> of \<open>uint128_var_t\<close>: the high words first, then the low words.\<close>

instantiation uint128_var_t :: linorder
begin

definition less_uint128_var_t :: "uint128_var_t \<Rightarrow> uint128_var_t \<Rightarrow> bool" where
  "less_uint128_var_t x y = (if high x = high y then low x < low y else high x < high y)"

definition less_eq_uint128_var_t :: "uint128_var_t \<Rightarrow> uint128_var_t \<Rightarrow> bool" where
  "less_eq_uint128_var_t x y = (x < y \<or> x = (y :: uint128_var_t))"

instance
  by standard
    (auto simp: less_eq_uint128_var_t_def less_uint128_var_t_def split: if_splits
       intro: uint128_var_t.expand)

end

definition u128_val :: "uint128_var_t \<Rightarrow> nat" where
  "u128_val x = unat (high x) * 2 ^ 64 + unat (low x)"

section \<open>Splitting a string view\<close>

text \<open>\<open>std::string_view::find(c, start)\<close>; \<open>None\<close> is \<open>npos\<close>.\<close>

definition sv_find :: "'c list \<Rightarrow> 'c \<Rightarrow> nat \<Rightarrow> nat option" where
  "sv_find str d start = List.find (\<lambda>i. str ! i = d) [start..<length str]"

definition substr :: "'c list \<Rightarrow> nat \<Rightarrow> nat \<Rightarrow> 'c list" where
  "substr str start n = take n (drop start str)"

lemma sv_find_SomeD:
  "sv_find str d start = Some e \<Longrightarrow>
     start \<le> e \<and> e < length str \<and> str ! e = d \<and> (\<forall>j. start \<le> j \<and> j < e \<longrightarrow> str ! j \<noteq> d)"
proof -
  assume "sv_find str d start = Some e"
  then obtain i where i: "i < length str - start" "str ! (start + i) = d" "e = start + i"
    "\<forall>j < i. str ! (start + j) \<noteq> d"
    by (auto simp: sv_find_def find_Some_iff)
  then have "\<forall>j. start \<le> j \<and> j < e \<longrightarrow> str ! j \<noteq> d"
    by (metis add_less_cancel_left le_add_diff_inverse)
  with i show ?thesis by auto
qed

lemma sv_find_NoneD: "sv_find str d start = None \<Longrightarrow> d \<notin> set (drop start str)"
  by (auto simp: sv_find_def find_None_iff in_set_conv_nth)

function string_view_split_loop :: "'c list \<Rightarrow> 'c \<Rightarrow> nat \<Rightarrow> 'c list list" where
  "string_view_split_loop str d start =
     (case sv_find str d start of
        None \<Rightarrow> [drop start str]
      | Some e \<Rightarrow> substr str start (e - start) # string_view_split_loop str d (e + 1))"
  by pat_completeness auto
termination
  by (relation "measure (\<lambda>(str, d, start). length str - start)") (auto dest!: sv_find_SomeD)

declare string_view_split_loop.simps [simp del]

definition string_view_split :: "'c list \<Rightarrow> 'c \<Rightarrow> 'c list list" where
  "string_view_split str d = string_view_split_loop str d 0"

fun join :: "'c \<Rightarrow> 'c list list \<Rightarrow> 'c list" where
  "join d [] = []"
| "join d [x] = x"
| "join d (x # y # ys) = x @ d # join d (y # ys)"

lemma split_loop_nonempty [simp]: "string_view_split_loop str d start \<noteq> []"
  by (subst string_view_split_loop.simps) (auto split: option.splits)

lemma join_Cons: "ys \<noteq> [] \<Longrightarrow> join d (x # ys) = x @ d # join d ys"
  by (cases ys) auto

lemma drop_split_at:
  "start \<le> e \<Longrightarrow> e < length str \<Longrightarrow>
     drop start str = substr str start (e - start) @ str ! e # drop (e + 1) str"
  unfolding substr_def
  by (metis Cons_nth_drop_Suc Suc_eq_plus1 append_take_drop_id drop_drop le_add_diff_inverse2)

lemma split_loop_join: "join d (string_view_split_loop str d start) = drop start str"
proof (induction str d start rule: string_view_split_loop.induct)
  case (1 str d start)
  show ?case
  proof (cases "sv_find str d start")
    case None
    then show ?thesis by (subst string_view_split_loop.simps) simp
  next
    case (Some e)
    from sv_find_SomeD [OF Some] have e: "start \<le> e" "e < length str" "str ! e = d" by auto
    have "join d (string_view_split_loop str d start)
        = substr str start (e - start) @ d # join d (string_view_split_loop str d (e + 1))"
      using Some by (subst string_view_split_loop.simps) (simp add: join_Cons)
    also have "\<dots> = drop start str"
      using 1 [OF Some] e drop_split_at [of start e str] by simp
    finally show ?thesis .
  qed
qed

lemma set_substr:
  "e < length str \<Longrightarrow> x \<in> set (substr str start (e - start)) \<Longrightarrow>
     \<exists>j. start \<le> j \<and> j < e \<and> str ! j = x"
  by (auto simp: substr_def in_set_conv_nth) (metis add.commute le_add1 less_diff_conv)

lemma split_loop_pieces: "x \<in> set (string_view_split_loop str d start) \<Longrightarrow> d \<notin> set x"
proof (induction str d start rule: string_view_split_loop.induct)
  case (1 str d start)
  show ?case
  proof (cases "sv_find str d start")
    case None
    with "1.prems" have "x = drop start str"
      by (subst (asm) string_view_split_loop.simps) simp
    with sv_find_NoneD [OF None] show ?thesis by simp
  next
    case (Some e)
    have "string_view_split_loop str d start
        = substr str start (e - start) # string_view_split_loop str d (e + 1)"
      using Some by (subst string_view_split_loop.simps) simp
    with "1.prems" consider "x = substr str start (e - start)"
      | "x \<in> set (string_view_split_loop str d (e + 1))"
      by (metis set_ConsD)
    then show ?thesis
    proof cases
      case 1
      with set_substr [of e str d start] sv_find_SomeD [OF Some] show ?thesis by blast
    next
      case 2
      then show ?thesis by (rule "1.IH" [OF Some])
    qed
  qed
qed

lemma split_loop_count:
  "length (string_view_split_loop str d start) = Suc (count_list (drop start str) d)"
proof (induction str d start rule: string_view_split_loop.induct)
  case (1 str d start)
  show ?case
  proof (cases "sv_find str d start")
    case None
    with sv_find_NoneD [OF None] show ?thesis
      by (subst string_view_split_loop.simps) (simp add: count_notin)
  next
    case (Some e)
    from sv_find_SomeD [OF Some] have e: "start \<le> e" "e < length str" "str ! e = d" by auto
    have eq: "string_view_split_loop str d start
        = substr str start (e - start) # string_view_split_loop str d (e + 1)"
      using Some by (subst string_view_split_loop.simps) simp
    have "d \<notin> set (substr str start (e - start))"
      by (rule split_loop_pieces [of _ str d start]) (simp add: eq)
    then show ?thesis
      using 1 [OF Some] e drop_split_at [of start e str] by (simp add: eq count_notin)
  qed
qed

section \<open>Properties\<close>

text \<open>
  On a non-empty table sorted by a key field, \<open>binary_search\<close> reads only inside the
  table and returns the first index whose entry is not below the key: every entry before
  it is smaller and no entry from it on is.
\<close>

lemma binary_search_correct:
  assumes "sorted (map f arr)" and "arr \<noteq> []"
  shows "\<exists>i \<le> length arr.
     binary_search (\<lambda>x y. f x < (f y :: 'k :: linorder)) arr (length arr) key = Inr i \<and>
     (\<forall>j < i. f (arr ! j) < f key) \<and> (\<forall>j \<in> {i..<length arr}. f key \<le> f (arr ! j))"
proof -
  from assms(1) have "sorted_by (\<lambda>x y. f x < f y) arr" by (simp add: sorted_by_key)
  from search_order.search_split [OF search_order_key this assms(2), of key] show ?thesis
    by (auto simp: split_at_def not_less)
qed


text \<open>
  \<open>string_view_split\<close> returns pieces without the delimiter whose concatenation with
  the delimiter between them is the input, and one piece more than there are delimiters.
\<close>

lemma string_view_split_roundtrip:
  "join d (string_view_split str d) = str \<and>
   list_all (\<lambda>x. d \<notin> set x) (string_view_split str d) \<and>
   length (string_view_split str d) = Suc (count_list str d)"
  using split_loop_join [of d str 0] split_loop_pieces [of _ str d 0] split_loop_count [of str d 0]
  by (auto simp: string_view_split_def list_all_iff)

text \<open>
  With a power-of-two alignment and no overflow, \<open>align_up\<close> returns the least
  multiple of the alignment that is not below the value.
\<close>

lemma align_up_least_multiple:
  assumes "k < 64" and "unat v + 2 ^ k \<le> 2 ^ 64"
  shows "2 ^ k dvd unat (align_up v (2 ^ k)) \<and> v \<le> align_up v (2 ^ k) \<and>
    (\<forall>m. 2 ^ k dvd m \<longrightarrow> unat v \<le> m \<longrightarrow> unat (align_up v (2 ^ k)) \<le> m)"
proof -
  define q :: nat where "q = 2 ^ k"
  have q: "0 < q" by (simp add: q_def)
  have eq: "unat (align_up v (2 ^ k)) = (unat v + q - 1) div q * q"
    using unat_align_up [of v k] assms by (simp add: q_def)
  have ge: "unat v \<le> (unat v + q - 1) div q * q"
    using q div_mult_mod_eq [of "unat v + q - 1" q] mod_less_divisor [OF q, of "unat v + q - 1"]
    by linarith
  have least: "(unat v + q - 1) div q * q \<le> m" if "q dvd m" "unat v \<le> m" for m
  proof -
    from that(1) obtain c where c: "m = c * q" by (metis dvd_def mult.commute)
    have "(unat v + q - 1) div q \<le> (c * q + (q - 1)) div q"
      using that(2) c q by (intro div_le_mono) simp
    also have "\<dots> = c" using q by (simp del: add_diff_assoc)
    finally show ?thesis using c by simp
  qed
  show ?thesis using eq ge least by (simp add: word_le_nat_alt flip: q_def)
qed


text \<open>
  The three-way comparison of \<open>uint128_var_t\<close> orders opcode keys as the 128-bit
  numbers they hold.
\<close>

lemma uint128_order: "x < y \<longleftrightarrow> u128_val x < u128_val y" for x y :: uint128_var_t
proof -
  have l: "unat (low x) < 2 ^ 64" "unat (low y) < 2 ^ 64"
    using unsigned_less [of "low x", where 'a = nat] unsigned_less [of "low y", where 'a = nat]
    by simp_all
  show ?thesis
  proof (cases "high x = high y")
    case True
    then show ?thesis by (simp add: less_uint128_var_t_def u128_val_def word_less_nat_alt)
  next
    case False
    then have "unat (high x) \<noteq> unat (high y)" by (simp add: word_unat_eq_iff)
    with False l show ?thesis
      by (simp add: less_uint128_var_t_def u128_val_def word_less_nat_alt) arith
  qed
qed

end
