(* ===== verification/OperandLift.thy ===== *)
theory OperandLift
  imports StateOffsets Utils
begin

text \<open>
  Operand evaluation of the opcode interpreter, \<open>src/OpcodeEngine.cpp\<close>: the raw value a
  Remill operand passes to a semantics function, computed from the \<open>State\<close> object of the
  thread.  The operand classes themselves belong to the Remill library; the records below
  have the fields the code reads.  \<open>mask\<close> and sign extension are written as in the source;
  a shift by 64 or more is undefined behaviour.
\<close>

section \<open>Bits\<close>

definition MaskToBits :: "u64 \<Rightarrow> nat \<Rightarrow> u64" where
  "MaskToBits val bits =
     (if bits = 0 then 0 else if 64 \<le> bits then val else val AND (push_bit bits 1 - 1))"

definition SignExtend :: "u64 \<Rightarrow> nat \<Rightarrow> u64" where
  "SignExtend val bits =
     (if bits = 0 \<or> 64 \<le> bits then val
      else let v = MaskToBits val bits; sign_bit = push_bit (bits - 1) 1 in (v XOR sign_bit) - sign_bit)"

definition shl :: "u64 \<Rightarrow> u64 \<Rightarrow> u64 res" where
  "shl x n = (if n < 64 then Inr (push_bit (unat n) x) else Inl Undefined)"

definition shr :: "u64 \<Rightarrow> u64 \<Rightarrow> u64 res" where
  "shr x n = (if n < 64 then Inr (drop_bit (unat n) x) else Inl Undefined)"

definition sar :: "u64 \<Rightarrow> u64 \<Rightarrow> u64 res" where
  "sar x n = (if n < 64 then Inr (signed_drop_bit (unat n) x) else Inl Undefined)"

definition as_unsigned :: "nat \<Rightarrow> nat" where
  "as_unsigned n = n mod 2 ^ 32"

section \<open>Operands\<close>

record RemillRegister =
  rname :: string
  rsize :: nat \<comment> \<open>in bits\<close>
  roffset :: nat

datatype Shift = kShiftInvalid | kShiftLeftWithZeroes | kShiftLeftWithOnes | kShiftUnsignedRight
  | kShiftSignedRight | kShiftLeftAround | kShiftRightAround

datatype Extend = kExtendInvalid | kExtendUnsigned | kExtendSigned

record ShiftRegister =
  sr_reg :: RemillRegister
  sr_shift_size :: nat
  sr_extract_size :: nat
  sr_shift_first :: bool
  sr_can_shift_op_size :: bool
  sr_shift_op :: Shift
  sr_extend_op :: Extend

record Address =
  ad_segment_base_reg :: RemillRegister
  ad_base_reg :: RemillRegister
  ad_index_reg :: RemillRegister
  ad_scale :: u64
  ad_displacement :: u64
  ad_address_size :: nat
  ad_kind :: u8

datatype llvm_opcode = I_Add | I_Sub | I_Mul | I_Shl | I_LShr | I_AShr | I_ZExt | I_SExt | I_Trunc
  | I_And | I_Or | I_URem | I_Xor | I_Other nat

text \<open>
  \<open>remill::OperandExpression\<close>: an operation with the bit width of its type (\<open>None\<close> when the
  type is null) and its operand pointers, a register (possibly null), an LLVM constant
  (\<open>None\<close> when it is not an integer constant, otherwise its width and value), a name.
\<close>

datatype OperandExpression =
    E_op llvm_opcode "nat option" "OperandExpression option" "OperandExpression option"
  | E_reg "(string \<times> nat) option"
  | E_const "(nat \<times> u64) option"
  | E_name string

datatype expr_type = kTypeExpression | kTypeRegisterExpression | kTypeImmediateExpression | kTypeAddressExpression

datatype operand_value =
    V_invalid
  | V_reg RemillRegister
  | V_shift ShiftRegister
  | V_imm u64 bool
  | V_addr Address
  | V_expr expr_type "OperandExpression option"

record RemillOperand =
  op_value :: operand_value \<comment> \<open>selected by \<open>type\<close>\<close>
  op_action_write :: bool
  op_size :: nat

section \<open>Register offsets\<close>

definition GetOffset_name :: "regoffs \<Rightarrow> string \<Rightarrow> nat res" where
  "GetOffset_name ro reg = (case ro reg of None \<Rightarrow> Inl Abort | Some off \<Rightarrow> Inr off)"

definition GetOffset :: "RemillRegister \<Rightarrow> nat res" where
  "GetOffset reg = (if roffset reg = 0 then Inl Abort else Inr (roffset reg))"

definition SetOffset :: "regoffs \<Rightarrow> bool \<Rightarrow> RemillRegister \<Rightarrow> RemillRegister res" where
  "SetOffset ro force reg =
     (if \<not> force \<and> rname reg = [] then Inr reg
      else res_bind (GetOffset_name ro (rname reg)) (\<lambda>off. Inr (reg\<lparr>roffset := off\<rparr>)))"

definition initOffsets :: "regoffs \<Rightarrow> RemillOperand \<Rightarrow> RemillOperand res" where
  "initOffsets ro op =
     (case op_value op of
        V_reg reg \<Rightarrow> res_bind (SetOffset ro True reg) (\<lambda>r. Inr (op\<lparr>op_value := V_reg r\<rparr>))
      | V_shift s \<Rightarrow> res_bind (SetOffset ro True (sr_reg s)) (\<lambda>r. Inr (op\<lparr>op_value := V_shift (s\<lparr>sr_reg := r\<rparr>)\<rparr>))
      | V_addr a \<Rightarrow>
          res_bind (SetOffset ro False (ad_segment_base_reg a)) (\<lambda>sg.
          res_bind (SetOffset ro False (ad_base_reg a)) (\<lambda>bs.
          res_bind (SetOffset ro False (ad_index_reg a)) (\<lambda>ix.
          Inr (op\<lparr>op_value := V_addr (a\<lparr>ad_segment_base_reg := sg, ad_base_reg := bs, ad_index_reg := ix\<rparr>)\<rparr>))))
      | _ \<Rightarrow> Inr op)"

section \<open>Values\<close>

definition LoadRegAddressRaw :: "u64 \<Rightarrow> RemillRegister \<Rightarrow> u64 res" where
  "LoadRegAddressRaw state reg = res_bind (GetOffset reg) (\<lambda>off. Inr (state + word_of_nat off))"

definition LoadRegValueRaw :: "mem \<Rightarrow> u64 \<Rightarrow> RemillRegister \<Rightarrow> u64 res" where
  "LoadRegValueRaw m state reg =
     res_bind (GetOffset reg) (\<lambda>off.
     let addr = state + word_of_nat off; num_bytes = (rsize reg + 7) div 8 in
     if 8 < num_bytes then Inr addr else Inr (load_upto64 m addr num_bytes))"

definition LoadWordRegValOrZeroRaw :: "mem \<Rightarrow> u64 \<Rightarrow> RemillRegister \<Rightarrow> nat \<Rightarrow> u64 res" where
  "LoadWordRegValOrZeroRaw m state reg word_size_bits =
     (if rname reg = [] then Inr 0
      else res_bind (LoadRegValueRaw m state reg) (\<lambda>val. Inr (MaskToBits val word_size_bits)))"

text \<open>The \<open>switch (op.shift_reg.shift_op)\<close>.\<close>

definition shift_value :: "Shift \<Rightarrow> u64 \<Rightarrow> u64 \<Rightarrow> nat \<Rightarrow> u64 res" where
  "shift_value sh reg shift_size op_sz =
     (let op_bits = as_unsigned op_sz; amount = (NOT shift_size + 1) AND (word_of_nat op_sz - 1) in
      case sh of
        kShiftInvalid \<Rightarrow> Inr reg
      | kShiftLeftWithZeroes \<Rightarrow> res_bind (shl reg shift_size) (\<lambda>v. Inr (MaskToBits v op_bits))
      | kShiftLeftWithOnes \<Rightarrow> res_bind (shl (NOT 0) shift_size) (\<lambda>ones. res_bind (shl reg shift_size) (\<lambda>v.
          Inr (MaskToBits (v OR NOT ones) op_bits)))
      | kShiftUnsignedRight \<Rightarrow> res_bind (shr reg shift_size) (\<lambda>v. Inr (MaskToBits v op_bits))
      | kShiftSignedRight \<Rightarrow> res_bind (sar (SignExtend reg op_bits) shift_size) (\<lambda>v. Inr (MaskToBits v op_bits))
      | kShiftLeftAround \<Rightarrow> res_bind (shr reg amount) (\<lambda>val1. res_bind (shl reg shift_size) (\<lambda>val2.
          Inr (MaskToBits (val1 OR val2) op_bits)))
      | kShiftRightAround \<Rightarrow> res_bind (shr reg shift_size) (\<lambda>val1. res_bind (shl reg amount) (\<lambda>val2.
          Inr (MaskToBits (val1 OR val2) op_bits))))"

text \<open>The extension before the shift: the value and \<open>curr_size\<close>.\<close>

definition extend_value :: "Extend \<Rightarrow> u64 \<Rightarrow> nat \<Rightarrow> nat \<Rightarrow> nat \<Rightarrow> (u64 \<times> nat) res" where
  "extend_value ex reg reg_size extract_sz op_sz =
     (if ex \<noteq> kExtendInvalid
      then let extract_size = as_unsigned extract_sz;
               (r, c) = (if extract_size < reg_size then (MaskToBits reg extract_size, extract_size) else (reg, reg_size))
           in if extract_sz < op_sz
              then case ex of
                     kExtendSigned \<Rightarrow> Inr (SignExtend r extract_size, as_unsigned op_sz)
                   | kExtendUnsigned \<Rightarrow> Inr (r, as_unsigned op_sz)
                   | _ \<Rightarrow> Inl Abort
              else Inr (r, c)
      else Inr (reg, reg_size))"

definition LiftShiftRegisterOperandRaw :: "mem \<Rightarrow> u64 \<Rightarrow> nat \<Rightarrow> ShiftRegister \<Rightarrow> u64 res" where
  "LiftShiftRegisterOperandRaw m state op_sz s =
     res_bind (LoadRegValueRaw m state (sr_reg s)) (\<lambda>reg.
     res_bind (extend_value (sr_extend_op s) reg (as_unsigned (rsize (sr_reg s))) (sr_extract_size s) op_sz)
       (\<lambda>(reg, curr_size).
     let reg = (if curr_size < op_sz then MaskToBits reg curr_size else reg) in
     res_bind (shift_value (sr_shift_op s) reg (word_of_nat (sr_shift_size s)) op_sz) (\<lambda>reg.
     Inr (if op_sz < 64 then MaskToBits reg (as_unsigned op_sz) else reg))))"

definition LiftRegisterOperandRaw :: "mem \<Rightarrow> u64 \<Rightarrow> RemillRegister \<Rightarrow> bool \<Rightarrow> u64 res" where
  "LiftRegisterOperandRaw m state reg ptr =
     (if ptr then LoadRegAddressRaw state reg else LoadRegValueRaw m state reg)"

definition LiftImmediateOperandRaw :: "nat \<Rightarrow> u64 \<Rightarrow> bool \<Rightarrow> u64" where
  "LiftImmediateOperandRaw op_sz val is_signed =
     (if is_signed then SignExtend val (as_unsigned op_sz) else MaskToBits val (as_unsigned op_sz))"

text \<open>Displacements are 64-bit two's complement; the negation of the least one wraps to itself.\<close>

definition LiftAddressOperandRaw :: "mem \<Rightarrow> u64 \<Rightarrow> Address \<Rightarrow> u64 res" where
  "LiftAddressOperandRaw m state a =
     res_bind (LoadWordRegValOrZeroRaw m state (ad_base_reg a) 64) (\<lambda>addr.
     res_bind (LoadWordRegValOrZeroRaw m state (ad_index_reg a) 64) (\<lambda>index.
     res_bind (LoadWordRegValOrZeroRaw m state (ad_segment_base_reg a) 64) (\<lambda>segment.
     let d = ad_displacement a;
         addr = (if index \<noteq> 0 then MaskToBits (addr + index * ad_scale a) 64 else addr);
         addr = (if d \<noteq> 0 then if 0 < sint d then MaskToBits (addr + d) 64 else MaskToBits (addr - (- d)) 64 else addr);
         addr = (if segment \<noteq> 0 then MaskToBits (addr + segment) 64 else addr)
     in Inr (if ad_address_size a < 64 then MaskToBits addr (as_unsigned (ad_address_size a)) else addr))))"

definition eval_llvm_op :: "llvm_opcode \<Rightarrow> nat option \<Rightarrow> u64 \<Rightarrow> u64 \<Rightarrow> u64 res" where
  "eval_llvm_op opc ty lhs rhs =
     (case opc of
        I_Add \<Rightarrow> Inr (lhs + rhs)
      | I_Sub \<Rightarrow> Inr (lhs - rhs)
      | I_Mul \<Rightarrow> Inr (lhs * rhs)
      | I_Shl \<Rightarrow> shl lhs rhs
      | I_LShr \<Rightarrow> shr lhs rhs
      | I_AShr \<Rightarrow> sar lhs rhs
      | I_ZExt \<Rightarrow> (case ty of None \<Rightarrow> Inl Undefined | Some w \<Rightarrow> Inr (MaskToBits lhs (as_unsigned w)))
      | I_SExt \<Rightarrow> (case ty of None \<Rightarrow> Inl Undefined | Some w \<Rightarrow> Inr (SignExtend lhs (as_unsigned w)))
      | I_Trunc \<Rightarrow> (case ty of None \<Rightarrow> Inl Undefined | Some w \<Rightarrow> Inr (MaskToBits lhs (as_unsigned w)))
      | I_And \<Rightarrow> Inr (lhs AND rhs)
      | I_Or \<Rightarrow> Inr (lhs OR rhs)
      | I_URem \<Rightarrow> Inr (if rhs \<noteq> 0 then lhs mod rhs else 0)
      | I_Xor \<Rightarrow> Inr (lhs XOR rhs)
      | I_Other _ \<Rightarrow> Inl Abort)"

fun LiftExpressionOperandRecRaw :: "regoffs \<Rightarrow> mem \<Rightarrow> u64 \<Rightarrow> OperandExpression option \<Rightarrow> u64 res" where
  "LiftExpressionOperandRecRaw ro m state None = Inl Undefined"
| "LiftExpressionOperandRecRaw ro m state (Some (E_op opc ty op1 op2)) =
     res_bind (LiftExpressionOperandRecRaw ro m state op1) (\<lambda>lhs.
     res_bind (case op2 of None \<Rightarrow> Inr 0 | Some e \<Rightarrow> LiftExpressionOperandRecRaw ro m state (Some e)) (\<lambda>rhs.
     eval_llvm_op opc ty lhs rhs))"
| "LiftExpressionOperandRecRaw ro m state (Some (E_reg r)) =
     (case r of None \<Rightarrow> Inl Undefined
      | Some (name, sz) \<Rightarrow>
          res_bind (SetOffset ro True \<lparr>rname = name, rsize = sz, roffset = 0\<rparr>) (LoadRegValueRaw m state))"
| "LiftExpressionOperandRecRaw ro m state (Some (E_const c)) =
     (case c of None \<Rightarrow> Inl Abort | Some (w, v) \<Rightarrow> if 64 < w then Inl Abort else Inr v)"
| "LiftExpressionOperandRecRaw ro m state (Some (E_name name)) =
     (case name of [] \<Rightarrow> Inl Abort
      | ch # _ \<Rightarrow>
          res_bind (SetOffset ro True \<lparr>rname = name, rsize = (if ch = CHR ''w'' then 32 else 64), roffset = 0\<rparr>)
            (LoadRegValueRaw m state))"

text \<open>The \<open>switch (optr->type)\<close> of \<open>interpRemill\<close>.\<close>

definition LiftOperandRaw :: "regoffs \<Rightarrow> mem \<Rightarrow> u64 \<Rightarrow> RemillOperand \<Rightarrow> bool \<Rightarrow> u64 res" where
  "LiftOperandRaw ro m state op ptr =
     (case op_value op of
        V_reg reg \<Rightarrow> LiftRegisterOperandRaw m state reg ptr
      | V_shift s \<Rightarrow> LiftShiftRegisterOperandRaw m state (op_size op) s
      | V_imm val sg \<Rightarrow> Inr (LiftImmediateOperandRaw (op_size op) val sg)
      | V_addr a \<Rightarrow> LiftAddressOperandRaw m state a
      | V_expr _ e \<Rightarrow> LiftExpressionOperandRecRaw ro m state e
      | V_invalid \<Rightarrow> Inl Abort)"

section \<open>Operand identity\<close>

text \<open>
  The key of the shared operand table.  \<open>code\<close> gives the enumerator values of
  \<open>Operand::Type\<close>, \<open>hash_shift\<close>, \<open>hash_addr\<close> and \<open>hash_names\<close> the library hash of
  the fields from \<open>shift_size\<close> to \<open>extend_op\<close>, of those from \<open>scale\<close> to \<open>kind\<close>, and of a
  string, \<open>expr_ptr\<close> the address of an expression.
\<close>

record id_env =
  id_code :: "operand_value \<Rightarrow> u64"
  id_hash_shift :: "ShiftRegister \<Rightarrow> u64"
  id_hash_addr :: "Address \<Rightarrow> u64"
  id_hash_names :: "string \<Rightarrow> u64"
  id_expr_ptr :: "OperandExpression option \<Rightarrow> u64"

definition name_low :: "string \<Rightarrow> u64" where
  "name_low name = word_of_nat (le_val (map (\<lambda>c. word_of_nat (of_char c)) (take 8 name)))"

definition operand_ID :: "id_env \<Rightarrow> RemillOperand \<Rightarrow> bool \<Rightarrow> uint128_var_t" where
  "operand_ID I op pointer =
     (let hi = push_bit 60 (id_code I (op_value op)) OR push_bit 63 (of_bool (op_action_write op)) in
      case op_value op of
        V_invalid \<Rightarrow> U128 0 hi
      | V_reg reg \<Rightarrow> U128 (name_low (rname reg) OR push_bit 31 (of_bool pointer)) hi
      | V_shift s \<Rightarrow> U128 (name_low (rname (sr_reg s)) OR push_bit 24 (id_hash_shift I s)) hi
      | V_imm val sg \<Rightarrow> U128 val (of_bool sg OR hi)
      | V_addr a \<Rightarrow> U128 (id_hash_names I (rname (ad_segment_base_reg a) @ rname (ad_base_reg a) @ rname (ad_index_reg a)))
          (push_bit 28 (id_hash_addr I a AND 0xFFFFFFFF) OR hi)
      | V_expr _ e \<Rightarrow> U128 (id_expr_ptr I e) hi)"

section \<open>Masking and sign extension\<close>

lemma MaskToBits_take_bit: "MaskToBits v b = take_bit b v"
proof (cases "b < 64")
  case True
  have "push_bit b (1 :: u64) - 1 = mask b" by (simp add: mask_eq_decr_exp push_bit_of_1)
  with True show ?thesis by (simp add: MaskToBits_def take_bit_eq_mask)
next
  case False
  have "take_bit b v = v" by (rule bit_word_eqI) (use False in \<open>simp add: bit_simps\<close>)
  with False show ?thesis by (simp add: MaskToBits_def)
qed

lemma SignExtend_signed_take_bit:
  assumes "0 < b" and "b \<le> 64"
  shows "SignExtend v b = signed_take_bit (b - 1) v"
proof (cases "b = 64")
  case True
  have "signed_take_bit 63 v = v"
  proof (rule bit_word_eqI)
    fix i assume "i < LENGTH(64)"
    then show "bit (signed_take_bit 63 v) i = bit v i" by (cases "i = 63") (auto simp: bit_simps min_def)
  qed
  with True show ?thesis by (simp add: SignExtend_def)
next
  case False
  define n where "n = b - 1"
  have n: "b = Suc n" "n < 63" using assms False by (auto simp: n_def)
  have sb: "(2 :: u64) ^ n = push_bit n 1" by (simp add: push_bit_of_1)
  show ?thesis
  proof (cases "bit v n")
    case True
    have x: "take_bit (Suc n) v XOR 2 ^ n = take_bit n v"
      by (rule bit_word_eqI) (use True n in \<open>auto simp: bit_simps less_Suc_eq\<close>)
    have s: "signed_take_bit n v = take_bit n v OR NOT (mask n)"
      by (rule bit_word_eqI) (use True n in \<open>auto simp: bit_simps min_def\<close>)
    have "take_bit n v OR NOT (mask n) = take_bit n v + NOT (mask n)"
      by (rule disjunctive_add_eq_or [symmetric]) (rule bit_word_eqI, auto simp: bit_simps)
    also have "\<dots> = take_bit n v - 2 ^ n" by (simp flip: minus_exp_eq_not_mask)
    finally show ?thesis using n x s by (simp add: SignExtend_def MaskToBits_take_bit sb [symmetric])
  next
    case False
    have x: "take_bit (Suc n) v XOR 2 ^ n = take_bit n v OR 2 ^ n"
      by (rule bit_word_eqI) (use False n in \<open>auto simp: bit_simps less_Suc_eq\<close>)
    have "take_bit n v OR 2 ^ n = take_bit n v + 2 ^ n"
      by (rule disjunctive_add_eq_or [symmetric]) (rule bit_word_eqI, auto simp: bit_simps)
    moreover have "signed_take_bit n v = take_bit n v"
      by (rule bit_word_eqI) (use False n in \<open>auto simp: bit_simps min_def\<close>)
    ultimately show ?thesis using n x by (simp add: SignExtend_def MaskToBits_take_bit sb [symmetric])
  qed
qed

section \<open>Rotations\<close>

definition rot_amount :: "nat \<Rightarrow> nat \<Rightarrow> u64" where
  "rot_amount n s = (NOT (word_of_nat s) + 1) AND (word_of_nat n - 1)"

lemma rot_amount_table:
  "list_all (\<lambda>k. list_all (\<lambda>s. rot_amount (2 ^ k) s = word_of_nat ((2 ^ k - s) mod 2 ^ k)) [0..<2 ^ k]) [0..<7]"
  by code_simp

lemma rot_amount_eq: "k \<le> 6 \<Longrightarrow> s < 2 ^ k \<Longrightarrow> rot_amount (2 ^ k) s = word_of_nat ((2 ^ k - s) mod 2 ^ k)"
  using rot_amount_table unfolding list_all_iff by simp

lemma pow2_le_64: "k \<le> 6 \<Longrightarrow> (2 :: nat) ^ k \<le> 64"
  using power_increasing [of k 6 "2 :: nat"] by simp

lemma rotate_right_bits:
  fixes r :: u64
  assumes k: "k \<le> 6" and s: "s < 2 ^ k" and r: "take_bit (2 ^ k) r = r" and i: "i < 2 ^ k"
  defines "a \<equiv> (2 ^ k - s) mod 2 ^ k"
  shows "bit (drop_bit s r OR push_bit a r) i = bit r ((i + s) mod 2 ^ k)"
proof -
  have n: "(2 :: nat) ^ k \<le> 64" by (rule pow2_le_64 [OF k])
  have hi: "\<not> bit r j" if "2 ^ k \<le> j" for j
    using r that by (metis bit_take_bit_iff not_less)
  show ?thesis
  proof (cases "s = 0")
    case True
    with i n show ?thesis by (simp add: a_def bit_simps)
  next
    case False
    then have a: "a = 2 ^ k - s" using s by (simp add: a_def)
    show ?thesis
    proof (cases "i + s < 2 ^ k")
      case True
      then have "i < a" using a by simp
      with True i n show ?thesis by (simp add: bit_simps add.commute)
    next
      case False
      then have "(i + s) mod 2 ^ k = i + s - 2 ^ k" using i s by (simp add: mod_if)
      moreover have "i - a = i + s - 2 ^ k" "a \<le> i" using False a s by simp_all
      ultimately show ?thesis using False i n hi [of "s + i"] by (simp add: bit_simps)
    qed
  qed
qed

lemma rotate_left_bits:
  fixes r :: u64
  assumes k: "k \<le> 6" and s: "s < 2 ^ k" and r: "take_bit (2 ^ k) r = r" and i: "i < 2 ^ k"
  defines "a \<equiv> (2 ^ k - s) mod 2 ^ k"
  shows "bit (drop_bit a r OR push_bit s r) i = bit r ((i + (2 ^ k - s)) mod 2 ^ k)"
proof (cases "s = 0")
  case True
  with i pow2_le_64 [OF k] show ?thesis by (simp add: a_def bit_simps)
next
  case False
  then have a: "a = 2 ^ k - s" "a < 2 ^ k" "(2 ^ k - a) mod 2 ^ k = s" using s by (simp_all add: a_def)
  show ?thesis using rotate_right_bits [OF k a(2) r i] a by simp
qed

text \<open>Bit \<open>i\<close> of the result of a shift by \<open>s\<close> of an \<open>n\<close>-bit value.\<close>

definition shift_bit :: "Shift \<Rightarrow> nat \<Rightarrow> nat \<Rightarrow> u64 \<Rightarrow> nat \<Rightarrow> bool" where
  "shift_bit sh n s r i =
     (case sh of
        kShiftInvalid \<Rightarrow> bit r i
      | kShiftLeftWithZeroes \<Rightarrow> s \<le> i \<and> bit r (i - s)
      | kShiftLeftWithOnes \<Rightarrow> i < s \<or> bit r (i - s)
      | kShiftUnsignedRight \<Rightarrow> bit r (s + i)
      | kShiftSignedRight \<Rightarrow> bit r (min (i + s) (n - 1))
      | kShiftLeftAround \<Rightarrow> bit r ((i + (n - s)) mod n)
      | kShiftRightAround \<Rightarrow> bit r ((i + s) mod n))"

lemma shift_value_eq:
  assumes "k \<le> 6" and "s < 2 ^ k"
  shows "shift_value sh r (word_of_nat s) (2 ^ k) = Inr (case sh of
        kShiftInvalid \<Rightarrow> r
      | kShiftLeftWithZeroes \<Rightarrow> take_bit (2 ^ k) (push_bit s r)
      | kShiftLeftWithOnes \<Rightarrow> take_bit (2 ^ k) (push_bit s r OR NOT (push_bit s (NOT 0)))
      | kShiftUnsignedRight \<Rightarrow> take_bit (2 ^ k) (drop_bit s r)
      | kShiftSignedRight \<Rightarrow> take_bit (2 ^ k) (signed_drop_bit s (signed_take_bit (2 ^ k - 1) r))
      | kShiftLeftAround \<Rightarrow> take_bit (2 ^ k) (drop_bit ((2 ^ k - s) mod 2 ^ k) r OR push_bit s r)
      | kShiftRightAround \<Rightarrow> take_bit (2 ^ k) (drop_bit s r OR push_bit ((2 ^ k - s) mod 2 ^ k) r))"
proof -
  have n: "(2 :: nat) ^ k \<le> 64" by (rule pow2_le_64 [OF assms(1)])
  have u: "unat (word_of_nat j :: u64) = j" "(word_of_nat j :: u64) < 64" if "j < 2 ^ k" for j
    using that n by (simp_all add: unat_word_of_nat64 word_less_nat_alt)
  have b: "as_unsigned (2 ^ k) = 2 ^ k" using n by (simp add: as_unsigned_def)
  have amt: "(NOT (word_of_nat s) + 1) AND (word_of_nat (2 ^ k) - 1) = (word_of_nat ((2 ^ k - s) mod 2 ^ k) :: u64)"
    using rot_amount_eq [OF assms] unfolding rot_amount_def .
  show ?thesis
    unfolding shift_value_def Let_def amt b
    using u [OF assms(2)] u [of "(2 ^ k - s) mod 2 ^ k"] n
    by (cases sh) (simp_all add: shl_def shr_def sar_def MaskToBits_take_bit SignExtend_signed_take_bit)
qed

lemma sar_bits:
  fixes r :: u64
  assumes "m \<le> 63" and "i \<le> m"
  shows "bit (signed_drop_bit s (signed_take_bit m r)) i = bit r (min (i + s) m)"
proof (cases "64 - s \<le> i")
  case True
  then have "min (i + s) m = m" "min m 63 = m" using assms by auto
  with True assms show ?thesis
    by (simp only: bit_signed_drop_bit_iff bit_signed_take_bit_iff) (simp add: possible_bit_word)
next
  case False
  then have "min m (s + i) = min (i + s) m" "s + i < 64" by auto
  with False show ?thesis
    by (simp only: bit_signed_drop_bit_iff bit_signed_take_bit_iff) (simp add: possible_bit_word)
qed

lemma shift_value_bits:
  assumes k: "k \<le> 6" and s: "s < 2 ^ k" and r: "take_bit (2 ^ k) r = r"
  shows "\<exists>v. shift_value sh r (word_of_nat s) (2 ^ k) = Inr v \<and> take_bit (2 ^ k) v = v \<and>
     (\<forall>i < 2 ^ k. bit v i = shift_bit sh (2 ^ k) s r i)"
proof -
  have n: "(2 :: nat) ^ k \<le> 64" by (rule pow2_le_64 [OF k])
  have hi: "\<not> bit r j" if "2 ^ k \<le> j" for j
    using r that by (metis bit_take_bit_iff not_less)
  show ?thesis
  proof (cases sh)
    case kShiftSignedRight
    have "bit (signed_drop_bit s (signed_take_bit (2 ^ k - 1) r)) i = bit r (min (i + s) (2 ^ k - 1))"
      if "i < 2 ^ k" for i
      using n s that by (intro sar_bits) auto
    with kShiftSignedRight show ?thesis using n s unfolding shift_value_eq [OF k s]
      by (auto simp: shift_bit_def bit_take_bit_iff)
  qed (use n s r rotate_right_bits [OF k s r] rotate_left_bits [OF k s r] in
      \<open>auto simp: shift_value_eq [OF k s] shift_bit_def bit_simps\<close>)
qed

section \<open>Properties\<close>

text \<open>
  A shifted register operand of 1 to 64 bits (a power of two) and a shift amount below its width
  never fails, and every bit of the result is the one the shift kind names: both logical
  shifts, the one-filling left shift, the arithmetic shift from the operand's own sign bit
  and both rotations within the operand's width.
\<close>

lemma shift_operand_bits:
  assumes "k \<le> 6" and "s < 2 ^ k" and "take_bit (2 ^ k) r = r"
  shows "\<exists>v. shift_value sh r (word_of_nat s) (2 ^ k) = Inr v \<and> take_bit (2 ^ k) v = v \<and>
     (\<forall>i < 2 ^ k. bit v i = shift_bit sh (2 ^ k) s r i)"
  using assms by (rule shift_value_bits)


text \<open>
  \<open>MaskToBits\<close> keeps exactly the low bits, and \<open>SignExtend\<close> copies bit \<open>b - 1\<close> into
  every higher bit: as a signed 64-bit number its result is the \<open>b\<close>-bit two's complement
  reading of the low \<open>b\<close> bits.
\<close>

lemma mask_and_sign_extend:
  assumes "0 < b" and "b \<le> 64"
  shows "unat (MaskToBits v b) = unat v mod 2 ^ b \<and> sint (SignExtend v b) = signed_take_bit (b - 1) (uint v)"
proof
  show "unat (MaskToBits v b) = unat v mod 2 ^ b"
    by (simp add: MaskToBits_take_bit unsigned_take_bit_eq take_bit_nat_def)
  have "sint (signed_take_bit (b - 1) v) = signed_take_bit (b - 1) (uint v)"
    using assms
    by (intro bit_eqI) (auto simp: bit_simps min_def)
  then show "sint (SignExtend v b) = signed_take_bit (b - 1) (uint v)"
    by (simp add: SignExtend_signed_take_bit [OF assms])
qed


text \<open>
  The identity under which operands are shared ignores the width of an immediate:
  the signed immediates \<open>0xFF\<close> of 8 and of 16 bits have the same identity for every choice of
  the hash functions, and different values (\<open>-1\<close> and \<open>255\<close>).
\<close>

lemma operand_ID_ignores_immediate_width:
  "operand_ID I \<lparr>op_value = V_imm 0xFF True, op_action_write = False, op_size = 8\<rparr> p =
     operand_ID I \<lparr>op_value = V_imm 0xFF True, op_action_write = False, op_size = 16\<rparr> p \<and>
   LiftImmediateOperandRaw 8 0xFF True = - 1 \<and> LiftImmediateOperandRaw 16 0xFF True = 0xFF"
proof -
  have "LiftImmediateOperandRaw 8 0xFF True = - 1 \<and> LiftImmediateOperandRaw 16 0xFF True = 0xFF"
    by (simp add: LiftImmediateOperandRaw_def SignExtend_def MaskToBits_def as_unsigned_def)
  then show ?thesis by (simp add: operand_ID_def)
qed

end
