(* ===== verification/MetaOperand.thy ===== *)
theory MetaOperand
  imports OperandLift
begin

text \<open>
  Operands in metadata form: the fixed-width structures of \<open>src/IMetaData.h\<close>, their
  construction from Remill operands (\<open>ConvertExpression\<close>, \<open>ConvertOperand\<close> and
  \<open>convertOperands\<close> of \<open>src/OpcodeEngine.cpp\<close>), and their evaluation by the metadata
  interpreter (\<open>src/InterpMetaData.cpp\<close>).  Expression trees become nodes of one table that
  refer to each other by index; the evaluation of an arbitrary table may not end, so it takes
  fuel, and the theorems give the amount that is enough for a converted expression.
\<close>

section \<open>Structures\<close>

record md_reg =
  mr_offset :: u16
  mr_size :: u16

text \<open>\<open>IMetaData::Expression\<close>: the union by its kind; an operation with opcode and width bytes.\<close>

datatype md_expr =
    kInvalid
  | kOperation u32 u32 llvm_opcode u8
  | kRegister md_reg
  | kConstant u32 u32 u8

definition no_child :: u32 where
  "no_child = - 1"

record md_shift =
  ms_reg :: md_reg
  ms_shift_size :: u8
  ms_extract_size :: u8
  ms_shift_first :: bool
  ms_can_shift_op_size :: bool
  ms_shift_op :: Shift
  ms_extend_op :: Extend

record md_address =
  ma_reg0 :: md_reg
  ma_reg1 :: md_reg
  ma_reg2 :: md_reg
  ma_scale :: u64
  ma_displacement :: u64
  ma_address_size :: u8
  ma_kind :: u8

datatype md_value =
    MV_invalid
  | MV_reg md_reg
  | MV_shift md_shift
  | MV_imm u64 bool
  | MV_addr md_address
  | MV_expr expr_type md_expr

record md_operand =
  mo_size :: u16
  mo_action_write :: bool
  mo_value :: md_value

section \<open>Conversion\<close>

definition append_child :: "md_expr list \<times> md_expr \<Rightarrow> string + md_expr list \<times> u32" where
  "append_child nc =
     (if unat no_child \<le> length (fst nc) then Inl ''too many Remill operand expression nodes''
      else Inr (fst nc @ [snd nc], word_of_nat (length (fst nc))))"

definition opcode_value :: "llvm_opcode \<Rightarrow> nat" where
  "opcode_value opc = (case opc of I_Other n \<Rightarrow> n | _ \<Rightarrow> 0)"

fun ConvertExpression :: "regoffs \<Rightarrow> OperandExpression option \<Rightarrow> md_expr list \<Rightarrow> string + md_expr list \<times> md_expr" where
  "ConvertExpression ro None nodes = Inl ''null Remill operand expression''"
| "ConvertExpression ro (Some (E_op opc ty op1 op2)) nodes =
     (if 255 < opcode_value opc then Inl ''LLVM opcode does not fit in expression metadata''
      else res_bind (res_bind (ConvertExpression ro op1 nodes) append_child) (\<lambda>(nodes1, lhs).
           res_bind (case op2 of None \<Rightarrow> Inr (nodes1, no_child)
                     | Some e \<Rightarrow> res_bind (ConvertExpression ro (Some e) nodes1) append_child) (\<lambda>(nodes2, rhs).
           case ty of None \<Rightarrow> Inr (nodes2, kOperation lhs rhs opc 0)
           | Some w \<Rightarrow> if 255 < w then Inl ''expression width does not fit in metadata''
                       else Inr (nodes2, kOperation lhs rhs opc (word_of_nat w)))))"
| "ConvertExpression ro (Some (E_reg r)) nodes =
     (case r of None \<Rightarrow> Inl ''null register in Remill operand expression''
      | Some (name, sz) \<Rightarrow>
          (case ro name of None \<Rightarrow> Inl (''unknown register in Remill operand expression: '' @ name)
           | Some off \<Rightarrow>
               if 65535 < off \<or> 65535 < sz
               then Inl (''register offset or size does not fit in expression metadata: '' @ name)
               else Inr (nodes, kRegister \<lparr>mr_offset = word_of_nat off, mr_size = word_of_nat sz\<rparr>)))"
| "ConvertExpression ro (Some (E_const c)) nodes =
     (case c of None \<Rightarrow> Inl ''unsupported constant in Remill operand expression''
      | Some (w, v) \<Rightarrow>
          if 64 < w then Inl ''unsupported constant in Remill operand expression''
          else Inr (nodes, kConstant (ucast v) (ucast (drop_bit 32 v)) (word_of_nat w)))"
| "ConvertExpression ro (Some (E_name name)) nodes =
     (case name of [] \<Rightarrow> Inl ''empty register name in Remill operand expression''
      | ch # _ \<Rightarrow>
          (case ro name of None \<Rightarrow> Inl (''unknown register in Remill operand expression: '' @ name)
           | Some off \<Rightarrow>
               if 65535 < off then Inl (''register offset does not fit in expression metadata: '' @ name)
               else Inr (nodes, kRegister \<lparr>mr_offset = word_of_nat off,
                                           mr_size = (if ch = CHR ''w'' then 32 else 64)\<rparr>)))"

definition convert_register :: "RemillRegister \<Rightarrow> string + md_reg" where
  "convert_register reg =
     (if 65535 < roffset reg \<or> 65535 < rsize reg
      then Inl (''Remill register offset or size does not fit in metadata: '' @ rname reg)
      else Inr \<lparr>mr_offset = word_of_nat (roffset reg), mr_size = word_of_nat (rsize reg)\<rparr>)"

definition convert_named :: "RemillRegister \<Rightarrow> string + md_reg" where
  "convert_named reg = (if rname reg = [] then Inr \<lparr>mr_offset = 0, mr_size = 0\<rparr> else convert_register reg)"

definition fits_u8 :: "nat \<Rightarrow> string \<Rightarrow> string + unit" where
  "fits_u8 value field =
     (if value \<le> 255 then Inr () else Inl (''Remill operand '' @ field @ '' does not fit in metadata''))"

definition ConvertOperand :: "regoffs \<Rightarrow> RemillOperand \<Rightarrow> md_expr list \<Rightarrow> string + md_expr list \<times> md_operand" where
  "ConvertOperand ro op nodes =
     (let mk = (\<lambda>nodes v. Inr (nodes, \<lparr>mo_size = word_of_nat (op_size op), mo_action_write = op_action_write op, mo_value = v\<rparr>))
      in case op_value op of
           V_invalid \<Rightarrow> mk nodes MV_invalid
         | V_reg reg \<Rightarrow> res_bind (convert_register reg) (\<lambda>r. mk nodes (MV_reg r))
         | V_shift s \<Rightarrow>
             res_bind (fits_u8 (sr_shift_size s) ''shift size'') (\<lambda>_.
             res_bind (fits_u8 (sr_extract_size s) ''extract size'') (\<lambda>_.
             res_bind (convert_register (sr_reg s)) (\<lambda>r.
             mk nodes (MV_shift \<lparr>ms_reg = r, ms_shift_size = word_of_nat (sr_shift_size s),
               ms_extract_size = word_of_nat (sr_extract_size s), ms_shift_first = sr_shift_first s,
               ms_can_shift_op_size = sr_can_shift_op_size s, ms_shift_op = sr_shift_op s, ms_extend_op = sr_extend_op s\<rparr>))))
         | V_imm val sg \<Rightarrow> mk nodes (MV_imm val sg)
         | V_addr a \<Rightarrow>
             res_bind (fits_u8 (ad_address_size a) ''address size'') (\<lambda>_.
             res_bind (convert_named (ad_segment_base_reg a)) (\<lambda>r0.
             res_bind (convert_named (ad_base_reg a)) (\<lambda>r1.
             res_bind (convert_named (ad_index_reg a)) (\<lambda>r2.
             mk nodes (MV_addr \<lparr>ma_reg0 = r0, ma_reg1 = r1, ma_reg2 = r2, ma_scale = ad_scale a,
               ma_displacement = ad_displacement a, ma_address_size = word_of_nat (ad_address_size a),
               ma_kind = ad_kind a\<rparr>)))))
         | V_expr t e \<Rightarrow> res_bind (ConvertExpression ro e nodes) (\<lambda>(nodes', x). mk nodes' (MV_expr t x)))"

fun convertOperands_loop :: "regoffs \<Rightarrow> RemillOperand list \<Rightarrow> md_expr list \<Rightarrow> md_operand list \<Rightarrow>
    string + md_operand list \<times> md_expr list" where
  "convertOperands_loop ro [] nodes md = Inr (md, nodes)"
| "convertOperands_loop ro (op # ops) nodes md =
     res_bind (ConvertOperand ro op nodes) (\<lambda>(nodes', mo). convertOperands_loop ro ops nodes' (md @ [mo]))"

definition convertOperands :: "regoffs \<Rightarrow> RemillOperand list \<Rightarrow> string + md_operand list \<times> md_expr list" where
  "convertOperands ro ops = convertOperands_loop ro ops [] []"

section \<open>Evaluation\<close>

definition md_LoadRegValueRaw :: "mem \<Rightarrow> u64 \<Rightarrow> md_reg \<Rightarrow> u64" where
  "md_LoadRegValueRaw m state reg =
     (let address = state + ucast (mr_offset reg); num_bytes = (unat (mr_size reg) + 7) div 8 in
      if 8 < num_bytes then address else load_upto64 m address num_bytes)"

definition md_LoadWordRegValOrZeroRaw :: "mem \<Rightarrow> u64 \<Rightarrow> md_reg \<Rightarrow> nat \<Rightarrow> u64" where
  "md_LoadWordRegValOrZeroRaw m state reg word_size_bits =
     (if mr_size reg = 0 then 0 else MaskToBits (md_LoadRegValueRaw m state reg) word_size_bits)"

definition md_shift_value :: "Shift \<Rightarrow> u64 \<Rightarrow> u8 \<Rightarrow> u16 \<Rightarrow> u64 res" where
  "md_shift_value sh reg ssz osz =
     (let shift_size = ucast ssz; op_bits = unat osz; amount = (NOT shift_size + 1) AND (ucast osz - 1) in
      case sh of
        kShiftLeftWithZeroes \<Rightarrow> res_bind (shl reg shift_size) (\<lambda>v. Inr (MaskToBits v op_bits))
      | kShiftLeftWithOnes \<Rightarrow> res_bind (shl (NOT 0) shift_size) (\<lambda>ones. res_bind (shl reg shift_size) (\<lambda>v.
          Inr (MaskToBits (v OR NOT ones) op_bits)))
      | kShiftUnsignedRight \<Rightarrow> res_bind (shr reg shift_size) (\<lambda>v. Inr (MaskToBits v op_bits))
      | kShiftSignedRight \<Rightarrow> res_bind (sar (SignExtend reg op_bits) shift_size) (\<lambda>v. Inr (MaskToBits v op_bits))
      | kShiftLeftAround \<Rightarrow> res_bind (shr reg amount) (\<lambda>val1. res_bind (shl reg shift_size) (\<lambda>val2.
          Inr (MaskToBits (val1 OR val2) op_bits)))
      | kShiftRightAround \<Rightarrow> res_bind (shr reg shift_size) (\<lambda>val1. res_bind (shl reg amount) (\<lambda>val2.
          Inr (MaskToBits (val1 OR val2) op_bits)))
      | kShiftInvalid \<Rightarrow> Inr reg)"

definition md_LiftShiftRegisterOperandRaw :: "mem \<Rightarrow> u64 \<Rightarrow> u16 \<Rightarrow> md_shift \<Rightarrow> u64 res" where
  "md_LiftShiftRegisterOperandRaw m state osz s =
     (let reg = md_LoadRegValueRaw m state (ms_reg s);
          size_r = unat (mr_size (ms_reg s));
          extract_size = unat (ms_extract_size s)
      in res_bind
           (if ms_extend_op s \<noteq> kExtendInvalid
            then let (r, c) = (if extract_size < size_r then (MaskToBits reg extract_size, extract_size) else (reg, size_r))
                 in if extract_size < unat osz
                    then case ms_extend_op s of
                           kExtendSigned \<Rightarrow> Inr (SignExtend r extract_size, unat osz)
                         | kExtendUnsigned \<Rightarrow> Inr (r, unat osz)
                         | _ \<Rightarrow> Inl Abort
                    else Inr (r, c)
            else Inr (reg, size_r)) (\<lambda>(reg, curr_size).
         let reg = (if curr_size < unat osz then MaskToBits reg curr_size else reg) in
         res_bind (md_shift_value (ms_shift_op s) reg (ms_shift_size s) osz) (\<lambda>reg.
         Inr (if unat osz < 64 then MaskToBits reg (unat osz) else reg))))"

definition md_LiftAddressOperandRaw :: "mem \<Rightarrow> u64 \<Rightarrow> md_address \<Rightarrow> u64" where
  "md_LiftAddressOperandRaw m state a =
     (let segment = md_LoadWordRegValOrZeroRaw m state (ma_reg0 a) 64;
          value = md_LoadWordRegValOrZeroRaw m state (ma_reg1 a) 64;
          index = md_LoadWordRegValOrZeroRaw m state (ma_reg2 a) 64;
          d = ma_displacement a;
          value = (if index \<noteq> 0 then MaskToBits (value + index * ma_scale a) 64 else value);
          value = (if d \<noteq> 0 then if 0 < sint d then MaskToBits (value + d) 64 else MaskToBits (value - (- d)) 64 else value);
          value = (if segment \<noteq> 0 then MaskToBits (value + segment) 64 else value)
      in if unat (ma_address_size a) < 64 then MaskToBits value (unat (ma_address_size a)) else value)"

definition md_eval_op :: "llvm_opcode \<Rightarrow> u8 \<Rightarrow> u64 \<Rightarrow> u64 \<Rightarrow> u64 res" where
  "md_eval_op opc width lhs rhs =
     (case opc of
        I_Add \<Rightarrow> Inr (lhs + rhs)
      | I_Sub \<Rightarrow> Inr (lhs - rhs)
      | I_Mul \<Rightarrow> Inr (lhs * rhs)
      | I_Shl \<Rightarrow> shl lhs rhs
      | I_LShr \<Rightarrow> shr lhs rhs
      | I_AShr \<Rightarrow> sar lhs rhs
      | I_ZExt \<Rightarrow> Inr (MaskToBits lhs (unat width))
      | I_Trunc \<Rightarrow> Inr (MaskToBits lhs (unat width))
      | I_SExt \<Rightarrow> Inr (SignExtend lhs (unat width))
      | I_And \<Rightarrow> Inr (lhs AND rhs)
      | I_Or \<Rightarrow> Inr (lhs OR rhs)
      | I_URem \<Rightarrow> Inr (if rhs \<noteq> 0 then lhs mod rhs else 0)
      | I_Xor \<Rightarrow> Inr (lhs XOR rhs)
      | I_Other _ \<Rightarrow> Inl Abort)"

text \<open>\<open>None\<close>: out of fuel.\<close>

definition md_bind :: "u64 res option \<Rightarrow> (u64 \<Rightarrow> u64 res option) \<Rightarrow> u64 res option" where
  "md_bind r f = (case r of None \<Rightarrow> None | Some (Inl e) \<Rightarrow> Some (Inl e) | Some (Inr x) \<Rightarrow> f x)"

fun md_LiftExpression :: "nat \<Rightarrow> mem \<Rightarrow> u64 \<Rightarrow> md_expr list \<Rightarrow> md_expr \<Rightarrow> u64 res option" where
  "md_LiftExpression 0 m state T x = None"
| "md_LiftExpression (Suc fuel) m state T x =
     (case x of
        kOperation l r opc w \<Rightarrow>
          md_bind (case arr_at T (unat l) of Inl e \<Rightarrow> Some (Inl e) | Inr y \<Rightarrow> md_LiftExpression fuel m state T y) (\<lambda>lhs.
          md_bind (if r \<noteq> no_child
                   then case arr_at T (unat r) of Inl e \<Rightarrow> Some (Inl e) | Inr y \<Rightarrow> md_LiftExpression fuel m state T y
                   else Some (Inr 0)) (\<lambda>rhs.
          Some (md_eval_op opc w lhs rhs)))
      | kRegister reg \<Rightarrow> Some (Inr (md_LoadRegValueRaw m state reg))
      | kConstant lo hi w \<Rightarrow> Some (Inr (push_bit 32 (ucast hi) OR ucast lo))
      | kInvalid \<Rightarrow> Some (Inl Abort))"

definition md_LiftOperandRaw :: "nat \<Rightarrow> mem \<Rightarrow> u64 \<Rightarrow> md_expr list \<Rightarrow> md_operand \<Rightarrow> bool \<Rightarrow> u64 res option" where
  "md_LiftOperandRaw fuel m state T mo pointer =
     (case mo_value mo of
        MV_reg reg \<Rightarrow> Some (Inr (if pointer then state + ucast (mr_offset reg) else md_LoadRegValueRaw m state reg))
      | MV_shift s \<Rightarrow> Some (md_LiftShiftRegisterOperandRaw m state (mo_size mo) s)
      | MV_imm value sg \<Rightarrow> Some (Inr (if sg then SignExtend value (unat (mo_size mo)) else MaskToBits value (unat (mo_size mo))))
      | MV_addr a \<Rightarrow> Some (Inr (md_LiftAddressOperandRaw m state a))
      | MV_expr _ x \<Rightarrow> md_LiftExpression fuel m state T x
      | MV_invalid \<Rightarrow> Some (Inl Abort))"

section \<open>Expressions\<close>

fun expr_depth :: "OperandExpression option \<Rightarrow> nat" where
  "expr_depth None = 0"
| "expr_depth (Some (E_op opc ty op1 op2)) = Suc (max (expr_depth op1) (case op2 of None \<Rightarrow> 0 | Some e \<Rightarrow> expr_depth (Some e)))"
| "expr_depth (Some _) = 1"

lemma md_bind_simps [simp]:
  "md_bind (Some (Inr x)) f = f x" "md_bind (Some (Inl e)) f = Some (Inl e)" "md_bind None f = None"
  by (simp_all add: md_bind_def)

lemma unat_u16_of_nat: "n \<le> 65535 \<Longrightarrow> unat (word_of_nat n :: u16) = n"
  by (simp add: unat_of_nat)

lemma unat_u8_of_nat: "n \<le> 255 \<Longrightarrow> unat (word_of_nat n :: u8) = n"
  by (simp add: unat_of_nat)

lemma ucast_u16_of_nat: "n \<le> 65535 \<Longrightarrow> (ucast (word_of_nat n :: u16) :: u64) = word_of_nat n"
  by (simp add: word_unat_eq_iff unsigned_ucast_eq unsigned_take_bit_eq take_bit_nat_eq_self unat_of_nat take_bit_nat_def)

lemma ucast_u8_of_nat: "n \<le> 255 \<Longrightarrow> (ucast (word_of_nat n :: u8) :: u64) = word_of_nat n"
  by (simp add: word_unat_eq_iff unsigned_ucast_eq unsigned_take_bit_eq take_bit_nat_eq_self unat_of_nat take_bit_nat_def)

lemma as_unsigned_small: "n \<le> 65535 \<Longrightarrow> as_unsigned n = n"
  by (simp add: as_unsigned_def)

lemma md_load:
  assumes "LoadRegValueRaw m st reg = Inr v" and "roffset reg \<le> 65535" and "rsize reg \<le> 65535"
  shows "md_LoadRegValueRaw m st \<lparr>mr_offset = word_of_nat (roffset reg), mr_size = word_of_nat (rsize reg)\<rparr> = v"
  using assms
  by (auto simp: LoadRegValueRaw_def GetOffset_def md_LoadRegValueRaw_def Let_def unat_u16_of_nat ucast_u16_of_nat
      res_bind_Inr_iff split: if_splits)

lemma const_split: "push_bit 32 (ucast (ucast (drop_bit 32 v) :: u32)) OR ucast (ucast v :: u32) = v" for v :: u64
  by (rule bit_word_eqI) (auto simp: bit_simps)

lemma append_child_Inr:
  "append_child nc = Inr (ns, i) \<Longrightarrow> ns = fst nc @ [snd nc] \<and> unat i = length (fst nc) \<and> i \<noteq> no_child"
proof -
  assume a: "append_child nc = Inr (ns, i)"
  then have l: "length (fst nc) < unat no_child" and i: "ns = fst nc @ [snd nc]" "i = word_of_nat (length (fst nc))"
    by (auto simp: append_child_def split: if_splits)
  have "unat no_child < 2 ^ 32" using unsigned_less [of no_child, where 'a = nat] by simp
  with l have "unat i = length (fst nc)" by (simp add: i unat_of_nat)
  with l i show ?thesis by auto
qed

lemma eval_op_md:
  assumes "eval_llvm_op opc ty lhs rhs = Inr v" and "ty = None \<and> w = 0 \<or> (\<exists>n \<le> 255. ty = Some n \<and> w = word_of_nat n)"
  shows "md_eval_op opc w lhs rhs = Inr v"
  using assms by (cases opc) (auto simp: eval_llvm_op_def md_eval_op_def unat_u8_of_nat as_unsigned_small)

text \<open>A converted node evaluates to the value of the tree, in every table that extends the nodes.\<close>

lemma convert_expression_sound:
  assumes "ConvertExpression ro e nodes = Inr (nodes', x)" and "LiftExpressionOperandRecRaw ro m st e = Inr v"
  shows "\<exists>ys. nodes' = nodes @ ys \<and> (\<forall>zs fuel. expr_depth e \<le> fuel \<longrightarrow> md_LiftExpression fuel m st (nodes' @ zs) x = Some (Inr v))"
  using assms
proof (induction ro e nodes arbitrary: nodes' x v rule: ConvertExpression.induct)
  case (2 ro opc ty op1 op2 nodes)
  let ?c1 = "res_bind (ConvertExpression ro op1 nodes) append_child"
  let ?c2 = "\<lambda>n1. case op2 of None \<Rightarrow> Inr (n1, no_child) | Some e \<Rightarrow> res_bind (ConvertExpression ro (Some e) n1) append_child"
  have c0: "\<not> 255 < opcode_value opc" using "2.prems"(1) by auto
  with "2.prems"(1) obtain n1 lhs where c1: "?c1 = Inr (n1, lhs)" by (cases ?c1) auto
  with "2.prems"(1) c0 obtain n2 rhs where c2: "?c2 n1 = Inr (n2, rhs)" by (cases "?c2 n1") auto
  obtain w where w: "x = kOperation lhs rhs opc w" "nodes' = n2" "ty = None \<and> w = 0 \<or> (\<exists>n \<le> 255. ty = Some n \<and> w = word_of_nat n)"
  proof (cases ty)
    case None
    then show thesis using "2.prems"(1) c0 c1 c2 that [of 0] by simp
  next
    case (Some n)
    then show thesis using "2.prems"(1) c0 c1 c2 that [of "word_of_nat n"] by (simp split: if_splits)
  qed
  note c = c0 c1 c2 w
  from "2.prems"(2) obtain a b where e: "LiftExpressionOperandRecRaw ro m st op1 = Inr a"
    "(case op2 of None \<Rightarrow> Inr 0 | Some e \<Rightarrow> LiftExpressionOperandRecRaw ro m st (Some e)) = Inr b"
    "eval_llvm_op opc ty a b = Inr v"
    by (auto simp: res_bind_Inr_iff)
  from c(2) obtain m1 x1 where m1: "ConvertExpression ro op1 nodes = Inr (m1, x1)" "append_child (m1, x1) = Inr (n1, lhs)"
    by (auto simp: res_bind_Inr_iff)
  note a1 = append_child_Inr [OF m1(2)]
  from "2.IH"(1) [OF c(1) m1(1) e(1)] obtain ys where y1: "m1 = nodes @ ys"
    "\<And>zs fuel. expr_depth op1 \<le> fuel \<Longrightarrow> md_LiftExpression fuel m st (m1 @ zs) x1 = Some (Inr a)" by blast
  have op: "md_eval_op opc w a b = Inr v" using e(3) c(6) by (rule eval_op_md)
  show ?case
  proof (cases op2)
    case None
    with c(3) e(2) have r: "rhs = no_child" "n2 = n1" "b = 0" by auto
    have "md_LiftExpression fuel m st (n1 @ zs) x = Some (Inr v)" if "expr_depth (Some (E_op opc ty op1 op2)) \<le> fuel" for fuel zs
      using that y1(2) [of "fuel - 1" "x1 # zs"] a1 op r None by (cases fuel) (auto simp: c(4) arr_at_def nth_append)
    with y1(1) a1 r c(5) show ?thesis by auto
  next
    case (Some e2)
    with c(3) obtain m2 x2 where m2: "ConvertExpression ro (Some e2) n1 = Inr (m2, x2)" "append_child (m2, x2) = Inr (n2, rhs)"
      by (auto simp: res_bind_Inr_iff)
    note a2 = append_child_Inr [OF m2(2)]
    from Some e(2) have "LiftExpressionOperandRecRaw ro m st (Some e2) = Inr b" by simp
    from "2.IH"(2) [OF c(1) Some m2(1) this] obtain ys2 where y2: "m2 = n1 @ ys2"
      "\<And>zs fuel. expr_depth (Some e2) \<le> fuel \<Longrightarrow> md_LiftExpression fuel m st (m2 @ zs) x2 = Some (Inr b)" by blast
    have "md_LiftExpression fuel m st (n2 @ zs) x = Some (Inr v)" if "expr_depth (Some (E_op opc ty op1 op2)) \<le> fuel" for fuel zs
      using that y1(2) [of "fuel - 1" "x1 # ys2 @ x2 # zs"] y2 a1 a2 op Some
      by (cases fuel) (auto simp: c(4) arr_at_def nth_append)
    with y1(1) y2(1) a1 a2 c(5) show ?thesis by auto
  qed
next
  case (3 ro r nodes)
  then obtain name sz off where r: "r = Some (name, sz)" "ro name = Some off" "off \<le> 65535" "sz \<le> 65535"
    "nodes' = nodes" "x = kRegister \<lparr>mr_offset = word_of_nat off, mr_size = word_of_nat sz\<rparr>"
    by (auto split: option.splits if_splits)
  with "3.prems"(2) have "LoadRegValueRaw m st \<lparr>rname = name, rsize = sz, roffset = off\<rparr> = Inr v"
    by (simp add: SetOffset_def GetOffset_name_def)
  from md_load [OF this] r(3-6) show ?case by (auto simp: Suc_le_eq gr0_conv_Suc)
next
  case (4 ro c nodes)
  then show ?case by (auto simp: Suc_le_eq gr0_conv_Suc const_split split: option.splits if_splits)
next
  case (5 ro name nodes)
  then obtain ch cs off where r: "name = ch # cs" "ro name = Some off" "off \<le> 65535" "nodes' = nodes"
    "x = kRegister \<lparr>mr_offset = word_of_nat off, mr_size = (if ch = CHR ''w'' then 32 else 64)\<rparr>"
    by (auto split: option.splits if_splits list.splits)
  let ?sz = "if ch = CHR ''w'' then 32 else 64 :: nat"
  from "5.prems"(2) r have "LoadRegValueRaw m st \<lparr>rname = name, rsize = ?sz, roffset = off\<rparr> = Inr v"
    by (auto simp: SetOffset_def GetOffset_name_def)
  from md_load [OF this] r(3-5) show ?case by (auto simp: Suc_le_eq gr0_conv_Suc)
qed simp

section \<open>Operands\<close>

lemma convert_register_load:
  assumes "convert_register reg = Inr r" and "LoadRegValueRaw m st reg = Inr v"
  shows "md_LoadRegValueRaw m st r = v"
  using assms md_load [of m st reg v]
  by (auto simp: convert_register_def split: if_splits)

lemma convert_named_load:
  assumes "convert_named reg = Inr r" and "LoadWordRegValOrZeroRaw m st reg 64 = Inr v"
  shows "md_LoadWordRegValOrZeroRaw m st r 64 = v"
proof (cases "rname reg = []")
  case True
  with assms show ?thesis by (auto simp: convert_named_def LoadWordRegValOrZeroRaw_def md_LoadWordRegValOrZeroRaw_def)
next
  case False
  with assms obtain x where x: "LoadRegValueRaw m st reg = Inr x" "v = MaskToBits x 64" "convert_register reg = Inr r"
    by (auto simp: convert_named_def LoadWordRegValOrZeroRaw_def res_bind_Inr_iff)
  from convert_register_load [OF x(3,1)] have l: "md_LoadRegValueRaw m st r = x" .
  show ?thesis
  proof (cases "mr_size r = 0")
    case True
    then have "md_LoadRegValueRaw m st r = 0" by (simp add: md_LoadRegValueRaw_def load_upto64_def mem_read_def)
    with True l x(2) show ?thesis by (simp add: md_LoadWordRegValOrZeroRaw_def MaskToBits_def)
  next
    case False
    with l x(2) show ?thesis by (simp add: md_LoadWordRegValOrZeroRaw_def)
  qed
qed

lemma shift_value_md:
  assumes "ssz \<le> 255" and "osz \<le> 65535"
  shows "md_shift_value sh reg (word_of_nat ssz) (word_of_nat osz) = shift_value sh reg (word_of_nat ssz) osz"
  unfolding md_shift_value_def shift_value_def Let_def
  using assms by (cases sh) (simp_all add: unat_u16_of_nat ucast_u8_of_nat ucast_u16_of_nat as_unsigned_small)

lemma convert_shift:
  assumes "convert_register (sr_reg s) = Inr r" and "sr_shift_size s \<le> 255" and "sr_extract_size s \<le> 255"
    and "osz \<le> 65535" and "LiftShiftRegisterOperandRaw m st osz s = Inr v"
  shows "md_LiftShiftRegisterOperandRaw m st (word_of_nat osz)
     \<lparr>ms_reg = r, ms_shift_size = word_of_nat (sr_shift_size s), ms_extract_size = word_of_nat (sr_extract_size s),
      ms_shift_first = f, ms_can_shift_op_size = g, ms_shift_op = sr_shift_op s, ms_extend_op = sr_extend_op s\<rparr> = Inr v"
proof -
  from assms(5) obtain x where x: "LoadRegValueRaw m st (sr_reg s) = Inr x"
    by (auto simp: LiftShiftRegisterOperandRaw_def res_bind_Inr_iff)
  have l: "md_LoadRegValueRaw m st r = x" using assms(1) x by (rule convert_register_load)
  have sz: "rsize (sr_reg s) \<le> 65535" "unat (mr_size r) = rsize (sr_reg s)"
    using assms(1) by (auto simp: convert_register_def unat_u16_of_nat split: if_splits)
  have u: "as_unsigned osz = osz" "as_unsigned (sr_extract_size s) = sr_extract_size s"
    "as_unsigned (rsize (sr_reg s)) = rsize (sr_reg s)" "unat (word_of_nat osz :: u16) = osz"
    "unat (word_of_nat (sr_extract_size s) :: u8) = sr_extract_size s"
    using assms(3,4) sz(1) by (simp_all add: as_unsigned_small unat_u16_of_nat unat_u8_of_nat)
  show ?thesis
    using assms(5) unfolding LiftShiftRegisterOperandRaw_def md_LiftShiftRegisterOperandRaw_def extend_value_def
      md_shift.simps Let_def u sz(2) l x res_bind_simps shift_value_md [OF assms(2,4)] .
qed

definition operand_depth :: "RemillOperand \<Rightarrow> nat" where
  "operand_depth op = (case op_value op of V_expr _ e \<Rightarrow> expr_depth e | _ \<Rightarrow> 0)"

lemma convert_expression_extends: "ConvertExpression ro e nodes = Inr (nodes', x) \<Longrightarrow> \<exists>ys. nodes' = nodes @ ys"
proof (induction ro e nodes arbitrary: nodes' x rule: ConvertExpression.induct)
  case (2 ro opc ty op1 op2 nodes)
  let ?c1 = "res_bind (ConvertExpression ro op1 nodes) append_child"
  let ?c2 = "\<lambda>n1. case op2 of None \<Rightarrow> Inr (n1, no_child) | Some e \<Rightarrow> res_bind (ConvertExpression ro (Some e) n1) append_child"
  have c0: "\<not> 255 < opcode_value opc" using "2.prems"(1) by auto
  with "2.prems"(1) obtain n1 lhs where c1: "?c1 = Inr (n1, lhs)" by (cases ?c1) auto
  with "2.prems"(1) c0 obtain n2 rhs where c2: "?c2 n1 = Inr (n2, rhs)" by (cases "?c2 n1") auto
  have n: "nodes' = n2" using "2.prems"(1) c0 c1 c2 by (cases ty) (auto split: if_splits)
  obtain m1 x1 where m1: "ConvertExpression ro op1 nodes = Inr (m1, x1)" "append_child (m1, x1) = Inr (n1, lhs)"
    using c1 by (auto simp: res_bind_Inr_iff)
  from "2.IH"(1) [OF c0 m1(1)] append_child_Inr [OF m1(2)] obtain ys where n1: "n1 = nodes @ ys" by auto
  show ?case
  proof (cases op2)
    case None
    with c2 n n1 show ?thesis by auto
  next
    case (Some e)
    with c2 obtain m2 x2 where m2: "ConvertExpression ro (Some e) n1 = Inr (m2, x2)" "append_child (m2, x2) = Inr (n2, rhs)"
      by (auto simp: res_bind_Inr_iff)
    from "2.IH"(2) [OF c0 Some m2(1)] append_child_Inr [OF m2(2)] n n1 show ?thesis by auto
  qed
qed (auto split: option.splits if_splits list.splits)

lemma convert_operand_extends:
  assumes "ConvertOperand ro op nodes = Inr (nodes', mo)"
  shows "\<exists>ys. nodes' = nodes @ ys"
proof (cases "op_value op")
  case (V_expr t e)
  with assms obtain x where "ConvertExpression ro e nodes = Inr (nodes', x)"
    by (auto simp: ConvertOperand_def Let_def res_bind_Inr_iff)
  then show ?thesis by (rule convert_expression_extends)
qed (use assms in \<open>auto simp: ConvertOperand_def Let_def res_bind_Inr_iff\<close>)

lemma convert_operand_sound:
  assumes c: "ConvertOperand ro op nodes = Inr (nodes', mo)" and l: "LiftOperandRaw ro m st op ptr = Inr v"
    and sz: "op_size op \<le> 65535" and fuel: "operand_depth op \<le> fuel"
  shows "md_LiftOperandRaw fuel m st (nodes' @ zs) mo ptr = Some (Inr v)"
proof (cases "op_value op")
  case (V_reg reg)
  with c obtain r where r: "convert_register reg = Inr r" "mo_value mo = MV_reg r"
    by (auto simp: ConvertOperand_def Let_def res_bind_Inr_iff)
  have "st + ucast (mr_offset r) = v" if "ptr"
    using that l V_reg r(1)
    by (auto simp: LiftOperandRaw_def LiftRegisterOperandRaw_def LoadRegAddressRaw_def GetOffset_def convert_register_def
        res_bind_Inr_iff ucast_u16_of_nat split: if_splits)
  moreover have "md_LoadRegValueRaw m st r = v" if "\<not> ptr"
    using that l V_reg r(1) by (auto simp: LiftOperandRaw_def LiftRegisterOperandRaw_def intro: convert_register_load)
  ultimately show ?thesis by (simp add: md_LiftOperandRaw_def r)
next
  case (V_shift s)
  with c obtain r where r: "convert_register (sr_reg s) = Inr r" "sr_shift_size s \<le> 255" "sr_extract_size s \<le> 255"
    "mo = \<lparr>mo_size = word_of_nat (op_size op), mo_action_write = op_action_write op, mo_value =
       MV_shift \<lparr>ms_reg = r, ms_shift_size = word_of_nat (sr_shift_size s),
         ms_extract_size = word_of_nat (sr_extract_size s), ms_shift_first = sr_shift_first s,
         ms_can_shift_op_size = sr_can_shift_op_size s, ms_shift_op = sr_shift_op s, ms_extend_op = sr_extend_op s\<rparr>\<rparr>"
    by (auto simp: ConvertOperand_def Let_def res_bind_Inr_iff fits_u8_def split: if_splits)
  have "LiftShiftRegisterOperandRaw m st (op_size op) s = Inr v" using l V_shift by (simp add: LiftOperandRaw_def)
  from convert_shift [OF r(1-3) sz this] show ?thesis by (simp add: md_LiftOperandRaw_def r(4))
next
  case (V_addr a)
  with c obtain r0 r1 r2 where r: "convert_named (ad_segment_base_reg a) = Inr r0" "convert_named (ad_base_reg a) = Inr r1"
    "convert_named (ad_index_reg a) = Inr r2" "ad_address_size a \<le> 255" "mo_value mo = MV_addr \<lparr>ma_reg0 = r0, ma_reg1 = r1,
       ma_reg2 = r2, ma_scale = ad_scale a, ma_displacement = ad_displacement a,
       ma_address_size = word_of_nat (ad_address_size a), ma_kind = ad_kind a\<rparr>"
    by (auto simp: ConvertOperand_def Let_def res_bind_Inr_iff fits_u8_def split: if_splits)
  from l V_addr obtain x0 x1 x2 where x: "LoadWordRegValOrZeroRaw m st (ad_base_reg a) 64 = Inr x1"
    "LoadWordRegValOrZeroRaw m st (ad_index_reg a) 64 = Inr x2" "LoadWordRegValOrZeroRaw m st (ad_segment_base_reg a) 64 = Inr x0"
    by (auto simp: LiftOperandRaw_def LiftAddressOperandRaw_def res_bind_Inr_iff)
  have u: "unat (word_of_nat (ad_address_size a) :: u8) = ad_address_size a" "as_unsigned (ad_address_size a) = ad_address_size a"
    using r(4) by (simp_all add: unat_u8_of_nat as_unsigned_small)
  have lv: "LiftAddressOperandRaw m st a = Inr v" using l V_addr by (simp add: LiftOperandRaw_def)
  have "md_LiftAddressOperandRaw m st \<lparr>ma_reg0 = r0, ma_reg1 = r1, ma_reg2 = r2, ma_scale = ad_scale a,
      ma_displacement = ad_displacement a, ma_address_size = word_of_nat (ad_address_size a), ma_kind = ad_kind a\<rparr> = v"
    using lv unfolding LiftAddressOperandRaw_def md_LiftAddressOperandRaw_def md_address.simps Let_def u x res_bind_simps
      sum.inject convert_named_load [OF r(1) x(3)] convert_named_load [OF r(2) x(1)] convert_named_load [OF r(3) x(2)] .
  then show ?thesis by (simp add: md_LiftOperandRaw_def r(5))
next
  case (V_expr t e)
  with c obtain x where x: "ConvertExpression ro e nodes = Inr (nodes', x)" "mo_value mo = MV_expr t x"
    by (auto simp: ConvertOperand_def Let_def res_bind_Inr_iff)
  from l V_expr have "LiftExpressionOperandRecRaw ro m st e = Inr v" by (simp add: LiftOperandRaw_def)
  from convert_expression_sound [OF x(1) this] fuel V_expr x(2) show ?thesis
    by (auto simp: md_LiftOperandRaw_def operand_depth_def)
qed (use c l sz in \<open>auto simp: ConvertOperand_def LiftOperandRaw_def md_LiftOperandRaw_def LiftImmediateOperandRaw_def
    unat_u16_of_nat as_unsigned_small Let_def\<close>)

lemma convert_loop:
  assumes "convertOperands_loop ro ops nodes md = Inr (md', T)"
  shows "\<exists>mds ys. md' = md @ mds \<and> T = nodes @ ys \<and> length mds = length ops \<and>
    (\<forall>i < length ops. \<exists>n n' zs. ConvertOperand ro (ops ! i) n = Inr (n', mds ! i) \<and> T = n' @ zs)"
  using assms
proof (induction ops arbitrary: nodes md)
  case (Cons op ops)
  then obtain n' mo where n: "ConvertOperand ro op nodes = Inr (n', mo)" "convertOperands_loop ro ops n' (md @ [mo]) = Inr (md', T)"
    by (auto simp: res_bind_Inr_iff)
  from convert_operand_extends [OF n(1)] obtain ys where ys: "n' = nodes @ ys" by blast
  from Cons.IH [OF n(2)] obtain mds zs where m: "md' = (md @ [mo]) @ mds" "T = n' @ zs" "length mds = length ops"
    "\<forall>i < length ops. \<exists>n n' zs. ConvertOperand ro (ops ! i) n = Inr (n', mds ! i) \<and> T = n' @ zs"
    by blast
  have "\<exists>n n' zs. ConvertOperand ro ((op # ops) ! i) n = Inr (n', (mo # mds) ! i) \<and> T = n' @ zs" if "i < Suc (length ops)" for i
    using that m n(1) by (cases i) auto
  then have "md' = md @ (mo # mds) \<and> T = nodes @ (ys @ zs) \<and> length (mo # mds) = length (op # ops) \<and>
     (\<forall>i < length (op # ops). \<exists>n n' zs. ConvertOperand ro ((op # ops) ! i) n = Inr (n', (mo # mds) ! i) \<and> T = n' @ zs)"
    using m ys by simp
  then show ?case by blast
qed simp

lemma convert_operands_eval:
  assumes "convertOperands ro ops = Inr (md, T)" and "i < length ops" and "op_size (ops ! i) \<le> 65535"
    and "LiftOperandRaw ro m st (ops ! i) ptr = Inr v" and "operand_depth (ops ! i) \<le> fuel"
  shows "length md = length ops \<and> md_LiftOperandRaw fuel m st T (md ! i) ptr = Some (Inr v)"
proof -
  from convert_loop [OF assms(1) [unfolded convertOperands_def]] have "length md = length ops"
    and "\<exists>n n' zs. ConvertOperand ro (ops ! i) n = Inr (n', md ! i) \<and> T = n' @ zs"
    using assms(2) by auto
  with convert_operand_sound [OF _ assms(4,3,5)] show ?thesis by blast
qed

section \<open>Properties\<close>

text \<open>
  C6: Pre-encoding does not change the meaning of an operand.  When \<open>convertOperands\<close> succeeds, every
  operand that the opcode interpreter can evaluate on a machine state has, as its metadata entry
  evaluated over the converted expression table, the same value, for register (value and
  pointer), shifted register, immediate, address and expression operands; fuel equal to the
  depth of the operand's expression is enough.
\<close>

theorem converted_operands_evaluate_alike:
  assumes "convertOperands ro ops = Inr (md, T)" and "i < length ops" and "op_size (ops ! i) \<le> 65535"
    and "LiftOperandRaw ro m st (ops ! i) ptr = Inr v" and "operand_depth (ops ! i) \<le> fuel"
  shows "length md = length ops \<and> md_LiftOperandRaw fuel m st T (md ! i) ptr = Some (Inr v)"
  using assms by (rule convert_operands_eval)

lemma unat_no_child: "unat no_child = 4294967295"
  by (simp add: no_child_def unsigned_minus_1_eq_mask mask_eq_exp_minus_1)

definition ro0 :: regoffs where
  "ro0 = [''X1'' \<mapsto> 32, ''X2'' \<mapsto> 48]"

definition ops0 :: "RemillOperand list" where
  "ops0 = [\<lparr>op_value = V_imm 7 False, op_action_write = False, op_size = 64\<rparr>,
     \<lparr>op_value = V_expr kTypeExpression (Some (E_op I_Add (Some 64) (Some (E_reg (Some (''X1'', 64))))
        (Some (E_op I_Shl (Some 64) (Some (E_name ''X2'')) (Some (E_const (Some (64, 2)))))))),
      op_action_write = False, op_size = 64\<rparr>]"

theorem converted_operands_evaluate_alike_witness:
  "\<exists>md T. convertOperands ro0 ops0 = Inr (md, T) \<and> length T = 4 \<and>
     md_LiftOperandRaw 3 (store64 (store64 (\<lambda>_. 0) 32 5) 48 3) 0 T (md ! 1) False = Some (Inr 17)"
proof -
  define mm where "mm = store64 (store64 (\<lambda>_. 0) 32 5) 48 3"
  have s: "sep 32 8 48 8" "sep 48 8 32 8" by (simp_all add: sep_def)
  have l1: "load64 mm 32 = 5" "load64 mm 48 = 3" using s by (simp_all add: mm_def load64_store64_sep)
  obtain md T where c: "convertOperands ro0 ops0 = Inr (md, T)" "length T = 4"
    by (simp add: convertOperands_def ops0_def ConvertOperand_def Let_def ro0_def append_child_def opcode_value_def unat_no_child)
  have v: "LiftOperandRaw ro0 mm 0 (ops0 ! 1) False = Inr 17"
    using l1 by (simp add: ops0_def LiftOperandRaw_def ro0_def SetOffset_def GetOffset_name_def LoadRegValueRaw_def GetOffset_def
        eval_llvm_op_def shl_def Let_def load64_eq push_bit_eq_mult)
  have "length md = length ops0 \<and> md_LiftOperandRaw 3 mm 0 T (md ! 1) False = Some (Inr 17)"
    by (rule converted_operands_evaluate_alike [OF c(1) _ _ v]) (simp_all add: ops0_def operand_depth_def)
  with c show ?thesis unfolding mm_def by blast
qed

end
