(* ===== verification/McInst.thy ===== *)
theory McInst
  imports CPUState Utils
begin

text \<open>
  \<open>src/OpcodeAArch64.cpp\<close>: the AArch64 instructions the VM interprets itself because they
  write to memory through the stack pointer, and the table of decoded instructions they share.
  Decoding belongs to LLVM: an instruction is its opcode and operand list, and the
  enumerators \<open>AArch64::D0\<close>, \<open>Q0\<close> and \<open>SP\<close> of its generated tables are parameters.
\<close>

datatype mc_opcode = STPDpre | STRDpre | STPQi | MC_other nat

datatype mc_operand = MC_reg nat | MC_imm u64 | MC_none

record mcinst =
  mc_opcode :: mc_opcode
  mc_operands :: "mc_operand list"

record mc_env =
  mc_D0 :: nat
  mc_Q0 :: nat
  mc_SP :: nat

definition getOperand :: "mcinst \<Rightarrow> nat \<Rightarrow> mc_operand res" where
  "getOperand inst i = arr_at (mc_operands inst) i"

definition getReg :: "mcinst \<Rightarrow> nat \<Rightarrow> nat res" where
  "getReg inst i = res_bind (getOperand inst i) (\<lambda>opnd. case opnd of MC_reg r \<Rightarrow> Inr r | _ \<Rightarrow> Inl Abort)"

definition getImm :: "mcinst \<Rightarrow> nat \<Rightarrow> u64 res" where
  "getImm inst i = res_bind (getOperand inst i) (\<lambda>opnd. case opnd of MC_imm v \<Rightarrow> Inr v | _ \<Rightarrow> Inl Abort)"

text \<open>\<open>CPU.getRegisterAArch64(...)\<close> where the pointer is dereferenced: null is undefined behaviour.\<close>

definition reg_ptr :: "cpu \<Rightarrow> Register \<Rightarrow> u64 res" where
  "reg_ptr c reg = (case fst (getRegisterAArch64 c reg) of None \<Rightarrow> Inl Undefined | Some p \<Rightarrow> Inr p)"

definition memcpy :: "u64 \<Rightarrow> u64 \<Rightarrow> nat \<Rightarrow> cpu \<Rightarrow> cpu" where
  "memcpy dst src n c = c\<lparr>mem := mem_write (mem c) dst (mem_read (mem c) src n)\<rparr>"

definition interp_STPDpre :: "mc_env \<Rightarrow> mcinst \<Rightarrow> cpu \<Rightarrow> cpu res" where
  "interp_STPDpre E inst c =
     res_bind (getReg inst 1) (\<lambda>rm. res_bind (getReg inst 2) (\<lambda>rn. res_bind (getImm inst 4) (\<lambda>imm4.
     let idm = int rm - int (mc_D0 E); idn = int rn - int (mc_D0 E); imm = imm4 * 8 in
     res_bind (reg_ptr c (Q 0 + idm)) (\<lambda>dm. res_bind (reg_ptr c (Q 0 + idn)) (\<lambda>dn. res_bind (reg_ptr c SP) (\<lambda>spp.
     let sp = load64 (mem c) spp + imm;
         c1 = memcpy sp dm 8 c;
         c2 = memcpy (sp + 8) dn 8 c1
     in Inr (snd (setRegisterAArch64 c2 SP sp))))))))"

definition interp_STRDpre :: "mc_env \<Rightarrow> mcinst \<Rightarrow> cpu \<Rightarrow> cpu res" where
  "interp_STRDpre E inst c =
     res_bind (getReg inst 1) (\<lambda>rm. res_bind (getImm inst 3) (\<lambda>imm.
     let idm = int rm - int (mc_D0 E) in
     res_bind (reg_ptr c (Q 0 + idm)) (\<lambda>dm. res_bind (reg_ptr c SP) (\<lambda>spp.
     let sp = load64 (mem c) spp + imm in Inr (snd (setRegisterAArch64 (memcpy sp dm 8 c) SP sp))))))"

definition interp_STPQi :: "mc_env \<Rightarrow> mcinst \<Rightarrow> cpu \<Rightarrow> cpu res" where
  "interp_STPQi E inst c =
     res_bind (getReg inst 0) (\<lambda>rm. res_bind (getReg inst 1) (\<lambda>rn. res_bind (getImm inst 3) (\<lambda>imm3.
     let iqm = int rm - int (mc_Q0 E); iqn = int rn - int (mc_Q0 E); imm = imm3 * 16 in
     res_bind (reg_ptr c (Q 0 + iqm)) (\<lambda>qm. res_bind (reg_ptr c (Q 0 + iqn)) (\<lambda>qn. res_bind (reg_ptr c SP) (\<lambda>spp.
     let sp = load64 (mem c) spp + imm in Inr (memcpy (sp + 8) qn 16 (memcpy sp qm 16 c))))))))"

definition interpMCInstARM64 :: "mc_env \<Rightarrow> mcinst \<Rightarrow> cpu \<Rightarrow> cpu res" where
  "interpMCInstARM64 E inst c =
     res_bind (case mc_opcode inst of
                 STPDpre \<Rightarrow> interp_STPDpre E inst c
               | STRDpre \<Rightarrow> interp_STRDpre E inst c
               | STPQi \<Rightarrow> interp_STPQi E inst c
               | MC_other _ \<Rightarrow> Inl Abort) (\<lambda>c.
     res_bind (reg_ptr c PC) (\<lambda>pcp. Inr (snd (setRegisterAArch64 c PC (load64 (mem c) pcp + 4)))))"

text \<open>
  \<open>initMCInstARM64\<close>: the shared instruction table \<open>insts\<close> with its opcode index
  \<open>instmap\<close>; the result is the index stored in the handler, \<open>None\<close> when no operand
  is the stack pointer.
\<close>

record mc_table =
  mc_insts :: "mcinst list"
  mc_instmap :: "u32 \<rightharpoonup> nat"

fun uses_sp :: "mc_env \<Rightarrow> mc_operand list \<Rightarrow> bool" where
  "uses_sp E [] = False"
| "uses_sp E (opnd # os) = (opnd = MC_reg (mc_SP E) \<or> uses_sp E os)"

definition initMCInstARM64 :: "mc_env \<Rightarrow> u32 \<Rightarrow> mcinst \<Rightarrow> mc_table \<Rightarrow> nat option \<times> mc_table" where
  "initMCInstARM64 E opcode inst T =
     (if uses_sp E (mc_operands inst)
      then case mc_instmap T opcode of
             Some i \<Rightarrow> (Some i, T)
           | None \<Rightarrow> let i = length (mc_insts T) in
               (Some i, T\<lparr>mc_insts := mc_insts T @ [inst], mc_instmap := (mc_instmap T)(opcode \<mapsto> i)\<rparr>)
      else (None, T))"

section \<open>Lemmas\<close>

text \<open>A guest range that does not meet the \<open>State\<close> object.\<close>

definition off_state :: "cpu \<Rightarrow> u64 \<Rightarrow> nat \<Rightarrow> bool" where
  "off_state c a n \<longleftrightarrow> (\<forall>f. a64_valid f \<longrightarrow> sep (a64_addr c f) (a64_size f) a n)"

lemma mem_read_append: "mem_read m a (n + k) = mem_read m a n @ mem_read m (a + word_of_nat n) k"
  by (rule nth_equalityI) (auto simp: nth_append nth_mem_read algebra_simps)

lemma take_mem_read: "n \<le> k \<Longrightarrow> take n (mem_read m a k) = mem_read m a n"
  by (simp add: mem_read_def take_map)

lemma sep_shrink: "sep a n b k \<Longrightarrow> n' \<le> n \<Longrightarrow> sep a n' b k"
  by (auto simp: sep_def)

lemma reg_ptr_field: "a64_reg_field r = Some f \<Longrightarrow> reg_ptr c r = Inr (a64_addr c f)"
  by (simp add: reg_ptr_def getRegisterAArch64_def)

lemma a64_addr_memcpy [simp]: "a64_addr (memcpy d s n c) f = a64_addr c f"
  by (simp add: memcpy_def)

lemma special_fields:
  "a64_reg_field SP = Some A_sp" "a64_reg_field PC = Some A_pc" "SP \<noteq> NZCV" "PC \<noteq> NZCV" "SP \<noteq> PC"
  "\<lbrakk>0 \<le> i; i \<le> 31\<rbrakk> \<Longrightarrow> a64_reg_field (Q 0 + i) = Some (A_v (nat i))"
  by (simp_all add: a64_reg_field_def reg_defs)

lemma setr_plain:
  "a64_reg_field r = Some f \<Longrightarrow> r \<noteq> NZCV \<Longrightarrow> snd (setRegisterAArch64 c r v) = c\<lparr>mem := store64 (mem c) (a64_addr c f) v\<rparr>"
  by (simp add: a64_regs.setr_addr)

lemma off_state_split: "off_state c a (n + k) \<Longrightarrow> off_state c a n \<and> off_state c (a + word_of_nat n) k"
  unfolding off_state_def using sep_split by blast

lemma off_state_read:
  assumes "off_state c a n" and "a64_valid f" and "k \<le> a64_size f" and "length bs = n"
  shows "mem_read (mem_write M a bs) (a64_addr c f) k = mem_read M (a64_addr c f) k"
  using assms by (intro mem_read_write_sep) (auto simp: off_state_def intro: sep_shrink)

lemma off_state_store:
  assumes "off_state c a n" and "a64_valid f" and "8 \<le> a64_size f"
  shows "mem_read (store64 M (a64_addr c f) v) a n = mem_read M a n"
  unfolding store64_def using assms by (intro mem_read_write_sep) (auto simp: off_state_def sep_sym [of a] intro: sep_shrink)

lemma state_loads:
  assumes "a64_inv c"
  shows "load64 (store64 M (a64_addr c A_sp) v) (a64_addr c A_pc) = load64 M (a64_addr c A_pc)"
    "load64 (store64 M (a64_addr c A_pc) v) (a64_addr c A_sp) = load64 M (a64_addr c A_sp)"
  using assms by (intro load64_store64_sep a64_sep; simp add: a64_inv_def)+

lemma pair_write:
  assumes "off_state c t 16" and "a64_valid f" and "8 \<le> a64_size f" and "length b1 = 8" and "length b2 = 8"
  shows "mem_read (mem_write (mem_write M t b1) (t + 8) b2) t 16 = b1 @ b2"
    "mem_read (mem_write (mem_write M t b1) (t + 8) b2) (a64_addr c f) 8 = mem_read M (a64_addr c f) 8"
proof -
  have o: "off_state c t 8" "off_state c (t + 8) 8" using assms(1) off_state_split [of c t 8 8] by simp_all
  have s: "sep t 8 (t + 8) 8" by (simp add: sep_def)
  have "mem_read (mem_write (mem_write M t b1) (t + 8) b2) t 8 = mem_read (mem_write M t b1) t 8"
    using s assms(5) by (intro mem_read_write_sep) simp
  also have "\<dots> = b1" using mem_read_write_same [of b1 M t] assms(4) by simp
  moreover have "mem_read (mem_write (mem_write M t b1) (t + 8) b2) (t + 8) 8 = b2"
    using mem_read_write_same [of b2 _ "t + 8"] assms(5) by simp
  ultimately show "mem_read (mem_write (mem_write M t b1) (t + 8) b2) t 16 = b1 @ b2"
    using mem_read_append [of _ t 8 8] by simp
  show "mem_read (mem_write (mem_write M t b1) (t + 8) b2) (a64_addr c f) 8 = mem_read M (a64_addr c f) 8"
    using o assms by (simp add: off_state_read)
qed

section \<open>Properties\<close>

text \<open>
  Interpreting \<open>stp dm, dn, [sp, #imm]!\<close> stores the low halves of the two vector registers at
  the new stack pointer and eight bytes above it, sets the stack pointer to the old one plus eight
  times the immediate, and advances the program counter by four, for every pair of
  registers (also the same one twice), when the sixteen bytes do not meet the \<open>State\<close> object.
\<close>

lemma stp_d_pre_index:
  assumes inv: "a64_inv c" and mn: "m \<le> 31" "n \<le> 31"
    and sp: "a64_value c SP = Some sp0" and pc: "a64_value c PC = Some pc0"
    and off: "off_state c (sp0 + k * 8) 16"
  shows "\<exists>c'. interpMCInstARM64 E \<lparr>mc_opcode = STPDpre, mc_operands =
        [MC_reg (mc_SP E), MC_reg (mc_D0 E + m), MC_reg (mc_D0 E + n), MC_reg (mc_SP E), MC_imm k]\<rparr> c = Inr c' \<and>
     mem_read (mem c') (sp0 + k * 8) 16 =
       mem_read (mem c) (a64_addr c (A_v m)) 8 @ mem_read (mem c) (a64_addr c (A_v n)) 8 \<and>
     a64_value c' SP = Some (sp0 + k * 8) \<and> a64_value c' PC = Some (pc0 + 4)"
proof -
  define t where "t = sp0 + k * 8"
  have o: "off_state c t 16" "off_state c t 8" using off off_state_split [of c t 8 8] by (simp_all add: t_def)
  have fields: "a64_reg_field (Q 0 + int m) = Some (A_v m)" "a64_reg_field (Q 0 + int n) = Some (A_v n)"
    using special_fields(6) [of "int m"] special_fields(6) [of "int n"] mn by simp_all
  have v0: "load64 (mem c) (a64_addr c A_sp) = sp0" "load64 (mem c) (a64_addr c A_pc) = pc0"
    using sp pc special_fields by (simp_all add: a64_regs.val_addr)
  let ?bm = "mem_read (mem c) (a64_addr c (A_v m)) 8" and ?bn = "mem_read (mem c) (a64_addr c (A_v n)) 8"
  let ?m2 = "mem_write (mem_write (mem c) t ?bm) (t + 8) ?bn"
  have bn: "mem_read (mem_write (mem c) t ?bm) (a64_addr c (A_v n)) 8 = ?bn"
    using o(2) mn by (intro off_state_read) simp_all
  have pcm: "load64 ?m2 (a64_addr c A_pc) = pc0"
    using pair_write(2) [OF o(1), of A_pc ?bm ?bn "mem c"] v0(2) by (simp add: load64_def)
  have step: "interpMCInstARM64 E \<lparr>mc_opcode = STPDpre, mc_operands =
        [MC_reg (mc_SP E), MC_reg (mc_D0 E + m), MC_reg (mc_D0 E + n), MC_reg (mc_SP E), MC_imm k]\<rparr> c =
      Inr (c\<lparr>mem := store64 (store64 ?m2 (a64_addr c A_sp) t) (a64_addr c A_pc) (pc0 + 4)\<rparr>)"
    using v0 bn pcm state_loads(1) [OF inv]
    by (simp add: interpMCInstARM64_def interp_STPDpre_def getReg_def getImm_def getOperand_def arr_at_def
        reg_ptr_field [OF fields(1)] reg_ptr_field [OF fields(2)] reg_ptr_field [OF special_fields(1)]
        reg_ptr_field [OF special_fields(2)] setr_plain [OF special_fields(1,3)] setr_plain [OF special_fields(2,4)]
        memcpy_def t_def Let_def)
  have "mem_read (store64 (store64 ?m2 (a64_addr c A_sp) t) (a64_addr c A_pc) (pc0 + 4)) t 16 = ?bm @ ?bn"
    using o(1) by (simp add: off_state_store pair_write(1) [where f = A_pc])
  with step special_fields state_loads(2) [OF inv] show ?thesis
    by (simp add: a64_regs.val_addr t_def)
qed

lemma off_state_layout0:
  assumes "a64_lay c = a64_layout0" and "1304 \<le> d" and "d + n \<le> 2 ^ 63"
  shows "off_state c (state_ptr c + word_of_nat d) n"
  unfolding off_state_def
proof (intro allI impI)
  fix f assume "a64_valid f"
  then have "a64_layout0 f + a64_size f \<le> 1304"
    using a64_within [of f] by (cases f) (simp_all add: within_def)
  then show "sep (a64_addr c f) (a64_size f) (state_ptr c + word_of_nat d) n"
    unfolding a64_addr_def assms(1) using assms(2,3) by (intro sep_offsets) (auto simp: off_sep_def)
qed

definition cpu1 :: cpu where
  "cpu1 = cpu0\<lparr>mem := store64 (mem cpu0) (a64_addr cpu0 A_sp) 0x200000\<rparr>"

lemma cpu1_state: "a64_inv cpu1" "a64_value cpu1 SP = Some 0x200000" "a64_value cpu1 PC = Some 0" "off_state cpu1 0x1FFF90 16"
proof -
  show i: "a64_inv cpu1" using cpu0_inv by (simp add: cpu1_def a64_inv_def)
  show "a64_value cpu1 SP = Some 0x200000"
    using special_fields by (simp add: a64_regs.val_addr cpu1_def)
  have z: "load64 (\<lambda>_. 0) a = 0" for a
    by (simp add: load64_def mem_read_def map_replicate_const)
  show "a64_value cpu1 PC = Some 0"
    using special_fields state_loads(1) [OF cpu0_inv(1)] by (simp add: a64_regs.val_addr cpu1_def) (simp add: cpu0_def z)
  have "state_ptr cpu1 + word_of_nat 0x1FEF90 = 0x1FFF90" by (simp add: cpu1_def cpu0_def)
  with off_state_layout0 [of cpu1 "0x1FEF90" 16] show "off_state cpu1 0x1FFF90 16" by (simp add: cpu1_def cpu0_def)
qed


text \<open>
  Interpreting \<open>stp qm, qn, [sp, #imm]\<close> does not store the pair of 16-byte registers: the
  second store starts eight bytes after the first, so the upper half of \<open>qm\<close> is
  overwritten by the lower half of \<open>qn\<close>, and the 16 bytes at \<open>sp + imm + 16\<close> do not receive
  \<open>qn\<close> (only its upper half, in their first eight bytes).
\<close>

lemma stp_q_overlaps:
  assumes inv: "a64_inv c" and mn: "m \<le> 31" "n \<le> 31" and sp: "a64_value c SP = Some sp0"
    and off: "off_state c (sp0 + k * 16) 16"
    and step: "interp_STPQi E \<lparr>mc_opcode = STPQi, mc_operands =
        [MC_reg (mc_Q0 E + m), MC_reg (mc_Q0 E + n), MC_reg (mc_SP E), MC_imm k]\<rparr> c = Inr c'"
  shows "mem_read (mem c') (sp0 + k * 16) 24 =
     mem_read (mem c) (a64_addr c (A_v m)) 8 @ mem_read (mem c) (a64_addr c (A_v n)) 16"
proof -
  define t where "t = sp0 + k * 16"
  have fields: "a64_reg_field (Q 0 + int m) = Some (A_v m)" "a64_reg_field (Q 0 + int n) = Some (A_v n)"
    using special_fields(6) [of "int m"] special_fields(6) [of "int n"] mn by simp_all
  have v0: "load64 (mem c) (a64_addr c A_sp) = sp0"
    using sp special_fields by (simp add: a64_regs.val_addr)
  let ?bm = "mem_read (mem c) (a64_addr c (A_v m)) 16" and ?bn = "mem_read (mem c) (a64_addr c (A_v n)) 16"
  have bn: "mem_read (mem_write (mem c) t ?bm) (a64_addr c (A_v n)) 16 = ?bn"
    using off mn by (intro off_state_read [of c t 16]) (simp_all add: t_def)
  have c': "mem c' = mem_write (mem_write (mem c) t ?bm) (t + 8) ?bn"
    using step v0 bn by (simp add: interp_STPQi_def getReg_def getImm_def getOperand_def arr_at_def
        reg_ptr_field [OF fields(1)] reg_ptr_field [OF fields(2)] reg_ptr_field [OF special_fields(1)] memcpy_def t_def Let_def
        split: if_splits) auto
  have "sep t 8 (t + 8) 16" by (simp add: sep_def)
  then have "mem_read (mem c') t 8 = mem_read (mem_write (mem c) t ?bm) t 8"
    unfolding c' by (intro mem_read_write_sep) simp
  also have "\<dots> = take 8 ?bm"
    using mem_read_write_same [of ?bm "mem c" t] take_mem_read [of 8 16 "mem_write (mem c) t ?bm" t, symmetric] by simp
  also have "\<dots> = mem_read (mem c) (a64_addr c (A_v m)) 8" by (simp add: take_mem_read)
  finally have "mem_read (mem c') t 8 = mem_read (mem c) (a64_addr c (A_v m)) 8" .
  moreover have "mem_read (mem c') (t + 8) 16 = ?bn"
    unfolding c' using mem_read_write_same [of ?bn _ "t + 8"] by simp
  ultimately show ?thesis using mem_read_append [of "mem c'" t 8 16] by (simp add: t_def)
qed


text \<open>
  The shared table of interpreted instructions stays coherent: after any sequence of
  initialisations every opcode that was accepted maps to an index of the table, the index
  never changes afterwards, and the entry there is an instruction decoded for that opcode
  (\<open>dec\<close> is the decoder).
\<close>

definition table_ok :: "(u32 \<Rightarrow> mcinst) \<Rightarrow> mc_table \<Rightarrow> bool" where
  "table_ok dec T \<longleftrightarrow> (\<forall>opc i. mc_instmap T opc = Some i \<longrightarrow> i < length (mc_insts T) \<and> mc_insts T ! i = dec opc)"

fun init_all :: "mc_env \<Rightarrow> (u32 \<Rightarrow> mcinst) \<Rightarrow> u32 list \<Rightarrow> mc_table \<Rightarrow> mc_table" where
  "init_all E dec [] T = T"
| "init_all E dec (opc # opcs) T = init_all E dec opcs (snd (initMCInstARM64 E opc (dec opc) T))"

lemma init_one: "table_ok dec T \<Longrightarrow> table_ok dec (snd (initMCInstARM64 E opc (dec opc) T)) \<and>
    (mc_instmap T opc' = Some i \<longrightarrow> mc_instmap (snd (initMCInstARM64 E opc (dec opc) T)) opc' = Some i)"
  by (auto simp: initMCInstARM64_def table_ok_def Let_def nth_append less_Suc_eq split: option.split)

lemma init_all_ok: "table_ok dec T \<Longrightarrow> table_ok dec (init_all E dec opcs T) \<and>
    (mc_instmap T opc' = Some i \<longrightarrow> mc_instmap (init_all E dec opcs T) opc' = Some i)"
proof (induction opcs arbitrary: T)
  case (Cons opc opcs)
  from init_one [OF Cons.prems, of E opc opc' i] Cons.IH [of "snd (initMCInstARM64 E opc (dec opc) T)"]
  show ?case by auto
qed simp

text \<open>
  The shared table of interpreted instructions stays coherent: an opcode accepted by
  \<open>initMCInstARM64\<close> is at the returned index, whatever is initialised afterwards the opcode
  keeps that index, and the entry there is the instruction decoded for it.
\<close>

lemma mcinst_index_stable:
  assumes "table_ok dec T" and "initMCInstARM64 E opc (dec opc) T = (Some i, T')"
  shows "mc_instmap (init_all E dec opcs T') opc = Some i \<and> mc_insts (init_all E dec opcs T') ! i = dec opc"
proof -
  have ok: "table_ok dec T'" using init_one [OF assms(1), of E opc] assms(2) by simp
  moreover have "mc_instmap T' opc = Some i"
    using assms(2) by (auto simp: initMCInstARM64_def Let_def split: if_splits option.splits)
  ultimately show ?thesis using init_all_ok [OF ok, of E opcs opc i] by (auto simp: table_ok_def)
qed


end
