(* ===== verification/NativeHandler.thy ===== *)
theory NativeHandler
  imports StateOffsets McInst
begin

text \<open>
  The native handlers of \<open>src/Lifter.cpp\<close>: for an instruction Remill cannot interpret, code for the
  host (of the guest's architecture) that loads the guest registers the instruction uses, executes
  its raw bytes, stores the registers back, advances the guest pc and jumps to the next handler.
  With it come the register scans \<open>parse_regused\<close> of \<open>src/UtilsAArch64.cpp\<close> and \<open>src/Lifter.cpp\<close>.

  The enumerators of LLVM's generated register tables are a parameter, a function from
  enumerator names to numbers.  A generated body is the list of its lines, one constructor per format
  string; assembling a line belongs to LLVM.  The second half of the theory gives the AArch64
  lines their machine meaning and proves what a handler does.
\<close>

section \<open>Registers an instruction uses\<close>

type_synonym reg_enum = "string \<Rightarrow> nat"

fun reg_operands :: "mc_operand list \<Rightarrow> nat list" where
  "reg_operands [] = []"
| "reg_operands (MC_reg r # os) = r # reg_operands os"
| "reg_operands (_ # os) = reg_operands os"

text \<open>
  \<open>std::set\<close> as the sorted list of its elements, \<open>insert\<close> as ordered insertion.
\<close>

definition set_insert_all :: "'a :: linorder list \<Rightarrow> 'a list \<Rightarrow> 'a list" where
  "set_insert_all xs s = fold insort_insert xs s"

text \<open>
  The ranges of the cascade in \<open>aarch64::parse_regused\<close>, in order: first and last
  enumerator, whether the registers are general purpose, the number of the first one, and how many
  consecutive registers an enumerator of the range stands for.
\<close>

definition a64_ranges :: "(string \<times> string \<times> bool \<times> nat \<times> nat) list" where
  "a64_ranges =
     [(''W0'', ''W30'', True, 0, 1), (''WSP'', ''WSP'', True, 31, 1), (''W0_W1'', ''W28_W29'', True, 0, 2),
      (''X0'', ''X28'', True, 0, 1), (''X0_X1'', ''X26_X27'', True, 0, 2),
      (''FP'', ''FP'', True, 29, 1), (''LR'', ''LR'', True, 30, 1), (''SP'', ''SP'', True, 31, 1),
      (''B0'', ''B31'', False, 0, 1), (''H0'', ''H31'', False, 0, 1), (''S0'', ''S31'', False, 0, 1),
      (''D0'', ''D31'', False, 0, 1), (''D0_D1'', ''D30_D31'', False, 0, 2),
      (''D0_D1_D2'', ''D29_D30_D31'', False, 0, 3), (''D0_D1_D2_D3'', ''D28_D29_D30_D31'', False, 0, 4),
      (''Q0'', ''Q31'', False, 0, 1), (''Q0_Q1'', ''Q30_Q31'', False, 0, 2),
      (''Q0_Q1_Q2'', ''Q29_Q30_Q31'', False, 0, 3), (''Q0_Q1_Q2_Q3'', ''Q28_Q29_Q30_Q31'', False, 0, 4),
      (''Z0'', ''Z31'', False, 0, 1), (''Z0_Z1'', ''Z30_Z31'', False, 0, 2),
      (''Z0_Z1_Z2'', ''Z29_Z30_Z31'', False, 0, 3), (''Z0_Z1_Z2_Z3'', ''Z28_Z29_Z30_Z31'', False, 0, 4)]"

fun range_regs :: "reg_enum \<Rightarrow> (string \<times> string \<times> bool \<times> nat \<times> nat) list \<Rightarrow> nat \<Rightarrow> bool \<times> nat list" where
  "range_regs E [] reg = (True, [])"
| "range_regs E ((lo, hi, gp, base, k) # rs) reg =
     (if E lo \<le> reg \<and> reg \<le> E hi then (gp, map (\<lambda>j. reg - E lo + base + j) [0..<k]) else range_regs E rs reg)"

definition a64_operand_regs :: "reg_enum \<Rightarrow> nat \<Rightarrow> bool \<times> nat list" where
  "a64_operand_regs E reg =
     (if reg = E ''WZR'' \<or> reg = E ''XZR'' then (True, []) else range_regs E a64_ranges reg)"

text \<open>The sets \<open>xregs\<close> and \<open>qregs\<close>, then the registers they stand for.\<close>

fun a64_scan :: "reg_enum \<Rightarrow> nat list \<Rightarrow> nat list \<times> nat list \<Rightarrow> nat list \<times> nat list" where
  "a64_scan E [] s = s"
| "a64_scan E (reg # regs) (xs, qs) =
     (case a64_operand_regs E reg of
        (True, ns) \<Rightarrow> a64_scan E regs (set_insert_all ns xs, qs)
      | (False, ns) \<Rightarrow> a64_scan E regs (xs, set_insert_all ns qs))"

definition parse_regused_a64 :: "reg_enum \<Rightarrow> mcinst \<Rightarrow> Register list" where
  "parse_regused_a64 E inst =
     (let (xs, qs) = a64_scan E (reg_operands (mc_operands inst)) ([], [])
      in set_insert_all (map (\<lambda>q. Q 0 + int q) qs) (set_insert_all (map (\<lambda>x. X 0 + int x) xs) []))"

text \<open>\<open>x86::canonicalize\<close>: the four or five names of each general purpose register.\<close>

definition x86_aliases :: "(string list \<times> Register) list" where
  "x86_aliases =
     [([''RAX'', ''EAX'', ''AX'', ''AL'', ''AH''], RAX), ([''RBX'', ''EBX'', ''BX'', ''BL'', ''BH''], RBX),
      ([''RCX'', ''ECX'', ''CX'', ''CL'', ''CH''], RCX), ([''RDX'', ''EDX'', ''DX'', ''DL'', ''DH''], RDX),
      ([''RDI'', ''EDI'', ''DI'', ''DIL''], RDI), ([''RSI'', ''ESI'', ''SI'', ''SIL''], RSI),
      ([''RBP'', ''EBP'', ''BP'', ''BPL''], RBP), ([''RSP'', ''ESP'', ''SP'', ''SPL''], RSP),
      ([''R8'', ''R8D'', ''R8W'', ''R8B''], R 8), ([''R9'', ''R9D'', ''R9W'', ''R9B''], R 9),
      ([''R10'', ''R10D'', ''R10W'', ''R10B''], R 10), ([''R11'', ''R11D'', ''R11W'', ''R11B''], R 11),
      ([''R12'', ''R12D'', ''R12W'', ''R12B''], R 12), ([''R13'', ''R13D'', ''R13W'', ''R13B''], R 13),
      ([''R14'', ''R14D'', ''R14W'', ''R14B''], R 14), ([''R15'', ''R15D'', ''R15W'', ''R15B''], R 15)]"

fun canonicalize_in :: "reg_enum \<Rightarrow> (string list \<times> Register) list \<Rightarrow> nat \<Rightarrow> Register res" where
  "canonicalize_in E [] reg = Inl Abort"
| "canonicalize_in E ((ns, r) # cs) reg = (if reg \<in> set (map E ns) then Inr r else canonicalize_in E cs reg)"

definition canonicalize :: "reg_enum \<Rightarrow> nat \<Rightarrow> Register res" where
  "canonicalize E reg = canonicalize_in E x86_aliases reg"

definition x86_operand_reg :: "reg_enum \<Rightarrow> nat \<Rightarrow> Register res" where
  "x86_operand_reg E reg =
     (if E ''XMM0'' \<le> reg \<and> reg \<le> E ''XMM15'' then Inr (XMM 0 + int (reg - E ''XMM0''))
      else if E ''XMM16'' \<le> reg \<and> reg \<le> E ''XMM31'' then Inr (XMM 16 + int (reg - E ''XMM16''))
      else if E ''YMM0'' \<le> reg \<and> reg \<le> E ''YMM15'' then Inr (XMM 0 + int (reg - E ''YMM0''))
      else if E ''YMM16'' \<le> reg \<and> reg \<le> E ''YMM31'' then Inr (XMM 16 + int (reg - E ''YMM16''))
      else if E ''ZMM0'' \<le> reg \<and> reg \<le> E ''ZMM31'' then Inr (XMM 0 + int (reg - E ''ZMM0''))
      else canonicalize E reg)"

definition parse_regused_x86 :: "reg_enum \<Rightarrow> mcinst \<Rightarrow> Register list res" where
  "parse_regused_x86 E inst =
     res_bind (res_map (x86_operand_reg E) (filter (\<lambda>r. r \<noteq> E ''NoRegister'') (reg_operands (mc_operands inst))))
       (\<lambda>rs. Inr (set_insert_all rs []))"

section \<open>AArch64 handlers\<close>

text \<open>One constructor per line format; register operands are hardware numbers.\<close>

datatype a64_line =
    StrPre nat \<comment> \<open>\<open>str x, [sp, #-0x10]!\<close>\<close>
  | StrDPre nat
  | LdrPost nat \<comment> \<open>\<open>ldr x, [sp], #0x10\<close>\<close>
  | LdrDPost nat
  | Mov nat nat \<comment> \<open>destination, source\<close>
  | Ldr nat nat int \<comment> \<open>\<open>ldr x, [x, #imm]\<close>\<close>
  | LdrQ nat nat int
  | Str nat nat int
  | StrQ nat nat int
  | AddI nat nat nat
  | Ubfx59 nat nat \<comment> \<open>\<open>ubfx x, x, #0, #59\<close>\<close>
  | Byte u8 \<comment> \<open>\<open>.byte\<close>\<close>
  | Br nat

definition xnum :: "Register \<Rightarrow> nat" where
  "xnum r = nat (r - X 0)"

definition qnum :: "Register \<Rightarrow> nat" where
  "qnum r = nat (r - Q 0)"

definition is_x :: "Register \<Rightarrow> bool" where
  "is_x r \<longleftrightarrow> X 0 \<le> r \<and> r \<le> X 30"

definition is_q :: "Register \<Rightarrow> bool" where
  "is_q r \<longleftrightarrow> Q 0 \<le> r \<and> r \<le> Q 31"

definition saved_x :: "Register \<Rightarrow> bool" where
  "saved_x r \<longleftrightarrow> X 19 \<le> r \<and> r \<le> X 30"

definition saved_q :: "Register \<Rightarrow> bool" where
  "saved_q r \<longleftrightarrow> Q 8 \<le> r \<and> r \<le> Q 15"

definition save_host :: "Register list \<Rightarrow> a64_line list" where
  "save_host regused = concat (map (\<lambda>r.
     if saved_x r then [StrPre (19 + nat (r - X 19))]
     else if saved_q r then [StrDPre (8 + nat (r - Q 8))] else []) regused)"

definition load_host :: "Register list \<Rightarrow> a64_line list" where
  "load_host regused = concat (map (\<lambda>r.
     if saved_x r then [LdrPost (19 + nat (r - X 19))]
     else if saved_q r then [LdrDPost (8 + nat (r - Q 8))] else []) (rev regused))"

text \<open>
  The register that holds the state pointer while the instruction runs: x26, or the first one from
  x0 on that the instruction does not use.
\<close>

function first_unused :: "Register list \<Rightarrow> Register \<Rightarrow> Register" where
  "first_unused used r = (if r \<in> set used then first_unused used (r + 1) else r)"
  by pat_completeness auto
termination
proof (relation "measure (\<lambda>(used, r). card {u \<in> set used. r \<le> u})")
  fix used :: "Register list" and r :: Register
  assume "r \<in> set used"
  then have "{u \<in> set used. r + 1 \<le> u} \<subset> {u \<in> set used. r \<le> u}" by force
  then show "((used, r + 1), used, r) \<in> measure (\<lambda>(used, r). card {u \<in> set used. r \<le> u})"
    by (simp add: psubset_card_mono)
qed simp

declare first_unused.simps [simp del]

definition regcpu_a64 :: "Register list \<Rightarrow> nat" where
  "regcpu_a64 regused = xnum (first_unused regused (if X 26 \<notin> set regused then X 26 else X 0))"

definition load_guest :: "(a64_field \<Rightarrow> nat) \<Rightarrow> nat \<Rightarrow> Register list \<Rightarrow> a64_line list res" where
  "load_guest L c regused = res_bind (res_map (\<lambda>r.
     if is_x r then res_bind (offset_reg_a64 L r) (\<lambda>k. Inr [Ldr (xnum r) c (int k)])
     else if is_q r then res_bind (offset_reg_a64 L r) (\<lambda>k. Inr [LdrQ (qnum r) c (int k)])
     else Inr []) regused) (\<lambda>ls. Inr (concat ls))"

definition save_guest :: "(a64_field \<Rightarrow> nat) \<Rightarrow> nat \<Rightarrow> Register list \<Rightarrow> a64_line list res" where
  "save_guest L c regused = res_bind (res_map (\<lambda>r.
     if is_x r then res_bind (offset_reg_a64 L r) (\<lambda>k. Inr [Str (xnum r) c (int k)])
     else if is_q r then res_bind (offset_reg_a64 L r) (\<lambda>k. Inr [StrQ (qnum r) c (int k)])
     else Inr []) regused) (\<lambda>ls. Inr (concat ls))"

definition emit_opcode :: "bytes \<Rightarrow> a64_line list" where
  "emit_opcode opcode = map Byte opcode"

definition update_pc_lines :: "a64_line list" where
  "update_pc_lines = [Mov 0 26, Ldr 1 0 (-16), Ldr 2 1 0, AddI 2 2 4, Str 2 1 0, Mov 1 2]"

definition advance_lines :: "a64_line list" where
  "advance_lines = [AddI 27 27 8, Mov 2 27, Ldr 16 27 0, Ubfx59 16 16, Br 16]"

definition nativeHandlerAArch64 :: "reg_enum \<Rightarrow> (a64_field \<Rightarrow> nat) \<Rightarrow> mcinst \<Rightarrow> bytes \<Rightarrow> a64_line list res" where
  "nativeHandlerAArch64 E L inst opcode =
     (let regused = parse_regused_a64 E inst; c = regcpu_a64 regused in
      res_bind (load_guest L c regused) (\<lambda>ld. res_bind (save_guest L c regused) (\<lambda>sv.
      Inr (save_host regused @ (if c \<noteq> 26 then [Mov c 26] else []) @ ld @ emit_opcode opcode @ sv @
           (if c \<noteq> 26 then [Mov 26 c] else []) @ load_host regused @ update_pc_lines @ advance_lines))))"

section \<open>x86-64 handlers\<close>

datatype x86_line =
    Push Register
  | Pop Register
  | SubRsp nat
  | AddRsp nat
  | MovdquToStack Register
  | MovdquFromStack Register
  | MovRR Register Register \<comment> \<open>AT\&T order: source, destination\<close>
  | MovLd int Register Register \<comment> \<open>displacement, base, destination\<close>
  | MovSt Register int Register \<comment> \<open>source, displacement, base\<close>
  | MovdquLd int Register Register
  | MovdquSt Register int Register
  | AddImm nat Register
  | ShlImm nat Register
  | ShrImm nat Register
  | JmpReg Register
  | Byte86 u8

definition is_gpr64 :: "Register \<Rightarrow> bool" where
  "is_gpr64 r \<longleftrightarrow> r \<in> {RAX, RBX, RCX, RDX, RDI, RSI, RSP, RBP, R 8, R 9, R 10, R 11, R 12, R 13, R 14, R 15}"

definition is_callee_saved_gpr :: "bool \<Rightarrow> Register \<Rightarrow> bool" where
  "is_callee_saved_gpr windows r \<longleftrightarrow>
     (if windows then r \<in> {RBX, RBP, RDI, RSI, R 12, R 13, R 14, R 15} else r \<in> {RBX, RBP, R 12, R 13, R 14, R 15})"

definition is_callee_saved_xmm :: "bool \<Rightarrow> Register \<Rightarrow> bool" where
  "is_callee_saved_xmm windows r \<longleftrightarrow> windows \<and> XMM 6 \<le> r \<and> r \<le> XMM 15"

definition kCpuCandidates :: "bool \<Rightarrow> Register list" where
  "kCpuCandidates windows =
     (if windows then [RAX, RCX, RDX, R 8, R 9, R 10, R 11]
      else [RAX, RCX, RDX, RSI, RDI, R 8, R 9, R 10, R 11])"

text \<open>The first unused candidate and the rest of the table; the loop reads past its end when there is none.\<close>

fun next_candidate :: "Register list \<Rightarrow> Register list \<Rightarrow> (Register \<times> Register list) res" where
  "next_candidate used [] = Inl OutOfBounds"
| "next_candidate used (c # cs) = (if c \<notin> set used then Inr (c, cs) else next_candidate used cs)"

definition pick_reg :: "Register \<Rightarrow> Register list \<Rightarrow> Register list \<Rightarrow> (Register \<times> Register list) res" where
  "pick_reg r used cs = (if r \<in> set used then next_candidate used cs else Inr (r, cs))"

definition x86_guest :: "(int \<Rightarrow> Register \<Rightarrow> x86_line) \<Rightarrow> (int \<Rightarrow> Register \<Rightarrow> x86_line) \<Rightarrow> (x86_field \<Rightarrow> nat) \<Rightarrow>
    Register list \<Rightarrow> x86_line list res" where
  "x86_guest gpr xmm L regused = res_bind (res_map (\<lambda>r.
     if is_gpr64 r then res_bind (offset_reg_x86 L r) (\<lambda>k. Inr [gpr (int k) r])
     else if XMM 0 \<le> r \<and> r \<le> XMM 15 then res_bind (offset_reg_x86 L r) (\<lambda>k. Inr [xmm (int k) r])
     else Inr []) regused) (\<lambda>ls. Inr (concat ls))"

definition x86_save_host :: "bool \<Rightarrow> Register list \<Rightarrow> x86_line list" where
  "x86_save_host w regused =
     map Push (filter (is_callee_saved_gpr w) regused) @
     concat (map (\<lambda>r. [SubRsp 16, MovdquToStack r]) (filter (is_callee_saved_xmm w) regused))"

definition x86_load_host :: "bool \<Rightarrow> Register list \<Rightarrow> x86_line list" where
  "x86_load_host w regused =
     concat (map (\<lambda>r. [MovdquFromStack r, AddRsp 16]) (filter (is_callee_saved_xmm w) (rev regused))) @
     map Pop (filter (is_callee_saved_gpr w) (rev regused))"

text \<open>The argument registers of the host ABI: \<open>ARGREG_0\<close>, \<open>ARGREG_1\<close>, \<open>ARGREG_2\<close>.\<close>

definition arg_regs :: "bool \<Rightarrow> Register \<times> Register \<times> Register" where
  "arg_regs windows = (if windows then (RCX, RDX, R 8) else (RDI, RSI, RDX))"

definition x86_tail :: "bool \<Rightarrow> nat \<Rightarrow> x86_line list" where
  "x86_tail w n =
     (let (a0, a1, a2) = arg_regs w in
      [MovRR (R 12) RAX, MovLd (-16) RAX RCX, MovLd 0 RCX RDX, AddImm n RDX, MovSt RDX 0 RCX,
       MovRR RAX a0, MovRR RDX a1, AddImm 8 (R 13), MovRR (R 13) a2,
       MovLd 0 (R 13) (R 10), ShlImm 5 (R 10), ShrImm 5 (R 10), JmpReg (R 10)])"

definition nativeHandlerX64 :: "bool \<Rightarrow> reg_enum \<Rightarrow> (x86_field \<Rightarrow> nat) \<Rightarrow> mcinst \<Rightarrow> bytes \<Rightarrow> x86_line list res" where
  "nativeHandlerX64 w E L inst opcode =
     res_bind (parse_regused_x86 E inst) (\<lambda>regused.
     res_bind (pick_reg (R 12) regused (kCpuCandidates w)) (\<lambda>(regcpu, cs).
     res_bind (pick_reg RSP regused cs) (\<lambda>(regrsp, cs).
     res_bind (x86_guest (\<lambda>k r. MovLd k regcpu r) (\<lambda>k r. MovdquLd k regcpu r) L regused) (\<lambda>ld.
     res_bind (x86_guest (\<lambda>k r. MovSt r k regcpu) (\<lambda>k r. MovdquSt r k regcpu) L regused) (\<lambda>sv.
     Inr (x86_save_host w regused @
          (if regcpu \<noteq> R 12 then [MovRR (R 12) regcpu] else []) @
          (if regrsp \<noteq> RSP then [MovRR RSP regrsp] else []) @
          ld @ map Byte86 opcode @ sv @
          (if regcpu \<noteq> R 12 then [MovRR regcpu (R 12)] else []) @
          (if regrsp \<noteq> RSP then [MovRR regrsp RSP] else []) @
          x86_load_host w regused @ x86_tail w (length opcode)))))))"

section \<open>Meaning of the AArch64 lines\<close>

text \<open>
  The host registers and memory.  Four consecutive \<open>.byte\<close> lines are one instruction, whose
  effect on the host is the parameter \<open>opc\<close>; a run ends at the branch, with its target.
\<close>

record host =
  hx :: "nat \<Rightarrow> u64"
  hq :: "nat \<Rightarrow> u64 \<times> u64"
  hsp :: u64
  hmem :: mem

fun a64_step :: "a64_line \<Rightarrow> host \<Rightarrow> host" where
  "a64_step (StrPre n) h = h\<lparr>hsp := hsp h - 16, hmem := store64 (hmem h) (hsp h - 16) (hx h n)\<rparr>"
| "a64_step (StrDPre n) h = h\<lparr>hsp := hsp h - 16, hmem := store64 (hmem h) (hsp h - 16) (fst (hq h n))\<rparr>"
| "a64_step (LdrPost n) h = h\<lparr>hx := (hx h)(n := load64 (hmem h) (hsp h)), hsp := hsp h + 16\<rparr>"
| "a64_step (LdrDPost n) h = h\<lparr>hq := (hq h)(n := (load64 (hmem h) (hsp h), 0)), hsp := hsp h + 16\<rparr>"
| "a64_step (Mov d s) h = h\<lparr>hx := (hx h)(d := hx h s)\<rparr>"
| "a64_step (Ldr t n k) h = h\<lparr>hx := (hx h)(t := load64 (hmem h) (hx h n + of_int k))\<rparr>"
| "a64_step (LdrQ t n k) h =
     (let a = hx h n + of_int k in h\<lparr>hq := (hq h)(t := (load64 (hmem h) a, load64 (hmem h) (a + 8)))\<rparr>)"
| "a64_step (Str t n k) h = h\<lparr>hmem := store64 (hmem h) (hx h n + of_int k) (hx h t)\<rparr>"
| "a64_step (StrQ t n k) h =
     (let a = hx h n + of_int k in h\<lparr>hmem := store64 (store64 (hmem h) a (fst (hq h t))) (a + 8) (snd (hq h t))\<rparr>)"
| "a64_step (AddI d s k) h = h\<lparr>hx := (hx h)(d := hx h s + word_of_nat k)\<rparr>"
| "a64_step (Ubfx59 d s) h = h\<lparr>hx := (hx h)(d := take_bit 59 (hx h s))\<rparr>"
| "a64_step (Byte _) h = h"
| "a64_step (Br _) h = h"

fun a64_run :: "(bytes \<Rightarrow> host \<Rightarrow> host) \<Rightarrow> bytes \<Rightarrow> a64_line list \<Rightarrow> host \<Rightarrow> host \<times> u64 option" where
  "a64_run opc acc [] h = (h, None)"
| "a64_run opc acc (l # ls) h =
     (case l of
        Br n \<Rightarrow> (h, Some (hx h n))
      | Byte b \<Rightarrow> (let bs = acc @ [b] in
          if length bs = 4 then a64_run opc [] ls (opc bs h) else a64_run opc bs ls h)
      | _ \<Rightarrow> a64_run opc acc ls (a64_step l h))"

fun straight :: "a64_line \<Rightarrow> bool" where
  "straight (Byte _) = False"
| "straight (Br _) = False"
| "straight _ = True"

lemma a64_run_straight:
  "list_all straight xs \<Longrightarrow> a64_run opc [] (xs @ ys) h = a64_run opc [] ys (fold a64_step xs h)"
proof (induction xs arbitrary: h)
  case (Cons l xs)
  then show ?case by (cases l) simp_all
qed simp

lemma a64_run_opcode:
  assumes "length bs = 4"
  shows "a64_run opc [] (emit_opcode bs @ ys) h = a64_run opc [] ys (opc bs h)"
proof -
  from assms obtain a b c d where "bs = [a, b, c, d]"
    by (auto simp: length_Suc_conv eval_nat_numeral)
  then show ?thesis by (simp add: emit_opcode_def)
qed

section \<open>Stack frame and guest slots\<close>

text \<open>Eight-byte slots: those of the frame, newest last, and those of a register in the \<open>State\<close>.\<close>

fun frame :: "u64 \<Rightarrow> nat \<Rightarrow> u64 list" where
  "frame sp 0 = []"
| "frame sp (Suc n) = (sp - 16) # frame (sp - 16) n"

definition goff :: "(a64_field \<Rightarrow> nat) \<Rightarrow> Register \<Rightarrow> nat" where
  "goff L r = (if is_x r then L (A_gpr 0) + 16 * xnum r else L (A_v 0) + 16 * qnum r)"

definition gslots :: "(a64_field \<Rightarrow> nat) \<Rightarrow> u64 \<Rightarrow> Register \<Rightarrow> u64 list" where
  "gslots L st r =
     (let a = st + word_of_nat (goff L r) in if is_x r then [a] else if is_q r then [a, a + 8] else [])"

fun slots_sep :: "u64 list \<Rightarrow> bool" where
  "slots_sep [] = True"
| "slots_sep (a # as) = (list_all (\<lambda>b. sep a 8 b 8) as \<and> slots_sep as)"

lemma slots_sep_append:
  "slots_sep (xs @ ys) \<longleftrightarrow> slots_sep xs \<and> slots_sep ys \<and> (\<forall>a\<in>set xs. \<forall>b\<in>set ys. sep a 8 b 8)"
  by (induction xs) (auto simp: list_all_iff)

definition saved :: "Register \<Rightarrow> bool" where
  "saved r \<longleftrightarrow> saved_x r \<or> saved_q r"

lemmas reg_class_defs = is_x_def is_q_def saved_x_def saved_q_def saved_def xnum_def qnum_def X_def Q_def

lemma is_q_not_x: "is_q r \<Longrightarrow> \<not> is_x r"
  by (auto simp: reg_class_defs)

lemma gslots_x: "is_x r \<Longrightarrow> gslots L st r = [st + word_of_nat (goff L r)]"
  and gslots_q: "is_q r \<Longrightarrow> gslots L st r = [st + word_of_nat (goff L r), st + word_of_nat (goff L r) + 8]"
  by (simp_all add: gslots_def is_q_not_x Let_def)

lemma offset_reg_goff: "is_x r \<or> is_q r \<Longrightarrow> offset_reg_a64 L r = Inr (goff L r)"
  by (auto simp: offset_reg_a64_def a64_reg_place_def place_offset_def goff_def reg_class_defs)

definition push_line :: "Register \<Rightarrow> a64_line" where
  "push_line r = (if saved_x r then StrPre (xnum r) else StrDPre (qnum r))"

definition pop_line :: "Register \<Rightarrow> a64_line" where
  "pop_line r = (if saved_x r then LdrPost (xnum r) else LdrDPost (qnum r))"

lemma save_host_lines: "save_host used = map push_line (filter saved used)"
proof -
  have "(if saved_x r then [StrPre (19 + nat (r - X 19))] else if saved_q r then [StrDPre (8 + nat (r - Q 8))] else [])
      = map push_line (filter saved [r])" for r
    by (auto simp: push_line_def reg_class_defs nat_eq_iff)
  then show ?thesis unfolding save_host_def by (induction used) auto
qed

lemma load_host_lines: "load_host used = map pop_line (rev (filter saved used))"
proof -
  have "(if saved_x r then [LdrPost (19 + nat (r - X 19))] else if saved_q r then [LdrDPost (8 + nat (r - Q 8))] else [])
      = map pop_line (filter saved [r])" for r
    by (auto simp: pop_line_def reg_class_defs nat_eq_iff)
  then show ?thesis unfolding load_host_def by (induction used) auto
qed

definition ld_lines :: "(a64_field \<Rightarrow> nat) \<Rightarrow> nat \<Rightarrow> Register \<Rightarrow> a64_line list" where
  "ld_lines L c r = (if is_x r then [Ldr (xnum r) c (int (goff L r))]
     else if is_q r then [LdrQ (qnum r) c (int (goff L r))] else [])"

definition st_lines :: "(a64_field \<Rightarrow> nat) \<Rightarrow> nat \<Rightarrow> Register \<Rightarrow> a64_line list" where
  "st_lines L c r = (if is_x r then [Str (xnum r) c (int (goff L r))]
     else if is_q r then [StrQ (qnum r) c (int (goff L r))] else [])"

lemma res_map_Inr: "(\<And>x. x \<in> set xs \<Longrightarrow> f x = Inr (g x)) \<Longrightarrow> res_map f xs = Inr (map g xs)"
  by (induction xs) simp_all

lemma load_guest_lines: "load_guest L c used = Inr (concat (map (ld_lines L c) used))"
  unfolding load_guest_def
  by (subst res_map_Inr [where g = "ld_lines L c"]) (auto simp: ld_lines_def offset_reg_goff)

lemma save_guest_lines: "save_guest L c used = Inr (concat (map (st_lines L c) used))"
  unfolding save_guest_def
  by (subst res_map_Inr [where g = "st_lines L c"]) (auto simp: st_lines_def offset_reg_goff)

section \<open>The phases of a handler\<close>

text \<open>Writes to slots leave every range that meets none of them as it was.\<close>

definition mem_frame :: "u64 list \<Rightarrow> mem \<Rightarrow> mem \<Rightarrow> bool" where
  "mem_frame slots m m' \<longleftrightarrow> (\<forall>a n. (\<forall>b\<in>set slots. sep a n b 8) \<longrightarrow> mem_read m' a n = mem_read m a n)"

lemma mem_frame_refl: "mem_frame slots m m"
  by (simp add: mem_frame_def)

lemma mem_frame_trans:
  "mem_frame xs m m' \<Longrightarrow> mem_frame ys m' m'' \<Longrightarrow> set xs \<subseteq> set zs \<Longrightarrow> set ys \<subseteq> set zs \<Longrightarrow> mem_frame zs m m''"
  unfolding mem_frame_def by (metis subsetD)

lemma mem_frame_store: "b \<in> set slots \<Longrightarrow> mem_frame slots m (store64 m b v)"
  by (simp add: mem_frame_def store64_def mem_read_write_sep)

lemma mem_frame_load64: "mem_frame slots m m' \<Longrightarrow> (\<forall>b\<in>set slots. sep a 8 b 8) \<Longrightarrow> load64 m' a = load64 m a"
  by (simp add: mem_frame_def load64_def)

lemma save_host_run:
  assumes "slots_sep (frame (hsp h) (length S))"
  shows "\<exists>m. fold a64_step (map push_line S) h = h\<lparr>hsp := hsp h - 16 * word_of_nat (length S), hmem := m\<rparr> \<and>
     list_all2 (\<lambda>a r. load64 m a = (if saved_x r then hx h (xnum r) else fst (hq h (qnum r)))) (frame (hsp h) (length S)) S \<and>
     mem_frame (frame (hsp h) (length S)) (hmem h) m"
  using assms
proof (induction S arbitrary: h)
  case Nil
  then show ?case by (intro exI [of _ "hmem h"]) (simp add: mem_frame_refl)
next
  case (Cons r S)
  let ?h = "a64_step (push_line r) h"
  let ?v = "if saved_x r then hx h (xnum r) else fst (hq h (qnum r))"
  have h: "?h = h\<lparr>hsp := hsp h - 16, hmem := store64 (hmem h) (hsp h - 16) ?v\<rparr>"
    by (simp add: push_line_def)
  from Cons.prems have sep: "\<forall>b\<in>set (frame (hsp h - 16) (length S)). sep (hsp h - 16) 8 b 8"
    and fs: "slots_sep (frame (hsp ?h) (length S))" by (simp_all add: h list_all_iff)
  have eqs: "hx ?h = hx h" "hq ?h = hq h" "hsp ?h = hsp h - 16" "hmem ?h = store64 (hmem h) (hsp h - 16) ?v"
    by (simp_all add: h)
  from Cons.IH [OF fs] obtain m where m: "fold a64_step (map push_line S) ?h
        = ?h\<lparr>hsp := hsp ?h - 16 * word_of_nat (length S), hmem := m\<rparr>"
      "list_all2 (\<lambda>a r. load64 m a = (if saved_x r then hx h (xnum r) else fst (hq h (qnum r)))) (frame (hsp h - 16) (length S)) S"
      "mem_frame (frame (hsp h - 16) (length S)) (store64 (hmem h) (hsp h - 16) ?v) m"
    unfolding eqs by blast
  have "load64 m (hsp h - 16) = ?v" using mem_frame_load64 [OF m(3) sep] by simp
  moreover have "mem_frame (frame (hsp h) (length (r # S))) (hmem h) m"
    by (rule mem_frame_trans [OF mem_frame_store [of "hsp h - 16" "[hsp h - 16]"] m(3)]) auto
  ultimately show ?case using m(1,2)
    by (intro exI [of _ m]) (simp add: h algebra_simps)
qed

lemma load_host_run:
  assumes "list_all2 (\<lambda>a r. load64 (hmem h) a = val r) (frame sp (length S)) S"
    and "hsp h = sp - 16 * word_of_nat (length S)" and "\<forall>r\<in>set S. saved r"
  shows "\<exists>x q. fold a64_step (map pop_line (rev S)) h = h\<lparr>hsp := sp, hx := x, hq := q\<rparr> \<and>
     (\<forall>n. X (int n) \<in> set S \<and> 19 \<le> n \<and> n \<le> 30 \<longrightarrow> x n = val (X (int n))) \<and>
     (\<forall>n. X (int n) \<notin> set S \<longrightarrow> x n = hx h n) \<and>
     (\<forall>n. Q (int n) \<in> set S \<and> 8 \<le> n \<and> n \<le> 15 \<longrightarrow> fst (q n) = val (Q (int n))) \<and>
     (\<forall>n. Q (int n) \<notin> set S \<longrightarrow> q n = hq h n)"
  using assms
proof (induction S arbitrary: sp rule: list.induct)
  case Nil
  then show ?case by (intro exI [of _ "hx h"] exI [of _ "hq h"]) simp
next
  case (Cons r S)
  have "hsp h = (sp - 16) - 16 * word_of_nat (length S)" using Cons.prems(2) by (simp add: algebra_simps)
  moreover have "list_all2 (\<lambda>a r. load64 (hmem h) a = val r) (frame (sp - 16) (length S)) S"
    and v: "load64 (hmem h) (sp - 16) = val r" using Cons.prems(1) by simp_all
  ultimately obtain x q where xq: "fold a64_step (map pop_line (rev S)) h = h\<lparr>hsp := sp - 16, hx := x, hq := q\<rparr>"
     "\<forall>n. X (int n) \<in> set S \<and> 19 \<le> n \<and> n \<le> 30 \<longrightarrow> x n = val (X (int n))"
     "\<forall>n. X (int n) \<notin> set S \<longrightarrow> x n = hx h n"
     "\<forall>n. Q (int n) \<in> set S \<and> 8 \<le> n \<and> n \<le> 15 \<longrightarrow> fst (q n) = val (Q (int n))"
     "\<forall>n. Q (int n) \<notin> set S \<longrightarrow> q n = hq h n"
    using Cons.IH [of "sp - 16"] Cons.prems(3) by auto
  show ?case
  proof (cases "saved_x r")
    case True
    then have r: "r = X (int (xnum r))" by (auto simp: reg_class_defs)
    show ?thesis
    proof (intro exI conjI)
      show "fold a64_step (map pop_line (rev (r # S))) h = h\<lparr>hsp := sp, hx := x(xnum r := val r), hq := q\<rparr>"
        using True v by (simp add: xq(1) pop_line_def)
    qed (use xq(2-) r True in \<open>auto simp: reg_class_defs\<close>)
  next
    case False
    then have r: "r = Q (int (qnum r))" using Cons.prems(3) by (auto simp: reg_class_defs)
    show ?thesis
    proof (intro exI conjI)
      show "fold a64_step (map pop_line (rev (r # S))) h = h\<lparr>hsp := sp, hx := x, hq := q(qnum r := (val r, 0))\<rparr>"
        using False v by (simp add: xq(1) pop_line_def)
    qed (use xq(2-) r in \<open>auto simp: reg_class_defs\<close>)
  qed
qed

lemma load_guest_run:
  assumes "\<forall>r\<in>set used. is_x r \<longrightarrow> xnum r \<noteq> c"
  shows "\<exists>x q. fold a64_step (concat (map (ld_lines L c) used)) h = h\<lparr>hx := x, hq := q\<rparr> \<and>
     (\<forall>r\<in>set used. is_x r \<longrightarrow> x (xnum r) = load64 (hmem h) (hx h c + word_of_nat (goff L r))) \<and>
     (\<forall>n. n \<le> 30 \<and> X (int n) \<notin> set used \<longrightarrow> x n = hx h n) \<and>
     (\<forall>r\<in>set used. is_q r \<longrightarrow> q (qnum r) =
        (load64 (hmem h) (hx h c + word_of_nat (goff L r)), load64 (hmem h) (hx h c + word_of_nat (goff L r) + 8))) \<and>
     (\<forall>n. n \<le> 31 \<and> Q (int n) \<notin> set used \<longrightarrow> q n = hq h n) \<and> x c = hx h c"
  using assms
proof (induction used rule: rev_induct)
  case Nil
  show ?case by (intro exI [of _ "hx h"] exI [of _ "hq h"]) simp
next
  case (snoc r used)
  then obtain x q where xq: "fold a64_step (concat (map (ld_lines L c) used)) h = h\<lparr>hx := x, hq := q\<rparr>"
     "\<forall>r\<in>set used. is_x r \<longrightarrow> x (xnum r) = load64 (hmem h) (hx h c + word_of_nat (goff L r))"
     "\<forall>n. n \<le> 30 \<and> X (int n) \<notin> set used \<longrightarrow> x n = hx h n"
     "\<forall>r\<in>set used. is_q r \<longrightarrow> q (qnum r) =
        (load64 (hmem h) (hx h c + word_of_nat (goff L r)), load64 (hmem h) (hx h c + word_of_nat (goff L r) + 8))"
     "\<forall>n. n \<le> 31 \<and> Q (int n) \<notin> set used \<longrightarrow> q n = hq h n" "x c = hx h c" by auto
  have inj: "xnum a = xnum r \<Longrightarrow> a = r" if "is_x a" "is_x r" for a using that by (auto simp: reg_class_defs)
  have injq: "qnum a = qnum r \<Longrightarrow> a = r" if "is_q a" "is_q r" for a using that by (auto simp: reg_class_defs)
  have num: "X (int n) \<noteq> r \<Longrightarrow> is_x r \<Longrightarrow> n \<noteq> xnum r" "Q (int n) \<noteq> r \<Longrightarrow> is_q r \<Longrightarrow> n \<noteq> qnum r" for n
    by (auto simp: reg_class_defs)
  have ex: "\<not> (is_x r \<and> is_q r)" by (auto simp: reg_class_defs)
  have c: "is_x r \<Longrightarrow> c \<noteq> xnum r" using snoc.prems by auto
  let ?a = "hx h c + word_of_nat (goff L r)"
  show ?case
  proof (intro exI conjI)
    show "fold a64_step (concat (map (ld_lines L c) (used @ [r]))) h
        = h\<lparr>hx := if is_x r then x(xnum r := load64 (hmem h) ?a) else x,
            hq := if is_q r then q(qnum r := (load64 (hmem h) ?a, load64 (hmem h) (?a + 8))) else q\<rparr>"
      using ex by (auto simp: xq(1) ld_lines_def xq(6) Let_def)
  qed (use xq(2-) c in \<open>auto dest: inj injq num\<close>)
qed

lemma save_guest_run:
  assumes "slots_sep (concat (map (gslots L (hx h c)) used))"
  shows "\<exists>m. fold a64_step (concat (map (st_lines L c) used)) h = h\<lparr>hmem := m\<rparr> \<and>
     mem_frame (concat (map (gslots L (hx h c)) used)) (hmem h) m \<and>
     (\<forall>r\<in>set used. is_x r \<longrightarrow> load64 m (hx h c + word_of_nat (goff L r)) = hx h (xnum r)) \<and>
     (\<forall>r\<in>set used. is_q r \<longrightarrow> load64 m (hx h c + word_of_nat (goff L r)) = fst (hq h (qnum r)) \<and>
        load64 m (hx h c + word_of_nat (goff L r) + 8) = snd (hq h (qnum r)))"
  using assms
proof (induction used arbitrary: h)
  case Nil
  show ?case by (intro exI [of _ "hmem h"]) (simp add: mem_frame_refl)
next
  case (Cons r used)
  let ?a = "hx h c + word_of_nat (goff L r)"
  let ?m = "if is_x r then store64 (hmem h) ?a (hx h (xnum r))
            else if is_q r then store64 (store64 (hmem h) ?a (fst (hq h (qnum r)))) (?a + 8) (snd (hq h (qnum r)))
            else hmem h"
  have h: "fold a64_step (st_lines L c r) h = h\<lparr>hmem := ?m\<rparr>" by (simp add: st_lines_def Let_def)
  from Cons.prems have s: "slots_sep (gslots L (hx h c) r)" "slots_sep (concat (map (gslots L (hx h c)) used))"
    and d: "\<forall>a\<in>set (gslots L (hx h c) r). \<forall>b\<in>set (concat (map (gslots L (hx h c)) used)). sep a 8 b 8"
    by (simp_all add: slots_sep_append)
  from Cons.IH [of "h\<lparr>hmem := ?m\<rparr>"] s(2) obtain m where
    m: "fold a64_step (concat (map (st_lines L c) used)) (h\<lparr>hmem := ?m\<rparr>) = h\<lparr>hmem := m\<rparr>"
      "mem_frame (concat (map (gslots L (hx h c)) used)) ?m m"
      "\<forall>r\<in>set used. is_x r \<longrightarrow> load64 m (hx h c + word_of_nat (goff L r)) = hx h (xnum r)"
      "\<forall>r\<in>set used. is_q r \<longrightarrow> load64 m (hx h c + word_of_nat (goff L r)) = fst (hq h (qnum r)) \<and>
        load64 m (hx h c + word_of_nat (goff L r) + 8) = snd (hq h (qnum r))" by auto
  have first: "mem_frame (gslots L (hx h c) r) (hmem h) ?m"
    by (auto simp: gslots_def Let_def mem_frame_refl intro: mem_frame_store
        intro!: mem_frame_trans [OF mem_frame_store [of ?a "[?a, ?a + 8]"] mem_frame_store [of "?a + 8" "[?a, ?a + 8]"]])
  have keep: "load64 m a = load64 ?m a" if "a \<in> set (gslots L (hx h c) r)" for a
    using mem_frame_load64 [OF m(2)] d that by blast
  have "is_x r \<Longrightarrow> load64 m ?a = hx h (xnum r)" using keep [of ?a] by (simp add: gslots_def)
  moreover have "load64 m ?a = fst (hq h (qnum r)) \<and> load64 m (?a + 8) = snd (hq h (qnum r))" if q: "is_q r"
  proof -
    have nx: "\<not> is_x r" using q by (auto simp: reg_class_defs)
    then have "sep ?a 8 (?a + 8) 8" using s(1) q by (simp add: gslots_def Let_def)
    then show ?thesis using keep [of ?a] keep [of "?a + 8"] q nx by (simp add: gslots_def load64_store64_sep Let_def)
  qed
  ultimately show ?case using m
    by (intro exI [of _ m]) (auto simp: h intro: mem_frame_trans [OF first m(2)])
qed

section \<open>What a handler does\<close>

lemma first_unused_notin: "first_unused used r \<notin> set used"
proof (induction used r rule: first_unused.induct)
  case (1 used r)
  then show ?case by (simp add: first_unused.simps [of used r])
qed

lemma first_unused_ge: "r \<le> first_unused used r"
proof (induction used r rule: first_unused.induct)
  case (1 used r)
  then show ?case by (cases "r \<in> set used") (simp_all add: first_unused.simps [of used r])
qed

lemma regcpu_fresh:
  assumes "r \<in> set used" and "is_x r"
  shows "xnum r \<noteq> regcpu_a64 used"
proof -
  let ?s = "if X 26 \<notin> set used then X 26 else X 0"
  have "first_unused used ?s \<noteq> r" "X 0 \<le> first_unused used ?s"
    using first_unused_notin [of used ?s] first_unused_ge [of ?s used] assms(1) by (auto simp: X_def)
  with assms(2) show ?thesis by (auto simp: regcpu_a64_def reg_class_defs)
qed

lemma regcpu_is_26: "X 26 \<notin> set used \<Longrightarrow> regcpu_a64 used = 26"
  by (simp add: regcpu_a64_def first_unused.simps) (simp add: reg_class_defs)

text \<open>The host registers an instruction uses hold what the \<open>State\<close> at \<open>st\<close> in \<open>m\<close> holds for them.\<close>

definition guest_in :: "(a64_field \<Rightarrow> nat) \<Rightarrow> Register list \<Rightarrow> u64 \<Rightarrow> mem \<Rightarrow> host \<Rightarrow> bool" where
  "guest_in L used st m h \<longleftrightarrow>
     (\<forall>r\<in>set used. is_x r \<longrightarrow> load64 m (st + word_of_nat (goff L r)) = hx h (xnum r)) \<and>
     (\<forall>r\<in>set used. is_q r \<longrightarrow> load64 m (st + word_of_nat (goff L r)) = fst (hq h (qnum r)) \<and>
        load64 m (st + word_of_nat (goff L r) + 8) = snd (hq h (qnum r)))"

lemma guest_in_cong:
  assumes "guest_in L used st m h"
    and "\<And>a r. r \<in> set used \<Longrightarrow> a \<in> set (gslots L st r) \<Longrightarrow> load64 m' a = load64 m a"
  shows "guest_in L used st m' h"
  using assms(1) assms(2) [where a = "st + word_of_nat (goff L _)"] assms(2) [where a = "st + word_of_nat (goff L _) + 8"]
  by (simp add: guest_in_def gslots_x gslots_q)

text \<open>The instruction writes no other register, and no slot the handler needs.\<close>

definition insn_keeps :: "Register list \<Rightarrow> u64 list \<Rightarrow> host \<Rightarrow> host \<Rightarrow> bool" where
  "insn_keeps used slots h h' \<longleftrightarrow> hsp h' = hsp h \<and>
     (\<forall>n\<le>30. X (int n) \<notin> set used \<longrightarrow> hx h' n = hx h n) \<and> (\<forall>n\<le>31. Q (int n) \<notin> set used \<longrightarrow> hq h' n = hq h n) \<and>
     (\<forall>a\<in>set slots. load64 (hmem h') a = load64 (hmem h) a)"

text \<open>What the host's calling convention asks, but for the instruction pointer x27.\<close>

definition abi_kept :: "host \<Rightarrow> host \<Rightarrow> bool" where
  "abi_kept h h' \<longleftrightarrow> hsp h' = hsp h \<and> (\<forall>n. 19 \<le> n \<and> n \<le> 30 \<and> n \<noteq> 27 \<longrightarrow> hx h' n = hx h n) \<and>
     (\<forall>n. 8 \<le> n \<and> n \<le> 15 \<longrightarrow> fst (hq h' n) = fst (hq h n))"

definition frame_of :: "Register list \<Rightarrow> host \<Rightarrow> u64 list" where
  "frame_of used h = frame (hsp h) (length (filter saved used))"

text \<open>
  Every slot a handler touches: its stack frame, the used registers in the \<open>State\<close> at x26, the
  pc pointer before the \<open>State\<close>, the pc, and the next entry of the instruction list.
\<close>

definition handler_slots :: "(a64_field \<Rightarrow> nat) \<Rightarrow> Register list \<Rightarrow> host \<Rightarrow> u64 list" where
  "handler_slots L used h = frame_of used h @ concat (map (gslots L (hx h 26)) used) @
     [hx h 26 - 16, load64 (hmem h) (hx h 26 - 16), hx h 27 + 8]"

text \<open>The part before the instruction: host registers saved, guest registers loaded.\<close>

lemma prologue_run:
  fixes h :: host and used :: "Register list" and L :: "a64_field \<Rightarrow> nat"
  defines "c \<equiv> regcpu_a64 used"
  defines "pro \<equiv> save_host used @ (if c \<noteq> 26 then [Mov c 26] else []) @ concat (map (ld_lines L c) used)"
  assumes "slots_sep (handler_slots L used h)" and c: "c < 19 \<or> c = 26"
  obtains h1 where "fold a64_step pro h = h1" "guest_in L used (hx h 26) (hmem h) h1"
    "mem_frame (frame_of used h) (hmem h) (hmem h1)" "hsp h1 = hsp h - 16 * word_of_nat (length (filter saved used))"
    "list_all2 (\<lambda>a r. load64 (hmem h1) a = (if saved_x r then hx h (xnum r) else fst (hq h (qnum r)))) (frame_of used h) (filter saved used)"
    "hx h1 c = hx h 26" "\<forall>n\<le>30. n \<noteq> c \<and> X (int n) \<notin> set used \<longrightarrow> hx h1 n = hx h n"
    "\<forall>n\<le>31. Q (int n) \<notin> set used \<longrightarrow> hq h1 n = hq h n"
proof -
  have fs: "slots_sep (frame (hsp h) (length (filter saved used)))"
    using assms(3) by (simp add: handler_slots_def frame_of_def slots_sep_append)
  from save_host_run [OF fs] obtain m where m:
    "fold a64_step (save_host used) h = h\<lparr>hsp := hsp h - 16 * word_of_nat (length (filter saved used)), hmem := m\<rparr>"
    "list_all2 (\<lambda>a r. load64 m a = (if saved_x r then hx h (xnum r) else fst (hq h (qnum r)))) (frame_of used h) (filter saved used)"
    "mem_frame (frame_of used h) (hmem h) m"
    unfolding save_host_lines frame_of_def by blast
  define ha where "ha = fold a64_step (if c \<noteq> 26 then [Mov c 26] else [])
    (h\<lparr>hsp := hsp h - 16 * word_of_nat (length (filter saved used)), hmem := m\<rparr>)"
  have ha: "hx ha = (hx h)(c := hx h 26)" "hq ha = hq h" "hmem ha = m"
    "hsp ha = hsp h - 16 * word_of_nat (length (filter saved used))"
    by (auto simp: ha_def)
  have fresh: "\<forall>r\<in>set used. is_x r \<longrightarrow> xnum r \<noteq> c" unfolding c_def using regcpu_fresh by blast
  from load_guest_run [OF fresh, of L ha] obtain x q where xq:
     "fold a64_step (concat (map (ld_lines L c) used)) ha = ha\<lparr>hx := x, hq := q\<rparr>"
     "\<forall>r\<in>set used. is_x r \<longrightarrow> x (xnum r) = load64 m (hx h 26 + word_of_nat (goff L r))"
     "\<forall>n. n \<le> 30 \<and> X (int n) \<notin> set used \<longrightarrow> x n = hx ha n"
     "\<forall>r\<in>set used. is_q r \<longrightarrow> q (qnum r) =
        (load64 m (hx h 26 + word_of_nat (goff L r)), load64 m (hx h 26 + word_of_nat (goff L r) + 8))"
     "\<forall>n. n \<le> 31 \<and> Q (int n) \<notin> set used \<longrightarrow> q n = hq h n" "x c = hx h 26"
    by (auto simp: ha)
  have keep: "load64 m a = load64 (hmem h) a" if "a \<in> set (gslots L (hx h 26) r)" "r \<in> set used" for a r
    using mem_frame_load64 [OF m(3)] assms(3) that sep_sym
    by (fastforce simp: handler_slots_def slots_sep_append)
  have gm: "guest_in L used (hx h 26) m (ha\<lparr>hx := x, hq := q\<rparr>)" using xq(2,4) by (simp add: guest_in_def)
  show thesis
  proof (rule that)
    show "fold a64_step pro h = ha\<lparr>hx := x, hq := q\<rparr>"
      using xq(1) by (simp add: pro_def m(1) ha_def)
    show "guest_in L used (hx h 26) (hmem h) (ha\<lparr>hx := x, hq := q\<rparr>)"
      using gm by (rule guest_in_cong) (rule keep [symmetric])
  qed (use m xq ha in \<open>auto simp: frame_of_def\<close>)
qed

text \<open>The part after it: guest registers stored, host registers restored.\<close>

lemma epilogue_run:
  fixes h h2 :: host and used :: "Register list" and L :: "a64_field \<Rightarrow> nat"
  defines "c \<equiv> regcpu_a64 used"
  defines "epi \<equiv> concat (map (st_lines L c) used) @ (if c \<noteq> 26 then [Mov 26 c] else []) @ load_host used"
  assumes ss: "slots_sep (handler_slots L used h)" and c: "hx h2 c = hx h 26"
    and fr: "list_all2 (\<lambda>a r. load64 (hmem h2) a = (if saved_x r then hx h (xnum r) else fst (hq h (qnum r))))
               (frame_of used h) (filter saved used)"
    and sp: "hsp h2 = hsp h - 16 * word_of_nat (length (filter saved used))"
  obtains x q m where "fold a64_step epi h2 = h2\<lparr>hx := x, hq := q, hmem := m, hsp := hsp h\<rparr>"
    "mem_frame (concat (map (gslots L (hx h 26)) used)) (hmem h2) m" "guest_in L used (hx h 26) m h2"
    "\<forall>n. 19 \<le> n \<and> n \<le> 30 \<and> X (int n) \<in> set used \<longrightarrow> x n = hx h n"
    "\<forall>n. X (int n) \<notin> set used \<longrightarrow> x n = (if n = 26 then hx h 26 else hx h2 n)"
    "\<forall>n. 8 \<le> n \<and> n \<le> 15 \<and> Q (int n) \<in> set used \<longrightarrow> fst (q n) = fst (hq h n)"
    "\<forall>n. Q (int n) \<notin> set used \<longrightarrow> q n = hq h2 n"
proof -
  have gs: "slots_sep (concat (map (gslots L (hx h2 c)) used))"
    using ss by (simp add: handler_slots_def slots_sep_append c)
  from save_guest_run [OF gs] obtain m where m: "fold a64_step (concat (map (st_lines L c) used)) h2 = h2\<lparr>hmem := m\<rparr>"
    "mem_frame (concat (map (gslots L (hx h 26)) used)) (hmem h2) m" "guest_in L used (hx h 26) m h2"
    by (auto simp: c guest_in_def)
  let ?val = "\<lambda>r. if saved_x r then hx h (xnum r) else fst (hq h (qnum r))"
  have "load64 m a = load64 (hmem h2) a" if "a \<in> set (frame_of used h)" for a
    using mem_frame_load64 [OF m(2)] ss that by (auto simp: handler_slots_def slots_sep_append)
  with fr have fr': "list_all2 (\<lambda>a r. load64 m a = ?val r) (frame_of used h) (filter saved used)"
    by (auto simp: list_all2_conv_all_nth)
  define hb where "hb = fold a64_step (if c \<noteq> 26 then [Mov 26 c] else []) (h2\<lparr>hmem := m\<rparr>)"
  have hb: "hb = (if c = 26 then h2\<lparr>hmem := m\<rparr> else h2\<lparr>hmem := m, hx := (hx h2)(26 := hx h 26)\<rparr>)"
    by (simp add: hb_def c)
  then have hb': "hq hb = hq h2" "hmem hb = m" "hsp hb = hsp h2" by simp_all
  have hbx: "hx hb n = (if n = 26 then hx h 26 else hx h2 n)" for n
    using c unfolding hb by (cases "c = 26") simp_all
  have pre: "list_all2 (\<lambda>a r. load64 (hmem hb) a = ?val r) (frame (hsp h) (length (filter saved used))) (filter saved used)"
    "hsp hb = hsp h - 16 * word_of_nat (length (filter saved used))" "\<forall>r\<in>set (filter saved used). saved r"
    using fr' sp by (simp_all add: hb' frame_of_def)
  obtain x q where xq: "fold a64_step (load_host used) hb = hb\<lparr>hsp := hsp h, hx := x, hq := q\<rparr>"
     "\<forall>n. X (int n) \<in> set (filter saved used) \<and> 19 \<le> n \<and> n \<le> 30 \<longrightarrow> x n = ?val (X (int n))"
     "\<forall>n. X (int n) \<notin> set (filter saved used) \<longrightarrow> x n = hx hb n"
     "\<forall>n. Q (int n) \<in> set (filter saved used) \<and> 8 \<le> n \<and> n \<le> 15 \<longrightarrow> fst (q n) = ?val (Q (int n))"
     "\<forall>n. Q (int n) \<notin> set (filter saved used) \<longrightarrow> q n = hq hb n"
    using load_host_run [OF pre, folded load_host_lines] by (elim exE conjE) (rule that)
  show thesis
  proof (rule that [OF _ m(2,3)])
    show "fold a64_step epi h2 = h2\<lparr>hx := x, hq := q, hmem := m, hsp := hsp h\<rparr>"
      by (simp add: epi_def m(1) xq(1) flip: hb_def) (simp add: hb)
    show "\<forall>n. 19 \<le> n \<and> n \<le> 30 \<and> X (int n) \<in> set used \<longrightarrow> x n = hx h n"
      using xq(2) by (auto simp: reg_class_defs)
    show "\<forall>n. 8 \<le> n \<and> n \<le> 15 \<and> Q (int n) \<in> set used \<longrightarrow> fst (q n) = fst (hq h n)"
      using xq(4) by (auto simp: reg_class_defs)
  qed (use xq(3,5) in \<open>auto simp: hb' hbx\<close>)
qed

lemma nativeHandlerAArch64_lines:
  fixes used :: "Register list"
  defines "c \<equiv> regcpu_a64 used"
  assumes "used = parse_regused_a64 E inst"
  shows "nativeHandlerAArch64 E L inst bs = Inr
    ((save_host used @ (if c \<noteq> 26 then [Mov c 26] else []) @ concat (map (ld_lines L c) used)) @ emit_opcode bs @
     (concat (map (st_lines L c) used) @ (if c \<noteq> 26 then [Mov 26 c] else []) @ load_host used) @
     update_pc_lines @ advance_lines)"
  by (simp add: nativeHandlerAArch64_def Let_def load_guest_lines save_guest_lines c_def flip: assms(2))

lemma straight_parts:
  "list_all straight (save_host used)" "list_all straight (load_host used)"
  "list_all straight (concat (map (ld_lines L c) used))" "list_all straight (concat (map (st_lines L c) used))"
  by (auto simp: save_host_lines load_host_lines push_line_def pop_line_def ld_lines_def st_lines_def list_all_iff)

text \<open>The tail: the pc, the argument registers, and the next handler.\<close>

lemma tail_run:
  fixes h5 :: host
  defines "pcp \<equiv> load64 (hmem h5) (hx h5 26 - 16)"
  assumes "sep (hx h5 27 + 8) 8 pcp 8"
  shows "\<exists>hf. a64_run opc [] (update_pc_lines @ advance_lines) h5 = (hf, Some (take_bit 59 (load64 (hmem h5) (hx h5 27 + 8)))) \<and>
     hmem hf = store64 (hmem h5) pcp (load64 (hmem h5) pcp + 4) \<and> hsp hf = hsp h5 \<and> hq hf = hq h5 \<and>
     hx hf 0 = hx h5 26 \<and> hx hf 1 = load64 (hmem h5) pcp + 4 \<and> hx hf 2 = hx h5 27 + 8 \<and> hx hf 27 = hx h5 27 + 8 \<and>
     (\<forall>n. 19 \<le> n \<and> n \<noteq> 27 \<longrightarrow> hx hf n = hx h5 n)"
  using assms(2) by (simp add: update_pc_lines_def advance_lines_def load64_store64_sep flip: pcp_def)

text \<open>The three parts in sequence, up to the tail.\<close>

lemma body_run:
  fixes h :: host and used :: "Register list" and L :: "a64_field \<Rightarrow> nat"
  defines "c \<equiv> regcpu_a64 used"
  defines "pro \<equiv> save_host used @ (if c \<noteq> 26 then [Mov c 26] else []) @ concat (map (ld_lines L c) used)"
  defines "epi \<equiv> concat (map (st_lines L c) used) @ (if c \<noteq> 26 then [Mov 26 c] else []) @ load_host used"
  assumes c: "c < 19 \<or> c = 26" and ss: "slots_sep (handler_slots L used h)"
    and insn: "\<And>h1. guest_in L used (hx h 26) (hmem h) h1 \<Longrightarrow> mem_frame (frame_of used h) (hmem h) (hmem h1) \<Longrightarrow>
       insn_keeps used (handler_slots L used h) h1 (exec h1)"
  obtains h1 h5 where "fold a64_step pro h = h1" "fold a64_step epi (exec h1) = h5"
    "guest_in L used (hx h 26) (hmem h) h1" "mem_frame (frame_of used h) (hmem h) (hmem h1)"
    "guest_in L used (hx h 26) (hmem h5) (exec h1)"
    "mem_frame (concat (map (gslots L (hx h 26)) used)) (hmem (exec h1)) (hmem h5)"
    "\<forall>a\<in>{hx h 26 - 16, load64 (hmem h) (hx h 26 - 16), hx h 27 + 8}. load64 (hmem h5) a = load64 (hmem h) a"
    "abi_kept h h5" "hx h5 27 = hx h 27"
proof -
  let ?G = "concat (map (gslots L (hx h 26)) used)"
  obtain h1 where h1: "fold a64_step pro h = h1"
    "guest_in L used (hx h 26) (hmem h) h1" "mem_frame (frame_of used h) (hmem h) (hmem h1)"
    "hsp h1 = hsp h - 16 * word_of_nat (length (filter saved used))"
    "list_all2 (\<lambda>a r. load64 (hmem h1) a = (if saved_x r then hx h (xnum r) else fst (hq h (qnum r)))) (frame_of used h) (filter saved used)"
    "hx h1 c = hx h 26" "\<forall>n\<le>30. n \<noteq> c \<and> X (int n) \<notin> set used \<longrightarrow> hx h1 n = hx h n"
    "\<forall>n\<le>31. Q (int n) \<notin> set used \<longrightarrow> hq h1 n = hq h n"
    by (rule prologue_run [OF ss c [unfolded c_def], folded c_def, folded pro_def]) (rule that)
  define h2 where "h2 = exec h1"
  have k: "insn_keeps used (handler_slots L used h) h1 h2" unfolding h2_def by (rule insn [OF h1(2,3)])
  have cu: "X (int c) \<notin> set used"
    using regcpu_fresh [of "X (int c)" used] c by (auto simp: reg_class_defs c_def)
  have slots2: "load64 (hmem h2) a = load64 (hmem h1) a" if "a \<in> set (handler_slots L used h)" for a
    using k that by (simp add: insn_keeps_def)
  have fr2: "list_all2 (\<lambda>a r. load64 (hmem h2) a = (if saved_x r then hx h (xnum r) else fst (hq h (qnum r))))
      (frame_of used h) (filter saved used)"
    using h1(5) slots2 by (auto simp: list_all2_conv_all_nth handler_slots_def)
  have c2: "hx h2 (regcpu_a64 used) = hx h 26" using k cu c h1(6) by (auto simp: insn_keeps_def c_def)
  have sp2: "hsp h2 = hsp h - 16 * word_of_nat (length (filter saved used))" using k h1(4) by (simp add: insn_keeps_def)
  obtain x q m where e: "fold a64_step epi h2 = h2\<lparr>hx := x, hq := q, hmem := m, hsp := hsp h\<rparr>"
    "mem_frame ?G (hmem h2) m" "guest_in L used (hx h 26) m h2"
    "\<forall>n. 19 \<le> n \<and> n \<le> 30 \<and> X (int n) \<in> set used \<longrightarrow> x n = hx h n"
    "\<forall>n. X (int n) \<notin> set used \<longrightarrow> x n = (if n = 26 then hx h 26 else hx h2 n)"
    "\<forall>n. 8 \<le> n \<and> n \<le> 15 \<and> Q (int n) \<in> set used \<longrightarrow> fst (q n) = fst (hq h n)"
    "\<forall>n. Q (int n) \<notin> set used \<longrightarrow> q n = hq h2 n"
    by (rule epilogue_run [OF ss c2 fr2 sp2, folded c_def, folded epi_def]) (rule that)
  have x: "x n = hx h n" if "19 \<le> n" "n \<le> 30" for n
  proof (cases "X (int n) \<in> set used \<or> n = 26")
    case False
    then have "n \<noteq> c" using c that by auto
    with False that h1(7) k e(5) show ?thesis by (simp add: insn_keeps_def)
  qed (use e(4,5) that in auto)
  have q: "fst (q n) = fst (hq h n)" if "8 \<le> n" "n \<le> 15" for n
    using e(6,7) h1(8) k that by (cases "Q (int n) \<in> set used") (simp_all add: insn_keeps_def)
  have m: "load64 m a = load64 (hmem h) a" if "a \<in> {hx h 26 - 16, load64 (hmem h) (hx h 26 - 16), hx h 27 + 8}" for a
  proof -
    have "sep a 8 b 8" if "b \<in> set (frame_of used h) \<or> b \<in> set ?G" for b
      using ss that \<open>a \<in> _\<close> sep_sym [of a] by (auto simp: handler_slots_def slots_sep_append simp del: set_concat)
    then have "load64 m a = load64 (hmem h2) a" "load64 (hmem h1) a = load64 (hmem h) a"
      using mem_frame_load64 [OF e(2)] mem_frame_load64 [OF h1(3)] by blast+
    moreover have "load64 (hmem h2) a = load64 (hmem h1) a" using that by (intro slots2) (auto simp: handler_slots_def)
    ultimately show ?thesis by simp
  qed
  show thesis
    by (rule that [OF h1(1) e(1) [unfolded h2_def] h1(2,3)]) (use e(2,3) x q m in \<open>simp_all add: h2_def abi_kept_def\<close>)
qed

text \<open>
  C2: a native handler for an AArch64 instruction simulates it.  For every instruction that leaves
  a caller-saved register (or x26) free, the generated code first brings the guest's values
  of the used registers into the host's, then runs the instruction's bytes; when that writes only
  the used registers and none of the handler's slots, the run ends by jumping to
  the next entry of the instruction list (its address without the tag bits), the guest's \<open>State\<close>
  holds the values the instruction computed and nothing but the used registers and the pc
  has changed in memory apart from the handler's own stack frame, the pc has advanced by four, the
  argument registers are those of a handler call, and all registers the calling convention
  protects, the stack pointer included, have the values they had.
\<close>

theorem native_handler_simulates:
  assumes "length bs = 4" and used: "used = parse_regused_a64 E inst"
    and c: "regcpu_a64 used < 19 \<or> regcpu_a64 used = 26"
    and ss: "slots_sep (handler_slots L used h)"
    and insn: "\<And>h1. guest_in L used (hx h 26) (hmem h) h1 \<Longrightarrow> mem_frame (frame_of used h) (hmem h) (hmem h1) \<Longrightarrow>
       insn_keeps used (handler_slots L used h) h1 (opc bs h1)"
  shows "\<exists>ls h1 hf. nativeHandlerAArch64 E L inst bs = Inr ls \<and>
     guest_in L used (hx h 26) (hmem h) h1 \<and> mem_frame (frame_of used h) (hmem h) (hmem h1) \<and>
     a64_run opc [] ls h = (hf, Some (take_bit 59 (load64 (hmem h) (hx h 27 + 8)))) \<and>
     guest_in L used (hx h 26) (hmem hf) (opc bs h1) \<and>
     mem_frame (handler_slots L used h) (hmem (opc bs h1)) (hmem hf) \<and>
     (let pcp = load64 (hmem h) (hx h 26 - 16); pc = load64 (hmem h) pcp + 4 in
        load64 (hmem hf) pcp = pc \<and> hx hf 0 = hx h 26 \<and> hx hf 1 = pc \<and> hx hf 2 = hx h 27 + 8 \<and> hx hf 27 = hx h 27 + 8) \<and>
     abi_kept h hf"
proof -
  let ?c = "regcpu_a64 used" and ?G = "concat (map (gslots L (hx h 26)) used)"
  let ?pc = "load64 (hmem h) (hx h 26 - 16)"
  let ?pro = "save_host used @ (if ?c \<noteq> 26 then [Mov ?c 26] else []) @ concat (map (ld_lines L ?c) used)"
  let ?epi = "concat (map (st_lines L ?c) used) @ (if ?c \<noteq> 26 then [Mov 26 ?c] else []) @ load_host used"
  obtain h1 h5 where b: "fold a64_step ?pro h = h1" "fold a64_step ?epi (opc bs h1) = h5"
    "guest_in L used (hx h 26) (hmem h) h1" "mem_frame (frame_of used h) (hmem h) (hmem h1)"
    "guest_in L used (hx h 26) (hmem h5) (opc bs h1)" "mem_frame ?G (hmem (opc bs h1)) (hmem h5)"
    "\<forall>a\<in>{hx h 26 - 16, ?pc, hx h 27 + 8}. load64 (hmem h5) a = load64 (hmem h) a"
    "abi_kept h h5" "hx h5 27 = hx h 27"
    by (rule body_run [OF c ss insn]) (assumption | rule that)+
  have x26: "hx h5 26 = hx h 26" using b(8) by (simp add: abi_kept_def)
  have sep: "sep (hx h5 27 + 8) 8 (load64 (hmem h5) (hx h5 26 - 16)) 8"
    using ss sep_sym b(7) by (simp add: handler_slots_def slots_sep_append x26 b(9))
  from tail_run [OF sep, of opc] obtain hf where hf:
    "a64_run opc [] (update_pc_lines @ advance_lines) h5 = (hf, Some (take_bit 59 (load64 (hmem h) (hx h 27 + 8))))"
    "hmem hf = store64 (hmem h5) ?pc (load64 (hmem h) ?pc + 4)" "hsp hf = hsp h5" "hq hf = hq h5"
    "hx hf 0 = hx h 26" "hx hf 1 = load64 (hmem h) ?pc + 4" "hx hf 2 = hx h 27 + 8" "hx hf 27 = hx h 27 + 8"
    "\<forall>n. 19 \<le> n \<and> n \<noteq> 27 \<longrightarrow> hx hf n = hx h5 n"
    unfolding x26 b(9) using b(7) by auto
  have run: "a64_run opc [] (?pro @ emit_opcode bs @ ?epi @ update_pc_lines @ advance_lines) h
      = (hf, Some (take_bit 59 (load64 (hmem h) (hx h 27 + 8))))"
    by (subst a64_run_straight, simp add: straight_parts)
      (subst b(1), subst a64_run_opcode [OF assms(1)], subst a64_run_straight, simp add: straight_parts,
       subst b(2), rule hf(1))
  have sg: "sep a 8 ?pc 8" if "a \<in> set ?G" for a
    using ss that by (auto simp: handler_slots_def slots_sep_append simp del: set_concat)
  have g: "guest_in L used (hx h 26) (hmem hf) (opc bs h1)"
    unfolding hf(2) by (rule guest_in_cong [OF b(5)]) (rule load64_store64_sep, rule sg, auto)
  have fm: "mem_frame (handler_slots L used h) (hmem (opc bs h1)) (hmem hf)" unfolding hf(2)
    by (rule mem_frame_trans [OF b(6) mem_frame_store [of ?pc "[?pc]"]]) (auto simp: handler_slots_def)
  have "abi_kept h hf" using b(8) hf(3,4,9) by (simp add: abi_kept_def)
  with run b(3,4) g fm hf show ?thesis
    unfolding nativeHandlerAArch64_lines [OF used] by (auto simp: Let_def)
qed

text \<open>\<open>add x19, x26, x1\<close>, which uses the state pointer's register and a callee-saved one.\<close>

definition reg_enum0 :: reg_enum where
  "reg_enum0 s = (if s = ''X0'' then 100 else if s = ''X28'' then 128 else 0)"

definition add_inst :: mcinst where
  "add_inst = \<lparr>mc_opcode = MC_other 7, mc_operands = [MC_reg 119, MC_reg 126, MC_reg 101, MC_imm 0]\<rparr>"

definition add_sem :: "bytes \<Rightarrow> host \<Rightarrow> host" where
  "add_sem bs h = h\<lparr>hx := (hx h)(19 := hx h 26 + hx h 1)\<rparr>"

definition host0 :: host where
  "host0 = \<lparr>hx = (\<lambda>n. if n = 26 then 65536 else if n = 27 then 131072 else 0), hq = (\<lambda>_. (0, 0)),
     hsp = 1048576, hmem = (\<lambda>_. 0)\<rparr>"

lemma load64_zero [simp]: "load64 (\<lambda>_. 0) a = 0"
  by (simp add: load64_def mem_read_def upt_conv_Cons)

lemma add_regused: "parse_regused_a64 reg_enum0 add_inst = [3, 21, 28]"
  by (simp add: parse_regused_a64_def add_inst_def reg_enum0_def a64_operand_regs_def a64_ranges_def
      set_insert_all_def X_def Q_def insort_insert_key_def)

lemma add_slots: "slots_sep (handler_slots a64_layout0 [3, 21, 28] host0)"
proof -
  have f: "filter saved [3, 21, 28] = [21, 28]" by (simp add: saved_def saved_x_def saved_q_def X_def Q_def)
  have g: "gslots a64_layout0 65536 3 = [65552]" "gslots a64_layout0 65536 21 = [65840]" "gslots a64_layout0 65536 28 = [65952]"
    by (simp_all add: gslots_def goff_def is_x_def xnum_def X_def)
  have "handler_slots a64_layout0 [3, 21, 28] host0 = [1048560, 1048544, 65552, 65840, 65952, 65520, 0, 131080]"
    unfolding handler_slots_def frame_of_def f by (simp add: host0_def g)
  then show ?thesis by (simp add: sep_def)
qed

theorem native_handler_simulates_witness:
  "\<exists>ls hf. nativeHandlerAArch64 reg_enum0 a64_layout0 add_inst [83, 3, 1, 139] = Inr ls \<and>
     a64_run add_sem [] ls host0 = (hf, Some 0) \<and> load64 (hmem hf) 0 = 4 \<and> hx hf 27 = 131080 \<and> abi_kept host0 hf"
proof -
  have c: "regcpu_a64 [3, 21, 28] = 0"
    by (simp add: regcpu_a64_def first_unused.simps X_def xnum_def)
  have "\<exists>ls h1 hf. nativeHandlerAArch64 reg_enum0 a64_layout0 add_inst [83, 3, 1, 139] = Inr ls \<and>
     guest_in a64_layout0 [3, 21, 28] (hx host0 26) (hmem host0) h1 \<and> mem_frame (frame_of [3, 21, 28] host0) (hmem host0) (hmem h1) \<and>
     a64_run add_sem [] ls host0 = (hf, Some (take_bit 59 (load64 (hmem host0) (hx host0 27 + 8)))) \<and>
     guest_in a64_layout0 [3, 21, 28] (hx host0 26) (hmem hf) (add_sem [83, 3, 1, 139] h1) \<and>
     mem_frame (handler_slots a64_layout0 [3, 21, 28] host0) (hmem (add_sem [83, 3, 1, 139] h1)) (hmem hf) \<and>
     (let pcp = load64 (hmem host0) (hx host0 26 - 16); pc = load64 (hmem host0) pcp + 4 in
        load64 (hmem hf) pcp = pc \<and> hx hf 0 = hx host0 26 \<and> hx hf 1 = pc \<and> hx hf 2 = hx host0 27 + 8 \<and>
        hx hf 27 = hx host0 27 + 8) \<and> abi_kept host0 hf"
    by (rule native_handler_simulates [OF _ add_regused [symmetric] _ add_slots])
      (simp_all add: c insn_keeps_def add_sem_def X_def)
  then show ?thesis by (auto simp: host0_def Let_def)
qed

end
