(* ===== verification/OpcodeEngine.thy ===== *)
theory OpcodeEngine
  imports MetaOperand McInst NativeHandler
begin

text \<open>
  \<open>src/OpcodeEngine.h\<close> and \<open>src/OpcodeEngine.cpp\<close>: the per-opcode handlers of the interpreter,
  their creation (from a decoded Remill instruction, from an LLVM instruction, or by
  generating a native handler), their execution, and the cached handler tables by opcode width.
  The build modelled is the one with writable and executable pages (not iOS) and with assertions.

  Libraries are parameters, collected in \<open>lib_env\<close>: the Remill decoder, LLVM's disassembler,
  assembler and register numbers, the name hash, the page allocator, the watchdog of the debugger, and what
  calling a semantics function or running a native handler does to the thread state.
\<close>

section \<open>Handlers\<close>

datatype oh_type = OHT_Remill | OHT_MCInst | OHT_Dynamic | OHT_Prebuilt | OHT_PrebuiltMapped

record opc_handler =
  oh_oplen :: u8
  oh_type :: oh_type
  oh_implsize :: u16
  oh_args :: "(nat \<times> bool) list" \<comment> \<open>\<open>OperandInfo\<close>: index and pointer flag\<close>
  oh_impl :: u64

text \<open>\<open>OpcodeHandler<T>{.opcode = opcode}\<close>: everything else is zero.\<close>

definition zero_handler :: opc_handler where
  "zero_handler = \<lparr>oh_oplen = 0, oh_type = OHT_Remill, oh_implsize = 0, oh_args = [], oh_impl = 0\<rparr>"

record remill_inst =
  ri_bytes :: bytes
  ri_valid :: bool
  ri_function :: string
  ri_operands :: "(RemillOperand \<times> bool) list" \<comment> \<open>with: is the argument of the semantics function a pointer\<close>

record Handler =
  h_hash :: u64
  h_impl :: u64

record lib_env =
  l_arm64 :: bool
  l_decode :: "bytes \<Rightarrow> remill_inst"
  l_hash :: "string \<Rightarrow> u64"
  l_handlers :: "Handler list" \<comment> \<open>\<open>Handler::aarch64\<close> or \<open>Handler::x86\<close>\<close>
  l_id :: id_env
  l_byte_high :: nat \<comment> \<open>offset of the second byte of a general purpose register\<close>
  l_nvec :: int \<comment> \<open>number of vector registers\<close>
  l_disassemble :: "bytes \<Rightarrow> nat \<times> mcinst"
  l_enum :: reg_enum
  l_windows :: bool
  l_assemble_a64 :: "a64_line \<Rightarrow> bytes" \<comment> \<open>empty: rejected\<close>
  l_assemble_x86 :: "x86_line \<Rightarrow> bytes"
  l_mc :: mc_env
  l_page_size :: nat
  l_page :: "nat \<Rightarrow> u64" \<comment> \<open>address of the \<open>n\<close>-th page allocated\<close>
  l_abort :: u64 \<comment> \<open>address of \<open>abort\<close>\<close>
  l_call :: "u64 \<Rightarrow> u64 list \<Rightarrow> cpu \<Rightarrow> cpu"
  l_run :: "u64 \<Rightarrow> cpu \<Rightarrow> cpu"
  l_watchdog :: bool \<comment> \<open>\<open>debug\<close> and \<open>watchdog\<close> of the event configuration\<close>
  l_insn_handler :: "u64 \<Rightarrow> cpu \<Rightarrow> cpu"

text \<open>The tables all threads share, and the thread state.\<close>

record vm =
  v_operands :: "RemillOperand list"
  v_operandmap :: "uint128_var_t \<rightharpoonup> nat \<times> bool"
  v_regoffs :: "regoffs option" \<comment> \<open>\<open>None\<close>: not filled yet\<close>
  v_mc :: mc_table
  v_pages :: "u64 list"
  v_pagestart :: u64
  v_pagecur :: u64
  v_cpu :: cpu

section \<open>Initialisation\<close>

text \<open>The loop of \<open>initRemill\<close> over the operands.\<close>

fun init_operands :: "lib_env \<Rightarrow> regoffs \<Rightarrow> (RemillOperand \<times> bool) list \<Rightarrow> vm \<Rightarrow> (nat \<times> bool) list \<Rightarrow> ((nat \<times> bool) list \<times> vm) res" where
  "init_operands L ro [] s args = Inr (args, s)"
| "init_operands L ro ((op, pointer) # ops) s args =
     (let id = operand_ID (l_id L) op pointer in
      case v_operandmap s id of
        Some info \<Rightarrow> init_operands L ro ops s (args @ [info])
      | None \<Rightarrow>
          res_bind (initOffsets ro op) (\<lambda>op'.
          let info = (length (v_operands s), pointer) in
          init_operands L ro ops
            (s\<lparr>v_operands := v_operands s @ [op'], v_operandmap := (v_operandmap s)(id \<mapsto> info)\<rparr>) (args @ [info])))"

text \<open>
  The assembly loop of \<open>initDynamic\<close> over the lines of the native handler; the buffer holds 256
  bytes, which the assertion keeps from filling.
\<close>

fun assemble_lines :: "('l \<Rightarrow> bytes) \<Rightarrow> 'l list \<Rightarrow> bytes \<Rightarrow> bytes res" where
  "assemble_lines asm [] asmbin = Inr asmbin"
| "assemble_lines asm (l # ls) asmbin =
     (let newopc = asm l in
      if newopc = [] then Inl Abort
      else let asmbin' = asmbin @ newopc in
           if 256 \<le> length asmbin' then Inl Abort else assemble_lines asm ls asmbin')"

definition asm_a64 :: "lib_env \<Rightarrow> a64_line \<Rightarrow> bytes" where
  "asm_a64 L l = (case l of Byte b \<Rightarrow> [b] | _ \<Rightarrow> l_assemble_a64 L l)"

definition asm_x86 :: "lib_env \<Rightarrow> x86_line \<Rightarrow> bytes" where
  "asm_x86 L l = (case l of Byte86 b \<Rightarrow> [b] | _ \<Rightarrow> l_assemble_x86 L l)"

definition native_code :: "lib_env \<Rightarrow> cpu \<Rightarrow> mcinst \<Rightarrow> bytes \<Rightarrow> bytes res" where
  "native_code L c inst opcode =
     (if l_arm64 L
      then res_bind (nativeHandlerAArch64 (l_enum L) (a64_lay c) inst opcode) (\<lambda>ls. assemble_lines (asm_a64 L) ls [])
      else res_bind (nativeHandlerX64 (l_windows L) (l_enum L) (x86_lay c) inst opcode) (\<lambda>ls. assemble_lines (asm_x86 L) ls []))"

text \<open>A page is taken when there is none yet or the code does not fit in the rest of the current one.\<close>

definition place_code :: "lib_env \<Rightarrow> bytes \<Rightarrow> vm \<Rightarrow> u64 \<times> vm" where
  "place_code L asmbin s =
     (let binsz = length asmbin;
          s1 = (if v_pagestart s = 0 \<or> unat (v_pagestart s) + l_page_size L - unat (v_pagecur s) < binsz
                then let p = l_page L (length (v_pages s)) in
                     s\<lparr>v_pages := v_pages s @ [p], v_pagestart := p, v_pagecur := p\<rparr>
                else s)
      in (v_pagecur s1, s1\<lparr>v_cpu := (v_cpu s1)\<lparr>mem := mem_write (mem (v_cpu s1)) (v_pagecur s1) asmbin\<rparr>,
                           v_pagecur := v_pagecur s1 + word_of_nat binsz\<rparr>))"

definition initDynamic :: "lib_env \<Rightarrow> bytes \<Rightarrow> opc_handler \<Rightarrow> vm \<Rightarrow> (opc_handler \<times> vm) res" where
  "initDynamic L opcode h s =
     (let (oplen, inst) = l_disassemble L opcode;
          h1 = h\<lparr>oh_oplen := word_of_nat oplen\<rparr>;
          (idx, T) = (if l_arm64 L then initMCInstARM64 (l_mc L) (word_of_nat (le_val (take 4 opcode))) inst (v_mc s)
                      else (None, v_mc s))
      in case idx of
           Some i \<Rightarrow> Inr (h1\<lparr>oh_type := OHT_MCInst, oh_args := oh_args h1 @ [(i, False)]\<rparr>, s\<lparr>v_mc := T\<rparr>)
         | None \<Rightarrow>
             if oplen = 0 then Inr (h1\<lparr>oh_type := OHT_Dynamic, oh_impl := l_abort L, oh_implsize := 0\<rparr>, s)
             else res_bind (native_code L (v_cpu s) inst (take oplen opcode)) (\<lambda>asmbin.
                  let (impl, s') = place_code L asmbin s
                  in Inr (h1\<lparr>oh_type := OHT_Dynamic, oh_impl := impl, oh_implsize := word_of_nat (length asmbin)\<rparr>, s')))"

definition initRemill :: "lib_env \<Rightarrow> regoffs \<Rightarrow> bytes \<Rightarrow> remill_inst \<Rightarrow> opc_handler \<Rightarrow> vm \<Rightarrow> (opc_handler \<times> vm) res" where
  "initRemill L ro opcode inst h s =
     (let key = \<lparr>h_hash = l_hash L (ri_function inst), h_impl = 0\<rparr>; hs = l_handlers L in
      res_bind (binary_search (\<lambda>x y. h_hash x < h_hash y) hs (length hs) key) (\<lambda>found.
      let h1 = h\<lparr>oh_oplen := word_of_nat (length (ri_bytes inst))\<rparr> in
      res_bind (is_exact (\<lambda>x y. h_hash x = h_hash y) found hs (length hs) key) (\<lambda>exact.
      if exact
      then res_bind (init_operands L ro (ri_operands inst) s (oh_args h1)) (\<lambda>(args, s').
           Inr (h1\<lparr>oh_impl := h_impl (hs ! found), oh_type := OHT_Remill, oh_args := args\<rparr>, s'))
      else initDynamic L opcode h1 s)))"

definition load_regoffs :: "lib_env \<Rightarrow> cpu \<Rightarrow> regoffs res" where
  "load_regoffs L c =
     (if l_arm64 L then load_regoffs_aarch64 (a64_lay c) Map.empty
      else load_regoffs_x64 (l_byte_high L) (l_nvec L) (x86_lay c) Map.empty)"

definition init_inst :: "lib_env \<Rightarrow> bytes \<Rightarrow> remill_inst \<Rightarrow> opc_handler \<Rightarrow> vm \<Rightarrow> (opc_handler \<times> vm) res" where
  "init_inst L opcode inst h s =
     res_bind (case v_regoffs s of Some ro \<Rightarrow> Inr ro | None \<Rightarrow> load_regoffs L (v_cpu s)) (\<lambda>ro.
     let s = s\<lparr>v_regoffs := Some ro\<rparr> in
     if ri_valid inst then initRemill L ro opcode inst h s else initDynamic L opcode h s)"

text \<open>\<open>init()\<close>: false, and the handler as it was, when nothing could be decoded.\<close>

definition init_opcode :: "lib_env \<Rightarrow> bytes \<Rightarrow> opc_handler \<Rightarrow> vm \<Rightarrow> (bool \<times> opc_handler \<times> vm) res" where
  "init_opcode L opcode h s =
     (let inst = l_decode L opcode in
      if ri_bytes inst = [] then Inr (False, h, s)
      else res_bind (init_inst L opcode inst h s) (\<lambda>(h', s'). Inr (True, h', s')))"

section \<open>Execution\<close>

definition next_pc_addr :: "lib_env \<Rightarrow> cpu \<Rightarrow> u64" where
  "next_pc_addr L c = (if l_arm64 L then a64_addr c (A_pad 1) else x86_addr c (X_pad 1))"

definition SetNextPC :: "lib_env \<Rightarrow> u8 \<Rightarrow> cpu \<Rightarrow> cpu" where
  "SetNextPC L n c = c\<lparr>mem := store64 (mem c) (next_pc_addr L c) (load64 (mem c) (pcptr c) + ucast n)\<rparr>"

definition UpdatePC :: "lib_env \<Rightarrow> cpu \<Rightarrow> cpu" where
  "UpdatePC L c = c\<lparr>mem := store64 (mem c) (pcptr c) (load64 (mem c) (next_pc_addr L c))\<rparr>"

text \<open>
  The parameter array has sixteen entries, the first two of which are the memory handle and the
  state pointer; a fifteenth operand is written outside it.
\<close>

definition lift_args :: "vm \<Rightarrow> cpu \<Rightarrow> (nat \<times> bool) list \<Rightarrow> u64 list res" where
  "lift_args s c args =
     (if 14 < length args then Inl OutOfBounds
      else res_map (\<lambda>(i, p). res_bind (arr_at (v_operands s) i)
             (\<lambda>op. LiftOperandRaw (case v_regoffs s of Some ro \<Rightarrow> ro | None \<Rightarrow> Map.empty) (mem c) (state_ptr c) op p)) args)"

definition interpRemill :: "lib_env \<Rightarrow> opc_handler \<Rightarrow> vm \<Rightarrow> (bool \<times> vm) res" where
  "interpRemill L h s =
     (let c = SetNextPC L (oh_oplen h) (v_cpu s) in
      res_bind (lift_args s c (oh_args h)) (\<lambda>params.
      if 13 < length params then Inr (False, s\<lparr>v_cpu := c\<rparr>)
      else if oh_impl h = 0 then Inl NullCall
      else let c' = l_call L (oh_impl h) (0 # state_ptr c # params) c in Inr (True, s\<lparr>v_cpu := UpdatePC L c'\<rparr>)))"

definition interpret_handler :: "lib_env \<Rightarrow> opc_handler \<Rightarrow> vm \<Rightarrow> (bool \<times> vm) res" where
  "interpret_handler L h s0 =
     (let s = (if l_watchdog L
               then s0\<lparr>v_cpu := l_insn_handler L (load64 (mem (v_cpu s0)) (pcptr (v_cpu s0))) (v_cpu s0)\<rparr> else s0)
      in case oh_type h of
        OHT_Remill \<Rightarrow> interpRemill L h s
      | OHT_MCInst \<Rightarrow>
          if l_arm64 L
          then res_bind (arr_at (oh_args h) 0) (\<lambda>(i, _). res_bind (arr_at (mc_insts (v_mc s)) i) (\<lambda>inst.
               res_bind (interpMCInstARM64 (l_mc L) inst (v_cpu s)) (\<lambda>c. Inr (True, s\<lparr>v_cpu := c\<rparr>))))
          else Inl Abort
      | OHT_Dynamic \<Rightarrow> Inr (True, s\<lparr>v_cpu := l_run L (oh_impl h) (v_cpu s)\<rparr>)
      | _ \<Rightarrow> Inl Abort)"

section \<open>Handler tables\<close>

text \<open>
  \<open>OpcodeHandlers<T>\<close>: the set of handlers by opcode and a cache of 256 pointers to set elements,
  indexed by the hash of the opcode; \<open>kb\<close> gives the bytes of a key.
\<close>

record 'k handlers =
  hs_set :: "'k \<rightharpoonup> opc_handler"
  hs_caches :: "u8 \<Rightarrow> 'k option"

definition handlers_prefetch :: "('k \<Rightarrow> u8) \<Rightarrow> ('k \<Rightarrow> bytes) \<Rightarrow> lib_env \<Rightarrow> remill_inst \<Rightarrow> 'k \<Rightarrow>
    'k handlers \<Rightarrow> vm \<Rightarrow> ('k handlers \<times> vm) res" where
  "handlers_prefetch hash kb L inst opc t s =
     (case hs_set t opc of
        Some _ \<Rightarrow> Inr (t, s)
      | None \<Rightarrow> res_bind (init_inst L (kb opc) inst zero_handler s) (\<lambda>(h, s').
          Inr (t\<lparr>hs_set := (hs_set t)(opc \<mapsto> h), hs_caches := (hs_caches t)(hash opc := Some opc)\<rparr>, s')))"

definition handlers_emulate :: "('k \<Rightarrow> u8) \<Rightarrow> ('k \<Rightarrow> bytes) \<Rightarrow> lib_env \<Rightarrow> 'k \<Rightarrow> bool \<Rightarrow> 'k handlers \<Rightarrow> vm \<Rightarrow>
    (bool \<times> 'k handlers \<times> vm) res" where
  "handlers_emulate hash kb L opc readonly t s =
     (let run = (\<lambda>t s. case hs_set t opc of
            None \<Rightarrow> Inl Undefined
          | Some h \<Rightarrow> res_bind (interpret_handler L h s) (\<lambda>(ok, s'). Inr (ok, t, s')))
      in if hs_caches t (hash opc) = Some opc then run t s
         else case hs_set t opc of
                Some _ \<Rightarrow> run (t\<lparr>hs_caches := (hs_caches t)(hash opc := Some opc)\<rparr>) s
              | None \<Rightarrow>
                  if readonly then Inr (False, t, s)
                  else res_bind (init_opcode L (kb opc) zero_handler s) (\<lambda>(ok, h, s').
                       let t' = t\<lparr>hs_set := (hs_set t)(opc \<mapsto> h)\<rparr> in
                       if \<not> ok then Inr (False, t', s')
                       else run (t'\<lparr>hs_caches := (hs_caches t')(hash opc := Some opc)\<rparr>) s'))"

record OpcodeEngine =
  opc1 :: "u8 handlers"
  opc2 :: "u16 handlers"
  opc4 :: "u32 handlers"
  opc8 :: "u64 handlers"
  opc16 :: "uint128_var_t handlers"
  eng_readonly :: bool

definition word_bytes :: "nat \<Rightarrow> 'l :: len word \<Rightarrow> bytes" where
  "word_bytes n w = le_bytes n (unat w)"

definition u128_bytes :: "uint128_var_t \<Rightarrow> bytes" where
  "u128_bytes w = le_bytes 8 (unat (low w)) @ le_bytes 8 (unat (high w))"

definition u128_of :: "bytes \<Rightarrow> uint128_var_t" where
  "u128_of bs = U128 (word_of_nat (le_val (take 8 bs))) (word_of_nat (le_val (take 8 (drop 8 bs))))"

definition key_of :: "nat \<Rightarrow> bytes \<Rightarrow> 'l :: len word" where
  "key_of n bs = word_of_nat (le_val (take n bs))"

definition prefetch1 :: "lib_env \<Rightarrow> remill_inst \<Rightarrow> bytes \<Rightarrow> OpcodeEngine \<Rightarrow> vm \<Rightarrow> (OpcodeEngine \<times> vm) res" where
  "prefetch1 L inst ptr e s =
     (let n = length (ri_bytes inst) in
      if n = 1 then res_bind (handlers_prefetch fib_hash8_u8 (word_bytes 1) L inst (key_of 1 ptr) (opc1 e) s) (\<lambda>(t, s). Inr (e\<lparr>opc1 := t\<rparr>, s))
      else if n = 2 then res_bind (handlers_prefetch fib_hash8_u16 (word_bytes 2) L inst (key_of 2 ptr) (opc2 e) s) (\<lambda>(t, s). Inr (e\<lparr>opc2 := t\<rparr>, s))
      else if n = 3 \<or> n = 4 then res_bind (handlers_prefetch fib_hash8_u32 (word_bytes 4) L inst (key_of n ptr) (opc4 e) s) (\<lambda>(t, s). Inr (e\<lparr>opc4 := t\<rparr>, s))
      else if 5 \<le> n \<and> n \<le> 8 then res_bind (handlers_prefetch fib_hash8_u64 (word_bytes 8) L inst (key_of n ptr) (opc8 e) s) (\<lambda>(t, s). Inr (e\<lparr>opc8 := t\<rparr>, s))
      else res_bind (handlers_prefetch fib_hash8_u128 u128_bytes L inst (u128_of (take (min 16 n) ptr)) (opc16 e) s) (\<lambda>(t, s). Inr (e\<lparr>opc16 := t\<rparr>, s)))"

text \<open>
  \<open>prefetch\<close> over a code range: \<open>ptr\<close> is what can be read from the current position on, of which
  \<open>n\<close> bytes remain to be visited.  The decoder is always given a window of four or sixteen bytes,
  also where it reaches past the end of the range.  An instruction that cannot be decoded counts as
  four bytes or one.
\<close>

definition window :: "lib_env \<Rightarrow> nat" where
  "window L = (if l_arm64 L then 4 else 16)"

definition fetch_inst :: "lib_env \<Rightarrow> bytes \<Rightarrow> remill_inst res" where
  "fetch_inst L ptr =
     (if length ptr < window L then Inl OutOfBounds
      else let inst = l_decode L (take (window L) ptr) in
           if ri_bytes inst = [] then Inr (inst\<lparr>ri_bytes := take (if l_arm64 L then 4 else 1) ptr\<rparr>) else Inr inst)"

lemma fetch_inst_nonempty: "fetch_inst L ptr = Inr inst \<Longrightarrow> 0 < length (ri_bytes inst)"
  by (auto simp: fetch_inst_def window_def Let_def split: if_splits)

function prefetch_loop :: "lib_env \<Rightarrow> bytes \<Rightarrow> nat \<Rightarrow> nat \<Rightarrow> OpcodeEngine \<Rightarrow> vm \<Rightarrow> (nat \<times> OpcodeEngine \<times> vm) res" where
  "prefetch_loop L ptr n count e s =
     (if n = 0 then Inr (count, e, s)
      else case fetch_inst L ptr of
             Inl f \<Rightarrow> Inl f
           | Inr inst \<Rightarrow>
               res_bind (prefetch1 L inst ptr e s) (\<lambda>(e', s').
               prefetch_loop L (drop (length (ri_bytes inst)) ptr) (n - length (ri_bytes inst)) (Suc count) e' s'))"
  by pat_completeness auto
termination
  by (relation "measure (\<lambda>(L, ptr, n, count, e, s). n)") (auto dest: fetch_inst_nonempty)

declare prefetch_loop.simps [simp del]

definition engine_prefetch :: "lib_env \<Rightarrow> bytes \<Rightarrow> nat \<Rightarrow> OpcodeEngine \<Rightarrow> vm \<Rightarrow> (nat \<times> OpcodeEngine \<times> vm) res" where
  "engine_prefetch L opcodes n e s = prefetch_loop L opcodes n 0 e s"

definition emulate_span :: "lib_env \<Rightarrow> bytes \<Rightarrow> OpcodeEngine \<Rightarrow> vm \<Rightarrow> (bool \<times> OpcodeEngine \<times> vm) res" where
  "emulate_span L opcode e s =
     (let n = (if l_arm64 L then (if length opcode < 4 then 0 else 4)
               else if 16 \<le> length opcode then fst (l_disassemble L opcode) else length opcode);
          ro = eng_readonly e
      in if (l_arm64 L \<and> length opcode < 4) \<or> (\<not> l_arm64 L \<and> 16 \<le> length opcode \<and> n = 0) then Inr (False, e, s)
         else if n = 1 then res_bind (handlers_emulate fib_hash8_u8 (word_bytes 1) L (key_of 1 opcode) ro (opc1 e) s) (\<lambda>(ok, t, s). Inr (ok, e\<lparr>opc1 := t\<rparr>, s))
         else if n = 2 then res_bind (handlers_emulate fib_hash8_u16 (word_bytes 2) L (key_of 2 opcode) ro (opc2 e) s) (\<lambda>(ok, t, s). Inr (ok, e\<lparr>opc2 := t\<rparr>, s))
         else if n = 3 \<or> n = 4 then res_bind (handlers_emulate fib_hash8_u32 (word_bytes 4) L (key_of n opcode) ro (opc4 e) s) (\<lambda>(ok, t, s). Inr (ok, e\<lparr>opc4 := t\<rparr>, s))
         else if 5 \<le> n \<and> n \<le> 8 then res_bind (handlers_emulate fib_hash8_u64 (word_bytes 8) L (key_of n opcode) ro (opc8 e) s) (\<lambda>(ok, t, s). Inr (ok, e\<lparr>opc8 := t\<rparr>, s))
         else res_bind (handlers_emulate fib_hash8_u128 u128_bytes L (u128_of (take n opcode)) ro (opc16 e) s) (\<lambda>(ok, t, s). Inr (ok, e\<lparr>opc16 := t\<rparr>, s)))"

text \<open>
  \<open>~OpcodeEngine\<close>: only the engine of the main thread, which is read-only by then, clears the shared
  tables; the table of LLVM instructions is not among them.
\<close>

definition engine_destroy :: "OpcodeEngine \<Rightarrow> vm \<Rightarrow> vm" where
  "engine_destroy e s =
     (if \<not> eng_readonly e then s
      else s\<lparr>v_pages := [], v_pagestart := 0, v_pagecur := 0, v_operands := [], v_operandmap := Map.empty,
             v_regoffs := None\<rparr>)"

section \<open>Handler caches\<close>

text \<open>
  A table is well formed when every cached pointer is to a handler of the table that
  hashes to its slot, and its handlers satisfy \<open>P\<close>.
\<close>

definition handlers_ok :: "('k \<Rightarrow> u8) \<Rightarrow> 'k handlers \<Rightarrow> bool" where
  "handlers_ok hash t \<longleftrightarrow> (\<forall>i k. hs_caches t i = Some k \<longrightarrow> hash k = i \<and> k \<in> dom (hs_set t))"

text \<open>Emulation by opcode without a cache.\<close>

definition run_entry :: "lib_env \<Rightarrow> opc_handler \<Rightarrow> 'e \<Rightarrow> vm \<Rightarrow> (bool \<times> 'e \<times> vm) res" where
  "run_entry L h e s = res_bind (interpret_handler L h s) (\<lambda>(ok, s'). Inr (ok, e, s'))"

definition emulate_ref :: "('k \<Rightarrow> bytes) \<Rightarrow> lib_env \<Rightarrow> 'k \<Rightarrow> bool \<Rightarrow> ('k \<rightharpoonup> opc_handler) \<Rightarrow> vm \<Rightarrow>
    (bool \<times> ('k \<rightharpoonup> opc_handler) \<times> vm) res" where
  "emulate_ref kb L opc readonly T s =
     (case T opc of
        Some h \<Rightarrow> run_entry L h T s
      | None \<Rightarrow>
          if readonly then Inr (False, T, s)
          else res_bind (init_opcode L (kb opc) zero_handler s) (\<lambda>(ok, h, s').
               if \<not> ok then Inr (False, T(opc \<mapsto> h), s') else run_entry L h (T(opc \<mapsto> h)) s'))"

lemma res_bind_cases: "(res_bind r f = Inr y) \<longleftrightarrow> (\<exists>x. r = Inr x \<and> f x = Inr y)"
  "(res_bind r f = Inl e) \<longleftrightarrow> r = Inl e \<or> (\<exists>x. r = Inr x \<and> f x = Inl e)"
  by (cases r; simp)+

lemma handlers_ok_cached:
  "handlers_ok hash t \<Longrightarrow> hs_set t opc = Some h \<Longrightarrow> handlers_ok hash (t\<lparr>hs_caches := (hs_caches t)(hash opc := Some opc)\<rparr>)"
  by (auto simp: handlers_ok_def)

lemma handlers_ok_insert:
  "handlers_ok hash t \<Longrightarrow> handlers_ok hash (t\<lparr>hs_set := (hs_set t)(opc \<mapsto> h)\<rparr>)"
  by (auto simp: handlers_ok_def)

text \<open>The cached table does what the reference does, and stays well formed.\<close>

definition refines :: "('k \<Rightarrow> u8) \<Rightarrow> (bool \<times> 'k handlers \<times> vm) res \<Rightarrow> (bool \<times> ('k \<rightharpoonup> opc_handler) \<times> vm) res \<Rightarrow> bool" where
  "refines hash r r' \<longleftrightarrow>
     (case r of Inl f \<Rightarrow> r' = Inl f | Inr (ok, t, s) \<Rightarrow> r' = Inr (ok, hs_set t, s) \<and> handlers_ok hash t)"

lemma refines_simps [simp]:
  "refines hash (Inl f) r' \<longleftrightarrow> r' = Inl f"
  "refines hash (Inr (ok, t, s)) r' \<longleftrightarrow> r' = Inr (ok, hs_set t, s) \<and> handlers_ok hash t"
  by (simp_all add: refines_def)

lemma refines_run: "handlers_ok hash t \<Longrightarrow> refines hash (run_entry L h t s) (run_entry L h (hs_set t) s)"
  by (cases "interpret_handler L h s") (auto simp: run_entry_def)

lemma handlers_emulate_alt:
  "handlers_emulate hash kb L opc readonly t s =
     (let run = (\<lambda>t s. case hs_set t opc of None \<Rightarrow> Inl Undefined | Some h \<Rightarrow> run_entry L h t s)
      in if hs_caches t (hash opc) = Some opc then run t s
         else case hs_set t opc of
                Some _ \<Rightarrow> run (t\<lparr>hs_caches := (hs_caches t)(hash opc := Some opc)\<rparr>) s
              | None \<Rightarrow>
                  if readonly then Inr (False, t, s)
                  else res_bind (init_opcode L (kb opc) zero_handler s) (\<lambda>(ok, h, s').
                       let t' = t\<lparr>hs_set := (hs_set t)(opc \<mapsto> h)\<rparr> in
                       if \<not> ok then Inr (False, t', s')
                       else run (t'\<lparr>hs_caches := (hs_caches t')(hash opc := Some opc)\<rparr>) s'))"
  unfolding handlers_emulate_def run_entry_def ..

lemma handlers_emulate_refines:
  assumes ok: "handlers_ok hash t"
  shows "refines hash (handlers_emulate hash kb L opc readonly t s) (emulate_ref kb L opc readonly (hs_set t) s)"
proof (cases "hs_set t opc")
  case (Some h)
  note refines_run [OF handlers_ok_cached [OF ok Some], of L h s] and refines_run [OF ok, of L h s]
  with Some show ?thesis by (simp add: handlers_emulate_alt emulate_ref_def Let_def)
next
  case None
  then have miss: "hs_caches t (hash opc) \<noteq> Some opc" using ok by (auto simp: handlers_ok_def)
  show ?thesis
  proof (cases "init_opcode L (kb opc) zero_handler s")
    case (Inr r)
    obtain b h s' where r: "r = (b, h, s')" by (cases r)
    let ?t = "t\<lparr>hs_set := (hs_set t)(opc \<mapsto> h)\<rparr>"
    note okt = handlers_ok_insert [OF ok, of opc h]
    have "handlers_ok hash (?t\<lparr>hs_caches := (hs_caches t)(hash opc := Some opc)\<rparr>)"
      using handlers_ok_cached [OF okt, of opc h] by simp
    note refines_run [OF this, of L h s']
    with None miss Inr r ok okt show ?thesis
      by (simp add: handlers_emulate_alt emulate_ref_def Let_def)
  qed (use None miss ok in \<open>simp add: handlers_emulate_alt emulate_ref_def Let_def\<close>)
qed

definition engine_ok :: "OpcodeEngine \<Rightarrow> bool" where
  "engine_ok e \<longleftrightarrow> handlers_ok fib_hash8_u8 (opc1 e) \<and> handlers_ok fib_hash8_u16 (opc2 e) \<and>
     handlers_ok fib_hash8_u32 (opc4 e) \<and> handlers_ok fib_hash8_u64 (opc8 e) \<and> handlers_ok fib_hash8_u128 (opc16 e)"

text \<open>Two engines with the same handlers, whatever their caches hold.\<close>

definition same_handlers :: "OpcodeEngine \<Rightarrow> OpcodeEngine \<Rightarrow> bool" where
  "same_handlers e e0 \<longleftrightarrow> hs_set (opc1 e) = hs_set (opc1 e0) \<and> hs_set (opc2 e) = hs_set (opc2 e0) \<and>
     hs_set (opc4 e) = hs_set (opc4 e0) \<and> hs_set (opc8 e) = hs_set (opc8 e0) \<and> hs_set (opc16 e) = hs_set (opc16 e0) \<and>
     eng_readonly e = eng_readonly e0"

definition agree :: "(bool \<times> OpcodeEngine \<times> vm) res \<Rightarrow> (bool \<times> OpcodeEngine \<times> vm) res \<Rightarrow> bool" where
  "agree r r0 \<longleftrightarrow>
     (case (r, r0) of
        (Inl f, Inl f0) \<Rightarrow> f = f0
      | (Inr (ok, e, s), Inr (ok0, e0, s0)) \<Rightarrow> ok = ok0 \<and> s = s0 \<and> engine_ok e \<and> engine_ok e0 \<and> same_handlers e e0
      | _ \<Rightarrow> False)"

lemma agree_table:
  assumes t: "handlers_ok hash t" "handlers_ok hash t0" "hs_set t = hs_set t0"
    and up: "\<And>t t0. handlers_ok hash t \<Longrightarrow> handlers_ok hash t0 \<Longrightarrow> hs_set t = hs_set t0 \<Longrightarrow>
      engine_ok (f t) \<and> engine_ok (f0 t0) \<and> same_handlers (f t) (f0 t0)"
  shows "agree (res_bind (handlers_emulate hash kb L opc ro t s) (\<lambda>(ok, t, s). Inr (ok, f t, s)))
               (res_bind (handlers_emulate hash kb L opc ro t0 s) (\<lambda>(ok, t, s). Inr (ok, f0 t, s)))"
proof -
  let ?r = "handlers_emulate hash kb L opc ro t s" and ?q = "handlers_emulate hash kb L opc ro t0 s"
  have r: "refines hash ?r (emulate_ref kb L opc ro (hs_set t) s)" "refines hash ?q (emulate_ref kb L opc ro (hs_set t) s)"
    using handlers_emulate_refines [OF t(1)] handlers_emulate_refines [OF t(2)] t(3) by metis+
  show ?thesis
  proof (cases ?r)
    case a: (Inl x)
    with r have r0: "?q = Inl x" by (cases ?q) auto
    show ?thesis unfolding a r0 by (simp add: agree_def)
  next
    case (Inr x)
    obtain ok u s' where x: "?r = Inr (ok, u, s')" using Inr by (cases x) auto
    with r obtain u0 where x0: "?q = Inr (ok, u0, s')" "hs_set u = hs_set u0"
      by (cases ?q) auto
    with x r have "handlers_ok hash u" "handlers_ok hash u0" by simp_all
    from up [OF this x0(2)] show ?thesis unfolding x x0(1) by (simp add: agree_def)
  qed
qed

lemma agree_if: "(c \<Longrightarrow> agree a a0) \<Longrightarrow> (\<not> c \<Longrightarrow> agree b b0) \<Longrightarrow> agree (if c then a else b) (if c then a0 else b0)"
  by simp

text \<open>
  C9: the pointer caches are invisible.  On two engines with the same handlers and well-formed caches,
  emulating an instruction gives the same result, the same thread state and the same new handlers,
  and leaves both caches well formed.
\<close>

theorem emulation_ignores_caches:
  assumes "engine_ok e" and "engine_ok e0" and "same_handlers e e0"
  shows "agree (emulate_span L opcode e s) (emulate_span L opcode e0 s)"
proof -
  note ok = assms [unfolded engine_ok_def same_handlers_def]
  have sd: "eng_readonly e = eng_readonly e0" using ok by simp
  have base: "agree (Inr (False, e, s)) (Inr (False, e0, s))" using assms by (simp add: agree_def)
  show ?thesis unfolding emulate_span_def Let_def sd
    by (intro agree_if agree_table base) (use ok in \<open>simp_all add: engine_ok_def same_handlers_def\<close>)
qed

section \<open>A concrete setting\<close>

text \<open>
  Libraries, thread state and engines for the witnesses: a decoder that knows two four-byte opcodes,
  one with a semantics function and one without, an assembler of four bytes a line, pages of 4096 bytes.
\<close>

definition id_env0 :: id_env where
  "id_env0 = \<lparr>id_code = (\<lambda>_. 1), id_hash_shift = (\<lambda>_. 0), id_hash_addr = (\<lambda>_. 0), id_hash_names = (\<lambda>_. 0), id_expr_ptr = (\<lambda>_. 0)\<rparr>"

definition lib0 :: lib_env where
  "lib0 = \<lparr>l_arm64 = True,
     l_decode = (\<lambda>bs. if bs = [1, 2, 3, 4] then \<lparr>ri_bytes = bs, ri_valid = True, ri_function = ''NOP'', ri_operands = []\<rparr>
                     else if bs = [83, 3, 1, 139] then \<lparr>ri_bytes = bs, ri_valid = False, ri_function = [], ri_operands = []\<rparr>
                     else \<lparr>ri_bytes = [], ri_valid = False, ri_function = [], ri_operands = []\<rparr>),
     l_hash = (\<lambda>_. 5), l_handlers = [\<lparr>h_hash = 5, h_impl = 4096\<rparr>], l_id = id_env0, l_byte_high = 1, l_nvec = 32,
     l_disassemble = (\<lambda>_. (4, add_inst)), l_enum = reg_enum0, l_windows = False,
     l_assemble_a64 = (\<lambda>_. [31, 32, 3, 213]), l_assemble_x86 = (\<lambda>_. [144]),
     l_mc = \<lparr>mc_D0 = 200, mc_Q0 = 300, mc_SP = 400\<rparr>, l_page_size = 4096, l_page = (\<lambda>n. 1048576 + 4096 * word_of_nat n),
     l_abort = 64, l_call = (\<lambda>f args c. c), l_run = (\<lambda>f c. c), l_watchdog = False, l_insn_handler = (\<lambda>_ c. c)\<rparr>"

definition vm0 :: vm where
  "vm0 = \<lparr>v_operands = [], v_operandmap = Map.empty, v_regoffs = Some Map.empty,
     v_mc = \<lparr>mc_insts = [], mc_instmap = Map.empty\<rparr>, v_pages = [], v_pagestart = 0, v_pagecur = 0, v_cpu = cpu0\<rparr>"

definition no_handlers :: "'k handlers" where
  "no_handlers = \<lparr>hs_set = Map.empty, hs_caches = (\<lambda>_. None)\<rparr>"

definition engine0 :: OpcodeEngine where
  "engine0 = \<lparr>opc1 = no_handlers, opc2 = no_handlers, opc4 = no_handlers, opc8 = no_handlers, opc16 = no_handlers,
     eng_readonly = False\<rparr>"

definition entry0 :: opc_handler where
  "entry0 = \<lparr>oh_oplen = 4, oh_type = OHT_Dynamic, oh_implsize = 8, oh_args = [], oh_impl = 4096\<rparr>"

text \<open>One handler in the table of four-byte opcodes, cached or not.\<close>

definition engine1 :: "bool \<Rightarrow> OpcodeEngine" where
  "engine1 cached = engine0\<lparr>opc4 := \<lparr>hs_set = [67305985 \<mapsto> entry0],
     hs_caches = (\<lambda>i. if cached \<and> i = fib_hash8_u32 67305985 then Some 67305985 else None)\<rparr>\<rparr>"

lemma engine1_ok: "engine_ok (engine1 b)" "same_handlers (engine1 b) (engine1 c)"
  by (auto simp: engine_ok_def same_handlers_def engine1_def engine0_def no_handlers_def handlers_ok_def split: if_splits)

theorem emulation_ignores_caches_witness:
  "agree (emulate_span lib0 [1, 2, 3, 4] (engine1 True) vm0) (emulate_span lib0 [1, 2, 3, 4] (engine1 False) vm0)"
  by (rule emulation_ignores_caches [OF engine1_ok(1) engine1_ok(1) engine1_ok(2)])

section \<open>Errors\<close>

text \<open>
  An opcode the decoder rejects is reported once only.  \<open>emulate\<close> inserts the new handler before it
  initialises it and leaves it in the table when that fails; the next time the same opcode is emulated
  the empty handler is found, taken for a Remill handler, and its null implementation is called.
\<close>

lemma rejected_opcode_then_null_call:
  assumes "hs_set t opc = None" and "hs_caches t (hash opc) \<noteq> Some opc" and "ri_bytes (l_decode L (kb opc)) = []"
  shows "handlers_emulate hash kb L opc False t s = Inr (False, t\<lparr>hs_set := (hs_set t)(opc \<mapsto> zero_handler)\<rparr>, s) \<and>
     handlers_emulate hash kb L opc False (t\<lparr>hs_set := (hs_set t)(opc \<mapsto> zero_handler)\<rparr>) s = Inl NullCall"
  using assms
  by (simp add: handlers_emulate_def init_opcode_def Let_def interpret_handler_def zero_handler_def
      interpRemill_def lift_args_def)

lemma lib0_rejects: "ri_bytes (l_decode lib0 (word_bytes 4 (0 :: u32))) = []"
proof -
  have four: "4 = Suc (Suc (Suc (Suc 0)))" by simp
  have "word_bytes 4 (0 :: u32) = [0, 0, 0, 0]" unfolding word_bytes_def four by simp
  then show ?thesis by (simp add: lib0_def)
qed


end
