(* ===== verification/MetaFile.thy ===== *)
theory MetaFile
  imports OpcodeEngine
begin

text \<open>
  \<open>src/IMetaData.h\<close>: the metadata file as bytes.  Each structure has its memory image
  (\<open>enc_\<close>, what \<open>memcpy\<close> from the object writes; padding is zero, as every object is
  value-initialised) and its interpretation (\<open>dec_\<close>, what reading through a pointer of
  that structure type sees).  Layout is the one of all supported targets: little-endian, fields in
  declaration order at their natural alignment.  The numbers of the enumerations of Remill and LLVM
  are the parameter \<open>enums\<close>.
\<close>

section \<open>Scalars\<close>

definition rd :: "nat \<Rightarrow> nat \<Rightarrow> bytes \<Rightarrow> nat" where
  "rd n off bs = le_val (take n (drop off bs))"

definition rd8 :: "nat \<Rightarrow> bytes \<Rightarrow> u8" where
  "rd8 off bs = word_of_nat (rd 1 off bs)"

definition rd16 :: "nat \<Rightarrow> bytes \<Rightarrow> u16" where
  "rd16 off bs = word_of_nat (rd 2 off bs)"

definition rd32 :: "nat \<Rightarrow> bytes \<Rightarrow> u32" where
  "rd32 off bs = word_of_nat (rd 4 off bs)"

definition rd64 :: "nat \<Rightarrow> bytes \<Rightarrow> u64" where
  "rd64 off bs = word_of_nat (rd 8 off bs)"

definition en16 :: "u16 \<Rightarrow> bytes" where
  "en16 w = le_bytes 2 (unat w)"

definition en32 :: "u32 \<Rightarrow> bytes" where
  "en32 w = le_bytes 4 (unat w)"

definition en64 :: "u64 \<Rightarrow> bytes" where
  "en64 w = le_bytes 8 (unat w)"

definition en_bool :: "bool \<Rightarrow> u8" where
  "en_bool b = (if b then 1 else 0)"

lemma length_en [simp]: "length (en16 a) = 2" "length (en32 b) = 4" "length (en64 c) = 8"
  by (simp_all add: en16_def en32_def en64_def)

lemma en_bool_eq [simp]: "(en_bool b = 0) = (\<not> b)"
  by (simp add: en_bool_def)

text \<open>Reading walks over the parts in front and stops at the part it wants.\<close>

lemma rd_skip: "length xs \<le> off \<Longrightarrow> rd n off (xs @ ys) = rd n (off - length xs) ys"
  by (simp add: rd_def)

lemma rd_cons: "0 < off \<Longrightarrow> rd n off (b # ys) = rd n (off - 1) ys"
  by (cases off; simp add: rd_def)

lemma rd_en:
  "rd 2 0 (en16 a @ ys) = unat a" "rd 4 0 (en32 b @ ys) = unat b" "rd 8 0 (en64 c @ ys) = unat c"
  using unsigned_less [of a, where 'a = nat] unsigned_less [of b, where 'a = nat] unsigned_less [of c, where 'a = nat]
  by (simp_all add: rd_def en16_def en32_def en64_def le_val_le_bytes_id)

lemma rd_laws [simp]:
  "rd16 0 (en16 a @ ys) = a" "rd32 0 (en32 b @ ys) = b" "rd64 0 (en64 c @ ys) = c" "rd8 0 (d # ys) = d"
  by (simp_all add: rd16_def rd32_def rd64_def rd8_def rd_en) (simp add: rd_def)

lemma rd_append [simp]:
  "length xs \<le> off \<Longrightarrow> rd8 off (xs @ ys) = rd8 (off - length xs) ys"
  "length xs \<le> off \<Longrightarrow> rd16 off (xs @ ys) = rd16 (off - length xs) ys"
  "length xs \<le> off \<Longrightarrow> rd32 off (xs @ ys) = rd32 (off - length xs) ys"
  "length xs \<le> off \<Longrightarrow> rd64 off (xs @ ys) = rd64 (off - length xs) ys"
  by (simp_all add: rd8_def rd16_def rd32_def rd64_def rd_skip)

lemma rd_step [simp]:
  "0 < off \<Longrightarrow> rd8 off (b # ys) = rd8 (off - 1) ys"
  "0 < off \<Longrightarrow> rd16 off (b # ys) = rd16 (off - 1) ys"
  "0 < off \<Longrightarrow> rd32 off (b # ys) = rd32 (off - 1) ys"
  "0 < off \<Longrightarrow> rd64 off (b # ys) = rd64 (off - 1) ys"
  by (simp_all add: rd8_def rd16_def rd32_def rd64_def rd_cons)

section \<open>Structures\<close>

datatype operand_tag = T_Invalid | T_Register | T_ShiftRegister | T_Immediate | T_Address | T_Expr expr_type

record enums =
  en_opcode :: "llvm_opcode \<Rightarrow> u8"
  en_shift :: "Shift \<Rightarrow> u8"
  en_extend :: "Extend \<Rightarrow> u8"
  en_tag :: "operand_tag \<Rightarrow> u8"
  en_action :: "bool \<Rightarrow> u8" \<comment> \<open>read or write\<close>

definition all_opcodes :: "llvm_opcode list" where
  "all_opcodes = [I_Add, I_Sub, I_Mul, I_Shl, I_LShr, I_AShr, I_ZExt, I_SExt, I_Trunc, I_And, I_Or, I_URem, I_Xor]"

definition all_shifts :: "Shift list" where
  "all_shifts = [kShiftInvalid, kShiftLeftWithZeroes, kShiftLeftWithOnes, kShiftUnsignedRight, kShiftSignedRight,
     kShiftLeftAround, kShiftRightAround]"

definition all_extends :: "Extend list" where
  "all_extends = [kExtendInvalid, kExtendUnsigned, kExtendSigned]"

definition all_tags :: "operand_tag list" where
  "all_tags = [T_Invalid, T_Register, T_ShiftRegister, T_Immediate, T_Address, T_Expr kTypeExpression,
     T_Expr kTypeRegisterExpression, T_Expr kTypeImmediateExpression, T_Expr kTypeAddressExpression]"

text \<open>The enumerator with a given number, among those the sources name.\<close>

definition by_number :: "('a \<Rightarrow> u8) \<Rightarrow> 'a list \<Rightarrow> u8 \<Rightarrow> 'a option" where
  "by_number num xs b = List.find (\<lambda>x. num x = b) xs"

definition enc_opcode :: "enums \<Rightarrow> llvm_opcode \<Rightarrow> u8" where
  "enc_opcode E opc = (case opc of I_Other n \<Rightarrow> word_of_nat n | _ \<Rightarrow> en_opcode E opc)"

definition dec_opcode :: "enums \<Rightarrow> u8 \<Rightarrow> llvm_opcode" where
  "dec_opcode E b = (case by_number (en_opcode E) all_opcodes b of Some opc \<Rightarrow> opc | None \<Rightarrow> I_Other (unat b))"

text \<open>\<open>Expression\<close>: eight bytes of payload, kind, opcode, width, one reserved byte.\<close>

definition enc_expr :: "enums \<Rightarrow> md_expr \<Rightarrow> bytes" where
  "enc_expr E x =
     (case x of
        kInvalid \<Rightarrow> replicate 8 0 @ [0, 0, 0, 0]
      | kOperation l r opc w \<Rightarrow> en32 l @ en32 r @ [1, enc_opcode E opc, w, 0]
      | kRegister reg \<Rightarrow> en16 (mr_offset reg) @ en16 (mr_size reg) @ replicate 4 0 @ [2, 0, 0, 0]
      | kConstant lo hi w \<Rightarrow> en32 lo @ en32 hi @ [3, 0, w, 0])"

definition dec_reg :: "bytes \<Rightarrow> md_reg" where
  "dec_reg bs = \<lparr>mr_offset = rd16 0 bs, mr_size = rd16 2 bs\<rparr>"

definition dec_expr :: "enums \<Rightarrow> bytes \<Rightarrow> md_expr" where
  "dec_expr E bs =
     (let kind = rd8 8 bs in
      if kind = 1 then kOperation (rd32 0 bs) (rd32 4 bs) (dec_opcode E (rd8 9 bs)) (rd8 10 bs)
      else if kind = 2 then kRegister (dec_reg bs)
      else if kind = 3 then kConstant (rd32 0 bs) (rd32 4 bs) (rd8 10 bs)
      else kInvalid)"

definition enc_reg :: "md_reg \<Rightarrow> bytes" where
  "enc_reg reg = en16 (mr_offset reg) @ en16 (mr_size reg)"

text \<open>\<open>Operand\<close>: size, type, action, four bytes of padding and the union of forty bytes.\<close>

definition enc_value :: "enums \<Rightarrow> md_value \<Rightarrow> operand_tag \<times> bytes" where
  "enc_value E v =
     (case v of
        MV_invalid \<Rightarrow> (T_Invalid, replicate 40 0)
      | MV_reg reg \<Rightarrow> (T_Register, enc_reg reg @ replicate 36 0)
      | MV_shift s \<Rightarrow> (T_ShiftRegister, enc_reg (ms_reg s) @ [ms_shift_size s, ms_extract_size s, en_bool (ms_shift_first s),
            en_bool (ms_can_shift_op_size s), en_shift E (ms_shift_op s), en_extend E (ms_extend_op s)] @ replicate 30 0)
      | MV_imm val sg \<Rightarrow> (T_Immediate, en64 val @ [en_bool sg] @ replicate 31 0)
      | MV_addr a \<Rightarrow> (T_Address, enc_reg (ma_reg0 a) @ enc_reg (ma_reg1 a) @ enc_reg (ma_reg2 a) @ replicate 4 0 @
            en64 (ma_scale a) @ en64 (ma_displacement a) @ [ma_address_size a, ma_kind a] @ replicate 6 0)
      | MV_expr t x \<Rightarrow> (T_Expr t, enc_expr E x @ replicate 28 0))"

definition enc_operand :: "enums \<Rightarrow> md_operand \<Rightarrow> bytes" where
  "enc_operand E mo =
     (let (tag, val) = enc_value E (mo_value mo) in
      en16 (mo_size mo) @ [en_tag E tag, en_action E (mo_action_write mo)] @ replicate 4 0 @ val)"

definition dec_value :: "enums \<Rightarrow> operand_tag \<Rightarrow> bytes \<Rightarrow> md_value" where
  "dec_value E tag bs =
     (case tag of
        T_Invalid \<Rightarrow> MV_invalid
      | T_Register \<Rightarrow> MV_reg (dec_reg (drop 8 bs))
      | T_ShiftRegister \<Rightarrow> MV_shift \<lparr>ms_reg = dec_reg (drop 8 bs), ms_shift_size = rd8 12 bs, ms_extract_size = rd8 13 bs,
          ms_shift_first = (rd8 14 bs \<noteq> 0), ms_can_shift_op_size = (rd8 15 bs \<noteq> 0),
          ms_shift_op = (case by_number (en_shift E) all_shifts (rd8 16 bs) of Some sh \<Rightarrow> sh | None \<Rightarrow> kShiftInvalid),
          ms_extend_op = (case by_number (en_extend E) all_extends (rd8 17 bs) of Some x \<Rightarrow> x | None \<Rightarrow> kExtendInvalid)\<rparr>
      | T_Immediate \<Rightarrow> MV_imm (rd64 8 bs) (rd8 16 bs \<noteq> 0)
      | T_Address \<Rightarrow> MV_addr \<lparr>ma_reg0 = dec_reg (drop 8 bs), ma_reg1 = dec_reg (drop 12 bs), ma_reg2 = dec_reg (drop 16 bs),
          ma_scale = rd64 24 bs, ma_displacement = rd64 32 bs, ma_address_size = rd8 40 bs, ma_kind = rd8 41 bs\<rparr>
      | T_Expr t \<Rightarrow> MV_expr t (dec_expr E (drop 8 bs)))"

text \<open>An unknown type byte is treated as the invalid operand: both make the interpreter abort.\<close>

definition dec_operand :: "enums \<Rightarrow> bytes \<Rightarrow> md_operand" where
  "dec_operand E bs =
     \<lparr>mo_size = rd16 0 bs, mo_action_write = (rd8 3 bs = en_action E True),
      mo_value = (case by_number (en_tag E) all_tags (rd8 2 bs) of Some tag \<Rightarrow> dec_value E tag bs | None \<Rightarrow> MV_invalid)\<rparr>"

section \<open>Round trip of the structures\<close>

definition enums_ok :: "enums \<Rightarrow> bool" where
  "enums_ok E \<longleftrightarrow> distinct (map (en_opcode E) all_opcodes) \<and> distinct (map (en_shift E) all_shifts) \<and>
     distinct (map (en_extend E) all_extends) \<and> distinct (map (en_tag E) all_tags) \<and> en_action E True \<noteq> en_action E False"

text \<open>An opcode the sources do not name has none of the numbers of those they name.\<close>

definition opcode_ok :: "enums \<Rightarrow> llvm_opcode \<Rightarrow> bool" where
  "opcode_ok E opc \<longleftrightarrow> (case opc of I_Other n \<Rightarrow> n \<le> 255 \<and> word_of_nat n \<notin> set (map (en_opcode E) all_opcodes) | _ \<Rightarrow> True)"

definition expr_ok :: "enums \<Rightarrow> md_expr \<Rightarrow> bool" where
  "expr_ok E x \<longleftrightarrow> (case x of kOperation l r opc w \<Rightarrow> opcode_ok E opc | _ \<Rightarrow> True)"

definition operand_ok :: "enums \<Rightarrow> md_operand \<Rightarrow> bool" where
  "operand_ok E mo \<longleftrightarrow> (case mo_value mo of MV_expr _ x \<Rightarrow> expr_ok E x | _ \<Rightarrow> True)"

lemma by_number_distinct:
  "distinct (map num xs) \<Longrightarrow> x \<in> set xs \<Longrightarrow> by_number num xs (num x) = Some x"
  by (induction xs) (auto simp: by_number_def)

lemma by_number_None: "b \<notin> set (map num xs) \<Longrightarrow> by_number num xs b = None"
  by (auto simp: by_number_def find_None_iff)

lemma enum_lists: "sh \<in> set all_shifts" "ext \<in> set all_extends" "tag \<in> set all_tags"
  "opc \<in> set all_opcodes \<or> (\<exists>n. opc = I_Other n)"
proof -
  show "sh \<in> set all_shifts" by (cases sh) (simp_all add: all_shifts_def)
  show "ext \<in> set all_extends" by (cases ext) (simp_all add: all_extends_def)
  show "tag \<in> set all_tags" by (cases tag; (cases "un_T_Expr tag")?) (auto simp: all_tags_def intro: expr_type.exhaust)
  show "opc \<in> set all_opcodes \<or> (\<exists>n. opc = I_Other n)" by (cases opc) (simp_all add: all_opcodes_def)
qed

lemma dec_enc_opcode: "enums_ok E \<Longrightarrow> opcode_ok E opc \<Longrightarrow> dec_opcode E (enc_opcode E opc) = opc"
  using enum_lists(4) [of opc]
  by (cases opc) (auto simp: enums_ok_def dec_opcode_def enc_opcode_def opcode_ok_def by_number_distinct by_number_None unat_u8_of_nat)

lemma length_enc_expr [simp]: "length (enc_expr E x) = 12"
  by (simp add: enc_expr_def split: md_expr.split)

lemma length_enc_reg [simp]: "length (enc_reg r) = 4"
  by (simp add: enc_reg_def)

lemma length_enc_operand [simp]: "length (enc_operand E mo) = 48"
  by (cases "mo_value mo") (simp_all add: enc_operand_def enc_value_def)

lemma dec_enc_reg [simp]: "dec_reg (enc_reg r @ ys) = r"
  by (simp add: dec_reg_def enc_reg_def)

lemma dec_enc_expr:
  assumes "enums_ok E" and "expr_ok E x"
  shows "dec_expr E (enc_expr E x @ ys) = x"
  using assms by (cases x) (simp_all add: expr_ok_def dec_expr_def enc_expr_def Let_def dec_enc_opcode dec_reg_def)

lemma dec_enc_value:
  assumes "enums_ok E" and "case v of MV_expr _ x \<Rightarrow> expr_ok E x | _ \<Rightarrow> True" and "length xs = 8"
  shows "dec_value E (fst (enc_value E v)) (xs @ snd (enc_value E v)) = v"
  using assms
  by (cases v) (simp_all add: dec_value_def enc_value_def dec_enc_expr enums_ok_def by_number_distinct enum_lists)

lemma dec_enc_operand:
  assumes "enums_ok E" and "operand_ok E mo"
  shows "dec_operand E (enc_operand E mo) = mo"
proof -
  obtain tag val where v: "enc_value E (mo_value mo) = (tag, val)" by fastforce
  have "by_number (en_tag E) all_tags (en_tag E tag) = Some tag"
    using assms(1) enum_lists(3) by (simp add: enums_ok_def by_number_distinct)
  moreover have "(en_action E (mo_action_write mo) = en_action E True) = mo_action_write mo"
    using assms(1) by (cases "mo_action_write mo") (auto simp: enums_ok_def)
  ultimately show ?thesis
    using dec_enc_value [of E "mo_value mo" "en16 (mo_size mo) @ [en_tag E tag, en_action E (mo_action_write mo)] @ replicate 4 0"] assms v
    by (simp add: dec_operand_def enc_operand_def operand_ok_def)
qed

section \<open>Header, instructions and handlers\<close>

record IMetaData =
  md_magic :: u32
  md_version :: u32
  md_size :: u32
  md_flags :: u32
  off_instruction :: u32
  num_instruction :: u32
  off_operands :: u32
  num_operands :: u32
  off_expressions :: u32
  num_expressions :: u32
  off_handlers :: u32
  num_handlers :: u32

definition kMagic :: u32 where
  "kMagic = 1297499457" \<comment> \<open>\<open>'MVEA'\<close>, bytes \<open>AEVM\<close>\<close>

definition kVersion :: u32 where
  "kVersion = 1"

definition kFlag_HasWX :: u32 where
  "kFlag_HasWX = 1"

definition kFlag_ARM64 :: u32 where
  "kFlag_ARM64 = 2"

definition kFlag_X64 :: u32 where
  "kFlag_X64 = 4"

definition enc_header :: "IMetaData \<Rightarrow> bytes" where
  "enc_header h = concat (map en32 [md_magic h, md_version h, md_size h, md_flags h, off_instruction h, num_instruction h,
     off_operands h, num_operands h, off_expressions h, num_expressions h, off_handlers h, num_handlers h])"

definition dec_header :: "bytes \<Rightarrow> IMetaData" where
  "dec_header bs = \<lparr>md_magic = rd32 0 bs, md_version = rd32 4 bs, md_size = rd32 8 bs, md_flags = rd32 12 bs,
     off_instruction = rd32 16 bs, num_instruction = rd32 20 bs, off_operands = rd32 24 bs, num_operands = rd32 28 bs,
     off_expressions = rd32 32 bs, num_expressions = rd32 36 bs, off_handlers = rd32 40 bs, num_handlers = rd32 44 bs\<rparr>"

record InsnMeta =
  im_rva :: u32
  im_handler :: u32

definition enc_insn :: "InsnMeta \<Rightarrow> bytes" where
  "enc_insn i = en32 (im_rva i) @ en32 (im_handler i)"

definition dec_insn :: "bytes \<Rightarrow> InsnMeta" where
  "dec_insn bs = \<lparr>im_rva = rd32 0 bs, im_handler = rd32 4 bs\<rparr>"

text \<open>The fixed part of \<open>Handler\<close>; type and opcode length are the two halves of one byte.\<close>

record md_handler =
  mh_impl :: u16
  mh_type :: "4 word"
  mh_oplen :: "4 word"
  mh_oprnum :: u8

definition enc_handler :: "md_handler \<Rightarrow> bytes" where
  "enc_handler h = en16 (mh_impl h) @ [ucast (mh_type h) OR push_bit 4 (ucast (mh_oplen h)), mh_oprnum h]"

definition dec_handler :: "bytes \<Rightarrow> md_handler" where
  "dec_handler bs = \<lparr>mh_impl = rd16 0 bs, mh_type = ucast (rd8 2 bs), mh_oplen = ucast (drop_bit 4 (rd8 2 bs)),
     mh_oprnum = rd8 3 bs\<rparr>"

definition oht_number :: "oh_type \<Rightarrow> 4 word" where
  "oht_number t = (case t of OHT_Remill \<Rightarrow> 0 | OHT_MCInst \<Rightarrow> 1 | OHT_Dynamic \<Rightarrow> 2 | OHT_Prebuilt \<Rightarrow> 3 | OHT_PrebuiltMapped \<Rightarrow> 4)"

text \<open>\<open>OperandInfo\<close>: fifteen bits of index and the pointer bit.\<close>

definition enc_info :: "nat \<times> bool \<Rightarrow> bytes" where
  "enc_info ip = en16 (word_of_nat (fst ip) OR (if snd ip then 32768 else 0))"

definition dec_info :: "bytes \<Rightarrow> nat \<times> bool" where
  "dec_info bs = (unat (rd16 0 bs AND 32767), rd16 0 bs AND 32768 \<noteq> 0)"

text \<open>The trailing arrays of a handler: its opcode, \<open>operand()\<close>, and the offset of \<open>handler()\<close>.\<close>

definition mh_opcode :: "bytes \<Rightarrow> bytes" where
  "mh_opcode bs = take (unat (mh_oplen (dec_handler bs))) (drop 4 bs)"

definition mh_operand :: "bytes \<Rightarrow> nat \<Rightarrow> nat \<times> bool" where
  "mh_operand bs j = dec_info (drop (4 + unat (mh_oplen (dec_handler bs)) + 2 * j) bs)"

definition mh_code_offset :: "bytes \<Rightarrow> nat" where
  "mh_code_offset bs = 4 + unat (mh_oplen (dec_handler bs)) + 2 * unat (mh_oprnum (dec_handler bs))"

lemma dec_enc_header [simp]: "dec_header (enc_header h @ ys) = h"
  by (simp add: dec_header_def enc_header_def)

lemma dec_enc_insn [simp]: "dec_insn (enc_insn i @ ys) = i"
  by (simp add: dec_insn_def enc_insn_def)

lemma nibbles:
  fixes t n :: "4 word"
  shows "ucast (ucast t OR push_bit 4 (ucast n) :: u8) = t"
    "ucast (drop_bit 4 (ucast t) OR drop_bit 4 (push_bit 4 (ucast n)) :: u8) = n"
  by (rule bit_word_eqI; auto simp: bit_simps dest: bit_imp_le_length)+

lemma dec_enc_handler [simp]: "dec_handler (enc_handler h @ ys) = h"
  by (simp add: dec_handler_def enc_handler_def nibbles)

lemma length_enc [simp]: "length (enc_header h) = 48" "length (enc_insn i) = 8" "length (enc_handler k) = 4" "length (enc_info ip) = 2"
  by (simp_all add: enc_header_def enc_insn_def enc_handler_def enc_info_def)

lemma info_bits:
  fixes w :: u16
  assumes "unat w \<le> 32767"
  shows "(w OR (if p then 32768 else 0)) AND 32767 = w" "((w OR (if p then 32768 else 0)) AND 32768 \<noteq> 0) = p"
proof -
  have m: "(32767 :: u16) = mask 15" by (simp add: mask_eq_exp_minus_1)
  have "bit (push_bit 15 1 :: u16) i \<longleftrightarrow> i = 15" for i
    by (simp only: bit_push_bit_iff bit_1_iff possible_bit_word) auto
  then have h: "bit (32768 :: u16) i \<longleftrightarrow> i = 15" for i by simp
  have "take_bit 15 w = w" using assms by (simp add: word_unat_eq_iff unsigned_take_bit_eq take_bit_nat_eq_self)
  then have w: "bit w i \<Longrightarrow> i < 15" for i by (metis bit_take_bit_iff)
  show "(w OR (if p then 32768 else 0)) AND 32767 = w" unfolding m
    by (rule bit_word_eqI) (use w in \<open>cases p; auto simp: bit_and_iff bit_or_iff bit_mask_iff h simp del: bit_numeral_word_iff\<close>)
  have "(w OR (if p then 32768 else 0)) AND 32768 = (if p then 32768 else 0)"
    by (rule bit_word_eqI) (use w in \<open>cases p; auto simp: bit_and_iff bit_or_iff bit_mask_iff h simp del: bit_numeral_word_iff\<close>)
  then show "((w OR (if p then 32768 else 0)) AND 32768 \<noteq> 0) = p" by simp
qed

lemma dec_enc_info: "i \<le> 32767 \<Longrightarrow> dec_info (enc_info (i, p) @ ys) = (i, p)"
  using info_bits [of "word_of_nat i" p] by (simp add: dec_info_def enc_info_def unat_of_nat)

end
