(* ===== verification/OpcodeInvariants.thy ===== *)
theory OpcodeInvariants
  imports OpcodeEngine
begin

text \<open>
  Invariants of the opcode engine: handlers and shared tables over every sequence of
  prefetching and emulation, prefetched instructions are found, and generated code keeps to
  its own part of the executable pages.
\<close>

section \<open>Shared tables\<close>

text \<open>Both index maps point into their tables.\<close>

definition vm_inv :: "vm \<Rightarrow> bool" where
  "vm_inv s \<longleftrightarrow> (\<forall>k i p. v_operandmap s k = Some (i, p) \<longrightarrow> i < length (v_operands s)) \<and>
     (\<forall>k i. mc_instmap (v_mc s) k = Some i \<longrightarrow> i < length (mc_insts (v_mc s)))"

text \<open>Tables only grow at the end, so an index keeps its meaning.\<close>

definition vm_le :: "vm \<Rightarrow> vm \<Rightarrow> bool" where
  "vm_le s s' \<longleftrightarrow> (\<exists>xs. v_operands s' = v_operands s @ xs) \<and> (\<exists>ys. mc_insts (v_mc s') = mc_insts (v_mc s) @ ys)"

text \<open>A handler that the engine can execute on these tables: its indices are in range, its type is supported.\<close>

definition entry_ok :: "vm \<Rightarrow> opc_handler \<Rightarrow> bool" where
  "entry_ok s h \<longleftrightarrow>
     (case oh_type h of
        OHT_Remill \<Rightarrow> list_all (\<lambda>(i, p). i < length (v_operands s)) (oh_args h)
      | OHT_MCInst \<Rightarrow> oh_args h \<noteq> [] \<and> fst (hd (oh_args h)) < length (mc_insts (v_mc s))
      | OHT_Dynamic \<Rightarrow> True
      | _ \<Rightarrow> False)"

lemma vm_le_refl [simp]: "vm_le s s" "vm_le s (s\<lparr>v_cpu := c\<rparr>)"
  by (simp_all add: vm_le_def)

lemma vm_le_trans: "vm_le s s' \<Longrightarrow> vm_le s' s'' \<Longrightarrow> vm_le s s''"
  by (fastforce simp: vm_le_def)

lemma vm_inv_cpu [simp]: "vm_inv (s\<lparr>v_cpu := c\<rparr>) = vm_inv s" "entry_ok (s\<lparr>v_cpu := c\<rparr>) h = entry_ok s h"
  by (simp_all add: vm_inv_def entry_ok_def split: oh_type.split)

lemma entry_ok_mono: "entry_ok s h \<Longrightarrow> vm_le s s' \<Longrightarrow> entry_ok s' h"
  by (fastforce simp: entry_ok_def vm_le_def list_all_iff split: oh_type.splits)

lemma entry_ok_zero [simp]: "entry_ok s zero_handler"
  by (simp add: entry_ok_def zero_handler_def)

section \<open>Creating a handler\<close>

lemma init_operands_inv:
  assumes "init_operands L ro ops s args = Inr (args', s')" and "vm_inv s"
    and "list_all (\<lambda>(i, p). i < length (v_operands s)) args"
  shows "vm_inv s' \<and> vm_le s s' \<and> list_all (\<lambda>(i, p). i < length (v_operands s')) args'"
  using assms
proof (induction L ro ops s args arbitrary: args' s' rule: init_operands.induct)
  case (2 L ro opnd pointer ops s args)
  let ?id = "operand_ID (l_id L) opnd pointer"
  show ?case
  proof (cases "v_operandmap s ?id")
    case None
    with "2.prems"(1) obtain opnd' where io: "initOffsets ro opnd = Inr opnd'" by (cases "initOffsets ro opnd") auto
    define t where "t = s\<lparr>v_operands := v_operands s @ [opnd'], v_operandmap := (v_operandmap s)(?id \<mapsto> (length (v_operands s), pointer))\<rparr>"
    have t: "vm_inv t" "vm_le s t" using "2.prems"(2) by (auto simp: t_def vm_inv_def vm_le_def less_Suc_eq)
    have "list_all (\<lambda>(i, p). i < length (v_operands t)) (args @ [(length (v_operands s), pointer)])"
      using "2.prems"(3) by (auto simp: t_def list_all_iff)
    moreover have "init_operands L ro ops t (args @ [(length (v_operands s), pointer)]) = Inr (args', s')"
      using "2.prems"(1) None io by (simp add: t_def Let_def)
    ultimately have "vm_inv s' \<and> vm_le t s' \<and> list_all (\<lambda>(i, p). i < length (v_operands s')) args'"
      using "2.IH"(1) [OF refl None refl, of opnd' args' s', folded t_def] t(1) by simp
    with t(2) show ?thesis using vm_le_trans by blast
  next
    case (Some info)
    then have "list_all (\<lambda>(i, p). i < length (v_operands s)) (args @ [info])"
      using "2.prems"(2,3) by (cases info) (auto simp: vm_inv_def)
    with "2.IH"(2) [OF refl Some] "2.prems" Some show ?thesis by simp
  qed
qed simp

lemma initMC_inv:
  assumes "initMCInstARM64 E opc inst T = (r, T')" and "\<forall>k i. mc_instmap T k = Some i \<longrightarrow> i < length (mc_insts T)"
  shows "(\<forall>k i. mc_instmap T' k = Some i \<longrightarrow> i < length (mc_insts T')) \<and> (\<exists>ys. mc_insts T' = mc_insts T @ ys) \<and>
    (\<forall>i. r = Some i \<longrightarrow> i < length (mc_insts T'))"
  using assms by (auto simp: initMCInstARM64_def Let_def less_Suc_eq split: if_splits option.splits)

lemma place_code_tables:
  "place_code L bs s = (impl, s') \<Longrightarrow> v_operands s' = v_operands s \<and> v_operandmap s' = v_operandmap s \<and> v_mc s' = v_mc s"
  by (auto simp: place_code_def Let_def)

lemma initDynamic_inv:
  assumes "initDynamic L opcode h s = Inr (h', s')" and inv: "vm_inv s" and "oh_args h = []"
  shows "vm_inv s' \<and> vm_le s s' \<and> entry_ok s' h'"
proof -
  obtain n inst where d: "l_disassemble L opcode = (n, inst)" by fastforce
  obtain r T where m: "(if l_arm64 L then initMCInstARM64 (l_mc L) (word_of_nat (le_val (take 4 opcode))) inst (v_mc s)
      else (None, v_mc s)) = (r, T)" by fastforce
  have mT: "(\<forall>k i. mc_instmap T k = Some i \<longrightarrow> i < length (mc_insts T)) \<and> (\<exists>ys. mc_insts T = mc_insts (v_mc s) @ ys) \<and>
      (\<forall>i. r = Some i \<longrightarrow> i < length (mc_insts T))"
  proof (cases "l_arm64 L")
    case True
    with m have "initMCInstARM64 (l_mc L) (word_of_nat (le_val (take 4 opcode))) inst (v_mc s) = (r, T)" by simp
    from initMC_inv [OF this] inv show ?thesis by (simp add: vm_inv_def)
  qed (use m inv in \<open>auto simp: vm_inv_def\<close>)
  show ?thesis
  proof (cases r)
    case (Some i)
    with assms d m have "h' = h\<lparr>oh_oplen := word_of_nat n, oh_type := OHT_MCInst, oh_args := [(i, False)]\<rparr>" "s' = s\<lparr>v_mc := T\<rparr>"
      by (simp_all add: initDynamic_def)
    with mT Some inv show ?thesis by (auto simp: vm_inv_def vm_le_def entry_ok_def)
  next
    case None
    show ?thesis
    proof (cases "n = 0")
      case True
      with None assms d m show ?thesis by (auto simp: initDynamic_def entry_ok_def)
    next
      case False
      with None assms(1) d m obtain bs where "(let (impl, u) = place_code L bs s in
          Inr (h\<lparr>oh_oplen := word_of_nat n, oh_type := OHT_Dynamic, oh_impl := impl,
                 oh_implsize := word_of_nat (length bs)\<rparr>, u)) = (Inr (h', s') :: (opc_handler \<times> vm) res)"
        by (cases "native_code L (v_cpu s) inst (take n opcode)") (simp_all add: initDynamic_def)
      then obtain impl where "place_code L bs s = (impl, s')" "oh_type h' = OHT_Dynamic"
        by (cases "place_code L bs s") auto
      with place_code_tables inv show ?thesis by (fastforce simp: vm_inv_def vm_le_def entry_ok_def)
    qed
  qed
qed

lemma initRemill_inv:
  assumes "initRemill L ro opcode inst h s = Inr (h', s')" and "vm_inv s" and "oh_args h = []"
  shows "vm_inv s' \<and> vm_le s s' \<and> entry_ok s' h'"
proof -
  let ?h = "h\<lparr>oh_oplen := word_of_nat (length (ri_bytes inst))\<rparr>"
  from assms(1) consider (dyn) "initDynamic L opcode ?h s = Inr (h', s')"
    | (sem) args found where "init_operands L ro (ri_operands inst) s (oh_args h) = Inr (args, s')"
        "h' = ?h\<lparr>oh_impl := h_impl (l_handlers L ! found), oh_type := OHT_Remill, oh_args := args\<rparr>"
    by (auto simp: initRemill_def Let_def res_bind_Inr_iff split: if_splits)
  then show ?thesis
  proof cases
    case dyn
    with initDynamic_inv [of L opcode ?h s] assms(2,3) show ?thesis by simp
  next
    case sem
    with init_operands_inv [of L ro "ri_operands inst" s "[]" args s'] assms(2,3) show ?thesis by (simp add: entry_ok_def)
  qed
qed

lemma init_inst_inv:
  assumes "init_inst L opcode inst h s = Inr (h', s')" and "vm_inv s" and "oh_args h = []"
  shows "vm_inv s' \<and> vm_le s s' \<and> entry_ok s' h'"
proof -
  from assms(1) obtain ro where r: "(if ri_valid inst then initRemill L ro opcode inst h (s\<lparr>v_regoffs := Some ro\<rparr>)
      else initDynamic L opcode h (s\<lparr>v_regoffs := Some ro\<rparr>)) = Inr (h', s')"
    by (auto simp: init_inst_def Let_def res_bind_Inr_iff)
  have "vm_inv (s\<lparr>v_regoffs := Some ro\<rparr>)" "vm_le s (s\<lparr>v_regoffs := Some ro\<rparr>)"
    using assms(2) by (simp_all add: vm_inv_def vm_le_def)
  then show ?thesis using r initRemill_inv initDynamic_inv assms(3) vm_le_trans
    by (metis (no_types, lifting))
qed


section \<open>Executing a handler\<close>




section \<open>One table\<close>

text \<open>
  What every operation on a table of handlers keeps, as an interface: \<open>run\<close> maps the handlers and the
  thread to new ones.  Its lemma is used for prefetching and for emulating at each width.
\<close>

definition table_inv :: "('k \<rightharpoonup> opc_handler) \<Rightarrow> vm \<Rightarrow> bool" where
  "table_inv T s \<longleftrightarrow> vm_inv s \<and> (\<forall>h\<in>ran T. entry_ok s h)"

lemma table_inv_mono: "table_inv T s \<Longrightarrow> vm_le s s' \<Longrightarrow> vm_inv s' \<Longrightarrow> table_inv T s'"
  using entry_ok_mono by (auto simp: table_inv_def)

lemma table_inv_cpu [simp]: "table_inv T (s\<lparr>v_cpu := c\<rparr>) = table_inv T s"
  by (simp add: table_inv_def)

lemma table_inv_update: "table_inv T s \<Longrightarrow> vm_le s s' \<Longrightarrow> vm_inv s' \<Longrightarrow> entry_ok s' h \<Longrightarrow> table_inv (T(k \<mapsto> h)) s'"
  using entry_ok_mono by (fastforce simp: table_inv_def ran_def)



lemma handlers_prefetch_inv:
  assumes "handlers_prefetch hash kb L inst opc t s = Inr (t', s')" and "handlers_ok hash t" and "table_inv (hs_set t) s"
  shows "handlers_ok hash t' \<and> table_inv (hs_set t') s' \<and> vm_le s s' \<and> hs_set t \<subseteq>\<^sub>m hs_set t' \<and> opc \<in> dom (hs_set t')"
proof (cases "hs_set t opc")
  case None
  with assms(1) obtain h where h: "init_inst L (kb opc) inst zero_handler s = Inr (h, s')"
    "t' = t\<lparr>hs_set := (hs_set t)(opc \<mapsto> h), hs_caches := (hs_caches t)(hash opc := Some opc)\<rparr>"
    by (auto simp: handlers_prefetch_def res_bind_Inr_iff)
  have v: "vm_inv s'" "vm_le s s'" "entry_ok s' h"
    using init_inst_inv [OF h(1)] assms(3) by (auto simp: table_inv_def zero_handler_def)
  from table_inv_update [OF assms(3) v(2,1,3)] show ?thesis
    using h(2) v(2) assms(2) None by (auto simp: handlers_ok_def map_le_def)
qed (use assms in \<open>auto simp: handlers_prefetch_def\<close>)

section \<open>The engine\<close>

definition engine_inv :: "OpcodeEngine \<Rightarrow> vm \<Rightarrow> bool" where
  "engine_inv e s \<longleftrightarrow> engine_ok e \<and> table_inv (hs_set (opc1 e)) s \<and> table_inv (hs_set (opc2 e)) s \<and>
     table_inv (hs_set (opc4 e)) s \<and> table_inv (hs_set (opc8 e)) s \<and> table_inv (hs_set (opc16 e)) s"

text \<open>Partial correctness of a result, and the rules that walk through the dispatch on the opcode width.\<close>

definition post :: "('a \<Rightarrow> bool) \<Rightarrow> 'a res \<Rightarrow> bool" where
  "post G r \<longleftrightarrow> (case r of Inl _ \<Rightarrow> True | Inr x \<Rightarrow> G x)"

lemma postD: "post G r \<Longrightarrow> r = Inr x \<Longrightarrow> G x"
  by (simp add: post_def)

lemma postI: "(\<And>x. r = Inr x \<Longrightarrow> G x) \<Longrightarrow> post G r"
  by (cases r) (simp_all add: post_def)

lemma post_if: "(c \<Longrightarrow> post G a) \<Longrightarrow> (\<not> c \<Longrightarrow> post G b) \<Longrightarrow> post G (if c then a else b)"
  by simp

lemma table_inv_vm: "table_inv T s \<Longrightarrow> vm_inv s"
  by (simp add: table_inv_def)


lemma post_prefetch:
  assumes "handlers_ok hash t" and "table_inv (hs_set t) s"
    and "\<And>t' s'. handlers_ok hash t' \<Longrightarrow> table_inv (hs_set t') s' \<Longrightarrow> vm_le s s' \<Longrightarrow> vm_inv s' \<Longrightarrow>
      hs_set t \<subseteq>\<^sub>m hs_set t' \<Longrightarrow> opc \<in> dom (hs_set t') \<Longrightarrow> G (f t') s'"
  shows "post (\<lambda>(e', s'). G e' s') (res_bind (handlers_prefetch hash kb L inst opc t s) (\<lambda>(t, s). Inr (f t, s)))"
proof (rule postI, clarsimp simp: res_bind_Inr_iff)
  fix t' s' assume "handlers_prefetch hash kb L inst opc t s = Inr (t', s')"
  from handlers_prefetch_inv [OF this assms(1,2)] assms(3) [of t' s'] table_inv_vm [of "hs_set t'" s']
  show "G (f t') s'" by blast
qed

lemma engine_inv_tables:
  assumes "engine_inv e s"
  shows "handlers_ok fib_hash8_u8 (opc1 e)" "handlers_ok fib_hash8_u16 (opc2 e)" "handlers_ok fib_hash8_u32 (opc4 e)"
    "handlers_ok fib_hash8_u64 (opc8 e)" "handlers_ok fib_hash8_u128 (opc16 e)"
    "table_inv (hs_set (opc1 e)) s" "table_inv (hs_set (opc2 e)) s" "table_inv (hs_set (opc4 e)) s"
    "table_inv (hs_set (opc8 e)) s" "table_inv (hs_set (opc16 e)) s"
  using assms by (simp_all add: engine_inv_def engine_ok_def)

lemma engine_inv_update:
  assumes "engine_inv e s" and "vm_le s s'" and "vm_inv s'"
  shows "handlers_ok fib_hash8_u8 t1 \<Longrightarrow> table_inv (hs_set t1) s' \<Longrightarrow> engine_inv (e\<lparr>opc1 := t1\<rparr>) s'"
    "handlers_ok fib_hash8_u16 t2 \<Longrightarrow> table_inv (hs_set t2) s' \<Longrightarrow> engine_inv (e\<lparr>opc2 := t2\<rparr>) s'"
    "handlers_ok fib_hash8_u32 t4 \<Longrightarrow> table_inv (hs_set t4) s' \<Longrightarrow> engine_inv (e\<lparr>opc4 := t4\<rparr>) s'"
    "handlers_ok fib_hash8_u64 t8 \<Longrightarrow> table_inv (hs_set t8) s' \<Longrightarrow> engine_inv (e\<lparr>opc8 := t8\<rparr>) s'"
    "handlers_ok fib_hash8_u128 t16 \<Longrightarrow> table_inv (hs_set t16) s' \<Longrightarrow> engine_inv (e\<lparr>opc16 := t16\<rparr>) s'"
  using engine_inv_tables [OF assms(1)]
  by (simp_all add: engine_inv_def engine_ok_def table_inv_mono [OF _ assms(2,3)])


text \<open>
  The handler an engine has for an opcode, by the dispatch of \<open>emulate\<close>.
\<close>

definition engine_lookup :: "bytes \<Rightarrow> OpcodeEngine \<Rightarrow> opc_handler option" where
  "engine_lookup opcode e =
     (let n = length opcode in
      if n = 1 then hs_set (opc1 e) (key_of 1 opcode)
      else if n = 2 then hs_set (opc2 e) (key_of 2 opcode)
      else if n = 3 \<or> n = 4 then hs_set (opc4 e) (key_of n opcode)
      else if 5 \<le> n \<and> n \<le> 8 then hs_set (opc8 e) (key_of n opcode)
      else hs_set (opc16 e) (u128_of (take n opcode)))"

definition engine_le :: "OpcodeEngine \<Rightarrow> OpcodeEngine \<Rightarrow> bool" where
  "engine_le e e' \<longleftrightarrow> hs_set (opc1 e) \<subseteq>\<^sub>m hs_set (opc1 e') \<and> hs_set (opc2 e) \<subseteq>\<^sub>m hs_set (opc2 e') \<and>
     hs_set (opc4 e) \<subseteq>\<^sub>m hs_set (opc4 e') \<and> hs_set (opc8 e) \<subseteq>\<^sub>m hs_set (opc8 e') \<and> hs_set (opc16 e) \<subseteq>\<^sub>m hs_set (opc16 e') \<and>
     eng_readonly e = eng_readonly e'"

lemma engine_le_refl: "engine_le e e"
  by (simp add: engine_le_def)

lemma engine_le_trans: "engine_le e e' \<Longrightarrow> engine_le e' e'' \<Longrightarrow> engine_le e e''"
  unfolding engine_le_def by (meson map_le_trans)

lemma engine_lookup_mono:
  assumes "engine_le e e'" and "engine_lookup opcode e = Some h"
  shows "engine_lookup opcode e' = Some h"
  using assms unfolding engine_lookup_def engine_le_def Let_def
  by (auto simp: map_le_def dom_def split: if_splits)

lemma engine_lookup_readonly: "engine_lookup opcode (e\<lparr>eng_readonly := b\<rparr>) = engine_lookup opcode e"
  by (simp add: engine_lookup_def Let_def)

lemma engine_inv_lookup: "engine_inv e s \<Longrightarrow> engine_lookup opcode e = Some h \<Longrightarrow> entry_ok s h"
  by (auto simp: engine_inv_def table_inv_def engine_lookup_def Let_def ran_def split: if_splits)

lemma key_of_take: "key_of n (take n bs) = key_of n bs"
  by (simp add: key_of_def)

lemma prefetch1_inv:
  assumes "engine_inv e s" and "length (ri_bytes inst) \<le> 16" and "length (ri_bytes inst) \<le> length ptr" and "ri_bytes inst \<noteq> []"
  shows "post (\<lambda>(e', s'). engine_inv e' s' \<and> vm_le s s' \<and> engine_le e e' \<and>
      engine_lookup (take (length (ri_bytes inst)) ptr) e' \<noteq> None) (prefetch1 L inst ptr e s)"
  unfolding prefetch1_def Let_def
  by (intro post_if post_prefetch conjI; (rule engine_inv_tables [OF assms(1)] | rule engine_inv_update [OF assms(1)] | assumption)?)
    (use assms(2-4) in \<open>auto simp: engine_le_def engine_lookup_def Let_def key_of_take min_def\<close>)

text \<open>The decoder consumes no more than the window it is given.\<close>

definition decodes_window :: "lib_env \<Rightarrow> bool" where
  "decodes_window L \<longleftrightarrow> (\<forall>w. length (ri_bytes (l_decode L w)) \<le> length w)"

lemma fetch_inst_length:
  assumes "decodes_window L" and "fetch_inst L ptr = Inr inst"
  shows "length (ri_bytes inst) \<le> 16" "length (ri_bytes inst) \<le> length ptr" "ri_bytes inst \<noteq> []"
proof -
  have w: "length (ri_bytes (l_decode L (take (window L) ptr))) \<le> length (take (window L) ptr)"
    using assms(1) unfolding decodes_window_def by blast
  show "length (ri_bytes inst) \<le> 16" "length (ri_bytes inst) \<le> length ptr"
    using w assms(2) by (auto simp: fetch_inst_def window_def Let_def split: if_splits)
  show "ri_bytes inst \<noteq> []" using fetch_inst_nonempty [OF assms(2)] by simp
qed

text \<open>The positions \<open>prefetch\<close> visits, with the instruction it decodes there.\<close>

inductive visited :: "lib_env \<Rightarrow> bytes \<Rightarrow> nat \<Rightarrow> bytes \<Rightarrow> remill_inst \<Rightarrow> bool" for L where
  here: "n \<noteq> 0 \<Longrightarrow> fetch_inst L ptr = Inr inst \<Longrightarrow> visited L ptr n ptr inst"
| later: "n \<noteq> 0 \<Longrightarrow> fetch_inst L ptr = Inr inst \<Longrightarrow>
    visited L (drop (length (ri_bytes inst)) ptr) (n - length (ri_bytes inst)) p i \<Longrightarrow> visited L ptr n p i"

inductive_cases visitedE: "visited L ptr n p i"

lemma prefetch_loop_0: "prefetch_loop L ptr 0 count e s = Inr (count, e, s)"
  by (simp add: prefetch_loop.simps)

lemma prefetch_loop_inv:
  "decodes_window L \<Longrightarrow> prefetch_loop L ptr n count e s = Inr (k, e', s') \<Longrightarrow> engine_inv e s \<Longrightarrow>
     engine_inv e' s' \<and> vm_le s s' \<and> engine_le e e' \<and>
     (\<forall>p i. visited L ptr n p i \<longrightarrow> engine_lookup (take (length (ri_bytes i)) p) e' \<noteq> None)"
proof (induction L ptr n count e s arbitrary: k e' s' rule: prefetch_loop.induct)
  case (1 L ptr n count e s)
  show ?case
  proof (cases "n = 0")
    case True
    with "1.prems" show ?thesis by (auto simp: prefetch_loop_0 engine_le_refl elim: visitedE)
  next
    case False
    with "1.prems"(2) obtain inst where f: "fetch_inst L ptr = Inr inst"
      by (cases "fetch_inst L ptr") (auto simp: prefetch_loop.simps [of L ptr n])
    let ?m = "length (ri_bytes inst)"
    from False f "1.prems"(2) obtain e1 s1 where p: "prefetch1 L inst ptr e s = Inr (e1, s1)"
      and loop: "prefetch_loop L (drop ?m ptr) (n - ?m) (Suc count) e1 s1 = Inr (k, e', s')"
      by (auto simp: prefetch_loop.simps [of L ptr n] res_bind_Inr_iff)
    have one: "engine_inv e1 s1" "vm_le s s1" "engine_le e e1" "engine_lookup (take ?m ptr) e1 \<noteq> None"
      using postD [OF prefetch1_inv [OF "1.prems"(3) fetch_inst_length [OF "1.prems"(1) f]] p] by auto
    have rest: "engine_inv e' s' \<and> vm_le s1 s' \<and> engine_le e1 e' \<and>
        (\<forall>q i. visited L (drop ?m ptr) (n - ?m) q i \<longrightarrow> engine_lookup (take (length (ri_bytes i)) q) e' \<noteq> None)"
      using "1.IH" [OF False f "1.prems"(1) loop one(1)] by blast
    have "engine_lookup (take (length (ri_bytes i)) q) e' \<noteq> None" if "visited L ptr n q i" for q i
      using that
    proof (rule visitedE)
      fix i' assume "fetch_inst L ptr = Inr i" "q = ptr"
      with f one(4) rest engine_lookup_mono show ?thesis by fastforce
    next
      fix i' assume "fetch_inst L ptr = Inr i'" "visited L (drop (length (ri_bytes i')) ptr) (n - length (ri_bytes i')) q i"
      with f rest show ?thesis by auto
    qed
    with rest one vm_le_trans engine_le_trans show ?thesis by blast
  qed
qed

text \<open>Emulating an opcode the engine has a handler for runs that handler and creates none.\<close>

lemma emulate_table_found:
  assumes "handlers_ok hash t" and "hs_set t opc = Some h"
    and "\<And>t'. hs_set t' = hs_set t \<Longrightarrow> handlers_ok hash t' \<Longrightarrow> same_handlers e (f t')"
  shows "case res_bind (handlers_emulate hash kb L opc ro t s) (\<lambda>(ok, t, s). Inr (ok, f t, s)) of
      Inl x \<Rightarrow> interpret_handler L h s = Inl x
    | Inr (ok, e', s') \<Rightarrow> interpret_handler L h s = Inr (ok, s') \<and> same_handlers e e'"
proof -
  note r = handlers_emulate_refines [OF assms(1), of kb L opc ro s]
  have m: "emulate_ref kb L opc ro (hs_set t) s = run_entry L h (hs_set t) s"
    using assms(2) by (simp add: emulate_ref_def)
  show ?thesis
  proof (cases "handlers_emulate hash kb L opc ro t s")
    case (Inl x)
    with r m show ?thesis by (cases "interpret_handler L h s") (auto simp: run_entry_def)
  next
    case (Inr x)
    obtain ok t' s' where x: "x = (ok, t', s')" by (cases x)
    with r m Inr have "interpret_handler L h s = Inr (ok, s')" "hs_set t' = hs_set t" "handlers_ok hash t'"
      by (cases "interpret_handler L h s"; auto simp: run_entry_def)+
    with assms(3) x Inr show ?thesis by simp
  qed
qed

lemma emulate_found:
  assumes "engine_ok e" and "engine_lookup opcode e = Some h"
    and "if l_arm64 L then length opcode = 4 else opcode \<noteq> [] \<and> length opcode < 16"
  shows "case emulate_span L opcode e s of
      Inl x \<Rightarrow> interpret_handler L h s = Inl x
    | Inr (ok, e', s') \<Rightarrow> interpret_handler L h s = Inr (ok, s') \<and> same_handlers e e'"
proof -
  define n where "n = length opcode"
  have n: "(if l_arm64 L then (if length opcode < 4 then 0 else 4)
       else if 16 \<le> length opcode then fst (l_disassemble L opcode) else length opcode) = n"
    "\<not> ((l_arm64 L \<and> length opcode < 4) \<or> (\<not> l_arm64 L \<and> 16 \<le> length opcode \<and> n = 0))"
    using assms(3) by (auto simp: n_def split: if_splits)
  have ok: "handlers_ok fib_hash8_u8 (opc1 e)" "handlers_ok fib_hash8_u16 (opc2 e)" "handlers_ok fib_hash8_u32 (opc4 e)"
    "handlers_ok fib_hash8_u64 (opc8 e)" "handlers_ok fib_hash8_u128 (opc16 e)"
    using assms(1) by (simp_all add: engine_ok_def)
  note look = assms(2) [unfolded engine_lookup_def Let_def, folded n_def]
  consider (w1) "n = 1" | (w2) "n = 2" | (w4) "n = 3 \<or> n = 4" | (w8) "5 \<le> n \<and> n \<le> 8" | (w16) "n = 0 \<or> 8 < n" by linarith
  then show ?thesis
  proof cases
    case w1
    show ?thesis unfolding emulate_span_def Let_def n(1) if_not_P [OF n(2)] using w1 look
      by (simp add: emulate_table_found [OF ok(1)] same_handlers_def)
  next
    case w2
    show ?thesis unfolding emulate_span_def Let_def n(1) if_not_P [OF n(2)] using w2 look
      by (simp add: emulate_table_found [OF ok(2)] same_handlers_def)
  next
    case w4
    then show ?thesis unfolding emulate_span_def Let_def n(1) if_not_P [OF n(2)] using look
      by (elim disjE) (simp_all add: emulate_table_found [OF ok(3)] same_handlers_def)
  next
    case w8
    then show ?thesis unfolding emulate_span_def Let_def n(1) if_not_P [OF n(2)] using look
      by (simp add: emulate_table_found [OF ok(4)] same_handlers_def)
  next
    case w16
    then show ?thesis unfolding emulate_span_def Let_def n(1) if_not_P [OF n(2)] using look
      by (elim disjE) (simp_all add: emulate_table_found [OF ok(5)] same_handlers_def)
  qed
qed

section \<open>Reachable engines\<close>

text \<open>
  What can happen to an engine and the tables it shares: it prefetches a code range, it emulates an
  instruction, the guest or the embedder changes the thread state, and the main thread is
  switched to read-only mode.  An operation that faults ends the run.
\<close>

definition fresh :: "OpcodeEngine \<Rightarrow> vm \<Rightarrow> bool" where
  "fresh e s \<longleftrightarrow> opc1 e = no_handlers \<and> opc2 e = no_handlers \<and> opc4 e = no_handlers \<and> opc8 e = no_handlers \<and>
     opc16 e = no_handlers \<and> v_operands s = [] \<and> v_operandmap s = Map.empty \<and>
     v_mc s = \<lparr>mc_insts = [], mc_instmap = Map.empty\<rparr>"


lemma fresh_inv: "fresh e s \<Longrightarrow> engine_inv e s"
  by (simp add: fresh_def engine_inv_def engine_ok_def handlers_ok_def table_inv_def vm_inv_def no_handlers_def)

lemma engine_inv_frame [simp]:
  "engine_inv e (s\<lparr>v_cpu := c\<rparr>) = engine_inv e s" "engine_inv (e\<lparr>eng_readonly := b\<rparr>) s = engine_inv e s"
  by (simp_all add: engine_inv_def engine_ok_def table_inv_def)


lemma lib0_decodes_window: "decodes_window lib0"
  by (simp add: decodes_window_def lib0_def)

lemma fresh0: "fresh engine0 vm0"
  by (simp add: fresh_def engine0_def vm0_def)


text \<open>
  C17: prefetching covers what it visited.  After a successful \<open>prefetch\<close> each instruction it
  visited has an executable handler, and emulating that instruction later, also in
  read-only mode and in any thread state, runs exactly that handler and creates no other.
\<close>

theorem prefetched_code_is_emulated:
  assumes "decodes_window L" and "engine_inv e s" and "engine_prefetch L code n e s = Inr (k, e', s')"
    and "visited L code n p i" and "if l_arm64 L then length (ri_bytes i) = 4 else length (ri_bytes i) < 16"
  shows "\<exists>h. engine_lookup (take (length (ri_bytes i)) p) e' = Some h \<and> entry_ok s' h \<and>
     (\<forall>ro s2. case emulate_span L (take (length (ri_bytes i)) p) (e'\<lparr>eng_readonly := ro\<rparr>) s2 of
         Inl x \<Rightarrow> interpret_handler L h s2 = Inl x
       | Inr (ok, e2, s3) \<Rightarrow> interpret_handler L h s2 = Inr (ok, s3) \<and> same_handlers (e'\<lparr>eng_readonly := ro\<rparr>) e2)"
proof -
  let ?opc = "take (length (ri_bytes i)) p"
  note inv = prefetch_loop_inv [OF assms(1) assms(3) [unfolded engine_prefetch_def] assms(2)]
  then obtain h where h: "engine_lookup ?opc e' = Some h" using assms(4) by blast
  have "fetch_inst L p = Inr i" using assms(4) by induction
  from fetch_inst_length [OF assms(1) this] assms(5)
  have len: "if l_arm64 L then length ?opc = 4 else ?opc \<noteq> [] \<and> length ?opc < 16" by auto
  have ok: "engine_ok (e'\<lparr>eng_readonly := ro\<rparr>)" for ro using inv by (simp add: engine_inv_def engine_ok_def)
  have look: "engine_lookup ?opc (e'\<lparr>eng_readonly := ro\<rparr>) = Some h" for ro
    using h by (simp only: engine_lookup_readonly)
  have "entry_ok s' h" using inv h engine_inv_lookup by blast
  with h emulate_found [OF ok look len] show ?thesis by blast
qed

lemma lib0_nop:
  "fetch_inst lib0 [1, 2, 3, 4] = Inr \<lparr>ri_bytes = [1, 2, 3, 4], ri_valid = True, ri_function = ''NOP'', ri_operands = []\<rparr>"
  by (simp add: fetch_inst_def window_def lib0_def)

lemma lib0_prefetch_nop:
  "\<exists>k e' s'. engine_prefetch lib0 [1, 2, 3, 4] 4 engine0 vm0 = Inr (k, e', s') \<and> opc1 e' = no_handlers \<and> opc2 e' = no_handlers \<and>
     opc8 e' = no_handlers \<and> opc16 e' = no_handlers \<and> dom (hs_set (opc4 e')) = {key_of (Suc (Suc (Suc (Suc 0)))) [1, 2, 3, 4]}"
proof -
  have fetched: "prefetch_loop lib0 [1, 2, 3, 4] 4 0 engine0 vm0 =
      res_bind (prefetch1 lib0 \<lparr>ri_bytes = [1, 2, 3, 4], ri_valid = True, ri_function = ''NOP'', ri_operands = []\<rparr> [1, 2, 3, 4] engine0 vm0)
        (\<lambda>(e', s'). prefetch_loop lib0 [] 0 1 e' s')"
    by (subst prefetch_loop.simps) (simp add: lib0_nop)
  have found: "binary_search (\<lambda>x y. h_hash x < h_hash y) [\<lparr>h_hash = 5, h_impl = 4096\<rparr>] 1 \<lparr>h_hash = 5, h_impl = 0\<rparr> = Inr 0"
    by (simp add: binary_search_def binary_search_loop.simps)
  show ?thesis
    unfolding engine_prefetch_def fetched
    by (simp add: prefetch1_def handlers_prefetch_def engine0_def no_handlers_def vm0_def init_inst_def initRemill_def
        lib0_def Let_def prefetch_loop_0 found [simplified] is_exact_def)
qed

theorem prefetched_code_is_emulated_witness:
  "\<exists>k e' s' h. engine_prefetch lib0 [1, 2, 3, 4] 4 engine0 vm0 = Inr (k, e', s') \<and> engine_lookup [1, 2, 3, 4] e' = Some h \<and> entry_ok s' h"
proof -
  obtain k e' s' where p: "engine_prefetch lib0 [1, 2, 3, 4] 4 engine0 vm0 = Inr (k, e', s')"
    using lib0_prefetch_nop by blast
  have "visited lib0 [1, 2, 3, 4] 4 [1, 2, 3, 4] \<lparr>ri_bytes = [1, 2, 3, 4], ri_valid = True, ri_function = ''NOP'', ri_operands = []\<rparr>"
    by (rule visited.here [OF _ lib0_nop]) simp
  from prefetched_code_is_emulated [OF lib0_decodes_window fresh_inv [OF fresh0] p this] p show ?thesis
    by (auto simp: lib0_def)
qed

section \<open>Generated code\<close>

text \<open>
  The addresses handed out so far: all of the earlier pages and the current page up to the cursor.
\<close>

definition page_range :: "lib_env \<Rightarrow> u64 \<Rightarrow> u64 set" where
  "page_range L p = {x. unat p \<le> unat x \<and> unat x < unat p + l_page_size L}"

definition code_used :: "lib_env \<Rightarrow> vm \<Rightarrow> u64 set" where
  "code_used L s = (\<Union>p\<in>set (butlast (v_pages s)). page_range L p) \<union>
     {x. unat (v_pagestart s) \<le> unat x \<and> unat x < unat (v_pagecur s)}"

definition pages_inv :: "lib_env \<Rightarrow> vm \<Rightarrow> bool" where
  "pages_inv L s \<longleftrightarrow> v_pages s = map (l_page L) [0..<length (v_pages s)] \<and>
     (if v_pages s = [] then v_pagestart s = 0 \<and> v_pagecur s = 0
      else v_pagestart s = last (v_pages s) \<and> unat (v_pagestart s) \<le> unat (v_pagecur s) \<and>
           unat (v_pagecur s) \<le> unat (v_pagestart s) + l_page_size L)"

text \<open>What the allocator promises of its first \<open>n\<close> pages: they are not null, do not wrap, and do not overlap.\<close>

definition allocator_ok :: "lib_env \<Rightarrow> nat \<Rightarrow> bool" where
  "allocator_ok L n \<longleftrightarrow> (\<forall>i<n. l_page L i \<noteq> 0 \<and> unat (l_page L i) + l_page_size L < 2 ^ 64) \<and>
     (\<forall>i<n. \<forall>j<n. i \<noteq> j \<longrightarrow> page_range L (l_page L i) \<inter> page_range L (l_page L j) = {})"

definition code_kept :: "lib_env \<Rightarrow> bytes \<Rightarrow> u64 \<Rightarrow> vm \<Rightarrow> vm \<Rightarrow> bool" where
  "code_kept L code a s s' \<longleftrightarrow> mem_read (mem (v_cpu s')) a (length code) = code \<and>
     (\<forall>x\<in>code_used L s. mem (v_cpu s') x = mem (v_cpu s) x) \<and>
     (\<forall>i<length code. a + word_of_nat i \<in> code_used L s' - code_used L s) \<and> code_used L s \<subseteq> code_used L s'"

lemma last_page:
  assumes "pages_inv L s" and "v_pages s \<noteq> []"
  obtains m where "v_pages s = map (l_page L) [0..<m] @ [l_page L m]" "v_pagestart s = l_page L m"
proof -
  obtain m where m: "length (v_pages s) = Suc m" using assms(2) by (cases "length (v_pages s)") auto
  have "v_pages s = map (l_page L) [0..<Suc m]" "v_pagestart s = last (v_pages s)"
    using assms m by (auto simp: pages_inv_def)
  then show thesis using that [of m] by simp
qed

lemma pages_disjoint:
  assumes "allocator_ok L (length (v_pages s))" and "pages_inv L s" and "v_pages s \<noteq> []" and "q \<in> set (butlast (v_pages s))"
  shows "page_range L q \<inter> page_range L (v_pagestart s) = {}"
proof -
  obtain m where m: "v_pages s = map (l_page L) [0..<m] @ [l_page L m]" "v_pagestart s = l_page L m"
    using last_page [OF assms(2,3)] .
  with assms(4) obtain k where "k < m" "q = l_page L k" "v_pagestart s = l_page L m" "length (v_pages s) = Suc m" by auto
  with assms(1) show ?thesis by (simp add: allocator_ok_def)
qed

lemma page_bound:
  assumes "allocator_ok L (length (v_pages s))" and "pages_inv L s" and "v_pages s \<noteq> []"
  shows "unat (v_pagestart s) + l_page_size L < 2 ^ 64"
proof -
  obtain m where "v_pages s = map (l_page L) [0..<m] @ [l_page L m]" "v_pagestart s = l_page L m"
    using last_page [OF assms(2,3)] .
  with assms(1) show ?thesis by (simp add: allocator_ok_def)
qed

lemma page_nonnull: "allocator_ok L (length (v_pages s)) \<Longrightarrow> pages_inv L s \<Longrightarrow> (v_pages s \<noteq> []) = (v_pagestart s \<noteq> 0)"
proof (cases "v_pages s = []")
  case False
  assume "allocator_ok L (length (v_pages s))" "pages_inv L s"
  moreover then obtain m where "v_pages s = map (l_page L) [0..<m] @ [l_page L m]" "v_pagestart s = l_page L m"
    using last_page [OF _ False] by blast
  ultimately show ?thesis by (simp add: allocator_ok_def)
qed (simp add: pages_inv_def)

lemma code_used_new_page:
  assumes "pages_inv L s"
  shows "code_used L s \<subseteq> code_used L (s\<lparr>v_pages := v_pages s @ [p], v_pagestart := q, v_pagecur := q\<rparr>)"
proof (cases "v_pages s = []")
  case False
  have "x \<in> page_range L (last (v_pages s))" if "unat (v_pagestart s) \<le> unat x" "unat x < unat (v_pagecur s)" for x
    using that assms False by (auto simp: pages_inv_def page_range_def)
  then have "{x. unat (v_pagestart s) \<le> unat x \<and> unat x < unat (v_pagecur s)} \<subseteq> (\<Union>p\<in>set (v_pages s). page_range L p)"
    using False last_in_set by fast
  then show ?thesis by (auto simp: code_used_def dest: in_set_butlastD)
qed (use assms in \<open>simp add: code_used_def pages_inv_def\<close>)

lemma fill_page:
  assumes ok: "allocator_ok L (length (v_pages s))" "pages_inv L s" "v_pages s \<noteq> []"
    and room: "length code \<le> unat (v_pagestart s) + l_page_size L - unat (v_pagecur s)"
    and s': "s' = s\<lparr>v_cpu := (v_cpu s)\<lparr>mem := mem_write (mem (v_cpu s)) (v_pagecur s) code\<rparr>, v_pagecur := v_pagecur s + word_of_nat (length code)\<rparr>"
  shows "pages_inv L s' \<and> code_kept L code (v_pagecur s) s s'"
proof -
  let ?a = "v_pagecur s" and ?n = "length code" and ?p = "v_pagestart s"
  have b: "unat ?p \<le> unat ?a" "unat ?a + ?n \<le> unat ?p + l_page_size L" "unat ?p + l_page_size L < 2 ^ 64"
    using ok(2,3) room page_bound [OF ok] by (auto simp: pages_inv_def)
  have idx: "unat (?a + word_of_nat i) = unat ?a + i" if "i \<le> ?n" for i
    using that b by (simp add: unat_word_ariths unat_of_nat)
  have d: "\<not> unat (x - ?a) < ?n" if "x \<in> code_used L s" for x
  proof
    assume lt: "unat (x - ?a) < ?n"
    then have x: "unat x = unat ?a + unat (x - ?a)" using idx [of "unat (x - ?a)"] by simp
    then have "x \<in> page_range L ?p" using lt b by (simp add: page_range_def)
    with pages_disjoint [OF ok] that x lt show False by (fastforce simp: code_used_def)
  qed
  have "?n < 2 ^ 64" using b by linarith
  moreover have "?a + word_of_nat i \<in> code_used L s'" "?a + word_of_nat i \<notin> code_used L s" if "i < ?n" for i
    using that b d [of "?a + word_of_nat i"] idx [of i] idx [of ?n]
    by (auto simp: code_used_def s' unat_of_nat)
  moreover have "code_used L s \<subseteq> code_used L s'"
    using b idx [of ?n] by (auto simp: code_used_def s')
  moreover have "pages_inv L s'" using ok(2,3) b idx [of ?n] by (auto simp: pages_inv_def s')
  moreover have "mem (v_cpu s') x = mem (v_cpu s) x" if "x \<in> code_used L s" for x
    using d [OF that] by (simp add: s' mem_write_def Let_def)
  ultimately show ?thesis by (simp add: code_kept_def s' mem_read_write_same)
qed

text \<open>
  C21: generated code is never overwritten by later code.  Provided the allocator hands out distinct
  pages and the code fits in a page, \<open>place_code\<close> writes the code to addresses not handed out
  before, keeps every byte of the code placed earlier, and keeps the bookkeeping of the pages right.
\<close>

theorem generated_code_is_kept:
  assumes "allocator_ok L (Suc (length (v_pages s)))" and "pages_inv L s" and "length code \<le> l_page_size L"
    and "place_code L code s = (a, s')"
  shows "pages_inv L s' \<and> mem_read (mem (v_cpu s')) a (length code) = code \<and>
     (\<forall>x\<in>code_used L s. mem (v_cpu s') x = mem (v_cpu s) x) \<and>
     (\<forall>i<length code. a + word_of_nat i \<in> code_used L s' - code_used L s) \<and> code_used L s \<subseteq> code_used L s'"
proof -
  let ?new = "v_pagestart s = 0 \<or> unat (v_pagestart s) + l_page_size L - unat (v_pagecur s) < length code"
  let ?p = "l_page L (length (v_pages s))"
  let ?s = "if ?new then s\<lparr>v_pages := v_pages s @ [?p], v_pagestart := ?p, v_pagecur := ?p\<rparr> else s"
  have alloc: "allocator_ok L (length (v_pages s))" "allocator_ok L (length (v_pages ?s))"
    using assms(1) by (auto simp: allocator_ok_def)
  note nonnull = page_nonnull [OF alloc(1) assms(2)]
  have inv: "pages_inv L ?s" "v_pages ?s \<noteq> []" using assms(2) nonnull by (auto simp: pages_inv_def)
  have room: "length code \<le> unat (v_pagestart ?s) + l_page_size L - unat (v_pagecur ?s)" using assms(3) by simp
  have eq: "a = v_pagecur ?s" "s' = ?s\<lparr>v_cpu := (v_cpu ?s)\<lparr>mem := mem_write (mem (v_cpu ?s)) (v_pagecur ?s) code\<rparr>,
      v_pagecur := v_pagecur ?s + word_of_nat (length code)\<rparr>"
    using assms(4) by (auto simp: place_code_def Let_def split: if_splits)
  have used: "code_used L s \<subseteq> code_used L ?s" using assms(2) code_used_new_page by simp
  from fill_page [OF alloc(2) inv room eq(2)] eq(1) used show ?thesis by (auto simp: code_kept_def split: if_splits)
qed

lemma lib0_allocator: "allocator_ok lib0 1" "pages_inv lib0 vm0"
  by (simp_all add: allocator_ok_def lib0_def pages_inv_def vm0_def)

theorem generated_code_is_kept_witness:
  "let (a, s') = place_code lib0 [31, 32, 3, 213] vm0 in pages_inv lib0 s' \<and> mem_read (mem (v_cpu s')) a 4 = [31, 32, 3, 213]"
proof -
  obtain a s' where p: "place_code lib0 [31, 32, 3, 213] vm0 = (a, s')" by fastforce
  have "allocator_ok lib0 (Suc (length (v_pages vm0)))" "length [31 :: u8, 32, 3, 213] \<le> l_page_size lib0"
    using lib0_allocator(1) by (simp_all add: vm0_def lib0_def)
  from generated_code_is_kept [OF this(1) lib0_allocator(2) this(2) p] p show ?thesis by (simp add: numeral_eq_Suc)
qed

end
