(* ===== verification/PreEncoder.thy ===== *)
theory PreEncoder
  imports MetaFile OpcodeInvariants
begin

text \<open>
  \<open>src/PreEncoder.h\<close> and \<open>src/PreEncoder.cpp\<close>: ahead-of-time encoding of a binary.  The code of all
  functions is prefetched into an opcode engine, the handlers are put in one sequence ordered by
  width and opcode, every instruction is given the index of its handler, and all of it is
  written to a metadata file.  \<open>dump\<close> reads such a file back and checks it; its
  checks and the walk over the handler section are modelled, its printing is not.
  The analysed binary is an input; opening and writing the file is not modelled, \<open>serialize\<close>
  gives the bytes.
\<close>

section \<open>Prefetching\<close>

record pe_insn =
  pi_fnoff :: u64
  pi_oplen :: nat
  pi_data :: bool \<comment> \<open>\<open>IDATA\<close>\<close>

record pe_func =
  pf_start :: u64
  pf_end :: u64
  pf_buf :: bytes \<comment> \<open>what can be read from \<open>addrBuff(start)\<close> on\<close>
  pf_insns :: "pe_insn list"

record pe_binary =
  bin_base :: u64
  bin_arm64 :: bool
  bin_functions :: "pe_func list"

text \<open>\<open>PreEncoder::Handler\<close>: a width and a pointer to a handler of that width.\<close>

datatype opc_key = K1 u8 | K2 u16 | K4 u32 | K8 u64 | K16 uint128_var_t

record pe_handler =
  ph_oplen :: nat
  ph_key :: opc_key
  ph_handler :: opc_handler

record pre_encoder =
  pe_handlers :: "pe_handler list"
  pe_ranges :: "(u32 \<times> u32) list"
  pe_insnmetas :: "InsnMeta list"

fun prefetch_functions :: "lib_env \<Rightarrow> pe_func list \<Rightarrow> OpcodeEngine \<Rightarrow> vm \<Rightarrow> (OpcodeEngine \<times> vm) res" where
  "prefetch_functions L [] e s = Inr (e, s)"
| "prefetch_functions L (f # fs) e s =
     res_bind (engine_prefetch L (pf_buf f) (unat (pf_end f - pf_start f)) e s) (\<lambda>(_, e', s'). prefetch_functions L fs e' s')"

definition load_handlers :: "('k :: linorder \<Rightarrow> opc_key) \<Rightarrow> nat \<Rightarrow> 'k handlers \<Rightarrow> pe_handler list" where
  "load_handlers K n t =
     map (\<lambda>k. \<lparr>ph_oplen = n, ph_key = K k, ph_handler = the (hs_set t k)\<rparr>) (sorted_list_of_set (dom (hs_set t)))"

definition index_handlers :: "OpcodeEngine \<Rightarrow> pe_handler list \<times> (u32 \<times> u32) list" where
  "index_handlers e =
     (let h1 = load_handlers K1 1 (opc1 e); r0 = (0, word_of_nat (length h1));
          h2 = h1 @ load_handlers K2 2 (opc2 e); r1 = (snd r0, word_of_nat (length h2));
          h4 = h2 @ load_handlers K4 4 (opc4 e); r2 = (snd r1, word_of_nat (length h4));
          h8 = h4 @ load_handlers K8 8 (opc8 e); r3 = (snd r2, word_of_nat (length h8));
          h16 = h8 @ load_handlers K16 16 (opc16 e); r4 = (snd r3, word_of_nat (length h16))
      in (h16, [r0, r1, r2, r3, r4]))"

text \<open>
  \<open>handlerIndex\<close>.  The comparison reads the opcode through a pointer of the width of the range; \<open>std::lower_bound\<close>
  gives the first entry that is not below the key.
\<close>

fun key_less :: "opc_key \<Rightarrow> opc_key \<Rightarrow> bool" where
  "key_less (K1 a) (K1 b) = (a < b)"
| "key_less (K2 a) (K2 b) = (a < b)"
| "key_less (K4 a) (K4 b) = (a < b)"
| "key_less (K8 a) (K8 b) = (a < b)"
| "key_less (K16 a) (K16 b) = (a < b)"
| "key_less _ _ = False"

definition search_range :: "pre_encoder \<Rightarrow> nat \<Rightarrow> opc_key \<Rightarrow> u32" where
  "search_range P rg key =
     (let (start, stop) = pe_ranges P ! rg;
          seg = take (unat stop - unat start) (drop (unat start) (pe_handlers P));
          it = length (takeWhile (\<lambda>h. key_less (ph_key h) key) seg)
      in if it = length seg \<or> ph_key (seg ! it) \<noteq> key then - 1 else start + word_of_nat it)"

definition handlerIndex :: "pre_encoder \<Rightarrow> bytes \<Rightarrow> u32" where
  "handlerIndex P opcode =
     (let n = length opcode in
      if n = 0 \<or> 16 < n then - 1
      else if n = 1 then search_range P 0 (K1 (opcode ! 0))
      else if n = 2 then search_range P 1 (K2 (key_of 2 opcode))
      else if n \<le> 4 then search_range P 2 (K4 (key_of n opcode))
      else if n \<le> 8 then search_range P 3 (K8 (key_of n opcode))
      else search_range P 4 (K16 (u128_of opcode)))"

definition insn_meta :: "pre_encoder \<Rightarrow> pe_binary \<Rightarrow> pe_func \<Rightarrow> pe_insn \<Rightarrow> InsnMeta res" where
  "insn_meta P B f i =
     (if length (pf_buf f) < unat (pi_fnoff i) + pi_oplen i then Inl OutOfBounds
      else Inr \<lparr>im_rva = ucast (pf_start f - bin_base B + pi_fnoff i),
                im_handler = handlerIndex P (take (pi_oplen i) (drop (unat (pi_fnoff i)) (pf_buf f)))\<rparr>)"

definition analyzeInsnMeta :: "pe_binary \<Rightarrow> pre_encoder \<Rightarrow> pre_encoder res" where
  "analyzeInsnMeta B P =
     res_bind (res_map (\<lambda>f. res_map (insn_meta P B f) (filter (\<lambda>i. \<not> pi_data i) (pf_insns f))) (bin_functions B))
       (\<lambda>ms. Inr (P\<lparr>pe_insnmetas := pe_insnmetas P @ concat ms\<rparr>))"

definition pe_prefetch :: "lib_env \<Rightarrow> pe_binary \<Rightarrow> OpcodeEngine \<Rightarrow> vm \<Rightarrow> (pre_encoder \<times> OpcodeEngine \<times> vm) res" where
  "pe_prefetch L B e s =
     res_bind (prefetch_functions L (bin_functions B) e s) (\<lambda>(e', s').
       let (hs, rs) = index_handlers e' in Inr (\<lparr>pe_handlers = hs, pe_ranges = rs, pe_insnmetas = []\<rparr>, e', s'))"

section \<open>Serialization\<close>

definition key_bytes :: "opc_key \<Rightarrow> bytes" where
  "key_bytes k = (case k of K1 w \<Rightarrow> word_bytes 1 w | K2 w \<Rightarrow> word_bytes 2 w | K4 w \<Rightarrow> word_bytes 4 w
     | K8 w \<Rightarrow> word_bytes 8 w | K16 w \<Rightarrow> u128_bytes w)"

text \<open>\<open>memcpy(buf + off, bs, size)\<close>\<close>

definition put :: "nat \<Rightarrow> bytes \<Rightarrow> bytes \<Rightarrow> bytes" where
  "put off bs buf = take off buf @ bs @ drop (off + length bs) buf"

text \<open>The implementation field: an index into the semantics functions, into the LLVM instructions, the size of the code or a running number.\<close>

definition impl_field :: "lib_env \<Rightarrow> bool \<Rightarrow> opc_handler \<Rightarrow> u32 \<Rightarrow> (u16 \<times> u32) option" where
  "impl_field L aotimpl h dyn =
     (case oh_type h of
        OHT_Remill \<Rightarrow>
          (let index = length (takeWhile (\<lambda>c. h_impl c \<noteq> oh_impl h) (l_handlers L)) in
           if index = length (l_handlers L) then None
           else if 65535 \<le> index then None else Some (word_of_nat index, dyn))
      | OHT_MCInst \<Rightarrow>
          if length (oh_args h) \<noteq> 1 then None
          else if 65535 \<le> fst (oh_args h ! 0) then None else Some (word_of_nat (fst (oh_args h ! 0)), dyn)
      | OHT_Dynamic \<Rightarrow>
          if aotimpl then if oh_implsize h \<noteq> 0 \<and> oh_impl h = 0 then None else Some (oh_implsize h, dyn)
          else if 65535 \<le> unat dyn then None else Some (ucast dyn, dyn + 1)
      | _ \<Rightarrow> None)"

fun put_args :: "nat \<Rightarrow> (nat \<times> bool) list \<Rightarrow> bytes \<Rightarrow> bytes option" where
  "put_args off [] buf = Some buf"
| "put_args off (arg # args) buf = (if 32767 < fst arg then None else put_args (off + 2) args (put off (enc_info arg) buf))"

definition align4 :: "nat \<Rightarrow> nat" where
  "align4 n = (n + 3) div 4 * 4"

definition convert_handler :: "lib_env \<Rightarrow> mem \<Rightarrow> bool \<Rightarrow> pe_handler \<Rightarrow> u32 \<Rightarrow> (bytes \<times> u32) option" where
  "convert_handler L m aotimpl source dyn =
     (let h = ph_handler source; opcode_size = unat (oh_oplen h) in
      if 15 < opcode_size \<or> ph_oplen source < opcode_size \<or> 255 < length (oh_args h) then None
      else case impl_field L aotimpl h dyn of
        None \<Rightarrow> None
      | Some (impl, dyn') \<Rightarrow>
          let operand_bytes = (if oh_type h = OHT_Remill then length (oh_args h) * 2 else 0);
              plain = 4 + opcode_size + operand_bytes;
              aotimpl_offset = (if aotimpl then align4 plain else plain);
              code_size = (if aotimpl \<and> oh_type h = OHT_Dynamic then unat (oh_implsize h) else 0);
              record_size = (if aotimpl then align4 (aotimpl_offset + code_size) else plain);
              metadata = \<lparr>mh_impl = impl, mh_type = oht_number (oh_type h), mh_oplen = ucast (oh_oplen h),
                          mh_oprnum = (if operand_bytes \<noteq> 0 then word_of_nat (length (oh_args h)) else 0)\<rparr>;
              rec0 = put 4 (take opcode_size (key_bytes (ph_key source))) (put 0 (enc_handler metadata) (replicate record_size 0))
          in case (if operand_bytes \<noteq> 0 then put_args (4 + opcode_size) (oh_args h) rec0 else Some rec0) of
               None \<Rightarrow> None
             | Some rec1 \<Rightarrow>
                 Some (if code_size \<noteq> 0 then put aotimpl_offset (mem_read m (oh_impl h) code_size) rec1 else rec1, dyn'))"

fun serialize_loop :: "lib_env \<Rightarrow> mem \<Rightarrow> bool \<Rightarrow> pe_handler list \<Rightarrow> nat \<Rightarrow> u32 \<Rightarrow> (bytes list \<times> u32 list) option" where
  "serialize_loop L m aotimpl [] off dyn = Some ([], [])"
| "serialize_loop L m aotimpl (h # hs) off dyn =
     (if ph_oplen h \<notin> {1, 2, 4, 8, 16} then None
      else case convert_handler L m aotimpl h dyn of
        None \<Rightarrow> None
      | Some (r, dyn') \<Rightarrow>
          if 4294967295 < off \<or> 4294967295 - off < length r then None
          else case serialize_loop L m aotimpl hs (off + length r) dyn' of
            None \<Rightarrow> None
          | Some (rs, offs) \<Rightarrow> Some (r # rs, word_of_nat off # offs))"

definition serializeHandler :: "lib_env \<Rightarrow> mem \<Rightarrow> bool \<Rightarrow> bool \<Rightarrow> pe_handler list \<Rightarrow> (bytes list \<times> u32 list) option" where
  "serializeHandler L m haswx arm64 hs = serialize_loop L m (haswx \<and> arm64) hs 0 0"

text \<open>The handler index of an instruction becomes the offset of the handler.\<close>

fun resolve_insns :: "u32 list \<Rightarrow> InsnMeta list \<Rightarrow> InsnMeta list option" where
  "resolve_insns offs [] = Some []"
| "resolve_insns offs (i # is) =
     (if im_handler i = - 1 then map_option (Cons i) (resolve_insns offs is)
      else if length offs \<le> unat (im_handler i) then None
      else map_option (Cons (i\<lparr>im_handler := offs ! unat (im_handler i)\<rparr>)) (resolve_insns offs is))"

fun put_all :: "nat \<Rightarrow> bytes list \<Rightarrow> bytes \<Rightarrow> bytes" where
  "put_all off [] buf = buf"
| "put_all off (r # rs) buf = put_all (off + length r) rs (put off r buf)"

definition write_file :: "enums \<Rightarrow> bool \<Rightarrow> bool \<Rightarrow> InsnMeta list \<Rightarrow> md_operand list \<Rightarrow> md_expr list \<Rightarrow> bytes list \<Rightarrow> bytes option" where
  "write_file E haswx arm64 insns ops exprs hs =
     (let off_i = 48; off_o = off_i + length insns * 8; off_e = off_o + length ops * 48; off_h = off_e + length exprs * 12;
          outsize = off_h + length (concat hs)
      in if 4294967295 < length insns \<or> 4294967295 < length ops \<or> 4294967295 < length exprs \<or> 4294967295 < length hs then None
         else if 4294967295 < outsize then None
         else let h = \<lparr>md_magic = kMagic, md_version = kVersion, md_size = word_of_nat outsize,
                       md_flags = (if haswx then kFlag_HasWX else 0) OR (if arm64 then kFlag_ARM64 else kFlag_X64),
                       off_instruction = word_of_nat off_i, num_instruction = word_of_nat (length insns),
                       off_operands = word_of_nat off_o, num_operands = word_of_nat (length ops),
                       off_expressions = word_of_nat off_e, num_expressions = word_of_nat (length exprs),
                       off_handlers = word_of_nat off_h, num_handlers = word_of_nat (length hs)\<rparr>
              in Some (put_all off_h hs (put off_e (concat (map (enc_expr E) exprs)) (put off_o (concat (map (enc_operand E) ops))
                      (put off_i (concat (map enc_insn insns)) (put 0 (enc_header h) (replicate outsize 0)))))))"

definition serialize :: "lib_env \<Rightarrow> enums \<Rightarrow> bool \<Rightarrow> pe_binary \<Rightarrow> pre_encoder \<Rightarrow> vm \<Rightarrow> bytes option" where
  "serialize L E haswx B P s =
     (case convertOperands (case v_regoffs s of Some ro \<Rightarrow> ro | None \<Rightarrow> Map.empty) (v_operands s) of
        Inl _ \<Rightarrow> None
      | Inr (ops, exprs) \<Rightarrow>
          case serializeHandler L (mem (v_cpu s)) haswx (bin_arm64 B) (pe_handlers P) of
            None \<Rightarrow> None
          | Some (hs, offs) \<Rightarrow>
              case resolve_insns offs (pe_insnmetas P) of
                None \<Rightarrow> None
              | Some is \<Rightarrow> write_file E haswx (bin_arm64 B) is ops exprs hs)"

definition pe_encode :: "lib_env \<Rightarrow> enums \<Rightarrow> bool \<Rightarrow> pe_binary \<Rightarrow> OpcodeEngine \<Rightarrow> vm \<Rightarrow> bytes option res" where
  "pe_encode L E haswx B e s =
     res_bind (pe_prefetch L B e s) (\<lambda>(P, e', s').
     res_bind (analyzeInsnMeta B P) (\<lambda>P'. Inr (serialize L E haswx B P' s')))"

section \<open>Records parse back\<close>

text \<open>Filling the zeroed rest of a buffer from the front.\<close>

lemma put_zeros:
  "off = length xs \<Longrightarrow> length bs \<le> n \<Longrightarrow> put off bs (xs @ replicate n 0) = (xs @ bs) @ replicate (n - length bs) 0"
  by (simp add: put_def)

lemma put_all_zeros:
  "off = length xs \<Longrightarrow> length (concat rs) \<le> n \<Longrightarrow>
     put_all off rs (xs @ replicate n 0) = (xs @ concat rs) @ replicate (n - length (concat rs)) 0"
proof (induction rs arbitrary: off xs n)
  case (Cons r rs)
  then show ?case using Cons.IH [of "off + length r" "xs @ r" "n - length r"] by (simp add: put_zeros)
qed simp

lemma put_args_zeros:
  "put_args off args (xs @ replicate n 0) = Some r \<Longrightarrow> off = length xs \<Longrightarrow> 2 * length args \<le> n \<Longrightarrow>
     r = (xs @ concat (map enc_info args)) @ replicate (n - 2 * length args) 0 \<and> list_all (\<lambda>a. fst a \<le> 32767) args"
proof (induction args arbitrary: off xs n)
  case (Cons a args)
  then have a: "fst a \<le> 32767" by (auto split: if_splits)
  moreover have "put_args (off + 2) args ((xs @ enc_info a) @ replicate (n - 2) 0) = Some r"
    using Cons.prems put_zeros [of off xs "enc_info a" n] by (simp split: if_splits)
  from Cons.IH [OF this] Cons.prems a show ?case by simp
qed simp

lemma align4: "n \<le> align4 n" "n mod 4 = 0 \<Longrightarrow> align4 n = n"
  by (simp_all add: align4_def) presburger+

lemma align4_idem: "align4 (align4 n) = align4 n"
  by (simp add: align4_def)

definition code_bytes :: "mem \<Rightarrow> bool \<Rightarrow> opc_handler \<Rightarrow> bytes" where
  "code_bytes m aotimpl h = (if aotimpl \<and> oh_type h = OHT_Dynamic then mem_read m (oh_impl h) (unat (oh_implsize h)) else [])"

definition info_bytes :: "opc_handler \<Rightarrow> bytes" where
  "info_bytes h = (if oh_type h = OHT_Remill then concat (map enc_info (oh_args h)) else [])"

definition info_count :: "opc_handler \<Rightarrow> nat" where
  "info_count h = (if oh_type h = OHT_Remill then length (oh_args h) else 0)"

lemma length_info_bytes: "length (info_bytes h) = 2 * info_count h"
proof -
  have "length (concat (map enc_info args)) = 2 * length args" for args by (induction args) simp_all
  then show ?thesis by (simp add: info_bytes_def info_count_def)
qed

lemma put_zeros_gap:
  "off = length xs + g \<Longrightarrow> g + length bs \<le> n \<Longrightarrow>
     put off bs (xs @ replicate n 0) = xs @ replicate g 0 @ bs @ replicate (n - g - length bs) 0"
  by (simp add: put_def min_def)

text \<open>A record is its fixed part, opcode, operands, padding and code.\<close>

definition fixed_part :: "u16 \<Rightarrow> opc_handler \<Rightarrow> md_handler" where
  "fixed_part impl h = \<lparr>mh_impl = impl, mh_type = oht_number (oh_type h), mh_oplen = ucast (oh_oplen h),
     mh_oprnum = word_of_nat (info_count h)\<rparr>"

definition plain_size :: "opc_handler \<Rightarrow> nat" where
  "plain_size h = 4 + unat (oh_oplen h) + 2 * info_count h"

definition code_offset :: "bool \<Rightarrow> opc_handler \<Rightarrow> nat" where
  "code_offset aotimpl h = (if aotimpl then align4 (plain_size h) else plain_size h)"

definition record_size :: "bool \<Rightarrow> opc_handler \<Rightarrow> nat" where
  "record_size aotimpl h =
     (if aotimpl then align4 (code_offset aotimpl h + (if oh_type h = OHT_Dynamic then unat (oh_implsize h) else 0)) else plain_size h)"

definition record_of :: "u16 \<Rightarrow> mem \<Rightarrow> bool \<Rightarrow> pe_handler \<Rightarrow> bytes" where
  "record_of impl m aotimpl p =
     (let h = ph_handler p; code = code_bytes m aotimpl h in
      enc_handler (fixed_part impl h) @ take (unat (oh_oplen h)) (key_bytes (ph_key p)) @ info_bytes h @
      replicate (code_offset aotimpl h - plain_size h) 0 @ code @
      replicate (record_size aotimpl h - code_offset aotimpl h - length code) 0)"

lemma sizes_le: "plain_size h \<le> code_offset aotimpl h" "code_offset aotimpl h + length (code_bytes m aotimpl h) \<le> record_size aotimpl h"
  using align4(1) by (auto simp: code_offset_def record_size_def code_bytes_def)

definition code_size :: "bool \<Rightarrow> opc_handler \<Rightarrow> nat" where
  "code_size aotimpl h = (if aotimpl \<and> oh_type h = OHT_Dynamic then unat (oh_implsize h) else 0)"

lemma convert_handler_alt:
  "convert_handler L m aotimpl p dyn =
     (let h = ph_handler p; n = unat (oh_oplen h) in
      if 15 < n \<or> ph_oplen p < n \<or> 255 < length (oh_args h) then None
      else case impl_field L aotimpl h dyn of
        None \<Rightarrow> None
      | Some (impl, dyn') \<Rightarrow>
          let rec0 = put 4 (take n (key_bytes (ph_key p))) (put 0 (enc_handler (fixed_part impl h)) (replicate (record_size aotimpl h) 0))
          in case (if info_count h \<noteq> 0 then put_args (4 + n) (oh_args h) rec0 else Some rec0) of
               None \<Rightarrow> None
             | Some rec1 \<Rightarrow> Some (if code_size aotimpl h \<noteq> 0 then put (code_offset aotimpl h) (mem_read m (oh_impl h) (code_size aotimpl h)) rec1
                                else rec1, dyn'))"
proof -
  have f: "\<lparr>mh_impl = impl, mh_type = oht_number (oh_type h), mh_oplen = ucast (oh_oplen h),
      mh_oprnum = (if (if oh_type h = OHT_Remill then length (oh_args h) * 2 else 0) \<noteq> 0 then word_of_nat (length (oh_args h)) else 0)\<rparr>
      = fixed_part impl h" for impl h by (simp add: fixed_part_def info_count_def)
  have p: "4 + unat (oh_oplen h) + (if oh_type h = OHT_Remill then length (oh_args h) * 2 else 0) = plain_size h" for h
    by (simp add: plain_size_def info_count_def)
  have o: "((if oh_type h = OHT_Remill then length (oh_args h) * 2 else 0) \<noteq> 0) = (info_count h \<noteq> 0)" for h
    by (simp add: info_count_def)
  have r: "(if aotimpl then align4 ((if aotimpl then align4 (plain_size h) else plain_size h) +
      (if aotimpl \<and> oh_type h = OHT_Dynamic then unat (oh_implsize h) else 0)) else plain_size h) = record_size aotimpl h" for h
    by (simp add: record_size_def code_offset_def)
  show ?thesis
    unfolding convert_handler_def Let_def f p
    unfolding r o
    unfolding code_size_def [symmetric] code_offset_def [symmetric] ..
qed

lemma convert_handler_layout:
  assumes c: "convert_handler L m aotimpl p dyn = Some (r, dyn')" and k: "length (key_bytes (ph_key p)) = ph_oplen p"
  obtains impl where "impl_field L aotimpl (ph_handler p) dyn = Some (impl, dyn')" "r = record_of impl m aotimpl p"
    "unat (oh_oplen (ph_handler p)) \<le> 15" "unat (oh_oplen (ph_handler p)) \<le> ph_oplen p" "info_count (ph_handler p) \<le> 255"
    "oh_type (ph_handler p) = OHT_Remill \<Longrightarrow> list_all (\<lambda>a. fst a \<le> 32767) (oh_args (ph_handler p))"
proof -
  define h where "h = ph_handler p"
  let ?n = "unat (oh_oplen h)" and ?code = "code_bytes m aotimpl h" and ?size = "record_size aotimpl h"
  note cc = c [unfolded convert_handler_alt Let_def, folded h_def]
  have ln: "?n \<le> 15" "?n \<le> ph_oplen p" "length (oh_args h) \<le> 255" using cc by (auto split: if_splits)
  obtain impl where impl: "impl_field L aotimpl h dyn = Some (impl, dyn')" using cc by (auto split: if_splits option.splits)
  let ?opc = "take ?n (key_bytes (ph_key p))" and ?fix = "enc_handler (fixed_part impl h)"
  let ?rec0 = "put 4 ?opc (put 0 ?fix (replicate ?size 0))"
  have opc: "length ?opc = ?n" using k ln by simp
  have sz: "4 + ?n + 2 * info_count h \<le> ?size"
    using sizes_le(1) [of h aotimpl] sizes_le(2) [of aotimpl h m] by (simp add: plain_size_def)
  have rec0: "?rec0 = (?fix @ ?opc) @ replicate (?size - 4 - ?n) 0"
    using put_zeros [of 0 "[]" ?fix ?size] put_zeros [of 4 ?fix ?opc "?size - 4"] sz opc by simp
  obtain rec1 where rec1: "(if info_count h \<noteq> 0 then put_args (4 + ?n) (oh_args h) ?rec0 else Some ?rec0) = Some rec1"
    and r: "r = (if code_size aotimpl h \<noteq> 0 then put (code_offset aotimpl h) (mem_read m (oh_impl h) (code_size aotimpl h)) rec1 else rec1)"
    using cc impl ln by (auto split: if_splits option.splits)
  have info: "rec1 = ((?fix @ ?opc) @ info_bytes h) @ replicate (?size - plain_size h) 0 \<and>
      (oh_type h = OHT_Remill \<longrightarrow> list_all (\<lambda>a. fst a \<le> 32767) (oh_args h))"
  proof (cases "info_count h = 0")
    case True
    with rec1 rec0 show ?thesis by (auto simp: info_count_def info_bytes_def plain_size_def split: if_splits)
  next
    case False
    then have t: "oh_type h = OHT_Remill" by (auto simp: info_count_def split: if_splits)
    from False rec1 rec0 have "put_args (4 + ?n) (oh_args h) ((?fix @ ?opc) @ replicate (?size - 4 - ?n) 0) = Some rec1" by simp
    from put_args_zeros [OF this] opc sz t show ?thesis by (simp add: info_count_def info_bytes_def plain_size_def)
  qed
  let ?g = "code_offset aotimpl h - plain_size h"
  have le: "plain_size h \<le> code_offset aotimpl h" "code_offset aotimpl h + length ?code \<le> ?size"
    by (rule sizes_le)+
  have lenx: "length ((?fix @ ?opc) @ info_bytes h) = plain_size h"
    using opc by (simp add: plain_size_def length_info_bytes)
  have "r = put (code_offset aotimpl h) ?code rec1"
    using r by (auto simp: code_size_def code_bytes_def put_def mem_read_def)
  also have "\<dots> = ((?fix @ ?opc) @ info_bytes h) @ replicate ?g 0 @ ?code @ replicate (?size - plain_size h - ?g - length ?code) 0"
    using info le put_zeros_gap [of "code_offset aotimpl h" "(?fix @ ?opc) @ info_bytes h" ?g ?code "?size - plain_size h"]
    unfolding lenx by simp
  also have "\<dots> = record_of impl m aotimpl p" using le by (simp add: record_of_def h_def [symmetric] Let_def)
  finally show thesis
    using that [of impl] impl ln info by (auto simp: h_def [symmetric] info_count_def split: if_splits)
qed

text \<open>What the interpreter must see at the start of a handler record.\<close>

definition handler_parses :: "lib_env \<Rightarrow> mem \<Rightarrow> bool \<Rightarrow> pe_handler \<Rightarrow> bytes \<Rightarrow> bool" where
  "handler_parses L m aotimpl p bs \<longleftrightarrow>
     (let h = ph_handler p; d = dec_handler bs in
      mh_type d = oht_number (oh_type h) \<and> unat (mh_oplen d) = unat (oh_oplen h) \<and> unat (mh_oprnum d) = info_count h \<and>
      mh_opcode bs = take (unat (oh_oplen h)) (key_bytes (ph_key p)) \<and>
      (\<forall>j<info_count h. mh_operand bs j = oh_args h ! j) \<and>
      (oh_type h = OHT_Remill \<longrightarrow>
         unat (mh_impl d) < length (l_handlers L) \<and> h_impl (l_handlers L ! unat (mh_impl d)) = oh_impl h) \<and>
      (oh_type h = OHT_MCInst \<longrightarrow> unat (mh_impl d) = fst (oh_args h ! 0)) \<and>
      (oh_type h = OHT_Dynamic \<and> aotimpl \<and> 4 dvd unat (oh_oplen h) \<longrightarrow>
         mh_impl d = oh_implsize h \<and>
         take (unat (mh_impl d)) (drop (mh_code_offset bs) bs) = mem_read m (oh_impl h) (unat (oh_implsize h))))"

lemma drop_records:
  assumes "\<And>x. length (enc x) = n" and "i < length xs"
  shows "drop (n * i) (concat (map enc xs) @ ys) = enc (xs ! i) @ concat (map enc (drop (Suc i) xs)) @ ys"
  using assms(2)
proof (induction xs arbitrary: i)
  case (Cons x xs)
  then show ?case using assms(1) by (cases i) simp_all
qed simp

lemma drop_section:
  assumes "length pre = a" and "\<And>x. length (enc x) = n" and "i < length xs"
  shows "drop (a + n * i) (pre @ concat (map enc xs) @ ys) = enc (xs ! i) @ concat (map enc (drop (Suc i) xs)) @ ys"
proof -
  have "drop (a + n * i) (pre @ concat (map enc xs) @ ys) = drop (n * i) (concat (map enc xs) @ ys)"
    using assms(1) by simp
  with drop_records [of enc n i xs ys, OF assms(2,3)] show ?thesis by simp
qed

lemma takeWhile_index:
  assumes "length (takeWhile P xs) \<noteq> length xs"
  shows "length (takeWhile P xs) < length xs" "\<not> P (xs ! length (takeWhile P xs))"
  using assms nth_length_takeWhile [of P xs] length_takeWhile_le [of P xs] by linarith+

lemma record_parses:
  assumes impl: "impl_field L aotimpl (ph_handler p) dyn = Some (impl, dyn')" and k: "length (key_bytes (ph_key p)) = ph_oplen p"
    and n: "unat (oh_oplen (ph_handler p)) \<le> 15" "unat (oh_oplen (ph_handler p)) \<le> ph_oplen p" "info_count (ph_handler p) \<le> 255"
    and small: "oh_type (ph_handler p) = OHT_Remill \<Longrightarrow> list_all (\<lambda>a. fst a \<le> 32767) (oh_args (ph_handler p))"
  shows "handler_parses L m aotimpl p (record_of impl m aotimpl p @ ys)"
proof -
  define h where "h = ph_handler p"
  define opc where "opc = take (unat (oh_oplen h)) (key_bytes (ph_key p))"
  define tl where "tl = replicate (code_offset aotimpl h - plain_size h) 0 @ code_bytes m aotimpl h @
      replicate (record_size aotimpl h - code_offset aotimpl h - length (code_bytes m aotimpl h)) 0 @ ys"
  note hs = n [folded h_def] small [folded h_def] impl [folded h_def]
  define bs where "bs = record_of impl m aotimpl p @ ys"
  have r: "bs = enc_handler (fixed_part impl h) @ opc @ info_bytes h @ tl"
    by (simp add: bs_def record_of_def h_def opc_def tl_def Let_def)
  have opc: "length opc = unat (oh_oplen h)" using k hs(2) by (simp add: opc_def)
  have o4: "unat (ucast (oh_oplen h) :: 4 word) = unat (oh_oplen h)"
    using hs(1) by (simp add: unsigned_ucast_eq take_bit_nat_eq_self)
  have cnt: "unat (word_of_nat (info_count h) :: u8) = info_count h" using hs(3) by (simp add: unat_u8_of_nat)
  have d: "dec_handler bs = fixed_part impl h" by (simp add: r)
  have off: "mh_code_offset bs = plain_size h"
    by (simp add: mh_code_offset_def d) (simp add: fixed_part_def plain_size_def o4 cnt)
  have opcode: "mh_opcode bs = opc"
    unfolding mh_opcode_def d unfolding r by (simp add: fixed_part_def o4 opc)
  have operand: "mh_operand bs j = oh_args h ! j" if j: "j < info_count h" for j
  proof -
    have t: "oh_type h = OHT_Remill" "j < length (oh_args h)" using j by (auto simp: info_count_def split: if_splits)
    have "drop (4 + unat (oh_oplen h) + 2 * j) bs = drop (2 * j) (concat (map enc_info (oh_args h)) @ tl)"
      unfolding r using opc t(1) by (simp add: info_bytes_def)
    also have "\<dots> = enc_info (oh_args h ! j) @ concat (map enc_info (drop (Suc j) (oh_args h))) @ tl"
      using t(2) by (rule drop_records [rotated]) simp
    finally show ?thesis
      using hs(4) [OF t(1)] t(2) dec_enc_info [of "fst (oh_args h ! j)" "snd (oh_args h ! j)"]
      unfolding mh_operand_def d by (simp add: fixed_part_def o4 list_all_length)
  qed
  have remill: "unat impl < length (l_handlers L) \<and> h_impl (l_handlers L ! unat impl) = oh_impl h" if "oh_type h = OHT_Remill"
    using hs(5) that takeWhile_index [of "\<lambda>c. h_impl c \<noteq> oh_impl h" "l_handlers L"]
    by (auto simp: impl_field_def Let_def unat_u16_of_nat split: if_splits)
  have mcinst: "unat impl = fst (oh_args h ! 0)" if "oh_type h = OHT_MCInst"
    using hs(5) that by (auto simp: impl_field_def unat_u16_of_nat split: if_splits)
  have dynamic: "impl = oh_implsize h \<and> take (unat impl) (drop (plain_size h) bs) = mem_read m (oh_impl h) (unat (oh_implsize h))"
    if "oh_type h = OHT_Dynamic" "aotimpl" "4 dvd unat (oh_oplen h)"
  proof -
    have i: "impl = oh_implsize h" using hs(5) that by (auto simp: impl_field_def split: if_splits)
    have "code_offset aotimpl h = plain_size h" using that align4(2) by (auto simp: code_offset_def plain_size_def info_count_def)
    moreover have "length (enc_handler (fixed_part impl h) @ opc @ info_bytes h) = plain_size h"
      using opc by (simp add: plain_size_def length_info_bytes)
    ultimately show ?thesis using i that unfolding r tl_def by (simp add: code_bytes_def)
  qed
  show ?thesis
    unfolding bs_def [symmetric] handler_parses_def Let_def d opcode off h_def [symmetric]
    using operand remill mcinst dynamic by (auto simp: fixed_part_def o4 cnt opc_def)
qed

section \<open>The file parses back\<close>

lemma drop_to_record: "j < length rs \<Longrightarrow> drop (length (concat (take j rs))) (concat rs @ ys) = rs ! j @ concat (drop (Suc j) rs) @ ys"
proof (induction rs arbitrary: j)
  case (Cons r rs)
  then show ?case by (cases j) simp_all
qed simp

definition key_sizes_ok :: "pe_handler list \<Rightarrow> bool" where
  "key_sizes_ok hs \<longleftrightarrow> list_all (\<lambda>p. length (key_bytes (ph_key p)) = ph_oplen p) hs"

lemma serialize_loop_parses:
  assumes "serialize_loop L m aotimpl hs off dyn = Some (rs, offs)" and "key_sizes_ok hs"
  shows "length rs = length hs \<and> length offs = length hs \<and>
     (\<forall>j<length hs. unat (offs ! j) = off + length (concat (take j rs)) \<and> 4 \<le> length (rs ! j) \<and>
        (\<forall>ys. handler_parses L m aotimpl (hs ! j) (rs ! j @ ys)))"
  using assms
proof (induction hs arbitrary: off dyn rs offs)
  case (Cons h hs)
  from Cons.prems(1) obtain r dyn' rs' offs' where c: "convert_handler L m aotimpl h dyn = Some (r, dyn')"
    "off \<le> 4294967295" "length r \<le> 4294967295 - off" "serialize_loop L m aotimpl hs (off + length r) dyn' = Some (rs', offs')"
    "rs = r # rs'" "offs = word_of_nat off # offs'"
    by (auto split: if_splits option.splits)
  have k: "length (key_bytes (ph_key h)) = ph_oplen h" "key_sizes_ok hs" using Cons.prems(2) by (simp_all add: key_sizes_ok_def)
  have "handler_parses L m aotimpl h (r @ ys)" for ys
    using convert_handler_layout [OF c(1) k(1)] record_parses [OF _ k(1)] by metis
  moreover have "4 \<le> length r"
    by (rule convert_handler_layout [OF c(1) k(1)]) (simp add: record_of_def Let_def)
  moreover have "unat (word_of_nat off :: u32) = off" using c(2) by (simp add: unat_of_nat)
  moreover note Cons.IH [OF c(4) k(2)]
  ultimately show ?case by (auto simp: c(5,6) nth_Cons less_Suc_eq_0_disj split: nat.split)
qed simp

lemma write_file_layout:
  assumes "write_file E haswx arm64 is ops exprs hs = Some data"
  obtains h where "data = enc_header h @ concat (map enc_insn is) @ concat (map (enc_operand E) ops) @ concat (map (enc_expr E) exprs) @ concat hs"
    "md_magic h = kMagic" "md_version h = kVersion" "unat (md_size h) = length data"
    "md_flags h = (if haswx then kFlag_HasWX else 0) OR (if arm64 then kFlag_ARM64 else kFlag_X64)"
    "unat (off_instruction h) = 48" "unat (num_instruction h) = length is" "unat (off_operands h) = 48 + 8 * length is"
    "unat (num_operands h) = length ops" "unat (off_expressions h) = 48 + 8 * length is + 48 * length ops"
    "unat (num_expressions h) = length exprs" "unat (off_handlers h) = 48 + 8 * length is + 48 * length ops + 12 * length exprs"
    "unat (num_handlers h) = length hs"
proof -
  let ?i = "concat (map enc_insn is)" and ?o = "concat (map (enc_operand E) ops)" and ?e = "concat (map (enc_expr E) exprs)"
  have len: "length ?i = 8 * length is" "length ?o = 48 * length ops" "length ?e = 12 * length exprs"
    by (induction "is"; induction ops; induction exprs; simp)+
  define outsize where "outsize = 48 + length is * 8 + length ops * 48 + length exprs * 12 + length (concat hs)"
  define h where "h = \<lparr>md_magic = kMagic, md_version = kVersion, md_size = word_of_nat outsize,
     md_flags = (if haswx then kFlag_HasWX else 0) OR (if arm64 then kFlag_ARM64 else kFlag_X64),
     off_instruction = word_of_nat 48, num_instruction = word_of_nat (length is),
     off_operands = word_of_nat (48 + length is * 8), num_operands = word_of_nat (length ops),
     off_expressions = word_of_nat (48 + length is * 8 + length ops * 48), num_expressions = word_of_nat (length exprs),
     off_handlers = word_of_nat (48 + length is * 8 + length ops * 48 + length exprs * 12), num_handlers = word_of_nat (length hs)\<rparr>"
  note w = assms [unfolded write_file_def Let_def, folded outsize_def, folded h_def]
  have le: "length is \<le> 4294967295" "length ops \<le> 4294967295" "length exprs \<le> 4294967295" "length hs \<le> 4294967295" "outsize \<le> 4294967295"
    using w by (auto split: if_splits)
  have "put 0 (enc_header h) (replicate outsize 0) = enc_header h @ replicate (outsize - 48) 0"
    using put_zeros [of 0 "[]" "enc_header h" outsize] by (simp add: outsize_def)
  moreover have "put 48 ?i (enc_header h @ replicate (outsize - 48) 0) = (enc_header h @ ?i) @ replicate (outsize - 48 - 8 * length is) 0"
    using put_zeros [of 48 "enc_header h" ?i "outsize - 48"] len by (simp add: outsize_def)
  moreover have "put (48 + length is * 8) ?o ((enc_header h @ ?i) @ replicate (outsize - 48 - 8 * length is) 0) =
      ((enc_header h @ ?i) @ ?o) @ replicate (outsize - 48 - 8 * length is - 48 * length ops) 0"
    using put_zeros [of "48 + length is * 8" "enc_header h @ ?i" ?o "outsize - 48 - 8 * length is"] len by (simp add: outsize_def)
  moreover have "put (48 + length is * 8 + length ops * 48) ?e (((enc_header h @ ?i) @ ?o) @ replicate (outsize - 48 - 8 * length is - 48 * length ops) 0) =
      (((enc_header h @ ?i) @ ?o) @ ?e) @ replicate (length (concat hs)) 0"
    using put_zeros [of "48 + length is * 8 + length ops * 48" "(enc_header h @ ?i) @ ?o" ?e "outsize - 48 - 8 * length is - 48 * length ops"] len
    by (simp add: outsize_def)
  moreover have "put_all (48 + length is * 8 + length ops * 48 + length exprs * 12) hs ((((enc_header h @ ?i) @ ?o) @ ?e) @ replicate (length (concat hs)) 0) =
      (((enc_header h @ ?i) @ ?o) @ ?e) @ concat hs"
    using put_all_zeros [of "48 + length is * 8 + length ops * 48 + length exprs * 12" "((enc_header h @ ?i) @ ?o) @ ?e" hs "length (concat hs)"] len
    by simp
  ultimately have data: "data = enc_header h @ ?i @ ?o @ ?e @ concat hs" using w le by (simp split: if_splits)
  have "length data = outsize" unfolding data using len by (simp add: outsize_def)
  have u: "unat (word_of_nat x :: u32) = x" if "x \<le> 4294967295" for x using that by (simp add: unat_of_nat)
  show thesis
  proof (rule that [OF data])
    show "unat (md_size h) = length data" using u [OF le(5)] \<open>length data = outsize\<close> by (simp add: h_def)
    show "unat (off_operands h) = 48 + 8 * length is" using u [of "48 + length is * 8"] le(5) by (simp add: h_def outsize_def)
    show "unat (off_expressions h) = 48 + 8 * length is + 48 * length ops"
      using u [of "48 + length is * 8 + length ops * 48"] le(5) by (simp add: h_def outsize_def)
    show "unat (off_handlers h) = 48 + 8 * length is + 48 * length ops + 12 * length exprs"
      using u [of "48 + length is * 8 + length ops * 48 + length exprs * 12"] le(5) by (simp add: h_def outsize_def)
  qed (use u le in \<open>simp_all add: h_def\<close>)
qed

text \<open>The check of \<open>dump\<close> on the section offsets and counts.\<close>

definition sections_valid :: "IMetaData \<Rightarrow> nat \<Rightarrow> bool" where
  "sections_valid h n \<longleftrightarrow> unat (off_instruction h) = 48 \<and>
     unat (off_instruction h) + unat (num_instruction h) * 8 = unat (off_operands h) \<and>
     unat (off_operands h) + unat (num_operands h) * 48 = unat (off_expressions h) \<and>
     unat (off_expressions h) + unat (num_expressions h) * 12 = unat (off_handlers h) \<and> unat (off_handlers h) \<le> n"

lemma resolve_insns_nth:
  "resolve_insns offs is = Some is' \<Longrightarrow> length is' = length is \<and> (\<forall>i<length is. im_rva (is' ! i) = im_rva (is ! i) \<and>
     (if im_handler (is ! i) = - 1 then im_handler (is' ! i) = - 1
      else unat (im_handler (is ! i)) < length offs \<and> im_handler (is' ! i) = offs ! unat (im_handler (is ! i))))"
proof (induction "is" arbitrary: is')
  case (Cons x xs)
  then obtain y ys where y: "is' = y # ys" "resolve_insns offs xs = Some ys" by (auto split: if_splits)
  from Cons.prems y have "im_rva y = im_rva x \<and> (if im_handler x = - 1 then im_handler y = - 1
      else unat (im_handler x) < length offs \<and> im_handler y = offs ! unat (im_handler x))"
    by (auto split: if_splits)
  with Cons.IH [OF y(2)] y(1) show ?case by (auto simp: nth_Cons split: nat.split)
qed simp

lemma concat_enc_length: "(\<And>x. length (enc x) = n) \<Longrightarrow> length (concat (map enc xs)) = n * length xs"
  by (induction xs) simp_all

lemma serialize_reads:
  assumes "serialize L E haswx B P s = Some data" and "key_sizes_ok (pe_handlers P)" and "enums_ok E"
    and "convertOperands (case v_regoffs s of Some ro \<Rightarrow> ro | None \<Rightarrow> Map.empty) (v_operands s) = Inr (ops, exprs)"
    and "list_all (operand_ok E) ops" and "list_all (expr_ok E) exprs"
  shows "let h = dec_header data in
     md_magic h = kMagic \<and> md_version h = kVersion \<and> unat (md_size h) = length data \<and> sections_valid h (length data) \<and>
     unat (num_instruction h) = length (pe_insnmetas P) \<and> unat (num_operands h) = length ops \<and>
     unat (num_expressions h) = length exprs \<and> unat (num_handlers h) = length (pe_handlers P) \<and>
     (\<forall>i<length ops. dec_operand E (take 48 (drop (unat (off_operands h) + 48 * i) data)) = ops ! i) \<and>
     (\<forall>i<length exprs. dec_expr E (drop (unat (off_expressions h) + 12 * i) data) = exprs ! i) \<and>
     (\<forall>i<length (pe_insnmetas P).
        let insn = dec_insn (drop (unat (off_instruction h) + 8 * i) data); k = im_handler (pe_insnmetas P ! i) in
        im_rva insn = im_rva (pe_insnmetas P ! i) \<and>
        (if k = - 1 then im_handler insn = - 1
         else unat k < length (pe_handlers P) \<and> unat (off_handlers h) + unat (im_handler insn) + 4 \<le> length data \<and>
              handler_parses L (mem (v_cpu s)) (haswx \<and> bin_arm64 B) (pe_handlers P ! unat k)
                (drop (unat (off_handlers h) + unat (im_handler insn)) data)))"
proof -
  from assms(1,4) obtain rs offs "is" where s: "serialize_loop L (mem (v_cpu s)) (haswx \<and> bin_arm64 B) (pe_handlers P) 0 0 = Some (rs, offs)"
    "resolve_insns offs (pe_insnmetas P) = Some is" "write_file E haswx (bin_arm64 B) is ops exprs rs = Some data"
    by (auto simp: serialize_def serializeHandler_def split: option.splits)
  note loop = serialize_loop_parses [OF s(1) assms(2)] and res = resolve_insns_nth [OF s(2)]
  obtain h where h: "data = enc_header h @ concat (map enc_insn is) @ concat (map (enc_operand E) ops) @ concat (map (enc_expr E) exprs) @ concat rs"
    and f: "md_magic h = kMagic" "md_version h = kVersion" "unat (md_size h) = length data"
    "unat (off_instruction h) = 48" "unat (num_instruction h) = length is" "unat (off_operands h) = 48 + 8 * length is"
    "unat (num_operands h) = length ops" "unat (off_expressions h) = 48 + 8 * length is + 48 * length ops"
    "unat (num_expressions h) = length exprs" "unat (off_handlers h) = 48 + 8 * length is + 48 * length ops + 12 * length exprs"
    "unat (num_handlers h) = length rs"
    using write_file_layout [OF s(3)] by metis
  have d: "dec_header data = h" by (simp add: h)
  note len = concat_enc_length [of enc_insn 8 "is"] concat_enc_length [of "enc_operand E" 48 ops] concat_enc_length [of "enc_expr E" 12 exprs]
  have op: "dec_operand E (take 48 (drop (48 + 8 * length is + 48 * i) data)) = ops ! i" if i: "i < length ops" for i
  proof -
    have "drop (48 + 8 * length is + 48 * i) data = enc_operand E (ops ! i) @ concat (map (enc_operand E) (drop (Suc i) ops)) @
        concat (map (enc_expr E) exprs) @ concat rs"
      unfolding h append_assoc [symmetric, of "enc_header h"] by (rule drop_section) (use len i in simp_all)
    then show ?thesis using i assms(3,5) by (simp add: dec_enc_operand list_all_length)
  qed
  have ex: "dec_expr E (drop (48 + 8 * length is + 48 * length ops + 12 * i) data) = exprs ! i" if i: "i < length exprs" for i
  proof -
    have "drop (48 + 8 * length is + 48 * length ops + 12 * i) ((enc_header h @ concat (map enc_insn is) @ concat (map (enc_operand E) ops)) @
        concat (map (enc_expr E) exprs) @ concat rs) = enc_expr E (exprs ! i) @ concat (map (enc_expr E) (drop (Suc i) exprs)) @ concat rs"
      by (rule drop_section) (use len i in simp_all)
    then show ?thesis using i assms(3,6) unfolding h by (simp add: dec_enc_expr list_all_length)
  qed
  have ins: "dec_insn (drop (48 + 8 * i) data) = is ! i" if i: "i < length is" for i
    unfolding h by (subst drop_section [OF _ _ i, where n = 8]) simp_all
  have hd: "handler_parses L (mem (v_cpu s)) (haswx \<and> bin_arm64 B) (pe_handlers P ! j)
      (drop (48 + 8 * length is + 48 * length ops + 12 * length exprs + unat (offs ! j)) data)" if j: "j < length (pe_handlers P)" for j
  proof -
    have "drop (48 + 8 * length is + 48 * length ops + 12 * length exprs + unat (offs ! j)) data = drop (unat (offs ! j)) (concat rs @ [])"
      using len by (simp add: h)
    with loop j drop_to_record [of j rs "[]"] show ?thesis by simp
  qed
  have room: "48 + 8 * length is + 48 * length ops + 12 * length exprs + unat (offs ! j) + 4 \<le> length data" if j: "j < length (pe_handlers P)" for j
  proof -
    have "length (concat rs) = length (concat (take j rs)) + length (concat (drop j rs))"
      by (metis append_take_drop_id concat_append length_append)
    moreover have "drop j rs = rs ! j # drop (Suc j) rs" using loop j by (simp add: Cons_nth_drop_Suc)
    ultimately have "unat (offs ! j) + 4 \<le> length (concat rs)" using loop j by auto
    then show ?thesis using len by (simp add: h)
  qed
  have secs: "sections_valid h (length data)" using len by (simp add: sections_valid_def f h)
  show ?thesis
    unfolding d Let_def f using loop [THEN conjunct1] loop [THEN conjunct2, THEN conjunct1] res op ex ins hd room secs by auto
qed

text \<open>
  C13: the metadata file gives back what was encoded.  Reading a serialized file the way the
  interpreter does, the header has the magic number, version and actual size and its sections lie end to end in
  the file; the converted operands and expressions are read back unchanged; every instruction has its address, and unless its handler
  index is the invalid one, following its handler offset leads to a record with the type, opcode, operand list
  and implementation of the handler it was given.
\<close>

theorem serialized_file_reads_back:
  assumes "serialize L E haswx B P s = Some data" and "key_sizes_ok (pe_handlers P)" and "enums_ok E"
    and "convertOperands (case v_regoffs s of Some ro \<Rightarrow> ro | None \<Rightarrow> Map.empty) (v_operands s) = Inr (ops, exprs)"
    and "list_all (operand_ok E) ops" and "list_all (expr_ok E) exprs"
  shows "let h = dec_header data in
     md_magic h = kMagic \<and> md_version h = kVersion \<and> unat (md_size h) = length data \<and> sections_valid h (length data) \<and>
     unat (num_instruction h) = length (pe_insnmetas P) \<and> unat (num_operands h) = length ops \<and>
     unat (num_expressions h) = length exprs \<and> unat (num_handlers h) = length (pe_handlers P) \<and>
     (\<forall>i<length ops. dec_operand E (take 48 (drop (unat (off_operands h) + 48 * i) data)) = ops ! i) \<and>
     (\<forall>i<length exprs. dec_expr E (drop (unat (off_expressions h) + 12 * i) data) = exprs ! i) \<and>
     (\<forall>i<length (pe_insnmetas P).
        let insn = dec_insn (drop (unat (off_instruction h) + 8 * i) data); k = im_handler (pe_insnmetas P ! i) in
        im_rva insn = im_rva (pe_insnmetas P ! i) \<and>
        (if k = - 1 then im_handler insn = - 1
         else unat k < length (pe_handlers P) \<and> unat (off_handlers h) + unat (im_handler insn) + 4 \<le> length data \<and>
              handler_parses L (mem (v_cpu s)) (haswx \<and> bin_arm64 B) (pe_handlers P ! unat k)
                (drop (unat (off_handlers h) + unat (im_handler insn)) data)))"
  using assms by (rule serialize_reads)

text \<open>A setting for the witnesses: one generated handler of eight bytes and one instruction that uses it.\<close>

definition enums0 :: enums where
  "enums0 = \<lparr>en_opcode = (\<lambda>opc. case opc of I_Add \<Rightarrow> 13 | I_Sub \<Rightarrow> 15 | I_Mul \<Rightarrow> 17 | I_Shl \<Rightarrow> 25 | I_LShr \<Rightarrow> 26 | I_AShr \<Rightarrow> 27
       | I_ZExt \<Rightarrow> 39 | I_SExt \<Rightarrow> 40 | I_Trunc \<Rightarrow> 38 | I_And \<Rightarrow> 28 | I_Or \<Rightarrow> 29 | I_URem \<Rightarrow> 22 | I_Xor \<Rightarrow> 30 | I_Other n \<Rightarrow> word_of_nat n),
     en_shift = (\<lambda>sh. case sh of kShiftInvalid \<Rightarrow> 0 | kShiftLeftWithZeroes \<Rightarrow> 1 | kShiftLeftWithOnes \<Rightarrow> 2 | kShiftUnsignedRight \<Rightarrow> 3
       | kShiftSignedRight \<Rightarrow> 4 | kShiftLeftAround \<Rightarrow> 5 | kShiftRightAround \<Rightarrow> 6),
     en_extend = (\<lambda>x. case x of kExtendInvalid \<Rightarrow> 0 | kExtendUnsigned \<Rightarrow> 1 | kExtendSigned \<Rightarrow> 2),
     en_tag = (\<lambda>t. case t of T_Invalid \<Rightarrow> 0 | T_Register \<Rightarrow> 1 | T_ShiftRegister \<Rightarrow> 2 | T_Immediate \<Rightarrow> 3 | T_Address \<Rightarrow> 4
       | T_Expr x \<Rightarrow> (case x of kTypeExpression \<Rightarrow> 5 | kTypeRegisterExpression \<Rightarrow> 6 | kTypeImmediateExpression \<Rightarrow> 7 | kTypeAddressExpression \<Rightarrow> 8)),
     en_action = (\<lambda>w. if w then 2 else 1)\<rparr>"

definition peb0 :: pe_binary where
  "peb0 = \<lparr>bin_base = 0, bin_arm64 = True, bin_functions = []\<rparr>"

definition pe0 :: pre_encoder where
  "pe0 = \<lparr>pe_handlers = [\<lparr>ph_oplen = 4, ph_key = K4 67305985, ph_handler = entry0\<rparr>],
     pe_ranges = [(0, 0), (0, 0), (0, 1), (1, 1), (1, 1)], pe_insnmetas = [\<lparr>im_rva = 16, im_handler = 0\<rparr>]\<rparr>"

lemma enums0_ok: "enums_ok enums0"
  by (simp add: enums_ok_def enums0_def all_opcodes_def all_shifts_def all_extends_def all_tags_def)

lemma serialize0: "\<exists>data. serialize lib0 enums0 True peb0 pe0 vm0 = Some data"
  by (simp add: serialize_def vm0_def convertOperands_def serializeHandler_def pe0_def peb0_def convert_handler_def entry0_def
      impl_field_def Let_def write_file_def put_def key_bytes_def word_bytes_def align4_def)

theorem serialized_file_reads_back_witness:
  "\<exists>data. serialize lib0 enums0 True peb0 pe0 vm0 = Some data \<and> md_magic (dec_header data) = kMagic \<and>
     unat (md_size (dec_header data)) = length data \<and>
     handler_parses lib0 (mem (v_cpu vm0)) True (pe_handlers pe0 ! 0)
       (drop (unat (off_handlers (dec_header data)) + unat (im_handler (dec_insn (drop (unat (off_instruction (dec_header data))) data)))) data)"
proof -
  obtain data where d: "serialize lib0 enums0 True peb0 pe0 vm0 = Some data" using serialize0 by blast
  have k: "key_sizes_ok (pe_handlers pe0)" by (simp add: key_sizes_ok_def pe0_def key_bytes_def word_bytes_def)
  have c: "convertOperands (case v_regoffs vm0 of Some ro \<Rightarrow> ro | None \<Rightarrow> Map.empty) (v_operands vm0) = Inr ([], [])"
    by (simp add: vm0_def convertOperands_def)
  have m: "pe_insnmetas pe0 = [\<lparr>im_rva = 16, im_handler = 0\<rparr>]" "bin_arm64 peb0" by (simp_all add: pe0_def peb0_def)
  from serialized_file_reads_back [OF d k enums0_ok c] d show ?thesis by (auto simp: Let_def m)
qed

section \<open>Handler indices\<close>

text \<open>The five widths: keys of one width are compared as numbers, and different opcodes have different keys.\<close>

locale key_width =
  fixes K :: "'k :: linorder \<Rightarrow> opc_key"
  assumes less: "key_less (K a) (K b) \<longleftrightarrow> a < b"
    and inj: "K a = K b \<longleftrightarrow> a = b"
begin

lemma lower_bound_sorted:
  fixes k :: 'k
  assumes "sorted_wrt (<) xs"
  defines "it \<equiv> length (takeWhile (\<lambda>x. x < k) xs)"
  shows "(it \<noteq> length xs \<and> xs ! it = k) \<longleftrightarrow> k \<in> set xs"
proof
  assume "k \<in> set xs"
  then obtain j where j: "j < length xs" "xs ! j = k" by (auto simp: in_set_conv_nth)
  have it: "it \<le> j"
  proof (rule ccontr)
    assume "\<not> it \<le> j"
    then have "takeWhile (\<lambda>x. x < k) xs ! j < k"
      using set_takeWhileD [of "takeWhile (\<lambda>x. x < k) xs ! j" "\<lambda>x. x < k" xs] by (simp add: it_def)
    with \<open>\<not> it \<le> j\<close> j show False by (simp add: takeWhile_nth it_def)
  qed
  with j have "\<not> xs ! it < k" using nth_length_takeWhile [of "\<lambda>x. x < k" xs] by (simp add: it_def)
  moreover have "xs ! it < k" if "it < j"
    using assms(1) that j by (metis sorted_wrt_nth_less)
  ultimately show "it \<noteq> length xs \<and> xs ! it = k" using it j by (cases "it = j") auto
next
  assume "it \<noteq> length xs \<and> xs ! it = k"
  then show "k \<in> set xs" using length_takeWhile_le [of "\<lambda>x. x < k" xs] by (metis it_def le_neq_implies_less nth_mem)
qed

lemma search_finds:
  assumes "finite (dom (hs_set t))" and P: "pe_handlers P = pre @ load_handlers K n t @ suf"
    and r: "pe_ranges P ! rg = (word_of_nat (length pre), word_of_nat (length (pre @ load_handlers K n t)))"
    and len: "length (pe_handlers P) < 4294967295"
  shows "case hs_set t k of
      None \<Rightarrow> search_range P rg (K k) = - 1
    | Some h \<Rightarrow> search_range P rg (K k) \<noteq> - 1 \<and> unat (search_range P rg (K k)) < length (pe_handlers P) \<and>
        pe_handlers P ! unat (search_range P rg (K k)) = \<lparr>ph_oplen = n, ph_key = K k, ph_handler = h\<rparr>"
proof -
  define xs where "xs = sorted_list_of_set (dom (hs_set t))"
  define g where "g = (\<lambda>k. \<lparr>ph_oplen = n, ph_key = K k, ph_handler = the (hs_set t k)\<rparr>)"
  define it where "it = length (takeWhile (\<lambda>x. x < k) xs)"
  have seg: "load_handlers K n t = map g xs" by (simp add: load_handlers_def xs_def g_def)
  have sorted: "sorted_wrt (<) xs" and set: "set xs = dom (hs_set t)" using assms(1) by (simp_all add: xs_def)
  have u: "unat (word_of_nat j :: u32) = j" if "j \<le> length (pe_handlers P)" for j using that len by (simp add: unat_of_nat)
  have lens: "length pre \<le> length (pe_handlers P)" "length pre + length xs \<le> length (pe_handlers P)" using P seg by simp_all
  have w: "length (takeWhile (\<lambda>h. key_less (ph_key h) (K k)) (map g xs)) = it"
    by (simp add: takeWhile_map it_def g_def o_def less)
  have sr: "search_range P rg (K k) = (if it = length xs \<or> xs ! it \<noteq> k then - 1 else word_of_nat (length pre + it))"
  proof -
    have tk: "take (unat (word_of_nat (length (pre @ map g xs)) :: u32) - unat (word_of_nat (length pre) :: u32))
        (drop (unat (word_of_nat (length pre) :: u32)) (pe_handlers P)) = map g xs"
      using u [OF lens(1)] u [OF lens(2)] by (simp add: P seg)
    have "it \<le> length xs" by (simp add: it_def length_takeWhile_le)
    then have "it \<noteq> length xs \<Longrightarrow> ph_key (map g xs ! it) = K (xs ! it)" by (simp add: g_def)
    then show ?thesis unfolding search_range_def Let_def r [unfolded seg] prod.case tk w length_map by (auto simp: inj)
  qed
  note found = lower_bound_sorted [OF sorted, of k, folded it_def, unfolded set]
  show ?thesis
  proof (cases "hs_set t k")
    case None
    then show ?thesis using found sr by auto
  next
    case (Some h)
    then have f: "it < length xs" "xs ! it = k" using found length_takeWhile_le [of "\<lambda>x. x < k" xs] by (auto simp: it_def)
    then have i: "search_range P rg (K k) = word_of_nat (length pre + it)" using sr by auto
    have v: "unat (search_range P rg (K k)) = length pre + it" unfolding i using u [of "length pre + it"] f lens by simp
    moreover have "unat (- 1 :: u32) = 4294967295" using unat_no_child by (simp add: no_child_def)
    ultimately have "search_range P rg (K k) \<noteq> - 1" using len f lens by auto
    with Some f v lens show ?thesis by (simp add: P seg nth_append g_def)
  qed
qed

end

interpretation kw1: key_width K1 by unfold_locales simp_all
interpretation kw2: key_width K2 by unfold_locales simp_all
interpretation kw4: key_width K4 by unfold_locales simp_all
interpretation kw8: key_width K8 by unfold_locales simp_all
interpretation kw16: key_width K16 by unfold_locales simp_all

definition finite_tables :: "OpcodeEngine \<Rightarrow> bool" where
  "finite_tables e \<longleftrightarrow> finite (dom (hs_set (opc1 e))) \<and> finite (dom (hs_set (opc2 e))) \<and> finite (dom (hs_set (opc4 e))) \<and>
     finite (dom (hs_set (opc8 e))) \<and> finite (dom (hs_set (opc16 e)))"

text \<open>The tables are finite sets: every type of key has finitely many values.\<close>

lemma finite_tables: "finite_tables e"
proof -
  have "range (\<lambda>(a, b). U128 a b) = UNIV" by (auto simp: image_iff) (metis uint128_var_t.exhaust)
  then have "finite (UNIV :: uint128_var_t set)" by (metis finite finite_imageI)
  then show ?thesis unfolding finite_tables_def by (metis finite finite_subset subset_UNIV)
qed

definition found_at :: "pre_encoder \<Rightarrow> u32 \<Rightarrow> opc_handler option \<Rightarrow> bool" where
  "found_at P i r \<longleftrightarrow>
     (case r of None \<Rightarrow> i = - 1
      | Some h \<Rightarrow> i \<noteq> - 1 \<and> unat i < length (pe_handlers P) \<and> ph_handler (pe_handlers P ! unat i) = h)"

lemma handlerIndex_lookup:
  assumes P: "(pe_handlers P, pe_ranges P) = index_handlers e" and len: "length (pe_handlers P) < 4294967295"
    and n: "0 < length opcode" "length opcode \<le> 16"
  shows "found_at P (handlerIndex P opcode) (engine_lookup opcode e)"
proof -
  note fin = finite_tables [of e, unfolded finite_tables_def]
  note ix = P [unfolded index_handlers_def Let_def prod.inject]
  have one: "length opcode = 1 \<Longrightarrow> opcode ! 0 = key_of 1 opcode"
    by (cases opcode) (simp_all add: key_of_def)
  have four: "length opcode \<noteq> 2 \<Longrightarrow> length opcode \<noteq> 1 \<Longrightarrow> length opcode \<le> 4 \<Longrightarrow> length opcode = 3 \<or> length opcode = 4"
    using n by linarith
  have w1: "found_at P (search_range P 0 (K1 k)) (hs_set (opc1 e) k)" for k
    using kw1.search_finds [of "opc1 e" P "[]" 1 _ 0 k] fin ix len by (auto simp: found_at_def split: option.splits)
  have w2: "found_at P (search_range P 1 (K2 k)) (hs_set (opc2 e) k)" for k
    using kw2.search_finds [of "opc2 e" P "load_handlers K1 1 (opc1 e)" 2 _ 1 k] fin ix len by (auto simp: found_at_def split: option.splits)
  have w4: "found_at P (search_range P 2 (K4 k)) (hs_set (opc4 e) k)" for k
    using kw4.search_finds [of "opc4 e" P "load_handlers K1 1 (opc1 e) @ load_handlers K2 2 (opc2 e)" 4 _ 2 k] fin ix len
    by (auto simp: found_at_def split: option.splits)
  have w8: "found_at P (search_range P 3 (K8 k)) (hs_set (opc8 e) k)" for k
    using kw8.search_finds [of "opc8 e" P "(load_handlers K1 1 (opc1 e) @ load_handlers K2 2 (opc2 e)) @ load_handlers K4 4 (opc4 e)" 8 _ 3 k] fin ix len
    by (auto simp: found_at_def split: option.splits)
  have w16: "found_at P (search_range P 4 (K16 k)) (hs_set (opc16 e) k)" for k
    using kw16.search_finds [of "opc16 e" P "((load_handlers K1 1 (opc1 e) @ load_handlers K2 2 (opc2 e)) @ load_handlers K4 4 (opc4 e)) @
        load_handlers K8 8 (opc8 e)" 16 "[]" 4 k] fin ix len by (auto simp: found_at_def split: option.splits)
  show ?thesis
    unfolding handlerIndex_def engine_lookup_def Let_def
    using n w1 [of "key_of 1 opcode"] w2 w4 w8 w16 one four by auto
qed

lemma prefetch_functions_inv:
  assumes "decodes_window L" and "prefetch_functions L fs e s = Inr (e', s')" and "engine_inv e s"
  shows "engine_inv e' s' \<and> vm_le s s' \<and> engine_le e e' \<and>
     (\<forall>f\<in>set fs. \<forall>p i. visited L (pf_buf f) (unat (pf_end f - pf_start f)) p i \<longrightarrow> engine_lookup (take (length (ri_bytes i)) p) e' \<noteq> None)"
  using assms(2,3)
proof (induction fs arbitrary: e s)
  case (Cons f fs)
  then obtain k e1 s1 where one: "engine_prefetch L (pf_buf f) (unat (pf_end f - pf_start f)) e s = Inr (k, e1, s1)"
    "prefetch_functions L fs e1 s1 = Inr (e', s')" by (auto simp: res_bind_Inr_iff)
  note a = prefetch_loop_inv [OF assms(1) one(1) [unfolded engine_prefetch_def] Cons.prems(2)]
  then have b: "engine_inv e' s' \<and> vm_le s1 s' \<and> engine_le e1 e' \<and>
     (\<forall>f\<in>set fs. \<forall>p i. visited L (pf_buf f) (unat (pf_end f - pf_start f)) p i \<longrightarrow> engine_lookup (take (length (ri_bytes i)) p) e' \<noteq> None)"
    using Cons.IH [OF one(2)] by blast
  have "engine_lookup (take (length (ri_bytes i)) p) e' \<noteq> None" if v: "visited L (pf_buf f) (unat (pf_end f - pf_start f)) p i" for p i
  proof -
    have "engine_lookup (take (length (ri_bytes i)) p) e1 \<noteq> None" using a v by blast
    then show ?thesis using b engine_lookup_mono by (metis not_None_eq)
  qed
  with a b show ?case using vm_le_trans engine_le_trans by auto
qed (auto simp: engine_le_refl)

lemma pe_prefetch_alt:
  "pe_prefetch L B e s = res_bind (prefetch_functions L (bin_functions B) e s) (\<lambda>(e', s').
     Inr (\<lparr>pe_handlers = fst (index_handlers e'), pe_ranges = snd (index_handlers e'), pe_insnmetas = []\<rparr>, e', s'))"
  by (simp add: pe_prefetch_def case_prod_beta Let_def)

text \<open>
  No instruction is left without a handler.  After the pre-encoder has prefetched a binary, looking
  up the bytes of any instruction that prefetching visited in any function gives a valid index, of an
  executable handler, which is the one the engine has for these bytes.
\<close>

lemma prefetched_instructions_indexed:
  assumes "decodes_window L" and "engine_inv e s" and "pe_prefetch L B e s = Inr (P, e', s')"
    and "length (pe_handlers P) < 4294967295" and "f \<in> set (bin_functions B)"
    and "visited L (pf_buf f) (unat (pf_end f - pf_start f)) p i"
  shows "let opcode = take (length (ri_bytes i)) p; k = handlerIndex P opcode in
     k \<noteq> - 1 \<and> unat k < length (pe_handlers P) \<and> engine_lookup opcode e' = Some (ph_handler (pe_handlers P ! unat k)) \<and>
     entry_ok s' (ph_handler (pe_handlers P ! unat k))"
proof -
  let ?opc = "take (length (ri_bytes i)) p"
  have p: "prefetch_functions L (bin_functions B) e s = Inr (e', s')" "(pe_handlers P, pe_ranges P) = index_handlers e'"
    using assms(3) by (auto simp: pe_prefetch_alt res_bind_Inr_iff)
  note inv = prefetch_functions_inv [OF assms(1) p(1) assms(2)]
  with assms(5,6) obtain h where h: "engine_lookup ?opc e' = Some h" by blast
  have "fetch_inst L p = Inr i" using assms(6) by induction
  from fetch_inst_length [OF assms(1) this] have "0 < length ?opc" "length ?opc \<le> 16" by auto
  from handlerIndex_lookup [OF p(2) assms(4) this] h inv engine_inv_lookup [of e' s' ?opc h] show ?thesis
    by (simp add: found_at_def Let_def)
qed

definition peb1 :: pe_binary where
  "peb1 = \<lparr>bin_base = 0, bin_arm64 = True, bin_functions = [\<lparr>pf_start = 0, pf_end = 4, pf_buf = [1, 2, 3, 4], pf_insns = []\<rparr>]\<rparr>"


section \<open>Checking a file\<close>

text \<open>
  \<open>dump\<close>: what it reports instead of decoding, or the number of instructions whose handler
  offset is not the offset of a record.
\<close>

datatype dump_result = TooSmall | TooLarge | BadMagic | BadVersion | BadSize | BadSections | BadHandler nat | Mismatches nat

definition recordSize :: "md_handler \<Rightarrow> nat" where
  "recordSize d = 4 + unat (mh_oplen d) + (if mh_type d = oht_number OHT_Remill then unat (mh_oprnum d) * 2 else 0)"

text \<open>The loop over the handler section, from record \<open>i\<close> on with \<open>n\<close> to go; the offsets are relative to \<open>base\<close>.\<close>

fun dump_walk :: "bool \<Rightarrow> bytes \<Rightarrow> nat \<Rightarrow> nat \<Rightarrow> nat \<Rightarrow> nat \<Rightarrow> dump_result + nat list" where
  "dump_walk aotimpl data base i 0 off = Inr []"
| "dump_walk aotimpl data base i (Suc n) off =
     (if length data < off \<or> length data - off < 4 then Inl (BadHandler i)
      else let d = dec_handler (drop off data); size = recordSize d in
           if unat (oht_number OHT_PrebuiltMapped) < unat (mh_type d) \<or> length data - off < size then Inl (BadHandler i)
           else let rest = (\<lambda>size. res_bind (dump_walk aotimpl data base (Suc i) n (off + size)) (\<lambda>xs. Inr ((off - base) # xs))) in
                if \<not> aotimpl then rest size
                else if mh_type d = oht_number OHT_Dynamic
                then let size = align4 size + unat (mh_impl d) in
                     if length data - off < size then Inl (BadHandler i) else rest (align4 size)
                else rest (align4 size))"

definition dump :: "bytes \<Rightarrow> dump_result" where
  "dump data =
     (if length data < 48 then TooSmall
      else if 4294967295 < length data then TooLarge
      else let h = dec_header data in
           if md_magic h \<noteq> kMagic then BadMagic
           else if md_version h \<noteq> kVersion then BadVersion
           else if unat (md_size h) \<noteq> length data then BadSize
           else if \<not> sections_valid h (length data) then BadSections
           else let insns = map (\<lambda>i. dec_insn (drop (unat (off_instruction h) + i * 8) data)) [0..<unat (num_instruction h)];
                    referenced = remdups (map im_handler (filter (\<lambda>i. im_handler i \<noteq> - 1) insns));
                    aotimpl = (md_flags h AND kFlag_HasWX \<noteq> 0)
                in case dump_walk aotimpl data (unat (off_handlers h)) 0 (unat (num_handlers h)) (unat (off_handlers h)) of
                     Inl e \<Rightarrow> e
                   | Inr computed \<Rightarrow> Mismatches (length (filter (\<lambda>off. unat off \<notin> set computed) referenced)))"

lemma length_record: "length (key_bytes (ph_key p)) = ph_oplen p \<Longrightarrow> unat (oh_oplen (ph_handler p)) \<le> ph_oplen p \<Longrightarrow>
    length (record_of impl m aotimpl p) = record_size aotimpl (ph_handler p)"
  using sizes_le(1) [of "ph_handler p" aotimpl] sizes_le(2) [of aotimpl "ph_handler p" m]
  by (simp add: record_of_def Let_def length_info_bytes plain_size_def)

lemma oht_number_eq: "oht_number a = oht_number b \<longleftrightarrow> a = b" "\<not> unat (oht_number OHT_PrebuiltMapped) < unat (oht_number a)"
  by (cases a; cases b; simp add: oht_number_def)+

lemma walk_reads:
  assumes "serialize_loop L m aotimpl hs off dyn = Some (rs, offs)" and "key_sizes_ok hs"
    and "length pre = base + off"
  shows "dump_walk aotimpl (pre @ concat rs) base i (length hs) (base + off) = Inr (map unat offs)"
  using assms
proof (induction hs arbitrary: off dyn rs offs pre i)
  case (Cons p hs)
  from Cons.prems(1) obtain r dyn' rs' offs' where c: "convert_handler L m aotimpl p dyn = Some (r, dyn')"
    "off \<le> 4294967295" "length r \<le> 4294967295 - off" "serialize_loop L m aotimpl hs (off + length r) dyn' = Some (rs', offs')"
    "rs = r # rs'" "offs = word_of_nat off # offs'"
    by (auto split: if_splits option.splits)
  have k: "length (key_bytes (ph_key p)) = ph_oplen p" "key_sizes_ok hs" using Cons.prems(2) by (simp_all add: key_sizes_ok_def)
  define h where "h = ph_handler p"
  obtain impl where l: "impl_field L aotimpl h dyn = Some (impl, dyn')" "r = record_of impl m aotimpl p"
    "unat (oh_oplen h) \<le> 15" "unat (oh_oplen h) \<le> ph_oplen p" "info_count h \<le> 255"
    using convert_handler_layout [OF c(1) k(1)] by (metis h_def)
  have len: "length r = record_size aotimpl h" using length_record [OF k(1)] l(2,4) by (simp add: h_def)
  have o4: "unat (ucast (oh_oplen h) :: 4 word) = unat (oh_oplen h)"
    using l(3) by (simp add: unsigned_ucast_eq take_bit_nat_eq_self)
  have d: "dec_handler (drop (base + off) (pre @ concat rs)) = fixed_part impl h"
    using Cons.prems(3) by (simp add: c(5) l(2) record_of_def h_def Let_def)
  have size: "recordSize (fixed_part impl h) = plain_size h"
    using l(5) by (auto simp: recordSize_def fixed_part_def plain_size_def o4 oht_number_eq info_count_def unat_u8_of_nat split: if_splits)
  have off: "unat (word_of_nat off :: u32) = off" using c(2) by (simp add: unat_of_nat)
  have le: "plain_size h \<le> code_offset aotimpl h" "code_offset aotimpl h \<le> record_size aotimpl h"
    using sizes_le(1) [of h aotimpl] sizes_le(2) [of aotimpl h m] by simp_all
  have dyn: "oh_type h = OHT_Dynamic \<Longrightarrow> aotimpl \<Longrightarrow> impl = oh_implsize h" using l(1) by (auto simp: impl_field_def split: if_splits)
  have next_rec: "dump_walk aotimpl (pre @ concat rs) base (Suc i) (length hs) (base + off + length r) = Inr (map unat offs')"
    using Cons.IH [OF c(4) k(2), of "pre @ r" "Suc i"] Cons.prems(3) by (simp add: c(5) add.assoc)
  have sz: "length r = (if \<not> aotimpl then plain_size h
      else if oh_type h = OHT_Dynamic then align4 (align4 (plain_size h) + unat (oh_implsize h)) else align4 (plain_size h))"
    unfolding len record_size_def code_offset_def using align4_idem by simp
  define data where "data = pre @ concat rs"
  have room: "length r \<le> length data - (base + off)" "base + off \<le> length data" "4 \<le> length r" "plain_size h \<le> length r"
    using Cons.prems(3) le len by (auto simp: data_def c(5) plain_size_def)
  have code: "aotimpl \<Longrightarrow> oh_type h = OHT_Dynamic \<Longrightarrow> align4 (plain_size h) + unat (oh_implsize h) \<le> length r"
    using sz align4(1) by auto
  have f: "mh_type (fixed_part impl h) = oht_number (oh_type h)" "mh_impl (fixed_part impl h) = impl" by (simp_all add: fixed_part_def)
  have guards: "\<not> (length data < base + off \<or> length data - (base + off) < 4)"
    "\<not> (unat (oht_number OHT_PrebuiltMapped) < unat (oht_number (oh_type h)) \<or> length data - (base + off) < plain_size h)"
    using room oht_number_eq by auto
  have "dump_walk aotimpl data base i (Suc (length hs)) (base + off) = Inr (off # map unat offs')"
    unfolding dump_walk.simps Let_def d [folded data_def] size f if_not_P [OF guards(1)] if_not_P [OF guards(2)]
    using next_rec [folded data_def] sz code room dyn by (auto simp: oht_number_eq)
  then show ?case by (simp add: data_def c(6) off)
qed simp

lemma flags_wx: "((if haswx then kFlag_HasWX else 0) OR (if arm64 then kFlag_ARM64 else kFlag_X64)) AND kFlag_HasWX \<noteq> 0 \<longleftrightarrow> haswx"
  by (simp add: kFlag_HasWX_def kFlag_ARM64_def kFlag_X64_def)

text \<open>
  C20: \<open>dump\<close> accepts what the encoder writes.  Unless the file is for x86-64 with the writable and
  executable flag, every check of \<open>dump\<close> passes on a serialized file, its walk over the handler section
  finds exactly the records, and no instruction refers to an offset without a record.
\<close>

theorem dump_accepts_encoded_file:
  assumes "serialize L E haswx B P s = Some data" and "key_sizes_ok (pe_handlers P)" and "haswx \<longrightarrow> bin_arm64 B"
  shows "dump data = Mismatches 0"
proof -
  from assms(1) obtain ops exprs rs offs "is" where s: "serialize_loop L (mem (v_cpu s)) (haswx \<and> bin_arm64 B) (pe_handlers P) 0 0 = Some (rs, offs)"
    "resolve_insns offs (pe_insnmetas P) = Some is" "write_file E haswx (bin_arm64 B) is ops exprs rs = Some data"
    by (auto simp: serialize_def serializeHandler_def split: option.splits sum.splits)
  have wx: "(haswx \<and> bin_arm64 B) = haswx" using assms(3) by blast
  note loop = serialize_loop_parses [OF s(1) assms(2)] and res = resolve_insns_nth [OF s(2)]
  let ?pre = "\<lambda>h. enc_header h @ concat (map enc_insn is) @ concat (map (enc_operand E) ops) @ concat (map (enc_expr E) exprs)"
  obtain h where h: "data = ?pre h @ concat rs"
    and f: "md_magic h = kMagic" "md_version h = kVersion" "unat (md_size h) = length data"
    "md_flags h = (if haswx then kFlag_HasWX else 0) OR (if bin_arm64 B then kFlag_ARM64 else kFlag_X64)"
    "unat (off_instruction h) = 48" "unat (num_instruction h) = length is" "unat (off_operands h) = 48 + 8 * length is"
    "unat (num_operands h) = length ops" "unat (off_expressions h) = 48 + 8 * length is + 48 * length ops"
    "unat (num_expressions h) = length exprs" "unat (off_handlers h) = 48 + 8 * length is + 48 * length ops + 12 * length exprs"
    "unat (num_handlers h) = length rs"
    using write_file_layout [OF s(3)] append_assoc by metis
  have d: "dec_header data = h" by (simp add: h)
  have pre: "length (?pre h) = unat (off_handlers h) + 0"
    by (simp add: f concat_enc_length [of enc_insn 8] concat_enc_length [of "enc_operand E" 48] concat_enc_length [of "enc_expr E" 12])
  have walk: "dump_walk haswx data (unat (off_handlers h)) 0 (unat (num_handlers h)) (unat (off_handlers h)) = Inr (map unat offs)"
    using walk_reads [OF s(1) assms(2) pre] loop by (simp add: f(12) wx h)
  have len: "length data \<le> 4294967295" using f(3) unsigned_less [of "md_size h", where 'a = nat] by simp
  have l48: "48 \<le> length data" by (simp add: h)
  have secs: "sections_valid h (length data)"
    using pre by (simp add: sections_valid_def f h)
  have ins: "dec_insn (drop (48 + i * 8) data) = is ! i" if i: "i < length is" for i
    unfolding h append_assoc mult.commute [of i] by (subst drop_section [OF _ _ i, where n = 8]) simp_all
  have ref: "unat (im_handler (is ! i)) \<in> unat ` set offs" if "i < length is" "im_handler (is ! i) \<noteq> - 1" for i
    using res that by (metis image_eqI nth_mem)
  show ?thesis
    unfolding dump_def d Let_def f(4) flags_wx walk sum.case
    using len l48 secs f(1-3) ins ref by (auto simp: f(5,6) filter_empty_conv)
qed

lemma pe0_keys: "key_sizes_ok (pe_handlers pe0)"
  by (simp add: key_sizes_ok_def pe0_def key_bytes_def word_bytes_def)

theorem dump_accepts_encoded_file_witness:
  "\<exists>data. serialize lib0 enums0 True peb0 pe0 vm0 = Some data \<and> dump data = Mismatches 0"
proof -
  obtain data where d: "serialize lib0 enums0 True peb0 pe0 vm0 = Some data" using serialize0 by blast
  have "bin_arm64 peb0" by (simp add: peb0_def)
  with dump_accepts_encoded_file [OF d pe0_keys] d show ?thesis by simp
qed

lemma dump_walk_two: "dump_walk aotimpl data base i 2 off = dump_walk aotimpl data base i (Suc (Suc 0)) off"
  by (simp only: numeral_2_eq_2)

text \<open>Two one-byte handlers for x86-64.\<close>

definition pe_x64 :: pre_encoder where
  "pe_x64 = \<lparr>pe_handlers = [\<lparr>ph_oplen = 1, ph_key = K1 144, ph_handler = \<lparr>oh_oplen = 1, oh_type = OHT_Remill, oh_implsize = 0, oh_args = [], oh_impl = 4096\<rparr>\<rparr>,
       \<lparr>ph_oplen = 1, ph_key = K1 195, ph_handler = \<lparr>oh_oplen = 1, oh_type = OHT_Remill, oh_implsize = 0, oh_args = [], oh_impl = 4096\<rparr>\<rparr>],
     pe_ranges = [(0, 2), (2, 2), (2, 2), (2, 2), (2, 2)], pe_insnmetas = []\<rparr>"

text \<open>
  \<open>dump\<close> rejects files for x86-64 with the writable and executable flag.  The encoder aligns records and
  embeds code only for ARM64, \<open>dump\<close> whenever the flag is set: of two records of five bytes each it
  finds the first and reports the second as truncated.
\<close>

lemma dump_rejects_wx_x64:
  "\<exists>data. serialize lib0 enums0 True (peb0\<lparr>bin_arm64 := False\<rparr>) pe_x64 vm0 = Some data \<and> dump data = BadHandler 1"
  by (simp add: serialize_def vm0_def convertOperands_def serializeHandler_def pe_x64_def peb0_def convert_handler_def
      impl_field_def Let_def write_file_def put_def key_bytes_def word_bytes_def lib0_def)
    (simp add: dump_def Let_def sections_valid_def kFlag_HasWX_def kFlag_X64_def dump_walk_two recordSize_def oht_number_def align4_def)

end
