(* ===== verification/InterpMeta.thy ===== *)
theory InterpMeta
  imports PreEncoder
begin

text \<open>
  \<open>src/InterpMetaData.h\<close> and \<open>src/InterpMetaData.cpp\<close>: execution from metadata files.  Loading a file,
  looking up the instruction of an address, executing a Remill handler from its record, and the
  main loop, which after each instruction resolves the next one.  Modelled for hosts other than iOS and
  with assertions.  A file is mapped read-only at \<open>rt_map\<close>; reading past its end is a
  fault.  Calling a host function from guest code (\<open>call_host\<close>) is the parameter \<open>host\<close>.
\<close>

section \<open>Runtimes\<close>

record RuntimeMetaData =
  rt_map :: u64
  rt_data :: bytes
  rt_insns :: "InsnMeta list"
  rt_mcinsts :: "mcinst list"
  rt_nexticache :: "u32 list"
  rt_base :: u64
  rt_end :: u64

definition contain :: "RuntimeMetaData \<Rightarrow> u64 \<Rightarrow> bool" where
  "contain rt addr \<longleftrightarrow> rt_base rt \<le> addr \<and> addr < rt_end rt"

text \<open>\<open>mdinsns[i]\<close>, also past the last instruction, where the next section is read.\<close>

definition insn_at :: "RuntimeMetaData \<Rightarrow> nat \<Rightarrow> InsnMeta res" where
  "insn_at rt i =
     (let off = unat (off_instruction (dec_header (rt_data rt))) + 8 * i in
      if length (rt_data rt) < off + 8 then Inl OutOfBounds else Inr (dec_insn (drop off (rt_data rt))))"

text \<open>\<open>IMetaData::handler\<close>: the offset of the record in the file.\<close>

definition handler_offset :: "bytes \<Rightarrow> InsnMeta \<Rightarrow> nat" where
  "handler_offset data insn = unat (off_handlers (dec_header data)) + unat (im_handler insn)"

definition handler_at :: "bytes \<Rightarrow> InsnMeta \<Rightarrow> bytes res" where
  "handler_at data insn =
     (if length data < handler_offset data insn + 4 then Inl OutOfBounds else Inr (drop (handler_offset data insn) data))"

text \<open>The loop of the constructor over the instructions: decoding the ones LLVM instructions stand for.\<close>

fun load_mcinsts :: "lib_env \<Rightarrow> bytes \<Rightarrow> InsnMeta list \<Rightarrow> mcinst list \<Rightarrow> mcinst list res" where
  "load_mcinsts L data [] mcs = Inr mcs"
| "load_mcinsts L data (i # is) mcs =
     res_bind (handler_at data i) (\<lambda>bs.
       let d = dec_handler bs in
       if mh_type d = oht_number OHT_MCInst
       then if unat (mh_impl d) \<noteq> length mcs then Inl Abort
            else load_mcinsts L data is (mcs @ [snd (l_disassemble L (mh_opcode bs))])
       else if mh_type d = oht_number OHT_Prebuilt \<or> mh_type d = oht_number OHT_PrebuiltMapped then Inl Abort
       else load_mcinsts L data is mcs)"

definition load_runtime :: "lib_env \<Rightarrow> u64 \<Rightarrow> bytes \<Rightarrow> u64 \<Rightarrow> u64 \<Rightarrow> RuntimeMetaData res" where
  "load_runtime L addr data rtbase rtend =
     (let h = dec_header data; n = unat (num_instruction h) in
      if length data < 48 \<or> length data < unat (off_instruction h) + 8 * n then Inl OutOfBounds
      else let insns = map (\<lambda>i. dec_insn (drop (unat (off_instruction h) + 8 * i) data)) [0..<n] in
           res_bind (load_mcinsts L data insns []) (\<lambda>mcs.
           Inr \<lparr>rt_map = addr, rt_data = data, rt_insns = insns, rt_mcinsts = mcs,
                rt_nexticache = map (\<lambda>i. word_of_nat (i + 1)) [0..<n], rt_base = rtbase, rt_end = rtend\<rparr>))"

text \<open>\<open>RuntimeMetaData::find\<close>: the index of the instruction, if its address matches.\<close>

definition rt_find :: "RuntimeMetaData \<Rightarrow> u64 \<Rightarrow> nat option res" where
  "rt_find rt addr =
     (let key = \<lparr>im_rva = ucast (addr - rt_base rt), im_handler = 0\<rparr> in
      res_bind (binary_search (\<lambda>x y. im_rva x < im_rva y) (rt_insns rt) (length (rt_insns rt)) key) (\<lambda>found.
      res_bind (insn_at rt found) (\<lambda>insn. Inr (if im_rva insn = im_rva key then Some found else None))))"

text \<open>\<open>InterpMetaData\<close>: the runtimes ordered by base address.\<close>

type_synonym runtimes = "RuntimeMetaData list"

definition md_add :: "RuntimeMetaData \<Rightarrow> runtimes \<Rightarrow> runtimes" where
  "md_add rt rts = sort_key rt_base (rts @ [rt])"

definition md_reset :: "runtimes \<Rightarrow> runtimes" where
  "md_reset rts = []"

text \<open>\<open>InterpMetaData::find\<close>: no runtime, or the runtime's index with the instruction's.\<close>

definition md_find :: "runtimes \<Rightarrow> u64 \<Rightarrow> (nat \<times> nat option) option res" where
  "md_find rts addr =
     res_bind (binary_search (<) (map rt_base rts) (length rts) addr) (\<lambda>found.
       let k = (if found = length rts then length rts - 1 else found) in
       res_bind (arr_at rts k) (\<lambda>rt.
       if rt_end rt < addr then Inr None
       else res_bind (rt_find rt addr) (\<lambda>i. Inr (Some (k, i)))))"

section \<open>Executing an instruction\<close>

definition md_operand_at :: "enums \<Rightarrow> bytes \<Rightarrow> nat \<Rightarrow> md_operand res" where
  "md_operand_at E data i =
     (let off = unat (off_operands (dec_header data)) + 48 * i in
      if length data < off + 48 then Inl OutOfBounds else Inr (dec_operand E (take 48 (drop off data))))"

definition md_exprs :: "enums \<Rightarrow> bytes \<Rightarrow> md_expr list" where
  "md_exprs E data =
     map (\<lambda>i. dec_expr E (drop (unat (off_expressions (dec_header data)) + 12 * i) data)) [0..<unat (num_expressions (dec_header data))]"

text \<open>\<open>None\<close>: out of fuel in the evaluation of an expression.\<close>

fun opt_map :: "('a \<Rightarrow> 'b res option) \<Rightarrow> 'a list \<Rightarrow> 'b list res option" where
  "opt_map f [] = Some (Inr [])"
| "opt_map f (x # xs) =
     (case f x of
        None \<Rightarrow> None
      | Some (Inl e) \<Rightarrow> Some (Inl e)
      | Some (Inr y) \<Rightarrow>
          (case opt_map f xs of None \<Rightarrow> None | Some (Inl e) \<Rightarrow> Some (Inl e) | Some (Inr ys) \<Rightarrow> Some (Inr (y # ys))))"

definition md_params :: "nat \<Rightarrow> enums \<Rightarrow> bytes \<Rightarrow> bytes \<Rightarrow> cpu \<Rightarrow> u64 list res option" where
  "md_params fuel E data bs c =
     (let n = unat (mh_oprnum (dec_handler bs)) in
      if 14 < n then Some (Inl OutOfBounds)
      else opt_map (\<lambda>j. case md_operand_at E data (fst (mh_operand bs j)) of
             Inl e \<Rightarrow> Some (Inl e)
           | Inr mo \<Rightarrow> md_LiftOperandRaw fuel (mem c) (state_ptr c) (md_exprs E data) mo (snd (mh_operand bs j))) [0..<n])"

definition md_interpRemill :: "nat \<Rightarrow> lib_env \<Rightarrow> enums \<Rightarrow> bytes \<Rightarrow> bytes \<Rightarrow> cpu \<Rightarrow> cpu res option" where
  "md_interpRemill fuel L E data bs c0 =
     (let d = dec_handler bs in
      case arr_at (l_handlers L) (unat (mh_impl d)) of
        Inl e \<Rightarrow> Some (Inl e)
      | Inr impl \<Rightarrow>
          let c = SetNextPC L (ucast (mh_oplen d)) c0 in
          case md_params fuel E data bs c of
            None \<Rightarrow> None
          | Some (Inl e) \<Rightarrow> Some (Inl e)
          | Some (Inr params) \<Rightarrow>
              if 13 < length params then Some (Inl Abort)
              else if h_impl impl = 0 then Some (Inl NullCall)
              else Some (Inr (UpdatePC L (l_call L (h_impl impl) (0 # state_ptr c # params) c))))"

definition exec_insn :: "nat \<Rightarrow> lib_env \<Rightarrow> enums \<Rightarrow> RuntimeMetaData \<Rightarrow> nat \<Rightarrow> cpu \<Rightarrow> cpu res option" where
  "exec_insn fuel L E rt i c0 =
     (case res_bind (insn_at rt i) (\<lambda>insn. res_bind (handler_at (rt_data rt) insn) (\<lambda>bs. Inr (handler_offset (rt_data rt) insn, bs))) of
        Inl e \<Rightarrow> Some (Inl e)
      | Inr (off, bs) \<Rightarrow>
          let c = (if l_watchdog L then l_insn_handler L (load64 (mem c0) (pcptr c0)) c0 else c0); d = dec_handler bs in
          if mh_type d = oht_number OHT_Remill then md_interpRemill fuel L E (rt_data rt) bs c
          else if mh_type d = oht_number OHT_MCInst
          then Some (if l_arm64 L
                     then res_bind (arr_at (rt_mcinsts rt) (unat (mh_impl d))) (\<lambda>inst. interpMCInstARM64 (l_mc L) inst c)
                     else Inl Abort)
          else if mh_type d = oht_number OHT_Dynamic
          then Some (Inr (l_run L (rt_map rt + word_of_nat (off + mh_code_offset bs)) c))
          else Some (Inl Abort))"

section \<open>The main loop\<close>

record md_state =
  ms_rts :: runtimes
  ms_rt :: nat \<comment> \<open>the current runtime\<close>
  ms_insn :: nat \<comment> \<open>the current instruction\<close>
  ms_cpu :: cpu

text \<open>
  One turn of the inner loop, which resolves the program counter: the instruction is known, or guest code
  has returned to the embedder, whose marker \<open>this\<close> is the return address of the outermost function,
  or a host function is to be called.
\<close>

datatype next_step = Next md_state | Return | HostCall

definition next_in_runtime :: "RuntimeMetaData \<Rightarrow> nat \<Rightarrow> u64 \<Rightarrow> (nat \<times> RuntimeMetaData) res" where
  "next_in_runtime rt i pc =
     res_bind (insn_at rt (Suc i)) (\<lambda>seq.
       if rt_base rt + ucast (im_rva seq) = pc then Inr (Suc i, rt)
       else res_bind (arr_at (rt_nexticache rt) i) (\<lambda>c.
            res_bind (insn_at rt (unat c)) (\<lambda>cached.
            if rt_base rt + ucast (im_rva cached) = pc then Inr (unat c, rt)
            else res_bind (rt_find rt pc) (\<lambda>found.
                 case found of
                   None \<Rightarrow> Inl Abort
                 | Some k \<Rightarrow> Inr (k, rt\<lparr>rt_nexticache := (rt_nexticache rt)[k := word_of_nat k]\<rparr>)))))"

definition resolve_pc :: "u64 \<Rightarrow> md_state \<Rightarrow> u64 \<Rightarrow> next_step res" where
  "resolve_pc this S pc =
     res_bind (arr_at (ms_rts S) (ms_rt S)) (\<lambda>rt.
       if contain rt pc
       then res_bind (next_in_runtime rt (ms_insn S) pc) (\<lambda>(k, rt').
            Inr (Next (S\<lparr>ms_rts := (ms_rts S)[ms_rt S := rt'], ms_insn := k\<rparr>)))
       else if rt_base (hd (ms_rts S)) \<le> pc \<and> pc < rt_end (last (ms_rts S))
       then res_bind (md_find (ms_rts S) pc) (\<lambda>r.
            case r of
              Some (j, Some k) \<Rightarrow> Inr (Next (S\<lparr>ms_rt := j, ms_insn := k\<rparr>))
            | _ \<Rightarrow> Inl Abort)
       else if pc = this then Inr Return
       else Inr HostCall)"

text \<open>\<open>CallHost\<close>: only the ARM64 build can call host functions; execution goes on at the link register.\<close>

definition CallHost :: "lib_env \<Rightarrow> (u64 \<Rightarrow> cpu \<Rightarrow> cpu) \<Rightarrow> u64 \<Rightarrow> cpu \<Rightarrow> cpu res" where
  "CallHost L host addr c =
     (if l_arm64 L
      then let c' = host addr c in Inr (c'\<lparr>mem := store64 (mem c') (pcptr c') (load64 (mem c') (a64_addr c' (A_gpr 30)))\<rparr>)
      else Inl Abort)"

text \<open>The inner loop, which says whether execution ends; host functions may keep calling each other, so it takes fuel.\<close>

fun resolve_loop :: "nat \<Rightarrow> lib_env \<Rightarrow> (u64 \<Rightarrow> cpu \<Rightarrow> cpu) \<Rightarrow> u64 \<Rightarrow> md_state \<Rightarrow> (bool \<times> md_state) res option" where
  "resolve_loop 0 L host this S = None"
| "resolve_loop (Suc fuel) L host this S =
     (let pc = load64 (mem (ms_cpu S)) (pcptr (ms_cpu S)) in
      case resolve_pc this S pc of
        Inl e \<Rightarrow> Some (Inl e)
      | Inr HostCall \<Rightarrow>
          (case CallHost L host pc (ms_cpu S) of
             Inl e \<Rightarrow> Some (Inl e)
           | Inr c \<Rightarrow> resolve_loop fuel L host this (S\<lparr>ms_cpu := c\<rparr>))
      | Inr Return \<Rightarrow> Some (Inr (True, S))
      | Inr (Next S') \<Rightarrow> Some (Inr (False, S')))"

fun vmEntry :: "nat \<Rightarrow> lib_env \<Rightarrow> enums \<Rightarrow> (u64 \<Rightarrow> cpu \<Rightarrow> cpu) \<Rightarrow> u64 \<Rightarrow> md_state \<Rightarrow> md_state res option" where
  "vmEntry 0 L E host this S = None"
| "vmEntry (Suc fuel) L E host this S =
     (if load64 (mem (ms_cpu S)) (pcptr (ms_cpu S)) = this then Some (Inr S)
      else case arr_at (ms_rts S) (ms_rt S) of
        Inl e \<Rightarrow> Some (Inl e)
      | Inr rt \<Rightarrow>
          (case exec_insn fuel L E rt (ms_insn S) (ms_cpu S) of
             None \<Rightarrow> None
           | Some (Inl e) \<Rightarrow> Some (Inl e)
           | Some (Inr c) \<Rightarrow>
               (case resolve_loop fuel L host this (S\<lparr>ms_cpu := c\<rparr>) of
                  None \<Rightarrow> None
                | Some (Inl e) \<Rightarrow> Some (Inl e)
                | Some (Inr (finished, S')) \<Rightarrow> if finished then Some (Inr S') else vmEntry fuel L E host this S')))"

text \<open>
  \<open>main\<close>: the arguments go to the first two argument registers of the guest's calling convention, the
  marker to the return address, and the result is the low half of the return register.
\<close>

definition return_ptr :: "lib_env \<Rightarrow> cpu \<Rightarrow> u64 \<times> cpu" where
  "return_ptr L c =
     (if l_arm64 L then (a64_addr c (A_gpr 30), c)
      else let sp = x86_addr c (X_gpr G_rsp);
               new = load64 (mem c) sp - 8 * (if l_windows L then 5 else 1)
           in (new, c\<lparr>mem := store64 (mem c) sp new\<rparr>))"

definition set_arguments :: "lib_env \<Rightarrow> u64 \<Rightarrow> u64 \<Rightarrow> cpu \<Rightarrow> cpu" where
  "set_arguments L argc argv c =
     (if l_arm64 L then snd (setRegisterAArch64 (snd (setRegisterAArch64 c (X 0) argc)) (X 1) argv)
      else if l_windows L then snd (setRegisterX86 (snd (setRegisterX86 c RCX argc)) RDX argv)
      else snd (setRegisterX86 (snd (setRegisterX86 c RDI argc)) RSI argv))"

definition main_result :: "lib_env \<Rightarrow> cpu \<Rightarrow> u32" where
  "main_result L c = (if l_arm64 L then ucast (load64 (mem c) (a64_addr c (A_gpr 0))) else ucast (load64 (mem c) (x86_addr c (X_gpr G_rax))))"

definition md_main :: "nat \<Rightarrow> lib_env \<Rightarrow> enums \<Rightarrow> (u64 \<Rightarrow> cpu \<Rightarrow> cpu) \<Rightarrow> u64 \<Rightarrow> runtimes \<Rightarrow> u64 \<Rightarrow> u64 \<Rightarrow> u64 \<Rightarrow> cpu \<Rightarrow> (u32 \<times> cpu) res option" where
  "md_main fuel L E host this rts entry argc argv c =
     (case md_find rts entry of
        Inl e \<Rightarrow> Some (Inl e)
      | Inr None \<Rightarrow> Some (Inr (- 1, c))
      | Inr (Some (j, None)) \<Rightarrow> Some (Inr (- 1, c))
      | Inr (Some (j, Some i)) \<Rightarrow>
          (let c1 = set_arguments L argc argv c;
               c2 = c1\<lparr>mem := store64 (mem c1) (pcptr c1) entry\<rparr>;
               (p, c3) = return_ptr L c2;
               c4 = c3\<lparr>mem := store64 (mem c3) p this\<rparr>
           in case vmEntry fuel L E host this \<lparr>ms_rts = rts, ms_rt = j, ms_insn = i, ms_cpu = c4\<rparr> of
                None \<Rightarrow> None
              | Some (Inl e) \<Rightarrow> Some (Inl e)
              | Some (Inr S) \<Rightarrow> Some (Inr (main_result L (ms_cpu S), ms_cpu S))))"

section \<open>Executing from metadata\<close>

lemma opt_map_Some: "\<forall>x\<in>set xs. f x = Some (Inr (g x)) \<Longrightarrow> opt_map f xs = Some (Inr (map g xs))"
  by (induction xs) auto

text \<open>A state of the machine the file was encoded on, with the thread state it is executed in.\<close>

definition encoded_ok :: "enums \<Rightarrow> vm \<Rightarrow> regoffs \<Rightarrow> md_operand list \<Rightarrow> md_expr list \<Rightarrow> nat \<Rightarrow> bool" where
  "encoded_ok E s ro ops exprs fuel \<longleftrightarrow> v_regoffs s = Some ro \<and> convertOperands ro (v_operands s) = Inr (ops, exprs) \<and>
     list_all (operand_ok E) ops \<and> list_all (expr_ok E) exprs \<and>
     list_all (\<lambda>op. op_size op \<le> 65535 \<and> operand_depth op \<le> fuel) (v_operands s)"

lemma params_alike:
  assumes ok: "encoded_ok E s ro ops exprs fuel" and lift: "lift_args s c (oh_args h) = Inr params"
    and h: "oh_type h = OHT_Remill" "handler_parses L m aotimpl p bs" "ph_handler p = h"
    and ops: "\<forall>i<length ops. md_operand_at E data i = Inr (ops ! i)" and ex: "md_exprs E data = exprs"
  shows "md_params fuel E data bs c = Some (Inr params)"
proof -
  let ?n = "length (oh_args h)" and ?args = "oh_args h"
  let ?f = "\<lambda>(i, p). res_bind (arr_at (v_operands s) i) (\<lambda>op. LiftOperandRaw ro (mem c) (state_ptr c) op p)"
  have n: "?n \<le> 14" and pm: "res_map ?f ?args = Inr params"
    using lift ok by (auto simp: lift_args_def encoded_ok_def split: if_splits)
  have len: "length params = ?n" using res_map_length [OF pm] .
  have d: "unat (mh_oprnum (dec_handler bs)) = ?n" "\<And>j. j < ?n \<Longrightarrow> mh_operand bs j = ?args ! j"
    using h by (simp_all add: handler_parses_def Let_def info_count_def)
  have one: "(case md_operand_at E data (fst (mh_operand bs j)) of Inl e \<Rightarrow> Some (Inl e)
      | Inr mo \<Rightarrow> md_LiftOperandRaw fuel (mem c) (state_ptr c) (md_exprs E data) mo (snd (mh_operand bs j))) = Some (Inr (params ! j))"
    if j: "j < ?n" for j
  proof -
    obtain i ptr where a: "?args ! j = (i, ptr)" by fastforce
    with res_map_nth [OF pm j] have i: "i < length (v_operands s)" "LiftOperandRaw ro (mem c) (state_ptr c) (v_operands s ! i) ptr = Inr (params ! j)"
      by (auto simp: arr_at_def split: if_splits)
    have "op_size (v_operands s ! i) \<le> 65535" "operand_depth (v_operands s ! i) \<le> fuel" "convertOperands ro (v_operands s) = Inr (ops, exprs)"
      using ok i(1) by (auto simp: encoded_ok_def list_all_length)
    from convert_operands_eval [OF this(3) i(1) this(1) i(2) this(2)] ops ex a d(2) [OF j] i(1) show ?thesis by simp
  qed
  have "opt_map (\<lambda>j. case md_operand_at E data (fst (mh_operand bs j)) of Inl e \<Rightarrow> Some (Inl e)
      | Inr mo \<Rightarrow> md_LiftOperandRaw fuel (mem c) (state_ptr c) (md_exprs E data) mo (snd (mh_operand bs j))) [0..<?n] = Some (Inr (map ((!) params) [0..<?n]))"
    by (rule opt_map_Some) (use one in auto)
  moreover have "map ((!) params) [0..<?n] = params" using map_nth [of params] by (simp add: len)
  moreover have "\<not> 14 < ?n" using n by simp
  ultimately show ?thesis unfolding md_params_def Let_def d(1) by (simp only: if_False)
qed

lemma oplen_ucast: "unat n4 = unat n8 \<Longrightarrow> ucast n4 = n8" for n4 :: "4 word" and n8 :: u8
proof -
  assume e: "unat n4 = unat n8"
  have "unat n4 < 256" using unsigned_less [of n4, where 'a = nat] by simp
  then have "unat (ucast n4 :: u8) = unat n4" by (simp add: unsigned_ucast_eq unsigned_take_bit_eq take_bit_nat_eq_self)
  with e show ?thesis by (simp only: word_unat_eq_iff)
qed

lemma remill_alike:
  assumes ok: "encoded_ok E s ro ops exprs fuel" and run: "interpRemill L h (s\<lparr>v_cpu := c\<rparr>) = Inr (True, s')"
    and h: "oh_type h = OHT_Remill" "handler_parses L m aotimpl p bs" "ph_handler p = h"
    and ops: "\<forall>i<length ops. md_operand_at E data i = Inr (ops ! i)" and ex: "md_exprs E data = exprs"
  shows "md_interpRemill fuel L E data bs c = Some (Inr (v_cpu s'))"
proof -
  let ?c = "SetNextPC L (oh_oplen h) c"
  from run obtain params where p: "lift_args s ?c (oh_args h) = Inr params" "length params \<le> 13" "oh_impl h \<noteq> 0"
    "v_cpu s' = UpdatePC L (l_call L (oh_impl h) (0 # state_ptr ?c # params) ?c)"
    by (auto simp: interpRemill_def Let_def res_bind_Inr_iff lift_args_def split: if_splits)
  have d: "unat (mh_impl (dec_handler bs)) < length (l_handlers L)" "h_impl (l_handlers L ! unat (mh_impl (dec_handler bs))) = oh_impl h"
    "ucast (mh_oplen (dec_handler bs)) = oh_oplen h"
    using h oplen_ucast by (auto simp: handler_parses_def Let_def)
  from params_alike [OF ok p(1) h ops ex] p d show ?thesis by (simp add: md_interpRemill_def Let_def)
qed

text \<open>
  C7: executing from the metadata file is executing the encoded instruction.  For an
  instruction with a Remill handler in a file the encoder wrote, whatever thread state it is executed in: when the opcode
  engine's own interpretation of that handler succeeds, the metadata interpreter,
  reading the operands and the implementation from the file, reaches the same thread state.
\<close>

theorem metadata_executes_like_engine:
  assumes "serialize L E haswx B P s = Some data" and "key_sizes_ok (pe_handlers P)" and "enums_ok E"
    and "encoded_ok E s ro ops exprs fuel" and "rt_data rt = data" and "i < length (pe_insnmetas P)"
    and "im_handler (pe_insnmetas P ! i) \<noteq> - 1" and "h = ph_handler (pe_handlers P ! unat (im_handler (pe_insnmetas P ! i)))"
    and "oh_type h = OHT_Remill" and "interpret_handler L h (s\<lparr>v_cpu := c\<rparr>) = Inr (True, s')"
  shows "exec_insn fuel L E rt i c = Some (Inr (v_cpu s'))"
proof -
  have conv: "convertOperands (case v_regoffs s of Some ro \<Rightarrow> ro | None \<Rightarrow> Map.empty) (v_operands s) = Inr (ops, exprs)"
    "list_all (operand_ok E) ops" "list_all (expr_ok E) exprs" using assms(4) by (auto simp: encoded_ok_def)
  note r = serialize_reads [OF assms(1-3) conv, unfolded Let_def]
  define d where "d = dec_header data"
  define insn where "insn = dec_insn (drop (unat (off_instruction d) + 8 * i) data)"
  define bs where "bs = drop (unat (off_handlers d) + unat (im_handler insn)) data"
  have n: "unat (num_instruction d) = length (pe_insnmetas P)" "unat (num_operands d) = length ops" "unat (num_expressions d) = length exprs"
    using r by (simp_all add: d_def)
  have secs: "sections_valid d (length data)" using r by (simp add: d_def)
  have parses: "handler_parses L (mem (v_cpu s)) (haswx \<and> bin_arm64 B) (pe_handlers P ! unat (im_handler (pe_insnmetas P ! i))) bs"
    and room: "unat (off_handlers d) + unat (im_handler insn) + 4 \<le> length data"
    using r assms(6,7) by (auto simp: d_def insn_def bs_def)
  have at: "insn_at rt i = Inr insn" "handler_at data insn = Inr bs"
    using secs assms(5,6) n(1) room by (auto simp: insn_at_def insn_def d_def [symmetric] Let_def handler_at_def handler_offset_def bs_def sections_valid_def)
  have opsd: "\<forall>j<length ops. md_operand_at E data j = Inr (ops ! j)"
    using r secs n(2) by (auto simp: md_operand_at_def d_def [symmetric] Let_def sections_valid_def)
  have exd: "md_exprs E data = exprs"
    using r n(3) by (auto simp: md_exprs_def d_def [symmetric] intro: nth_equalityI)
  have ty: "mh_type (dec_handler bs) = oht_number OHT_Remill" using parses assms(8,9) by (simp add: handler_parses_def Let_def)
  let ?c = "if l_watchdog L then l_insn_handler L (load64 (mem c) (pcptr c)) c else c"
  have "interpRemill L h (s\<lparr>v_cpu := ?c\<rparr>) = Inr (True, s')"
    using assms(9,10) by (simp add: interpret_handler_def Let_def split: if_splits)
  from remill_alike [OF assms(4) this assms(9) parses assms(8) [symmetric] opsd exd] show ?thesis
    unfolding exec_insn_def at(1) assms(5) res_bind_simps at(2) by (simp add: Let_def ty)
qed

text \<open>A file with one instruction that has an immediate operand.\<close>

definition vm1 :: vm where
  "vm1 = vm0\<lparr>v_operands := [\<lparr>op_value = V_imm 7 False, op_action_write = False, op_size = 64\<rparr>]\<rparr>"

definition entry1 :: opc_handler where
  "entry1 = \<lparr>oh_oplen = 4, oh_type = OHT_Remill, oh_implsize = 0, oh_args = [(0, False)], oh_impl = 4096\<rparr>"

definition pe1 :: pre_encoder where
  "pe1 = \<lparr>pe_handlers = [\<lparr>ph_oplen = 4, ph_key = K4 67305985, ph_handler = entry1\<rparr>],
     pe_ranges = [(0, 0), (0, 0), (0, 1), (1, 1), (1, 1)], pe_insnmetas = [\<lparr>im_rva = 16, im_handler = 0\<rparr>]\<rparr>"

lemma convert1: "convertOperands Map.empty (v_operands vm1) =
    Inr ([\<lparr>mo_size = 64, mo_action_write = False, mo_value = MV_imm 7 False\<rparr>], [])"
  by (simp add: vm1_def convertOperands_def ConvertOperand_def)

lemma serialize1: "\<exists>data. serialize lib0 enums0 True peb0 pe1 vm1 = Some data"
proof -
  have "v_regoffs vm1 = Some Map.empty" by (simp add: vm1_def vm0_def)
  then show ?thesis
    by (simp add: serialize_def convert1 serializeHandler_def pe1_def peb0_def convert_handler_def entry1_def lib0_def
      impl_field_def Let_def write_file_def put_def key_bytes_def word_bytes_def align4_def)
qed

theorem metadata_executes_like_engine_witness:
  "\<exists>data c'. serialize lib0 enums0 True peb0 pe1 vm1 = Some data \<and>
     exec_insn 0 lib0 enums0 \<lparr>rt_map = 0, rt_data = data, rt_insns = [], rt_mcinsts = [], rt_nexticache = [], rt_base = 0, rt_end = 0\<rparr> 0 cpu0
       = Some (Inr c')"
proof -
  obtain data where d: "serialize lib0 enums0 True peb0 pe1 vm1 = Some data" using serialize1 by blast
  have k: "key_sizes_ok (pe_handlers pe1)" by (simp add: key_sizes_ok_def pe1_def key_bytes_def word_bytes_def)
  have e: "encoded_ok enums0 vm1 Map.empty [\<lparr>mo_size = 64, mo_action_write = False, mo_value = MV_imm 7 False\<rparr>] [] 0"
    using convert1 by (simp add: encoded_ok_def vm1_def vm0_def operand_ok_def operand_depth_def)
  obtain s' where s': "interpret_handler lib0 entry1 (vm1\<lparr>v_cpu := cpu0\<rparr>) = Inr (True, s')"
    by (simp add: interpret_handler_def entry1_def lib0_def interpRemill_def lift_args_def vm1_def vm0_def LiftOperandRaw_def Let_def)
  let ?rt = "\<lparr>rt_map = 0, rt_data = data, rt_insns = [], rt_mcinsts = [], rt_nexticache = [], rt_base = 0, rt_end = 0\<rparr>"
  have "exec_insn 0 lib0 enums0 ?rt 0 cpu0 = Some (Inr (v_cpu s'))"
    by (rule metadata_executes_like_engine [OF d k enums0_ok e _ _ _ _ _ s']) (simp_all add: pe1_def entry1_def)
  with d show ?thesis by blast
qed

section \<open>Resolving the program counter\<close>

text \<open>
  A loaded runtime: its instruction array is the one in the file, ordered by address, and the cache
  has for each instruction the following one or the instruction itself.
\<close>

definition rt_ok :: "RuntimeMetaData \<Rightarrow> bool" where
  "rt_ok rt \<longleftrightarrow> (\<forall>j<length (rt_insns rt). insn_at rt j = Inr (rt_insns rt ! j)) \<and>
     sorted_wrt (<) (map im_rva (rt_insns rt)) \<and> length (rt_insns rt) < 4294967296 \<and>
     length (rt_nexticache rt) = length (rt_insns rt) \<and>
     (\<forall>j<length (rt_insns rt). unat (rt_nexticache rt ! j) = j \<or> unat (rt_nexticache rt ! j) = Suc j \<or> Suc j = length (rt_insns rt))"

lemma load_runtime_ok:
  assumes "load_runtime L addr data rtbase rtend = Inr rt" and "sorted_wrt (<) (map im_rva (rt_insns rt))"
  shows "rt_ok rt"
proof -
  let ?n = "unat (num_instruction (dec_header data))"
  let ?is = "map (\<lambda>i. dec_insn (drop (unat (off_instruction (dec_header data)) + 8 * i) data)) [0..<?n]"
  have r: "rt_data rt = data" "rt_insns rt = ?is" "rt_nexticache rt = map (\<lambda>i. word_of_nat (i + 1)) [0..<?n]"
    "unat (off_instruction (dec_header data)) + 8 * ?n \<le> length data"
    using assms(1) by (auto simp: load_runtime_def Let_def res_bind_Inr_iff split: if_splits)
  have n: "?n < 4294967296" using unsigned_less [of "num_instruction (dec_header data)", where 'a = nat] by simp
  have "insn_at rt j = Inr (?is ! j)" if "j < ?n" for j using that r(1,4) by (auto simp: insn_at_def Let_def)
  moreover have "unat (word_of_nat (j + 1) :: u32) = Suc j" if "j < ?n" "Suc j \<noteq> ?n" for j
    using that n by (simp add: unat_of_nat del: of_nat_add of_nat_Suc)
  ultimately show ?thesis using assms(2) n by (auto simp: rt_ok_def r)
qed

lemma ucast_ucast_u32: "(ucast (ucast a :: u64) :: u32) = a"
  by (rule bit_word_eqI) (auto simp: bit_simps dest: bit_imp_le_length)

lemma ucast_u32_inj: "(ucast a :: u64) = ucast b \<longleftrightarrow> a = b" for a b :: u32
  by (metis ucast_ucast_u32)

lemma rt_find_hit:
  assumes ok: "rt_ok rt" and k: "k < length (rt_insns rt)" "rt_base rt + ucast (im_rva (rt_insns rt ! k)) = pc"
  shows "rt_find rt pc = Inr (Some k)"
proof -
  let ?arr = "rt_insns rt" and ?key = "\<lparr>im_rva = im_rva (rt_insns rt ! k), im_handler = 0\<rparr>"
  have s: "sorted_wrt (<) (map im_rva ?arr)" and at: "insn_at rt k = Inr (?arr ! k)" using ok k(1) by (auto simp: rt_ok_def)
  have key: "ucast (pc - rt_base rt) = im_rva (?arr ! k)" using k(2) by (metis add_diff_cancel_left' ucast_ucast_u32)
  have so: "sorted_by (\<lambda>x y. im_rva x < im_rva y) ?arr"
    unfolding sorted_by_key using s strict_sorted_imp_sorted by blast
  have lt: "im_rva (?arr ! i) < im_rva (?arr ! j)" if "i < j" "j < length ?arr" for i j
    using sorted_wrt_nth_less [OF s, of i j] that by simp
  have "split_at (\<lambda>x y. im_rva x < im_rva y) ?arr ?key k"
    using k(1) lt by (auto simp: split_at_def not_less le_less dest: le_imp_less_or_eq)
  moreover have "?arr \<noteq> []" using k(1) by auto
  ultimately have "binary_search (\<lambda>x y. im_rva x < im_rva y) ?arr (length ?arr) ?key = Inr k"
    using search_order.search_eqI [OF search_order_key so] by blast
  then show ?thesis by (simp add: rt_find_def Let_def key at)
qed

lemma rt_ok_cache:
  assumes "rt_ok rt" and "k < length (rt_insns rt)"
  shows "rt_ok (rt\<lparr>rt_nexticache := (rt_nexticache rt)[k := word_of_nat k]\<rparr>)"
proof -
  have "insn_at (rt\<lparr>rt_nexticache := c\<rparr>) j = insn_at rt j" for c j by (simp add: insn_at_def Let_def)
  moreover have "unat (word_of_nat k :: u32) = k" using assms by (simp add: rt_ok_def unat_of_nat)
  ultimately show ?thesis using assms by (auto simp: rt_ok_def nth_list_update)
qed

text \<open>
  C18: the next instruction is the one at the program counter.  In a loaded runtime, from any instruction but the
  last, if the program counter is the address of an instruction of the runtime then the main loop goes on with
  exactly that instruction, whether it follows, is found through the cache, or is searched for; the
  runtime stays well formed and only its cache changes.
\<close>

theorem next_instruction_is_at_pc:
  assumes "rt_ok rt" and "Suc i < length (rt_insns rt)" and "k < length (rt_insns rt)"
    and "rt_base rt + ucast (im_rva (rt_insns rt ! k)) = pc"
  shows "\<exists>cache. next_in_runtime rt i pc = Inr (k, rt\<lparr>rt_nexticache := cache\<rparr>) \<and> rt_ok (rt\<lparr>rt_nexticache := cache\<rparr>)"
proof -
  have s: "sorted_wrt (<) (map im_rva (rt_insns rt))" and at: "\<And>j. j < length (rt_insns rt) \<Longrightarrow> insn_at rt j = Inr (rt_insns rt ! j)"
    and c: "i < length (rt_nexticache rt)" using assms(1,2) by (auto simp: rt_ok_def)
  have "unat (rt_nexticache rt ! i) = i \<or> unat (rt_nexticache rt ! i) = Suc i \<or> Suc i = length (rt_insns rt)"
    using assms(1,2) unfolding rt_ok_def by (metis Suc_lessD)
  with assms(2) have c: "i < length (rt_nexticache rt)" "unat (rt_nexticache rt ! i) < length (rt_insns rt)" using c by auto
  have same: "j = k" if "j < length (rt_insns rt)" "rt_base rt + ucast (im_rva (rt_insns rt ! j)) = pc" for j
  proof -
    have "im_rva (rt_insns rt ! j) = im_rva (rt_insns rt ! k)" using that(2) assms(4) ucast_u32_inj by (metis add_left_cancel)
    then show ?thesis using sorted_wrt_nth_less [OF s] that(1) assms(3)
      by (metis length_map less_irrefl linorder_neqE_nat nth_map)
  qed
  have keep: "rt\<lparr>rt_nexticache := rt_nexticache rt\<rparr> = rt" by simp
  show ?thesis
  proof (cases "rt_base rt + ucast (im_rva (rt_insns rt ! Suc i)) = pc")
    case True
    with same [OF assms(2)] at [OF assms(2)] have "next_in_runtime rt i pc = Inr (k, rt\<lparr>rt_nexticache := rt_nexticache rt\<rparr>)"
      by (simp add: next_in_runtime_def)
    with keep assms(1) show ?thesis by metis
  next
    case False
    show ?thesis
    proof (cases "rt_base rt + ucast (im_rva (rt_insns rt ! unat (rt_nexticache rt ! i))) = pc")
      case True
      with False same [OF c(2)] at [OF assms(2)] at [OF c(2)] c(1) assms(1)
      have "next_in_runtime rt i pc = Inr (k, rt\<lparr>rt_nexticache := rt_nexticache rt\<rparr>)" by (simp add: next_in_runtime_def)
      with keep assms(1) show ?thesis by metis
    next
      case False2: False
      with False at [OF assms(2)] at [OF c(2)] c(1) rt_find_hit [OF assms(1,3,4)] rt_ok_cache [OF assms(1,3)] show ?thesis
        by (auto simp: next_in_runtime_def)
    qed
  qed
qed

lemma runtime0:
  "\<exists>data rt. write_file enums0 False False [\<lparr>im_rva = 16, im_handler = 0\<rparr>, \<lparr>im_rva = 20, im_handler = 0\<rparr>, \<lparr>im_rva = 24, im_handler = 0\<rparr>] [] []
      [enc_handler \<lparr>mh_impl = 0, mh_type = 0, mh_oplen = 0, mh_oprnum = 0\<rparr>] = Some data \<and>
     load_runtime lib0 0 data 4096 8192 = Inr rt \<and> rt_base rt = 4096 \<and>
     map im_rva (rt_insns rt) = [16, 20, 24]"
proof -
  have three: "[0..<3] = [0, 1, 2 :: nat]" by (simp add: upt_rec)
  show ?thesis by (simp add: write_file_def Let_def put_def load_runtime_def handler_at_def handler_offset_def oht_number_def three dec_enc_handler [where ys = "[]", simplified])
qed

theorem next_instruction_is_at_pc_witness:
  "\<exists>data rt cache. load_runtime lib0 0 data 4096 8192 = Inr rt \<and> next_in_runtime rt 0 4120 = Inr (2, rt\<lparr>rt_nexticache := cache\<rparr>)"
proof -
  obtain data rt where rt: "load_runtime lib0 0 data 4096 8192 = Inr rt" "rt_base rt = 4096" "map im_rva (rt_insns rt) = [16, 20, 24]"
    using runtime0 by (elim exE conjE) rule
  have l: "length (rt_insns rt) = 3" using arg_cong [OF rt(3), of length] by simp
  have "im_rva (rt_insns rt ! 2) = 24" using arg_cong [OF rt(3), of "\<lambda>xs. xs ! 2"] l by simp
  then have "rt_base rt + ucast (im_rva (rt_insns rt ! 2)) = 4120" by (simp add: rt(2))
  moreover have "rt_ok rt" by (rule load_runtime_ok [OF rt(1)]) (simp add: rt(3))
  ultimately show ?thesis using next_instruction_is_at_pc [of rt 0 2 4120] l rt(1) by fastforce
qed

section \<open>Finding a runtime\<close>

text \<open>
  An address inside a runtime that is not the last one is looked up in the runtime after it.  The search
  for the base address gives the first runtime that does not start below the address, and only past the
  last one does the code step back; so for an address behind the start of a runtime and up to the start of
  the next, the next runtime is consulted and the containing one never.
\<close>

lemma find_skips_containing_runtime:
  assumes "sorted_wrt (<) (map rt_base rts)" and "Suc j < length rts"
    and "rt_base (rts ! j) < addr" and "addr \<le> rt_base (rts ! Suc j)"
  shows "md_find rts addr =
     (if rt_end (rts ! Suc j) < addr then Inr None
      else res_bind (rt_find (rts ! Suc j) addr) (\<lambda>i. Inr (Some (Suc j, i))))"
proof -
  let ?arr = "map rt_base rts"
  have so: "sorted_by (<) ?arr" using assms(1) by (simp add: sorted_by_def) (rule sorted_wrt_mono_rel; auto)
  have lt: "rt_base (rts ! a) < rt_base (rts ! b)" if "a < b" "b < length rts" for a b
    using sorted_wrt_nth_less [OF assms(1), of a b] that by simp
  have le: "rt_base (rts ! a) \<le> rt_base (rts ! b)" if "a \<le> b" "b < length rts" for a b
    using lt [of a b] that by (cases "a = b") auto
  have "split_at (<) ?arr addr (Suc j)"
    unfolding split_at_def
  proof (intro conjI allI impI)
    show "Suc j \<le> length ?arr" using assms(2) by simp
    show "?arr ! a < addr" if "a < Suc j" for a using le [of a j] that assms(2,3) by (simp add: less_Suc_eq_le)
    show "\<not> ?arr ! a < addr" if "Suc j \<le> a" "a < length ?arr" for a using le [of "Suc j" a] that assms(4) by (simp add: not_less)
  qed
  then have "binary_search (<) ?arr (length ?arr) addr = Inr (Suc j)"
    using search_order.search_eqI [OF search_order_key [of "\<lambda>x. x"] so] assms(2) by (metis list.map_disc_iff list.size(3) not_less_zero)
  then show ?thesis using assms(2) by (simp add: md_find_def)
qed

definition rt_at :: "u64 \<Rightarrow> u64 \<Rightarrow> RuntimeMetaData" where
  "rt_at base stop = \<lparr>rt_map = 0, rt_data = [], rt_insns = [], rt_mcinsts = [], rt_nexticache = [], rt_base = base, rt_end = stop\<rparr>"


end
