(* ===== verification/Orchestrator.thy ===== *)
theory Orchestrator
  imports Utils "HOL-Library.Sublist"
begin

text \<open>
  \<open>src/Orchestrator.h\<close> and \<open>src/Orchestrator.cpp\<close>: the executable form of a guest
  binary.  \<open>encode\<close> turns the functions of a binary into basic blocks of handler words
  (event handlers and instruction handlers), \<open>convert\<close> lays the words out in one
  sequence, and \<open>find\<close> maps a guest address to a handler word through a per-thread cache.

  The binary loader (the \<open>AetherBinary\<close> library) is not part of the repository: \<open>bin_func\<close>
  and \<open>bin_insn\<close> hold what \<open>encode\<close> reads of its functions.  The addresses of the host
  event functions are the parameter \<open>fa\<close>; the set of dynamic handlers (\<open>Lifter::aarch64\<close>
  or \<open>Lifter::x86\<close>) is a map from the sixteen opcode bytes it is ordered by.
\<close>

section \<open>Handler words\<close>

record Instruction =
  handler :: "59 word"
  event :: bool
  oplen :: "4 word"

definition event_insn :: "u64 \<Rightarrow> Instruction" where
  "event_insn func = \<lparr>handler = ucast func, event = True, oplen = 0\<rparr>"

definition real_insn :: "u64 \<Rightarrow> nat \<Rightarrow> Instruction" where
  "real_insn entry sz = \<lparr>handler = ucast entry, event = False, oplen = word_of_nat sz\<rparr>"

text \<open>The eight bytes in memory: bit-fields from the least significant bit up.\<close>

definition insn_word :: "Instruction \<Rightarrow> u64" where
  "insn_word i = ucast (handler i) OR push_bit 59 (of_bool (event i)) OR push_bit 60 (ucast (oplen i))"

text \<open>\<open>ubfx x16, x16, #0, #59\<close> and the shift pair of the x86-64 host.\<close>

definition extract_handler_x16 :: "u64 \<Rightarrow> u64" where
  "extract_handler_x16 w = take_bit 59 (drop_bit 0 w)"

definition extract_handler_r10 :: "u64 \<Rightarrow> u64" where
  "extract_handler_r10 w = drop_bit 5 (push_bit 5 w)"

section \<open>Input: the analysed binary\<close>

datatype insn_type = SYSCALL | TRAP | JCOND | JUMP | CALL | RET | OTHER

datatype arch_type = ARM64 | X86_64

record bin_insn =
  fnoff :: u64
  insn_oplen :: nat
  insn_ty :: insn_type
  comins :: nat
  opbytes :: bytes \<comment> \<open>the \<open>oplen\<close> bytes at \<open>fnbuf + fnoff\<close>\<close>

record bin_func =
  insns :: "bin_insn list"
  fend :: u64

record EventConfig =
  cfg_lift :: bool
  cfg_memory :: bool
  cfg_func :: bool
  cfg_block :: bool
  cfg_insn :: bool
  cfg_syscall :: bool
  cfg_trap :: bool
  cfg_bridge :: bool
  cfg_debug :: bool

datatype EventType = LiftBefore | LiftAfter | MemRead | MemWrite | MemMap | MemUnmap | MemProtect
  | InsnBefore | InsnAfter | BlockBefore | BlockAfter | FuncBefore | FuncAfter
  | SyscallBefore | SyscallAfter | HostBridgeBefore | HostBridgeAfter | TrapHit | ExceptionThrown | InvalidInsn

datatype host_fn = event_func_before | event_func_after | event_insn_before | event_insn_after
  | event_block_before | event_block_after | event_debugging | syscall_interpret | interrupt_interpret
  | jump_interpret | call_interpret | finish_function | finish_emulation | terminate_execution

section \<open>Encoding\<close>

type_synonym Instructions = "Instruction list"

record enc =
  e_vmaddrs :: "u64 list"
  e_handlers :: "Instructions list"
  e_newbb :: bool

text \<open>\<open>handlers->push_back\<close>, \<open>handlers\<close> being the last instruction list.\<close>

definition push_last :: "Instruction \<Rightarrow> Instructions list \<Rightarrow> Instructions list" where
  "push_last x hs = butlast hs @ [last hs @ [x]]"

definition do_setup_event :: "EventConfig \<Rightarrow> EventType \<Rightarrow> u64 \<Rightarrow> Instructions list \<Rightarrow> Instructions list" where
  "do_setup_event cfg ty ev hs =
     (case ty of
        InsnBefore \<Rightarrow> if cfg_insn cfg then push_last (event_insn ev) hs else hs
      | InsnAfter \<Rightarrow> if cfg_insn cfg then push_last (event_insn ev) hs else hs
      | BlockBefore \<Rightarrow> if cfg_block cfg then push_last (event_insn ev) hs else hs
      | BlockAfter \<Rightarrow> if cfg_block cfg then push_last (event_insn ev) hs else hs
      | FuncBefore \<Rightarrow> if cfg_func cfg then push_last (event_insn ev) hs else hs
      | FuncAfter \<Rightarrow> if cfg_func cfg then push_last (event_insn ev) hs else hs
      | _ \<Rightarrow> hs)"

definition opc16 :: "bytes \<Rightarrow> bytes" where
  "opc16 bs = bs @ replicate (16 - length bs) 0"

record enc_env =
  env_arch :: arch_type
  env_cfg :: EventConfig
  env_fa :: "host_fn \<Rightarrow> u64"
  env_dyn :: "bytes \<rightharpoonup> u64" \<comment> \<open>the dynamic handlers\<close>
  env_addend :: u64

definition real_entry :: "enc_env \<Rightarrow> bin_insn \<Rightarrow> u64" where
  "real_entry E i = (case env_dyn E (opc16 (opbytes i)) of None \<Rightarrow> env_fa E terminate_execution | Some e \<Rightarrow> e)"

definition insn_addr :: "enc_env \<Rightarrow> u64 \<Rightarrow> bin_insn \<Rightarrow> u64" where
  "insn_addr E addr i = addr + fnoff i + env_addend E"

text \<open>
  One turn of the loop over a function's instructions; \<open>first\<close> is \<open>i == func.insns.data()\<close>.
  First the start of a new block, then the words of the instruction.
\<close>

definition start_block :: "enc_env \<Rightarrow> u64 \<Rightarrow> bool \<Rightarrow> bin_insn \<Rightarrow> enc \<Rightarrow> enc" where
  "start_block E addr first i s =
     (let cfg = env_cfg E; fa = env_fa E in
      if \<not> first \<and> (comins i \<noteq> 0 \<or> e_newbb s)
      then \<lparr>e_vmaddrs = e_vmaddrs s @ [insn_addr E addr i],
            e_handlers = do_setup_event cfg BlockBefore (fa event_block_before)
              (do_setup_event cfg BlockAfter (fa event_block_after) (e_handlers s) @ [[]]),
            e_newbb = False\<rparr>
      else s)"

definition emit_insn :: "enc_env \<Rightarrow> bin_insn \<Rightarrow> enc \<Rightarrow> enc" where
  "emit_insn E i s =
     (let cfg = env_cfg E; fa = env_fa E;
          h = do_setup_event cfg InsnBefore (fa event_insn_before) (e_handlers s);
          h = (if cfg_debug cfg then push_last (event_insn (fa event_debugging)) h else h);
          h = push_last (real_insn (real_entry E i) (insn_oplen i)) h;
          h = (case insn_ty i of
                 SYSCALL \<Rightarrow> if env_arch E = ARM64 then push_last (event_insn (fa syscall_interpret)) h else h
               | TRAP \<Rightarrow> if env_arch E = X86_64 then push_last (event_insn (fa interrupt_interpret)) h else h
               | _ \<Rightarrow> do_setup_event cfg InsnAfter (fa event_insn_after) h)
      in case insn_ty i of
           JCOND \<Rightarrow> s\<lparr>e_handlers := push_last (event_insn (fa jump_interpret)) h, e_newbb := True\<rparr>
         | JUMP \<Rightarrow> s\<lparr>e_handlers := push_last (event_insn (fa jump_interpret)) h, e_newbb := True\<rparr>
         | CALL \<Rightarrow> s\<lparr>e_handlers := push_last (event_insn (fa call_interpret)) h, e_newbb := True\<rparr>
         | RET \<Rightarrow> s\<lparr>e_handlers := push_last (event_insn (fa finish_function))
                         (do_setup_event cfg FuncAfter (fa event_func_after) h), e_newbb := True\<rparr>
         | _ \<Rightarrow> s\<lparr>e_handlers := h\<rparr>)"

definition encode_insn :: "enc_env \<Rightarrow> u64 \<Rightarrow> bool \<Rightarrow> bin_insn \<Rightarrow> enc \<Rightarrow> enc" where
  "encode_insn E addr first i s = emit_insn E i (start_block E addr first i s)"

fun encode_insns :: "enc_env \<Rightarrow> u64 \<Rightarrow> bool \<Rightarrow> bin_insn list \<Rightarrow> enc \<Rightarrow> enc" where
  "encode_insns E addr first [] s = s"
| "encode_insns E addr first (i # is) s = encode_insns E addr False is (encode_insn E addr first i s)"

definition encode_func :: "enc_env \<Rightarrow> u64 \<times> bin_func \<Rightarrow> enc \<Rightarrow> enc" where
  "encode_func E af s =
     (let cfg = env_cfg E; fa = env_fa E; (addr, func) = af;
          hs = e_handlers s @ [[]];
          hs = do_setup_event cfg FuncBefore (fa event_func_before) hs;
          hs = do_setup_event cfg BlockBefore (fa event_block_before) hs
      in encode_insns E addr True (insns func)
           \<lparr>e_vmaddrs = e_vmaddrs s @ [addr + env_addend E], e_handlers = hs, e_newbb = False\<rparr>)"

record BasicBlocks =
  vmaddrs :: "u64 list"
  maxaddr :: u64
  bbhandlers :: "nat list list" \<comment> \<open>pointers into \<open>rthandlers\<close>\<close>
  rthandlers :: Instructions

text \<open>\<open>convert\<close>: the words in one sequence, and per block the pointers to its words.\<close>

fun convert_loop :: "nat \<Rightarrow> Instructions list \<Rightarrow> nat list list" where
  "convert_loop rt [] = []"
| "convert_loop rt (is # hs) = [rt..<rt + length is] # convert_loop (rt + length is) hs"

definition convert :: "u64 list \<Rightarrow> u64 \<Rightarrow> Instructions list \<Rightarrow> BasicBlocks" where
  "convert vs mx hs = \<lparr>vmaddrs = vs, maxaddr = mx, bbhandlers = convert_loop 0 hs, rthandlers = concat hs\<rparr>"

text \<open>The body of \<open>encode\<close>; a binary without functions makes it dereference \<open>rbegin()\<close> of an empty map.\<close>

definition encode_blocks :: "enc_env \<Rightarrow> (u64 \<times> bin_func) list \<Rightarrow> BasicBlocks res" where
  "encode_blocks E fs =
     (let s = fold (encode_func E) fs \<lparr>e_vmaddrs = [], e_handlers = [], e_newbb = False\<rparr>;
          hs = (if length fs = 1 then push_last (event_insn (env_fa E finish_emulation)) (e_handlers s)
                else e_handlers s)
      in if fs = [] then Inl OutOfBounds
         else Inr (convert (e_vmaddrs s) (fend (snd (last fs)) + env_addend E) hs))"

section \<open>Lookup\<close>

text \<open>
  A pointer to a handler word: the \<open>terminate\<close> member, or a position in the words of one of the
  encoded binaries (the position may be out of range).
\<close>

datatype iptr = TermInsn | At nat int

record orch =
  basicblocks :: "BasicBlocks list"
  current :: "nat option"
  L1 :: "u64 \<Rightarrow> u64 \<times> iptr option" \<comment> \<open>256 entries, by \<open>cache_index\<close>\<close>

definition cache_index :: "u64 \<Rightarrow> u64" where
  "cache_index vmaddr = vmaddr AND 0xFF"

definition cache_put :: "u64 \<Rightarrow> iptr \<Rightarrow> orch \<Rightarrow> orch" where
  "cache_put vmaddr p s = s\<lparr>L1 := (L1 s)(cache_index vmaddr := (vmaddr, Some p))\<rparr>"

text \<open>The loop over the words of the block an address falls into; \<open>base\<close> is the block's first word.\<close>

fun mid_search :: "Instructions \<Rightarrow> nat \<Rightarrow> u64 \<Rightarrow> u64 \<Rightarrow> nat list \<Rightarrow> int option" where
  "mid_search rt base addr vmaddr [] = None"
| "mid_search rt base addr vmaddr (p # ps) =
     (let addr' = addr + ucast (oplen (rt ! p)) in
      if addr' = vmaddr
      then (let ptr = int p - 1 in
            if int base \<le> ptr \<and> \<not> event (rt ! nat ptr) then Some (ptr + 1) else Some ptr)
      else mid_search rt base addr' vmaddr ps)"

definition lookup_blocks :: "BasicBlocks \<Rightarrow> u64 \<Rightarrow> int option res" where
  "lookup_blocks b vmaddr =
     res_bind (arr_at (vmaddrs b) 0) (\<lambda>lo.
     if vmaddr < lo \<or> maxaddr b \<le> vmaddr then Inr None
     else res_bind (binary_search (<) (vmaddrs b) (length (vmaddrs b)) vmaddr) (\<lambda>found.
          res_bind (is_exact (=) found (vmaddrs b) (length (vmaddrs b)) vmaddr) (\<lambda>exact.
          if exact
          then res_bind (arr_at (bbhandlers b) found) (\<lambda>bb.
               res_bind (arr_at bb 0) (\<lambda>p. Inr (Some (int p))))
          else let index = (if found \<noteq> 0 then found - 1 else found) in
               res_bind (arr_at (vmaddrs b) index) (\<lambda>addr.
               res_bind (arr_at (bbhandlers b) index) (\<lambda>bb.
               Inr (mid_search (rthandlers b) (if bb = [] then 0 else hd bb) addr vmaddr bb))))))"

definition findBlocks :: "nat \<Rightarrow> u64 \<Rightarrow> orch \<Rightarrow> (iptr option \<times> orch) res" where
  "findBlocks n vmaddr s =
     res_bind (lookup_blocks (basicblocks s ! n) vmaddr) (\<lambda>r.
     case r of None \<Rightarrow> Inr (None, s) | Some p \<Rightarrow> Inr (Some (At n p), cache_put vmaddr (At n p) s))"

definition findCache :: "nat \<Rightarrow> u64 \<Rightarrow> orch \<Rightarrow> (iptr option \<times> orch) res" where
  "findCache cur vmaddr s =
     (case L1 s (cache_index vmaddr) of
        (v, Some p) \<Rightarrow> if v = vmaddr then Inr (Some p, s) else findBlocks cur vmaddr s
      | _ \<Rightarrow> findBlocks cur vmaddr s)"

fun find_loop :: "u64 \<Rightarrow> nat list \<Rightarrow> orch \<Rightarrow> (iptr \<times> orch) res" where
  "find_loop vmaddr [] s = Inr (TermInsn, s)"
| "find_loop vmaddr (n # ns) s =
     (if current s = Some n then find_loop vmaddr ns s
      else res_bind (findBlocks n vmaddr s) (\<lambda>(r, s').
           case r of Some p \<Rightarrow> Inr (p, s'\<lparr>current := Some n\<rparr>) | None \<Rightarrow> find_loop vmaddr ns s'))"

definition find_insn :: "u64 \<Rightarrow> orch \<Rightarrow> (iptr \<times> orch) res" where
  "find_insn vmaddr s =
     (case current s of
        None \<Rightarrow> find_loop vmaddr [0..<length (basicblocks s)] s
      | Some c \<Rightarrow> res_bind (findCache c vmaddr s) (\<lambda>(r, s').
          case r of Some p \<Rightarrow> Inr (p, s') | None \<Rightarrow> find_loop vmaddr [0..<length (basicblocks s')] s'))"

definition encode :: "enc_env \<Rightarrow> (u64 \<times> bin_func) list \<Rightarrow> orch \<Rightarrow> orch res" where
  "encode E fs s = res_bind (encode_blocks E fs) (\<lambda>b.
     Inr (s\<lparr>basicblocks := basicblocks s @ [b], current := Some (length (basicblocks s))\<rparr>))"

definition clear :: "orch \<Rightarrow> orch" where
  "clear s = \<lparr>basicblocks = [], current = None, L1 = (\<lambda>_. (0, None))\<rparr>"

section \<open>Packing\<close>

lemma extract_handler_word:
  "extract_handler_x16 (insn_word i) = ucast (handler i) \<and> extract_handler_r10 (insn_word i) = ucast (handler i)"
proof
  show "extract_handler_x16 (insn_word i) = ucast (handler i)"
    by (rule bit_word_eqI) (auto simp: extract_handler_x16_def insn_word_def bit_simps dest: bit_imp_le_length)
  show "extract_handler_r10 (insn_word i) = ucast (handler i)"
    by (rule bit_word_eqI) (auto simp: extract_handler_r10_def insn_word_def bit_simps dest: bit_imp_le_length)
qed

lemma ucast_59: "v < 2 ^ 59 \<Longrightarrow> ucast (ucast v :: 59 word) = v" for v :: u64
proof -
  assume "v < 2 ^ 59"
  then have "unat v < 2 ^ 59" by (simp add: word_less_nat_alt)
  then show ?thesis
    by (simp add: word_unat_eq_iff unsigned_ucast_eq unsigned_take_bit_eq take_bit_nat_eq_self)
qed

section \<open>Reference: blocks of a function\<close>

text \<open>
  What \<open>encode\<close> is meant to produce, stated without its running state: a function is cut
  into blocks before every instruction that is the target of another one or follows a
  control transfer, and each block is written out with the events the configuration asks for.
\<close>

definition is_transfer :: "insn_type \<Rightarrow> bool" where
  "is_transfer t \<longleftrightarrow> t = JCOND \<or> t = JUMP \<or> t = CALL \<or> t = RET"

fun cut :: "bool \<Rightarrow> bin_insn list \<Rightarrow> bin_insn list \<times> bin_insn list list" where
  "cut nb [] = ([], [])"
| "cut nb (i # is) =
     (let (g, gs) = cut (is_transfer (insn_ty i)) is
      in if comins i \<noteq> 0 \<or> nb then ([], (i # g) # gs) else (i # g, gs))"

fun block_groups :: "bin_insn list \<Rightarrow> bin_insn list list" where
  "block_groups [] = []"
| "block_groups (i # is) = (let (g, gs) = cut (is_transfer (insn_ty i)) is in (i # g) # gs)"

definition ev :: "bool \<Rightarrow> u64 \<Rightarrow> Instructions" where
  "ev b a = (if b then [event_insn a] else [])"

definition render_after :: "enc_env \<Rightarrow> bin_insn \<Rightarrow> Instructions" where
  "render_after E i =
     (case insn_ty i of SYSCALL \<Rightarrow> ev (env_arch E = ARM64) (env_fa E syscall_interpret)
      | TRAP \<Rightarrow> ev (env_arch E = X86_64) (env_fa E interrupt_interpret)
      | _ \<Rightarrow> ev (cfg_insn (env_cfg E)) (env_fa E event_insn_after)) @
     (case insn_ty i of JCOND \<Rightarrow> [event_insn (env_fa E jump_interpret)]
      | JUMP \<Rightarrow> [event_insn (env_fa E jump_interpret)]
      | CALL \<Rightarrow> [event_insn (env_fa E call_interpret)]
      | RET \<Rightarrow> ev (cfg_func (env_cfg E)) (env_fa E event_func_after) @ [event_insn (env_fa E finish_function)]
      | _ \<Rightarrow> [])"

definition render_before :: "enc_env \<Rightarrow> Instructions" where
  "render_before E = ev (cfg_insn (env_cfg E)) (env_fa E event_insn_before) @
     ev (cfg_debug (env_cfg E)) (env_fa E event_debugging)"

definition render_insn :: "enc_env \<Rightarrow> bin_insn \<Rightarrow> Instructions" where
  "render_insn E i = render_before E @ [real_insn (real_entry E i) (insn_oplen i)] @ render_after E i"

definition render_block :: "enc_env \<Rightarrow> bin_insn list \<Rightarrow> Instructions" where
  "render_block E g = ev (cfg_block (env_cfg E)) (env_fa E event_block_before) @ concat (map (render_insn E) g)"

fun render_blocks :: "enc_env \<Rightarrow> bin_insn list list \<Rightarrow> Instructions list" where
  "render_blocks E [] = []"
| "render_blocks E (g # gs) =
     (render_block E g @ ev (cfg_block (env_cfg E) \<and> gs \<noteq> []) (env_fa E event_block_after)) # render_blocks E gs"

definition add_before :: "'a list \<Rightarrow> 'a list list \<Rightarrow> 'a list list" where
  "add_before p bs = (case bs of [] \<Rightarrow> [] | b # bs \<Rightarrow> (p @ b) # bs)"

definition render_func :: "enc_env \<Rightarrow> u64 \<times> bin_func \<Rightarrow> Instructions list" where
  "render_func E af = add_before (ev (cfg_func (env_cfg E)) (env_fa E event_func_before))
     (render_blocks E (block_groups (insns (snd af))))"

definition func_addrs :: "enc_env \<Rightarrow> u64 \<times> bin_func \<Rightarrow> u64 list" where
  "func_addrs E af = map (\<lambda>g. insn_addr E (fst af) (hd g)) (block_groups (insns (snd af)))"

section \<open>The encoder meets the reference\<close>

lemma push_last_snoc [simp]: "push_last x (hs @ [h]) = hs @ [h @ [x]]"
  by (simp add: push_last_def)

lemma setup_snoc [simp]:
  "do_setup_event cfg InsnBefore a (hs @ [h]) = hs @ [h @ ev (cfg_insn cfg) a]"
  "do_setup_event cfg InsnAfter a (hs @ [h]) = hs @ [h @ ev (cfg_insn cfg) a]"
  "do_setup_event cfg BlockBefore a (hs @ [h]) = hs @ [h @ ev (cfg_block cfg) a]"
  "do_setup_event cfg BlockAfter a (hs @ [h]) = hs @ [h @ ev (cfg_block cfg) a]"
  "do_setup_event cfg FuncBefore a (hs @ [h]) = hs @ [h @ ev (cfg_func cfg) a]"
  "do_setup_event cfg FuncAfter a (hs @ [h]) = hs @ [h @ ev (cfg_func cfg) a]"
  by (simp_all add: do_setup_event_def ev_def)

lemma setup_snoc2 [simp]:
  "do_setup_event cfg BlockBefore a (hs @ [h, []]) = hs @ [h, ev (cfg_block cfg) a]"
  using setup_snoc(3) [of cfg a "hs @ [h]" "[]"] by simp

lemma ev_simps [simp]: "ev True x = [event_insn x]" "ev False x = []"
  by (simp_all add: ev_def)

lemma push_if [simp]: "(if b then hs @ [h @ [event_insn x]] else hs @ [h]) = hs @ [h @ ev b x]"
  by (simp add: ev_def)

lemma emit_insn_spec:
  "emit_insn E i \<lparr>e_vmaddrs = vs, e_handlers = hs @ [h], e_newbb = nb\<rparr> =
    \<lparr>e_vmaddrs = vs, e_handlers = hs @ [h @ render_insn E i], e_newbb = nb \<or> is_transfer (insn_ty i)\<rparr>"
  unfolding emit_insn_def
  by (cases "insn_ty i") (simp_all add: render_insn_def render_after_def render_before_def is_transfer_def Let_def)

lemma encode_insn_same:
  "first \<or> comins i = 0 \<and> \<not> nb \<Longrightarrow>
   encode_insn E a first i \<lparr>e_vmaddrs = vs, e_handlers = hs @ [h], e_newbb = nb\<rparr> =
    \<lparr>e_vmaddrs = vs, e_handlers = hs @ [h @ render_insn E i], e_newbb = nb \<or> is_transfer (insn_ty i)\<rparr>"
  by (auto simp: encode_insn_def start_block_def Let_def emit_insn_spec)

lemma encode_insn_new:
  "comins i \<noteq> 0 \<or> nb \<Longrightarrow>
   encode_insn E a False i \<lparr>e_vmaddrs = vs, e_handlers = hs @ [h], e_newbb = nb\<rparr> =
    \<lparr>e_vmaddrs = vs @ [insn_addr E a i],
     e_handlers = (hs @ [h @ ev (cfg_block (env_cfg E)) (env_fa E event_block_after)]) @
       [ev (cfg_block (env_cfg E)) (env_fa E event_block_before) @ render_insn E i],
     e_newbb = is_transfer (insn_ty i)\<rparr>"
  using emit_insn_spec [of E i _ "hs @ [h @ ev (cfg_block (env_cfg E)) (env_fa E event_block_after)]"]
  by (simp add: encode_insn_def start_block_def Let_def)

lemma encode_insns_cut:
  "\<exists>nb'. encode_insns E a False is \<lparr>e_vmaddrs = vs, e_handlers = hs @ [h], e_newbb = nb\<rparr> =
     (case cut nb is of (g, gs) \<Rightarrow>
      \<lparr>e_vmaddrs = vs @ map (\<lambda>g. insn_addr E a (hd g)) gs,
       e_handlers = hs @ [h @ concat (map (render_insn E) g) @ ev (cfg_block (env_cfg E) \<and> gs \<noteq> []) (env_fa E event_block_after)]
         @ render_blocks E gs,
       e_newbb = nb'\<rparr>)"
proof (induction "is" arbitrary: vs hs h nb)
  case Nil
  then show ?case by (simp add: ev_def)
next
  case (Cons i "is")
  obtain g gs where c: "cut (is_transfer (insn_ty i)) is = (g, gs)" by force
  show ?case
  proof (cases "comins i \<noteq> 0 \<or> nb")
    case True
    with Cons [of "vs @ [insn_addr E a i]" "hs @ [h @ ev (cfg_block (env_cfg E)) (env_fa E event_block_after)]"
        "ev (cfg_block (env_cfg E)) (env_fa E event_block_before) @ render_insn E i" "is_transfer (insn_ty i)"]
    show ?thesis by (simp add: encode_insn_new c render_block_def)
  next
    case False
    with Cons [of vs hs "h @ render_insn E i" "is_transfer (insn_ty i)"]
    show ?thesis by (simp add: encode_insn_same c)
  qed
qed

lemma encode_func_spec:
  assumes "insns f = i # is" and "fnoff i = 0"
  shows "\<exists>nb. encode_func E (a, f) \<lparr>e_vmaddrs = vs, e_handlers = hs, e_newbb = nb0\<rparr> =
     \<lparr>e_vmaddrs = vs @ func_addrs E (a, f), e_handlers = hs @ render_func E (a, f), e_newbb = nb\<rparr>"
proof -
  let ?h = "ev (cfg_func (env_cfg E)) (env_fa E event_func_before) @ ev (cfg_block (env_cfg E)) (env_fa E event_block_before)"
  obtain g gs where c: "cut (is_transfer (insn_ty i)) is = (g, gs)" by force
  have "encode_func E (a, f) \<lparr>e_vmaddrs = vs, e_handlers = hs, e_newbb = nb0\<rparr> =
     encode_insns E a False is \<lparr>e_vmaddrs = vs @ [a + env_addend E], e_handlers = hs @ [?h @ render_insn E i],
       e_newbb = is_transfer (insn_ty i)\<rparr>"
    using assms(1) by (simp add: encode_func_def encode_insn_same Let_def)
  with encode_insns_cut [of E a "is" "vs @ [a + env_addend E]" hs "?h @ render_insn E i" "is_transfer (insn_ty i)"]
  show ?thesis using assms(2)
    by (simp add: c assms(1) func_addrs_def render_func_def add_before_def insn_addr_def render_block_def)
qed

definition func_ok :: "u64 \<times> bin_func \<Rightarrow> bool" where
  "func_ok af \<longleftrightarrow> insns (snd af) \<noteq> [] \<and> fnoff (hd (insns (snd af))) = 0"

definition block_words :: "enc_env \<Rightarrow> (u64 \<times> bin_func) list \<Rightarrow> Instructions list" where
  "block_words E fs =
     (let hs = concat (map (render_func E) fs) in
      if length fs = 1 then butlast hs @ [last hs @ [event_insn (env_fa E finish_emulation)]] else hs)"

lemma encode_funcs:
  "list_all func_ok fs \<Longrightarrow>
   \<exists>nb. fold (encode_func E) fs \<lparr>e_vmaddrs = vs, e_handlers = hs, e_newbb = nb0\<rparr> =
     \<lparr>e_vmaddrs = vs @ concat (map (func_addrs E) fs), e_handlers = hs @ concat (map (render_func E) fs), e_newbb = nb\<rparr>"
proof (induction fs arbitrary: vs hs nb0)
  case (Cons af fs)
  obtain a f where af: "af = (a, f)" by force
  with Cons.prems obtain i "is" where "insns f = i # is" "fnoff i = 0"
    by (cases "insns f") (auto simp: func_ok_def)
  from encode_func_spec [OF this, of E a vs hs nb0] obtain nb where
    "encode_func E af \<lparr>e_vmaddrs = vs, e_handlers = hs, e_newbb = nb0\<rparr> =
     \<lparr>e_vmaddrs = vs @ func_addrs E af, e_handlers = hs @ render_func E af, e_newbb = nb\<rparr>"
    unfolding af by blast
  with Cons.IH [of "vs @ func_addrs E af" "hs @ render_func E af" nb] Cons.prems show ?case by simp
qed simp

lemma encode_blocks_spec:
  assumes "fs \<noteq> []" and "list_all func_ok fs"
  shows "encode_blocks E fs =
    Inr (convert (concat (map (func_addrs E) fs)) (fend (snd (last fs)) + env_addend E) (block_words E fs))"
  using encode_funcs [OF assms(2), of E "[]" "[]" False] assms(1)
  by (auto simp: encode_blocks_def block_words_def push_last_def Let_def)

section \<open>Layout of the converted words\<close>

lemma length_convert_loop [simp]: "length (convert_loop rt hs) = length hs"
  by (induction rt hs rule: convert_loop.induct) simp_all

lemma convert_loop_nth:
  "k < length hs \<Longrightarrow> convert_loop rt hs ! k =
     [rt + length (concat (take k hs))..<rt + length (concat (take k hs)) + length (hs ! k)]"
proof (induction hs arbitrary: rt k)
  case (Cons h hs)
  then show ?case by (cases k) (simp_all add: add.assoc)
qed simp

lemma drop_concat: "k < length hs \<Longrightarrow> drop (length (concat (take k hs))) (concat hs) = hs ! k @ concat (drop (Suc k) hs)"
proof (induction hs arbitrary: k)
  case (Cons h hs)
  then show ?case by (cases k) simp_all
qed simp

lemma render_lengths:
  "length (render_blocks E gs) = length gs" "length (add_before p bs) = length bs"
  "length (render_func E af) = length (func_addrs E af)"
proof -
  show r: "length (render_blocks E gs) = length gs" for gs by (induction gs) simp_all
  show b: "length (add_before p bs) = length bs" for p :: "'x list" and bs by (cases bs) (simp_all add: add_before_def)
  show "length (render_func E af) = length (func_addrs E af)" by (simp add: render_func_def func_addrs_def r b)
qed

lemma length_block_words: "fs \<noteq> [] \<Longrightarrow> list_all func_ok fs \<Longrightarrow> length (block_words E fs) = length (concat (map (func_addrs E) fs))"
proof -
  assume fs: "fs \<noteq> []" "list_all func_ok fs"
  have e: "length (concat (map (render_func E) fs)) = length (concat (map (func_addrs E) fs))"
    by (induction fs) (simp_all add: render_lengths)
  obtain af fs' where "fs = af # fs'" using fs(1) by (cases fs) auto
  with fs(2) have "func_addrs E af \<noteq> []"
    by (cases "insns (snd af)") (auto simp: func_addrs_def func_ok_def split: prod.split)
  then have "0 < length (concat (map (func_addrs E) fs))" using \<open>fs = af # fs'\<close> by simp
  with e show ?thesis unfolding block_words_def Let_def by simp
qed

lemma render_insn_nonempty: "render_insn E i \<noteq> []"
  by (simp add: render_insn_def)

lemma groups_concat: "concat (block_groups is) = is \<and> [] \<notin> set (block_groups is)"
proof -
  have c: "fst (cut nb is) @ concat (snd (cut nb is)) = is \<and> [] \<notin> set (snd (cut nb is))" for nb "is"
    by (induction nb "is" rule: cut.induct) (auto simp: Let_def split: prod.splits)
  show ?thesis
  proof (cases "is")
    case (Cons i js)
    then show ?thesis using c [of "is_transfer (insn_ty i)" js] by (auto simp: Let_def split: prod.splits)
  qed simp
qed

lemma render_blocks_nonempty: "[] \<notin> set gs \<Longrightarrow> [] \<notin> set (render_blocks E gs)"
proof (induction gs)
  case (Cons g gs)
  then obtain i g' where "g = i # g'" by (cases g) auto
  with Cons show ?case using render_insn_nonempty [of E i] by (auto simp: render_block_def)
qed simp

lemma block_words_nonempty: "[] \<notin> set (block_words E fs)"
proof -
  have "[] \<notin> set (render_func E af)" for af
    using render_blocks_nonempty [of "block_groups (insns (snd af))" E] groups_concat [of "insns (snd af)"]
    by (cases "render_blocks E (block_groups (insns (snd af)))") (auto simp: render_func_def add_before_def)
  then have "[] \<notin> set (concat (map (render_func E) fs))" by auto
  then show ?thesis by (auto simp: block_words_def Let_def dest: in_set_butlastD)
qed

section \<open>Sorted block addresses\<close>

text \<open>
  What the analysed binary is expected to satisfy: at least one function, every function
  starts with an instruction at offset zero, the instructions of all functions come in
  increasing address order and lie below the end of the last function.
\<close>

definition insn_addrs :: "enc_env \<Rightarrow> (u64 \<times> bin_func) list \<Rightarrow> u64 list" where
  "insn_addrs E fs = concat (map (\<lambda>(a, f). map (insn_addr E a) (insns f)) fs)"

definition bin_ok :: "enc_env \<Rightarrow> (u64 \<times> bin_func) list \<Rightarrow> bool" where
  "bin_ok E fs \<longleftrightarrow> fs \<noteq> [] \<and> list_all func_ok fs \<and> sorted_wrt (<) (insn_addrs E fs) \<and>
     list_all (\<lambda>a. a < fend (snd (last fs)) + env_addend E) (insn_addrs E fs)"

lemma subseq_hds: "[] \<notin> set gs \<Longrightarrow> subseq (map hd gs) (concat gs)"
proof (induction gs)
  case (Cons g gs)
  then obtain x xs where g: "g = x # xs" by (cases g) auto
  from Cons have "subseq (map hd gs) (xs @ concat gs)" by (auto intro: subseq_rev_drop_many subseq_drop_many)
  with g show ?case by simp
qed simp

lemma subseq_concat: "list_all2 subseq xss yss \<Longrightarrow> subseq (concat xss) (concat yss)"
  by (induction rule: list_all2_induct) (auto intro: list_emb_append_mono)

lemma func_addrs_subseq: "subseq (func_addrs E (a, f)) (map (insn_addr E a) (insns f))"
proof -
  have "subseq (map hd (block_groups (insns f))) (insns f)"
    using subseq_hds [of "block_groups (insns f)"] groups_concat [of "insns f"] by simp
  then have "subseq (map (insn_addr E a) (map hd (block_groups (insns f)))) (map (insn_addr E a) (insns f))"
    by (rule subseq_map)
  then show ?thesis by (simp add: func_addrs_def comp_def)
qed

lemma addrs_subseq: "subseq (concat (map (func_addrs E) fs)) (insn_addrs E fs)"
  unfolding insn_addrs_def
  by (intro subseq_concat) (auto simp: list_all2_map1 list_all2_map2 list.rel_refl_strong func_addrs_subseq split: prod.split)

lemma sorted_wrt_subseq: "subseq xs ys \<Longrightarrow> sorted_wrt P ys \<Longrightarrow> sorted_wrt P xs"
proof (induction rule: list_emb.induct)
  case (list_emb_Cons2 x y xs ys)
  then have "set xs \<subseteq> set ys" by (auto dest: list_emb_set)
  with list_emb_Cons2 show ?case by auto
qed auto

interpretation addr_order: search_order "(<) :: u64 \<Rightarrow> u64 \<Rightarrow> bool"
  by unfold_locales auto

lemma strict_sorted_by: "sorted_wrt (<) xs \<Longrightarrow> sorted_by (<) xs" for xs :: "u64 list"
  unfolding sorted_by_def by (rule sorted_wrt_mono_rel) auto

text \<open>On strictly sorted block addresses the search hits exactly the address asked for.\<close>

lemma search_nth:
  assumes "sorted_wrt (<) (xs :: u64 list)" and "k < length xs"
  shows "binary_search (<) xs (length xs) (xs ! k) = Inr k"
proof (rule addr_order.search_eqI)
  show "sorted_by (<) xs" using assms(1) by (rule strict_sorted_by)
  show "xs \<noteq> []" using assms(2) by auto
  have "xs ! i < xs ! j" if "i < j" "j < length xs" for i j
    using assms(1) that by (simp add: sorted_wrt_iff_nth_less)
  then show "split_at (<) xs (xs ! k) k"
    using assms(2) by (auto simp: split_at_def not_less le_less)
qed

lemma lookup_block_start:
  assumes sorted: "sorted_wrt (<) (vmaddrs b)" and below: "list_all (\<lambda>a. a < maxaddr b) (vmaddrs b)"
    and k: "k < length (vmaddrs b)" "length (bbhandlers b) = length (vmaddrs b)" "bbhandlers b ! k \<noteq> []"
  shows "lookup_blocks b (vmaddrs b ! k) = Inr (Some (int (hd (bbhandlers b ! k))))"
proof -
  have lo: "\<not> vmaddrs b ! k < vmaddrs b ! 0"
    using sorted k(1) by (cases "k = 0") (auto simp: sorted_wrt_iff_nth_less not_less le_less)
  have hi: "vmaddrs b ! k < maxaddr b" using below k(1) by (auto simp: list_all_length)
  have a0: "arr_at (vmaddrs b) 0 = Inr (vmaddrs b ! 0)" using k(1) by (intro arr_at_simps) linarith
  have a1: "arr_at (bbhandlers b ! k) 0 = Inr (bbhandlers b ! k ! 0)" using k(3) by (intro arr_at_simps) simp
  have ex: "is_exact (=) k (vmaddrs b) (length (vmaddrs b)) (vmaddrs b ! k) = Inr True"
    using k(1) by (simp add: is_exact_def)
  show ?thesis
    using k lo hi search_nth [OF sorted k(1)] ex a0 a1
    by (simp add: lookup_blocks_def not_le hd_conv_nth)
qed

lemma nth_nonempty: "[] \<notin> set xs \<Longrightarrow> k < length xs \<Longrightarrow> xs ! k \<noteq> []"
  by (metis nth_mem)

lemma encoded_shape:
  assumes "bin_ok E fs" and "encode_blocks E fs = Inr b"
  shows "sorted_wrt (<) (vmaddrs b)" "list_all (\<lambda>a. a < maxaddr b) (vmaddrs b)" "vmaddrs b \<noteq> []"
    "length (bbhandlers b) = length (vmaddrs b)" "[] \<notin> set (bbhandlers b)"
proof -
  from assms(1) have fs: "fs \<noteq> []" "list_all func_ok fs" by (simp_all add: bin_ok_def)
  have b: "b = convert (concat (map (func_addrs E) fs)) (fend (snd (last fs)) + env_addend E) (block_words E fs)"
    using encode_blocks_spec [OF fs] assms(2) by simp
  show "sorted_wrt (<) (vmaddrs b)"
    using assms(1) sorted_wrt_subseq [OF addrs_subseq [of E fs]] by (simp add: b convert_def bin_ok_def)
  have "set (vmaddrs b) \<subseteq> set (insn_addrs E fs)"
    using list_emb_set [OF addrs_subseq [of E fs]] by (auto simp: b convert_def)
  then show "list_all (\<lambda>a. a < maxaddr b) (vmaddrs b)"
    using assms(1) by (auto simp: b convert_def bin_ok_def list_all_iff)
  show len: "length (bbhandlers b) = length (vmaddrs b)"
    using length_block_words [OF fs] by (simp add: b convert_def)
  obtain af fs' where "fs = af # fs'" using fs(1) by (cases fs) auto
  with fs(2) show "vmaddrs b \<noteq> []"
    by (cases "insns (snd af)") (auto simp: b convert_def func_addrs_def func_ok_def split: prod.split)
  have "bbhandlers b ! k \<noteq> []" if "k < length (bbhandlers b)" for k
    using that nth_nonempty [OF block_words_nonempty [of E fs]]
    by (auto simp: b convert_def convert_loop_nth)
  then show "[] \<notin> set (bbhandlers b)" by (metis in_set_conv_nth)
qed

lemma lookup_total:
  assumes "sorted_wrt (<) (vmaddrs b)" "vmaddrs b \<noteq> []" "length (bbhandlers b) = length (vmaddrs b)"
    "[] \<notin> set (bbhandlers b)"
  shows "\<exists>r. lookup_blocks b v = Inr r \<and> (v < hd (vmaddrs b) \<or> maxaddr b \<le> v \<longrightarrow> r = None)"
proof -
  from addr_order.search_split [OF strict_sorted_by [OF assms(1)] assms(2), of v]
  obtain i where i: "binary_search (<) (vmaddrs b) (length (vmaddrs b)) v = Inr i" "i \<le> length (vmaddrs b)"
    by (auto simp: split_at_def)
  have a0: "arr_at (vmaddrs b) 0 = Inr (hd (vmaddrs b))" using assms(2) by (simp add: arr_at_def hd_conv_nth)
  have bb: "\<exists>p. arr_at (bbhandlers b ! i) 0 = Inr p" if "i < length (vmaddrs b)"
    using assms(3) that nth_nonempty [OF assms(4)] by (auto simp: arr_at_def)
  have ex: "\<exists>e. is_exact (=) i (vmaddrs b) (length (vmaddrs b)) v = Inr e \<and> (e \<longrightarrow> i < length (vmaddrs b))"
    using i(2) by (auto simp: is_exact_def)
  have idx: "(if i \<noteq> 0 then i - 1 else i) < length (vmaddrs b)" using i(2) assms(2) by auto
  show ?thesis
  proof (cases "v < hd (vmaddrs b) \<or> maxaddr b \<le> v")
    case True
    then show ?thesis by (simp add: lookup_blocks_def a0)
  next
    case False
    with ex i(1) idx bb assms(3) show ?thesis by (auto simp: lookup_blocks_def a0 Let_def)
  qed
qed

lemma hd_func_addrs:
  assumes "fs \<noteq> []" and "list_all func_ok fs"
  shows "hd (concat (map (func_addrs E) fs)) = hd (insn_addrs E fs)"
proof -
  obtain a f fs' where f: "fs = (a, f) # fs'" using assms(1) by (cases fs) auto
  with assms(2) obtain i "is" where "insns f = i # is" by (cases "insns f") (auto simp: func_ok_def)
  with f show ?thesis by (auto simp: func_addrs_def insn_addrs_def split: prod.split)
qed

section \<open>Lookups through the cache\<close>

text \<open>
  What \<open>find\<close> promises to its callers (the jump, call and return handlers and the engine's
  \<open>run\<close>): in a good state it returns, its answer is a function of the loaded binaries alone, and
  the state stays good.
\<close>

fun run_lookups :: "(u64 \<Rightarrow> 's \<Rightarrow> (iptr \<times> 's) res) \<Rightarrow> u64 list \<Rightarrow> 's \<Rightarrow> (iptr list \<times> 's) res" where
  "run_lookups fnd [] s = Inr ([], s)"
| "run_lookups fnd (a # as) s =
     res_bind (fnd a s) (\<lambda>(p, s'). res_bind (run_lookups fnd as s') (\<lambda>(ps, s''). Inr (p # ps, s'')))"

locale code_lookup =
  fixes find :: "u64 \<Rightarrow> 's \<Rightarrow> (iptr \<times> 's) res"
    and good :: "'s \<Rightarrow> bool"
    and target :: "'s \<Rightarrow> u64 \<Rightarrow> iptr"
  assumes find_target: "good s \<Longrightarrow> \<exists>s'. find a s = Inr (target s a, s') \<and> good s' \<and> target s' = target s"
begin

text \<open>The answers of a run of lookups do not depend on the lookups before them.\<close>

lemma lookups_target: "good s \<Longrightarrow> \<exists>s'. run_lookups find as s = Inr (map (target s) as, s') \<and> good s' \<and> target s' = target s"
proof (induction "as" arbitrary: s)
  case (Cons a "as")
  from find_target [OF Cons.prems, of a] obtain s1 where s1: "find a s = Inr (target s a, s1)" "good s1" "target s1 = target s"
    by blast
  from Cons.IH [OF s1(2)] s1 show ?case by auto
qed simp

end

definition hits :: "orch \<Rightarrow> u64 \<Rightarrow> nat \<Rightarrow> int \<Rightarrow> bool" where
  "hits s v n p \<longleftrightarrow> n < length (basicblocks s) \<and> lookup_blocks (basicblocks s ! n) v = Inr (Some p)"

text \<open>
  A good state: no lookup in a loaded binary faults, an address belongs to at most one
  binary, and the cache holds only answers a lookup would give.
\<close>

definition orch_good :: "orch \<Rightarrow> bool" where
  "orch_good s \<longleftrightarrow>
     (\<forall>n < length (basicblocks s). \<forall>v. \<exists>r. lookup_blocks (basicblocks s ! n) v = Inr r) \<and>
     (\<forall>v n p m q. hits s v n p \<longrightarrow> hits s v m q \<longrightarrow> n = m) \<and>
     (\<forall>c. current s = Some c \<longrightarrow> c < length (basicblocks s)) \<and>
     (\<forall>i v ptr. L1 s i = (v, Some ptr) \<longrightarrow> (\<exists>n p. ptr = At n p \<and> hits s v n p))"

definition orch_target :: "orch \<Rightarrow> u64 \<Rightarrow> iptr" where
  "orch_target s v = (case filter (\<lambda>n. \<exists>p. hits s v n p) [0..<length (basicblocks s)] of
     [] \<Rightarrow> TermInsn
   | n # _ \<Rightarrow> (case lookup_blocks (basicblocks s ! n) v of Inr (Some p) \<Rightarrow> At n p | _ \<Rightarrow> TermInsn))"

lemma orch_target_hit: "orch_good s \<Longrightarrow> hits s v n p \<Longrightarrow> orch_target s v = At n p"
proof -
  assume g: "orch_good s" and h: "hits s v n p"
  let ?f = "filter (\<lambda>n. \<exists>p. hits s v n p) [0..<length (basicblocks s)]"
  have "n \<in> set ?f" using h by (auto simp: hits_def)
  moreover have "m = n" if "hits s v m q" for m q using that g h unfolding orch_good_def by blast
  moreover have "\<exists>q. hits s v (hd ?f) q" if "?f \<noteq> []" using hd_in_set [OF that] by auto
  ultimately obtain ms where "?f = n # ms" by (cases ?f) auto
  moreover have "lookup_blocks (basicblocks s ! n) v = Inr (Some p)" using h by (simp add: hits_def)
  ultimately show ?thesis unfolding orch_target_def by simp
qed

lemma orch_target_miss: "\<forall>n p. \<not> hits s v n p \<Longrightarrow> orch_target s v = TermInsn"
  by (simp add: orch_target_def)

lemma same_blocks:
  "basicblocks s' = basicblocks s \<Longrightarrow> hits s' = hits s" "basicblocks s' = basicblocks s \<Longrightarrow> orch_target s' = orch_target s"
proof -
  assume e: "basicblocks s' = basicblocks s"
  show "hits s' = hits s" by (intro ext) (simp add: hits_def e)
  show "orch_target s' = orch_target s" unfolding orch_target_def hits_def e ..
qed

lemma cache_put_good: "orch_good s \<Longrightarrow> hits s v n p \<Longrightarrow> orch_good (cache_put v (At n p) s)"
  using same_blocks(1) [of "cache_put v (At n p) s" s]
  by (auto simp: orch_good_def cache_put_def split: if_splits)

lemma set_current_good: "orch_good s \<Longrightarrow> n < length (basicblocks s) \<Longrightarrow> orch_good (s\<lparr>current := Some n\<rparr>)"
  using same_blocks(1) [of "s\<lparr>current := Some n\<rparr>" s] by (auto simp: orch_good_def)

lemma findBlocks_good:
  assumes "orch_good s" and "n < length (basicblocks s)"
  shows "(\<exists>p. hits s v n p \<and> findBlocks n v s = Inr (Some (At n p), cache_put v (At n p) s)) \<or>
     (\<forall>p. \<not> hits s v n p) \<and> findBlocks n v s = Inr (None, s)"
proof -
  obtain r where "lookup_blocks (basicblocks s ! n) v = Inr r" using assms unfolding orch_good_def by blast
  then show ?thesis using assms(2) by (cases r) (auto simp: findBlocks_def hits_def)
qed

lemma find_loop_good:
  assumes "orch_good s" and "set ns \<subseteq> {..<length (basicblocks s)}"
    and "\<forall>n p. hits s v n p \<longrightarrow> n \<in> set ns \<and> current s \<noteq> Some n"
  shows "\<exists>s'. find_loop v ns s = Inr (orch_target s v, s') \<and> orch_good s' \<and> basicblocks s' = basicblocks s"
  using assms
proof (induction ns)
  case Nil
  then show ?case by (auto simp: orch_target_miss)
next
  case (Cons n ns)
  show ?case
  proof (cases "current s = Some n")
    case True
    with Cons have "\<exists>s'. find_loop v ns s = Inr (orch_target s v, s') \<and> orch_good s' \<and> basicblocks s' = basicblocks s"
      by (intro Cons.IH) auto
    with True show ?thesis by simp
  next
    case False
    from Cons.prems have n: "n < length (basicblocks s)" by simp
    from findBlocks_good [OF Cons.prems(1) n, of v] show ?thesis
    proof
      assume "\<exists>p. hits s v n p \<and> findBlocks n v s = Inr (Some (At n p), cache_put v (At n p) s)"
      then obtain p where p: "hits s v n p" "findBlocks n v s = Inr (Some (At n p), cache_put v (At n p) s)" by blast
      have "orch_good ((cache_put v (At n p) s)\<lparr>current := Some n\<rparr>)"
        using cache_put_good [OF Cons.prems(1) p(1)] n by (intro set_current_good) (simp_all add: cache_put_def)
      with p False orch_target_hit [OF Cons.prems(1) p(1)] show ?thesis by (simp add: cache_put_def)
    next
      assume m: "(\<forall>p. \<not> hits s v n p) \<and> findBlocks n v s = Inr (None, s)"
      with Cons.prems have "\<exists>s'. find_loop v ns s = Inr (orch_target s v, s') \<and> orch_good s' \<and> basicblocks s' = basicblocks s"
        by (intro Cons.IH) auto
      with m False show ?thesis by simp
    qed
  qed
qed

lemma find_insn_good:
  assumes "orch_good s"
  shows "\<exists>s'. find_insn v s = Inr (orch_target s v, s') \<and> orch_good s' \<and> basicblocks s' = basicblocks s"
proof (cases "current s")
  case None
  then show ?thesis using find_loop_good [OF assms, of "[0..<length (basicblocks s)]" v]
    by (simp add: find_insn_def hits_def lessThan_atLeast0)
next
  case (Some c)
  with assms have c: "c < length (basicblocks s)" by (auto simp: orch_good_def)
  show ?thesis
  proof (cases "\<exists>ptr. L1 s (cache_index v) = (v, Some ptr)")
    case True
    then obtain ptr where ptr: "L1 s (cache_index v) = (v, Some ptr)" by blast
    with assms obtain n p where "ptr = At n p" "hits s v n p" unfolding orch_good_def by blast
    with Some ptr assms show ?thesis by (simp add: find_insn_def findCache_def orch_target_hit)
  next
    case False
    then have f: "findCache c v s = findBlocks c v s"
      by (auto simp: findCache_def split: prod.split option.split)
    from findBlocks_good [OF assms c, of v] show ?thesis
    proof
      assume "\<exists>p. hits s v c p \<and> findBlocks c v s = Inr (Some (At c p), cache_put v (At c p) s)"
      then obtain p where "hits s v c p" "findBlocks c v s = Inr (Some (At c p), cache_put v (At c p) s)" by blast
      with Some f assms show ?thesis by (simp add: find_insn_def orch_target_hit cache_put_good) (simp add: cache_put_def)
    next
      assume m: "(\<forall>p. \<not> hits s v c p) \<and> findBlocks c v s = Inr (None, s)"
      with find_loop_good [OF assms, of "[0..<length (basicblocks s)]" v] Some f show ?thesis
        by (auto simp: find_insn_def hits_def lessThan_atLeast0)
    qed
  qed
qed

interpretation orch_lookup: code_lookup find_insn orch_good orch_target
proof
  fix s a assume "orch_good s"
  from find_insn_good [OF this, of a] same_blocks(2)
  show "\<exists>s'. find_insn a s = Inr (orch_target s a, s') \<and> orch_good s' \<and> orch_target s' = orch_target s" by metis
qed

section \<open>Properties\<close>

text \<open>
  C8: The handler words of an encoded binary are exactly those of the reference: each function is cut
  into basic blocks before every referenced instruction and after every control transfer, each
  block carries the configured events around each instruction, calls, jumps and returns end in
  their interpreter words, and a single-function binary ends in \<open>finish_emulation\<close>.
  The words are laid out block after block, and the block address table lists the addresses
  of the first instructions.
\<close>

theorem encode_meets_reference:
  assumes "fs \<noteq> []" and "list_all func_ok fs"
  shows "encode E fs s = Inr (s\<lparr>basicblocks := basicblocks s @
      [\<lparr>vmaddrs = concat (map (func_addrs E) fs), maxaddr = fend (snd (last fs)) + env_addend E,
        bbhandlers = convert_loop 0 (block_words E fs), rthandlers = concat (block_words E fs)\<rparr>],
      current := Some (length (basicblocks s))\<rparr>)"
  using encode_blocks_spec [OF assms] by (simp add: encode_def convert_def)

definition cfg0 :: EventConfig where
  "cfg0 = \<lparr>cfg_lift = False, cfg_memory = False, cfg_func = False, cfg_block = True, cfg_insn = True,
     cfg_syscall = False, cfg_trap = False, cfg_bridge = False, cfg_debug = False\<rparr>"

definition env0 :: enc_env where
  "env0 = \<lparr>env_arch = ARM64, env_cfg = cfg0,
     env_fa = (\<lambda>f. case f of event_insn_before \<Rightarrow> 0x100 | event_insn_after \<Rightarrow> 0x110 | event_block_before \<Rightarrow> 0x120
       | event_block_after \<Rightarrow> 0x130 | jump_interpret \<Rightarrow> 0x140 | finish_function \<Rightarrow> 0x150 | finish_emulation \<Rightarrow> 0x160
       | _ \<Rightarrow> 0x170),
     env_dyn = (\<lambda>_. Some 0x1000), env_addend = 0x8000\<rparr>"

definition bin0 :: "(u64 \<times> bin_func) list" where
  "bin0 = [(0x4000, \<lparr>insns =
     [\<lparr>fnoff = 0, insn_oplen = 4, insn_ty = OTHER, comins = 0, opbytes = [1, 2, 3, 4]\<rparr>,
      \<lparr>fnoff = 4, insn_oplen = 4, insn_ty = JCOND, comins = 0, opbytes = [1, 2, 3, 5]\<rparr>,
      \<lparr>fnoff = 8, insn_oplen = 4, insn_ty = RET, comins = 0, opbytes = [1, 2, 3, 6]\<rparr>], fend = 0x400C\<rparr>)]"

definition orch0 :: orch where
  "orch0 = \<lparr>basicblocks = [], current = None, L1 = (\<lambda>_. (0, None))\<rparr>"

theorem encode_meets_reference_witness:
  "encode env0 bin0 orch0 = Inr (orch0\<lparr>basicblocks :=
      [\<lparr>vmaddrs = [0xC000, 0xC008], maxaddr = 0xC00C,
        bbhandlers = convert_loop 0 (block_words env0 bin0), rthandlers = concat (block_words env0 bin0)\<rparr>],
      current := Some 0\<rparr>)"
  using encode_meets_reference [of bin0 env0 orch0]
  by (simp add: bin0_def func_ok_def func_addrs_def insn_addr_def is_transfer_def env0_def orch0_def)

lemma block_start:
  assumes "bin_ok E fs" and "encode_blocks E fs = Inr b" and "k < length (vmaddrs b)"
  shows "\<exists>p. lookup_blocks b (vmaddrs b ! k) = Inr (Some (int p)) \<and>
    drop p (rthandlers b) = block_words E fs ! k @ concat (drop (Suc k) (block_words E fs))"
proof -
  from assms(1) have fs: "fs \<noteq> []" "list_all func_ok fs" by (simp_all add: bin_ok_def)
  have b: "b = convert (concat (map (func_addrs E) fs)) (fend (snd (last fs)) + env_addend E) (block_words E fs)"
    using encode_blocks_spec [OF fs] assms(2) by simp
  have len: "length (block_words E fs) = length (vmaddrs b)"
    using length_block_words [OF fs] by (simp add: b convert_def)
  have ne: "block_words E fs ! k \<noteq> []"
    using nth_nonempty [OF block_words_nonempty [of E fs]] assms(3) len by simp
  have bb: "bbhandlers b ! k = [length (concat (take k (block_words E fs)))..<
      length (concat (take k (block_words E fs))) + length (block_words E fs ! k)]"
    using assms(3) len by (simp add: b convert_def convert_loop_nth)
  have "lookup_blocks b (vmaddrs b ! k) = Inr (Some (int (hd (bbhandlers b ! k))))"
    using encoded_shape(1,2) [OF assms(1,2)] assms(3) by (rule lookup_block_start) (use bb ne len in \<open>simp_all add: b convert_def\<close>)
  moreover have "hd (bbhandlers b ! k) = length (concat (take k (block_words E fs)))"
    using bb ne by (simp add: hd_upt)
  ultimately show ?thesis using drop_concat [of k "block_words E fs"] assms(3) len
    by (auto simp: b convert_def)
qed

text \<open>
  On a binary whose instructions are in address order, every block address is found: looking up
  the \<open>k\<close>-th block address in the encoded blocks gives the position at which the words of
  the \<open>k\<close>-th block start, followed by the words of the blocks after it (so that a block that does
  not end in a transfer runs on into its successor).
\<close>

lemma block_start_found:
  assumes "bin_ok E fs" and "encode_blocks E fs = Inr b" and "k < length (vmaddrs b)"
  shows "\<exists>p. lookup_blocks b (vmaddrs b ! k) = Inr (Some (int p)) \<and>
    drop p (rthandlers b) = block_words E fs ! k @ concat (drop (Suc k) (block_words E fs))"
  using assms by (rule block_start)


lemma encode_good:
  assumes "orch_good s" and "bin_ok E fs"
    and disj: "\<forall>v n p. hits s v n p \<longrightarrow> v < hd (insn_addrs E fs) \<or> fend (snd (last fs)) + env_addend E \<le> v"
  shows "\<exists>s'. encode E fs s = Inr s' \<and> orch_good s' \<and> (\<forall>v n p. hits s v n p \<longrightarrow> hits s' v n p)"
proof -
  from assms(2) have fs: "fs \<noteq> []" "list_all func_ok fs" by (simp_all add: bin_ok_def)
  obtain b where b: "encode_blocks E fs = Inr b" using encode_blocks_spec [OF fs] by blast
  note shape = encoded_shape [OF assms(2) b]
  have mx: "maxaddr b = fend (snd (last fs)) + env_addend E" "hd (vmaddrs b) = hd (insn_addrs E fs)"
    using b encode_blocks_spec [OF fs, of E] hd_func_addrs [OF fs, of E] by (auto simp: convert_def)
  let ?s = "s\<lparr>basicblocks := basicblocks s @ [b], current := Some (length (basicblocks s))\<rparr>"
  have total: "\<exists>r. lookup_blocks b v = Inr r \<and> (v < hd (vmaddrs b) \<or> maxaddr b \<le> v \<longrightarrow> r = None)" for v
    using lookup_total [OF shape(1,3-5)] .
  have h: "hits ?s v n p \<longleftrightarrow> hits s v n p \<or> n = length (basicblocks s) \<and> lookup_blocks b v = Inr (Some p)" for v n p
    by (auto simp: hits_def nth_append less_Suc_eq)
  have new: "\<not> hits s v n p" if "lookup_blocks b v = Inr (Some q)" for v n p q
    using total [of v] that disj mx by auto
  have good: "\<exists>r. lookup_blocks (basicblocks ?s ! n) v = Inr r" if "n < length (basicblocks ?s)" for n v
    using that assms(1) total [of v] unfolding orch_good_def by (auto simp: nth_append less_Suc_eq)
  have uniq: "n = m" if "hits ?s v n p" "hits ?s v m q" for v n p m q
    using that new assms(1) unfolding h orch_good_def by blast
  have cache: "\<exists>n p. ptr = At n p \<and> hits ?s v n p" if "L1 s i = (v, Some ptr)" for i v ptr
    using that assms(1) unfolding h orch_good_def by blast
  have "orch_good ?s" unfolding orch_good_def using good uniq cache by simp
  then show ?thesis using b h by (auto simp: encode_def)
qed

text \<open>
  Encoding a binary whose instructions are in address order keeps the lookup state good, provided
  its address range does not meet an address that a loaded binary already answers for: no lookup
  can then fault or be ambiguous, and no cached answer becomes wrong.
\<close>

lemma encode_keeps_lookups_good:
  assumes "orch_good s" and "bin_ok E fs"
    and disj: "\<forall>v n p. hits s v n p \<longrightarrow> v < hd (insn_addrs E fs) \<or> fend (snd (last fs)) + env_addend E \<le> v"
  shows "\<exists>s'. encode E fs s = Inr s' \<and> orch_good s' \<and> (\<forall>v n p. hits s v n p \<longrightarrow> hits s' v n p)"
  using assms by (rule encode_good)


text \<open>
  \<open>find\<close> always returns when the loaded binaries occupy disjoint address ranges and none of
  their lookups faults: it answers with the binary's own lookup result, or with the terminating
  instruction when no binary knows the address; the answers to a sequence of lookups do
  not depend on what the per-thread cache held before, and the cache stays correct.
\<close>

lemma find_is_cache_independent:
  assumes "orch_good s"
  shows "\<exists>s'. run_lookups find_insn as s = Inr (map (orch_target s) as, s') \<and> orch_good s' \<and>
    (\<forall>v n p. hits s v n p \<longrightarrow> orch_target s v = At n p)"
  using orch_lookup.lookups_target [OF assms, of "as"] orch_target_hit [OF assms] by blast


text \<open>
  Packing a handler address and reading it back with the bit-field extraction of
  either host (\<open>ubfx\<close> on AArch64, the shift pair on x86-64) gives the address, as
  long as it is below \<open>2^59\<close>; the event flag and the opcode length stored above it do not
  disturb it.
\<close>

lemma handler_word_roundtrip:
  assumes "a < 2 ^ 59"
  shows "extract_handler_x16 (insn_word (event_insn a)) = a \<and> extract_handler_r10 (insn_word (event_insn a)) = a \<and>
    extract_handler_x16 (insn_word (real_insn a n)) = a \<and> extract_handler_r10 (insn_word (real_insn a n)) = a"
  using ucast_59 [OF assms] by (simp add: extract_handler_word event_insn_def real_insn_def)



end
