(* ===== verification/Execution.thy ===== *)
theory Execution
  imports Orchestrator CPUState
begin

text \<open>
  \<open>src/Event.cpp\<close>, with \<open>handleEvent\<close> of \<open>src/BinaryEngine.h\<close>, the macros of \<open>src/Orchestrator.h\<close> and the event stubs of
  \<open>src/AArch64.cpp\<close> and \<open>src/X86.cpp\<close>: threaded execution of the handler words the orchestrator laid out.  A word
  is either a host event function, which returns the word to go on with, or a
  lifted handler, which runs one guest instruction and goes on with the next word.

  Event callbacks, the debugger, the system call and the effect of lifted handlers
  are parameters; they may change the thread state in any way.
\<close>

section \<open>Events\<close>

datatype EventResult = Continue | Processed | Terminate

datatype Event =
    EventRuntime EventType u64
  | EventLift EventType u64 bytes nat string \<comment> \<open>opcode, size, handler name\<close>
  | EventMemory EventType u64 u64 nat u64 \<comment> \<open>target address, size, value\<close>
  | EventHyperCall EventType u64 u32

type_synonym callback = "Event \<Rightarrow> cpu \<Rightarrow> EventResult \<times> Event \<times> cpu"

text \<open>The first callback that does not continue decides.\<close>

fun handleEvent :: "callback list \<Rightarrow> Event \<Rightarrow> cpu \<Rightarrow> EventResult \<times> Event \<times> cpu" where
  "handleEvent [] e c = (Continue, e, c)"
| "handleEvent (cb # cbs) e c =
     (let (r, e', c') = cb e c in if r \<noteq> Continue then (r, e', c') else handleEvent cbs e' c')"

record host_env =
  he_cfg :: EventConfig
  he_callbacks :: "callback list"
  he_insn_handler :: "u64 \<Rightarrow> cpu \<Rightarrow> cpu" \<comment> \<open>the debugger\<close>
  he_memory_handler :: "u64 \<Rightarrow> nat \<Rightarrow> bool \<Rightarrow> cpu \<Rightarrow> cpu" \<comment> \<open>the debugger: address, size, whether it is a write\<close>
  he_syscall :: "u32 \<Rightarrow> u64 list \<Rightarrow> cpu \<Rightarrow> u32 \<times> cpu" \<comment> \<open>number and arguments\<close>
  he_posix :: bool
  he_fa :: "host_fn \<Rightarrow> u64" \<comment> \<open>the addresses of the event stubs\<close>
  he_run :: "u64 \<Rightarrow> cpu \<Rightarrow> cpu" \<comment> \<open>what a lifted handler does\<close>

section \<open>Host functions\<close>

text \<open>Where execution goes on: a handler word, or the return address slot, which leaves the machine.\<close>

datatype target = Word iptr | RetSlot

fun advance :: "nat \<Rightarrow> iptr \<Rightarrow> iptr" where
  "advance k (At n p) = At n (p + int k)"
| "advance k TermInsn = TermInsn" \<comment> \<open>does not occur: the word of \<open>TermInsn\<close> aborts\<close>

definition pc_of :: "cpu \<Rightarrow> u64" where
  "pc_of c = load64 (mem c) (pcptr c)"

text \<open>The body the observing events share.\<close>

definition observe :: "host_env \<Rightarrow> EventType \<Rightarrow> cpu \<Rightarrow> EventResult \<times> cpu" where
  "observe H ty c =
     (if he_callbacks H = [] then (Continue, c)
      else case handleEvent (he_callbacks H) (EventRuntime ty (pc_of c)) c of (r, _, c') \<Rightarrow> (r, c'))"

definition find_target_insn :: "orch \<Rightarrow> cpu \<Rightarrow> (target \<times> orch \<times> cpu) res" where
  "find_target_insn s c = res_bind (find_insn (pc_of c) s) (\<lambda>(p, s'). Inr (Word p, s', c))"

definition gpr_x :: "cpu \<Rightarrow> nat \<Rightarrow> u64" where
  "gpr_x c i = load64 (mem c) (a64_addr c (A_gpr i))"

definition host_syscall :: "host_env \<Rightarrow> cpu \<Rightarrow> cpu res" where
  "host_syscall H c =
     (if \<not> he_posix H then Inl Abort
      else case handleEvent (he_callbacks H) (EventHyperCall SyscallBefore (pc_of c) (ucast (gpr_x c 0))) c of
             (r, e, c1) \<Rightarrow>
               if r = Processed then Inr c1
               else let (v, c2) = he_syscall H (ucast (gpr_x c1 0)) (map (gpr_x c1) [1..<8]) c1;
                        c3 = c2\<lparr>mem := store64 (mem c2) (a64_addr c2 (A_gpr 0)) (scast v)\<rparr>
                    in if he_callbacks H = [] then Inr c3
                       else case e of
                              EventHyperCall _ a n \<Rightarrow> Inr (snd (snd (handleEvent (he_callbacks H) (EventHyperCall SyscallAfter a n) c3)))
                            | _ \<Rightarrow> Inl Abort)"

definition host_call :: "host_env \<Rightarrow> host_fn \<Rightarrow> iptr \<Rightarrow> orch \<Rightarrow> cpu \<Rightarrow> (target \<times> orch \<times> cpu) res" where
  "host_call H f cur s c =
     (let default = (\<lambda>c. Inr (Word (advance 1 cur), s, c)) in
      case f of
        event_func_before \<Rightarrow> default (snd (observe H FuncBefore c))
      | event_func_after \<Rightarrow> default (snd (observe H FuncAfter c))
      | event_insn_before \<Rightarrow>
          (case observe H InsnBefore c of
             (Processed, c') \<Rightarrow> Inr (Word (advance 1 (advance 1 cur)), s, c')
           | (Terminate, c') \<Rightarrow> Inr (RetSlot, s, c')
           | (Continue, c') \<Rightarrow> default c')
      | event_insn_after \<Rightarrow> default (snd (observe H InsnAfter c))
      | event_block_before \<Rightarrow> default (snd (observe H BlockBefore c))
      | event_block_after \<Rightarrow> default (snd (observe H BlockAfter c))
      | event_debugging \<Rightarrow> default (if cfg_debug (he_cfg H) then he_insn_handler H (pc_of c) c else c)
      | syscall_interpret \<Rightarrow> res_bind (host_syscall H c) default
      | interrupt_interpret \<Rightarrow> Inl Abort
      | jump_interpret \<Rightarrow> find_target_insn s c
      | call_interpret \<Rightarrow> find_target_insn s c
      | finish_function \<Rightarrow> if pc_of c = retaddr c then Inr (RetSlot, s, c) else find_target_insn s c
      | finish_emulation \<Rightarrow> Inr (RetSlot, s, c)
      | terminate_execution \<Rightarrow> Inl Abort)"

section \<open>Threaded execution\<close>

record exec =
  x_ptr :: target
  x_orch :: orch
  x_cpu :: cpu

definition all_host_fns :: "host_fn list" where
  "all_host_fns = [event_func_before, event_func_after, event_insn_before, event_insn_after, event_block_before, event_block_after,
     event_debugging, syscall_interpret, interrupt_interpret, jump_interpret, call_interpret, finish_function, finish_emulation,
     terminate_execution]"

definition host_fn_at :: "host_env \<Rightarrow> u64 \<Rightarrow> host_fn option" where
  "host_fn_at H a = List.find (\<lambda>f. he_fa H f = a) all_host_fns"

text \<open>Running one word: what it is decided by the address packed in it.\<close>

definition run_word :: "host_env \<Rightarrow> Instruction \<Rightarrow> iptr \<Rightarrow> orch \<Rightarrow> cpu \<Rightarrow> (target \<times> orch \<times> cpu) res" where
  "run_word H w cur s c =
     (let a = extract_handler_x16 (insn_word w) in
      case host_fn_at H a of
        Some f \<Rightarrow> host_call H f cur s c
      | None \<Rightarrow> Inr (Word (advance 1 cur), s, he_run H a c))"

definition exec_step :: "host_env \<Rightarrow> exec \<Rightarrow> exec res" where
  "exec_step H x =
     (case x_ptr x of
        RetSlot \<Rightarrow> Inr x
      | Word TermInsn \<Rightarrow> Inl Abort
      | Word (At n p) \<Rightarrow>
          if p < 0 then Inl OutOfBounds
          else res_bind (arr_at (basicblocks (x_orch x)) n) (\<lambda>b.
               res_bind (arr_at (rthandlers b) (nat p)) (\<lambda>w.
               res_bind (run_word H w (At n p) (x_orch x) (x_cpu x)) (\<lambda>(t, s, c).
               Inr \<lparr>x_ptr = t, x_orch = s, x_cpu = c\<rparr>))))"

fun exec_steps :: "nat \<Rightarrow> host_env \<Rightarrow> exec \<Rightarrow> exec res" where
  "exec_steps 0 H x = Inr x"
| "exec_steps (Suc k) H x = res_bind (exec_step H x) (exec_steps k H)"

section \<open>Words of an encoded block\<close>

text \<open>The machine runs with the configuration and the stub addresses the binary was encoded with.\<close>

definition env_match :: "host_env \<Rightarrow> enc_env \<Rightarrow> bool" where
  "env_match H E \<longleftrightarrow> he_cfg H = env_cfg E \<and> he_fa H = env_fa E \<and> distinct (map (env_fa E) all_host_fns) \<and>
     list_all (\<lambda>f. env_fa E f < 2 ^ 59) all_host_fns"

definition lifted :: "enc_env \<Rightarrow> bin_insn \<Rightarrow> bool" where
  "lifted E i \<longleftrightarrow> real_entry E i < 2 ^ 59 \<and> real_entry E i \<notin> set (map (env_fa E) all_host_fns)"

definition words_at :: "orch \<Rightarrow> nat \<Rightarrow> nat \<Rightarrow> Instructions \<Rightarrow> bool" where
  "words_at s n p ws \<longleftrightarrow> n < length (basicblocks s) \<and> (\<exists>pre suf. rthandlers (basicblocks s ! n) = pre @ ws @ suf \<and> length pre = p)"

lemma all_host_fns: "f \<in> set all_host_fns"
  by (cases f) (simp_all add: all_host_fns_def)

lemma find_distinct: "distinct (map f xs) \<Longrightarrow> x \<in> set xs \<Longrightarrow> List.find (\<lambda>y. f y = f x) xs = Some x"
  by (induction xs) auto

lemma run_event_word:
  assumes "env_match H E"
  shows "run_word H (event_insn (env_fa E f)) cur s c = host_call H f cur s c"
proof -
  have "env_fa E f < 2 ^ 59" using assms all_host_fns [of f] by (simp add: env_match_def list_all_iff)
  then have a: "extract_handler_x16 (insn_word (event_insn (env_fa E f))) = env_fa E f"
    by (simp add: extract_handler_word event_insn_def ucast_59)
  have "host_fn_at H (env_fa E f) = Some f"
    using assms find_distinct [of "env_fa E" all_host_fns f] all_host_fns [of f] by (simp add: env_match_def host_fn_at_def)
  then show ?thesis by (simp add: run_word_def a)
qed

lemma run_real_word:
  assumes "env_match H E" and "lifted E i"
  shows "run_word H (real_insn (real_entry E i) k) cur s c = Inr (Word (advance 1 cur), s, he_run H (real_entry E i) c)"
proof -
  have a: "extract_handler_x16 (insn_word (real_insn (real_entry E i) k)) = real_entry E i"
    using assms(2) by (simp add: lifted_def extract_handler_word real_insn_def ucast_59)
  have "host_fn_at H (real_entry E i) = None"
    using assms by (auto simp: env_match_def lifted_def host_fn_at_def find_None_iff) (metis image_eqI)
  then show ?thesis by (simp add: run_word_def a)
qed

lemma words_at_append: "words_at s n p (us @ ws) \<Longrightarrow> words_at s n p us \<and> words_at s n (p + length us) ws"
  unfolding words_at_def by (metis append.assoc length_append)

lemma words_at_Cons: "words_at s n p (w # ws) \<Longrightarrow> words_at s n (Suc p) ws"
  using words_at_append [of s n p "[w]" ws] by simp

text \<open>One word of a sequence.\<close>

lemma step_word:
  assumes "words_at s n p (w # ws)"
  shows "exec_step H \<lparr>x_ptr = Word (At n (int p)), x_orch = s, x_cpu = c\<rparr> =
     res_bind (run_word H w (At n (int p)) s c) (\<lambda>(t, s, c). Inr \<lparr>x_ptr = t, x_orch = s, x_cpu = c\<rparr>)"
proof -
  obtain pre suf where r: "rthandlers (basicblocks s ! n) = pre @ w # ws @ suf" "length pre = p" "n < length (basicblocks s)"
    using assms by (auto simp: words_at_def)
  then have "arr_at (rthandlers (basicblocks s ! n)) p = Inr w" by (simp add: nth_append)
  with r(3) show ?thesis by (simp add: exec_step_def)
qed

lemma exec_steps_add: "exec_steps (a + b) H x = res_bind (exec_steps a H x) (exec_steps b H)"
proof (induction a arbitrary: x)
  case (Suc a)
  then show ?case by (cases "exec_step H x") simp_all
qed simp

text \<open>An optional observing event: it only changes the thread state.\<close>

lemma exec_event_word:
  assumes "env_match H E" and "words_at s n p (ev b (env_fa E f) @ ws)"
    and "b \<Longrightarrow> \<forall>cur. host_call H f cur s c = Inr (Word (advance 1 cur), s, g c)"
  shows "exec_steps (length (ev b (env_fa E f))) H \<lparr>x_ptr = Word (At n (int p)), x_orch = s, x_cpu = c\<rparr> =
     Inr \<lparr>x_ptr = Word (At n (int (p + length (ev b (env_fa E f))))), x_orch = s, x_cpu = if b then g c else c\<rparr>"
proof (cases b)
  case True
  with assms(2) have "words_at s n p (event_insn (env_fa E f) # ws)" by (simp add: ev_def)
  from step_word [OF this] assms(1,3) True show ?thesis by (simp add: ev_def run_event_word algebra_simps)
qed (simp add: ev_def)

section \<open>Blocks run in order\<close>

text \<open>One instruction without words: event, debugger, instruction, event.\<close>

definition ref_insn :: "host_env \<Rightarrow> enc_env \<Rightarrow> bin_insn \<Rightarrow> cpu \<Rightarrow> cpu" where
  "ref_insn H E i c =
     (let c1 = (if cfg_insn (env_cfg E) then snd (observe H InsnBefore c) else c);
          c2 = (if cfg_debug (env_cfg E) then he_insn_handler H (pc_of c1) c1 else c1);
          c3 = he_run H (real_entry E i) c2
      in if cfg_insn (env_cfg E) then snd (observe H InsnAfter c3) else c3)"

text \<open>A sequence of instructions, as long as no callback skips one or ends the emulation.\<close>

fun ref_block :: "host_env \<Rightarrow> enc_env \<Rightarrow> bin_insn list \<Rightarrow> cpu \<Rightarrow> cpu option" where
  "ref_block H E [] c = Some c"
| "ref_block H E (i # is) c =
     (if cfg_insn (env_cfg E) \<and> fst (observe H InsnBefore c) \<noteq> Continue then None else ref_block H E is (ref_insn H E i c))"

lemma ref_block_snoc:
  "ref_block H E (g @ [t]) c = Some c' \<Longrightarrow>
     \<exists>c1. ref_block H E g c = Some c1 \<and> (cfg_insn (env_cfg E) \<longrightarrow> fst (observe H InsnBefore c1) = Continue) \<and> c' = ref_insn H E t c1"
  by (induction g arbitrary: c) (auto split: if_splits)

definition body_words :: "enc_env \<Rightarrow> bin_insn \<Rightarrow> Instructions" where
  "body_words E i = ev (cfg_insn (env_cfg E)) (env_fa E event_insn_before) @ ev (cfg_debug (env_cfg E)) (env_fa E event_debugging) @
     [real_insn (real_entry E i) (insn_oplen i)] @ ev (cfg_insn (env_cfg E)) (env_fa E event_insn_after)"

lemma exec_body:
  assumes m: "env_match H E" and l: "lifted E i" and w: "words_at s n p (body_words E i @ ws)"
    and go: "cfg_insn (env_cfg E) \<longrightarrow> fst (observe H InsnBefore c) = Continue"
  shows "exec_steps (length (body_words E i)) H \<lparr>x_ptr = Word (At n (int p)), x_orch = s, x_cpu = c\<rparr> =
     Inr \<lparr>x_ptr = Word (At n (int (p + length (body_words E i)))), x_orch = s, x_cpu = ref_insn H E i c\<rparr>"
proof -
  let ?b = "ev (cfg_insn (env_cfg E)) (env_fa E event_insn_before)" and ?d = "ev (cfg_debug (env_cfg E)) (env_fa E event_debugging)"
    and ?r = "[real_insn (real_entry E i) (insn_oplen i)]" and ?a = "ev (cfg_insn (env_cfg E)) (env_fa E event_insn_after)"
  let ?c1 = "if cfg_insn (env_cfg E) then snd (observe H InsnBefore c) else c"
  let ?c2 = "if cfg_debug (env_cfg E) then he_insn_handler H (pc_of ?c1) ?c1 else ?c1"
  let ?c3 = "he_run H (real_entry E i) ?c2"
  have w1: "words_at s n p (?b @ ?d @ ?r @ ?a @ ws)" using w by (simp add: body_words_def)
  have w2: "words_at s n (p + length ?b) (?d @ ?r @ ?a @ ws)" using words_at_append [OF w1] by blast
  have w3: "words_at s n (p + length ?b + length ?d) (?r @ ?a @ ws)" using words_at_append [OF w2] by blast
  have w4: "words_at s n (p + length ?b + length ?d + length ?r) (?a @ ws)" using words_at_append [OF w3] by blast
  have e1: "exec_steps (length ?b) H \<lparr>x_ptr = Word (At n (int p)), x_orch = s, x_cpu = c\<rparr> =
      Inr \<lparr>x_ptr = Word (At n (int (p + length ?b))), x_orch = s, x_cpu = ?c1\<rparr>"
    by (rule exec_event_word [OF m w1]) (use go in \<open>auto simp: host_call_def split: prod.splits\<close>)
  have e2: "exec_steps (length ?d) H \<lparr>x_ptr = Word (At n (int (p + length ?b))), x_orch = s, x_cpu = ?c1\<rparr> =
      Inr \<lparr>x_ptr = Word (At n (int (p + length ?b + length ?d))), x_orch = s, x_cpu = ?c2\<rparr>"
    by (rule exec_event_word [OF m w2, where g = "\<lambda>c. he_insn_handler H (pc_of c) c"]) (use m in \<open>simp add: host_call_def env_match_def\<close>)
  have e3: "exec_steps (length ?r) H \<lparr>x_ptr = Word (At n (int (p + length ?b + length ?d))), x_orch = s, x_cpu = ?c2\<rparr> =
      Inr \<lparr>x_ptr = Word (At n (int (p + length ?b + length ?d + length ?r))), x_orch = s, x_cpu = ?c3\<rparr>"
    using step_word [of s n "p + length ?b + length ?d" _ "?a @ ws" H ?c2] w3 run_real_word [OF m l] by (simp add: algebra_simps)
  have e4: "exec_steps (length ?a) H \<lparr>x_ptr = Word (At n (int (p + length ?b + length ?d + length ?r))), x_orch = s, x_cpu = ?c3\<rparr> =
      Inr \<lparr>x_ptr = Word (At n (int (p + length ?b + length ?d + length ?r + length ?a))), x_orch = s,
        x_cpu = if cfg_insn (env_cfg E) then snd (observe H InsnAfter ?c3) else ?c3\<rparr>"
    by (rule exec_event_word [OF m w4]) (simp add: host_call_def)
  have len: "length (body_words E i) = length ?b + (length ?d + (length ?r + length ?a))" by (simp add: body_words_def)
  show ?thesis unfolding len exec_steps_add e1 e2 e3 e4 res_bind_simps by (simp add: ref_insn_def Let_def add.assoc)
qed

definition straight :: "enc_env \<Rightarrow> bin_insn \<Rightarrow> bool" where
  "straight E i \<longleftrightarrow> insn_ty i = OTHER \<and> lifted E i"

definition block_text :: "enc_env \<Rightarrow> bin_insn list \<Rightarrow> Instructions" where
  "block_text E g = concat (map (render_insn E) g)"

lemma render_straight: "insn_ty i = OTHER \<Longrightarrow> render_insn E i = body_words E i"
  by (simp add: render_insn_def render_before_def render_after_def body_words_def)

lemma exec_straight:
  assumes m: "env_match H E" and "list_all (straight E) g" and "words_at s n p (block_text E g @ ws)"
    and "ref_block H E g c = Some c'"
  shows "exec_steps (length (block_text E g)) H \<lparr>x_ptr = Word (At n (int p)), x_orch = s, x_cpu = c\<rparr> =
     Inr \<lparr>x_ptr = Word (At n (int (p + length (block_text E g)))), x_orch = s, x_cpu = c'\<rparr>"
  using assms(2-)
proof (induction g arbitrary: p c)
  case (Cons i g)
  from Cons.prems(1) have "straight E i" and g: "list_all (straight E) g" by simp_all
  then have st: "insn_ty i = OTHER" "lifted E i" by (simp_all add: straight_def)
  have t: "block_text E (i # g) = body_words E i @ block_text E g" by (simp add: block_text_def render_straight [OF st(1)])
  have w: "words_at s n p (body_words E i @ block_text E g @ ws)" using Cons.prems(2) by (simp add: t)
  have r: "cfg_insn (env_cfg E) \<longrightarrow> fst (observe H InsnBefore c) = Continue" "ref_block H E g (ref_insn H E i c) = Some c'"
    using Cons.prems(3) by (auto split: if_splits)
  have w': "words_at s n (p + length (body_words E i)) (block_text E g @ ws)" using words_at_append [OF w] by blast
  show ?case
    unfolding t length_append exec_steps_add exec_body [OF m st(2) w r(1)] res_bind_simps Cons.IH [OF g w' r(2)]
    by (simp add: add.assoc)
qed (simp add: block_text_def)

definition jumps :: "insn_type \<Rightarrow> bool" where
  "jumps t \<longleftrightarrow> t = JUMP \<or> t = JCOND \<or> t = CALL"

lemma render_jump:
  assumes "jumps (insn_ty i)"
  obtains f where "render_insn E i = body_words E i @ [event_insn (env_fa E f)]" "f = jump_interpret \<or> f = call_interpret"
  using assms that [of jump_interpret] that [of call_interpret]
  by (auto simp: jumps_def render_insn_def render_before_def render_after_def body_words_def)

text \<open>A sequence of ordinary instructions and the events and handler of the one after it.\<close>

lemma exec_block:
  assumes "env_match H E" and "list_all (straight E) g" and "lifted E t" and w: "words_at s n p (block_text E g @ body_words E t @ ws)"
    and r: "ref_block H E (g @ [t]) c = Some c'"
  shows "exec_steps (length (block_text E g) + length (body_words E t)) H \<lparr>x_ptr = Word (At n (int p)), x_orch = s, x_cpu = c\<rparr> =
     Inr \<lparr>x_ptr = Word (At n (int (p + length (block_text E g) + length (body_words E t)))), x_orch = s, x_cpu = c'\<rparr>"
proof -
  have w2: "words_at s n (p + length (block_text E g)) (body_words E t @ ws)" using words_at_append [OF w] by blast
  obtain c1 where c1: "ref_block H E g c = Some c1" "cfg_insn (env_cfg E) \<longrightarrow> fst (observe H InsnBefore c1) = Continue" "c' = ref_insn H E t c1"
    using r ref_block_snoc by blast
  show ?thesis
    unfolding exec_steps_add exec_straight [OF assms(1,2) w c1(1)] res_bind_simps exec_body [OF assms(1,3) w2 c1(2)] c1(3) ..
qed

text \<open>
  C10: an encoded basic block is executed as its instructions, in order.  From the first word of a block that
  consists of ordinary lifted instructions and ends in a jump or call, with callbacks that let each
  instruction continue, threaded execution runs for each instruction its events and
  its handler, in the order of the guest code, and then goes to the words that the orchestrator has
  for the program counter; its caches stay right.
\<close>

theorem block_executes_in_order:
  assumes "env_match H E" and "list_all (straight E) g" and "lifted E t" and "jumps (insn_ty t)"
    and "words_at s n p (block_text E (g @ [t]))" and "orch_good s" and "ref_block H E (g @ [t]) c = Some c'"
  shows "\<exists>s'. exec_steps (length (block_text E (g @ [t]))) H \<lparr>x_ptr = Word (At n (int p)), x_orch = s, x_cpu = c\<rparr> =
       Inr \<lparr>x_ptr = Word (orch_target s (pc_of c')), x_orch = s', x_cpu = c'\<rparr> \<and> orch_good s' \<and> orch_target s' = orch_target s"
proof -
  obtain f where f: "render_insn E t = body_words E t @ [event_insn (env_fa E f)]" "f = jump_interpret \<or> f = call_interpret"
    using render_jump [OF assms(4)] .
  have t: "block_text E (g @ [t]) = block_text E g @ body_words E t @ [event_insn (env_fa E f)]" by (simp add: block_text_def f(1))
  note w1 = assms(5) [unfolded t]
  have w3: "words_at s n (p + length (block_text E g) + length (body_words E t)) [event_insn (env_fa E f)]"
    using words_at_append [OF w1] words_at_append by blast
  obtain s' where s': "find_insn (pc_of c') s = Inr (orch_target s (pc_of c'), s')" "orch_good s'" "orch_target s' = orch_target s"
    using orch_lookup.find_target [OF assms(6)] by blast
  have last: "exec_steps 1 H \<lparr>x_ptr = Word (At n (int (p + length (block_text E g) + length (body_words E t)))), x_orch = s, x_cpu = c'\<rparr> =
      Inr \<lparr>x_ptr = Word (orch_target s (pc_of c')), x_orch = s', x_cpu = c'\<rparr>"
    using step_word [OF w3] run_event_word [OF assms(1)] s'(1) f(2) by (auto simp: host_call_def find_target_insn_def)
  have len: "length (block_text E (g @ [t])) = length (block_text E g) + length (body_words E t) + 1" by (simp add: t)
  have "exec_steps (length (block_text E (g @ [t]))) H \<lparr>x_ptr = Word (At n (int p)), x_orch = s, x_cpu = c\<rparr> =
      Inr \<lparr>x_ptr = Word (orch_target s (pc_of c')), x_orch = s', x_cpu = c'\<rparr>"
    unfolding len exec_steps_add [of _ 1] exec_block [OF assms(1-3) w1 assms(7)] res_bind_simps by (rule last)
  with s' show ?thesis by blast
qed

lemma ret_slot_final: "exec_steps k H \<lparr>x_ptr = RetSlot, x_orch = s, x_cpu = c\<rparr> = Inr \<lparr>x_ptr = RetSlot, x_orch = s, x_cpu = c\<rparr>"
  by (induction k) (simp_all add: exec_step_def)

text \<open>
  Returning to the host leaves the machine: a block that ends in a return after which the program counter is the return
  address reaches the return slot and stays there.
\<close>

lemma return_steps:
  assumes "env_match H E" and "list_all (straight E) g" and "lifted E t" and "insn_ty t = RET"
    and "words_at s n p (block_text E (g @ [t]))" and "ref_block H E (g @ [t]) c = Some c1"
    and "c' = (if cfg_func (env_cfg E) then snd (observe H FuncAfter c1) else c1)" and "pc_of c' = retaddr c'"
    and "length (block_text E (g @ [t])) \<le> k"
  shows "exec_steps k H \<lparr>x_ptr = Word (At n (int p)), x_orch = s, x_cpu = c\<rparr> = Inr \<lparr>x_ptr = RetSlot, x_orch = s, x_cpu = c'\<rparr>"
proof -
  let ?f = "ev (cfg_func (env_cfg E)) (env_fa E event_func_after)" and ?l = "event_insn (env_fa E finish_function)"
  have t: "block_text E (g @ [t]) = block_text E g @ body_words E t @ ?f @ [?l]"
    by (simp add: block_text_def assms(4) render_insn_def render_before_def render_after_def body_words_def)
  note w1 = assms(5) [unfolded t]
  have w2: "words_at s n (p + length (block_text E g) + length (body_words E t)) (?f @ [?l])"
    using words_at_append [OF w1] words_at_append by blast
  have w3: "words_at s n (p + length (block_text E g) + length (body_words E t) + length ?f) [?l]" using words_at_append [OF w2] by blast
  have e: "exec_steps (length ?f) H \<lparr>x_ptr = Word (At n (int (p + length (block_text E g) + length (body_words E t)))), x_orch = s, x_cpu = c1\<rparr> =
      Inr \<lparr>x_ptr = Word (At n (int (p + length (block_text E g) + length (body_words E t) + length ?f))), x_orch = s, x_cpu = c'\<rparr>"
    unfolding assms(7) by (rule exec_event_word [OF assms(1) w2]) (simp add: host_call_def)
  have last: "exec_steps 1 H \<lparr>x_ptr = Word (At n (int (p + length (block_text E g) + length (body_words E t) + length ?f))), x_orch = s, x_cpu = c'\<rparr> =
      Inr \<lparr>x_ptr = RetSlot, x_orch = s, x_cpu = c'\<rparr>"
    using step_word [OF w3] run_event_word [OF assms(1)] assms(8) by (simp add: host_call_def)
  obtain j where k: "k = length (block_text E g) + length (body_words E t) + (length ?f + (1 + j))"
    using le_Suc_ex [OF assms(9)] unfolding t by auto
  show ?thesis
    unfolding k exec_steps_add [of "_ + _" "_ + (_ + _)"] exec_block [OF assms(1-3) w1 assms(6)] res_bind_simps
      exec_steps_add [of "length ?f"] e exec_steps_add [of 1] last by (rule ret_slot_final)
qed

definition env_x :: enc_env where
  "env_x = env0\<lparr>env_fa := (\<lambda>f. case f of
       event_func_before \<Rightarrow> 0x100 | event_func_after \<Rightarrow> 0x110 | event_insn_before \<Rightarrow> 0x120 | event_insn_after \<Rightarrow> 0x130
     | event_block_before \<Rightarrow> 0x140 | event_block_after \<Rightarrow> 0x150 | event_debugging \<Rightarrow> 0x160 | syscall_interpret \<Rightarrow> 0x170
     | interrupt_interpret \<Rightarrow> 0x180 | jump_interpret \<Rightarrow> 0x190 | call_interpret \<Rightarrow> 0x1A0 | finish_function \<Rightarrow> 0x1B0
     | finish_emulation \<Rightarrow> 0x1C0 | terminate_execution \<Rightarrow> 0x1D0)\<rparr>"

definition host0 :: host_env where
  "host0 = \<lparr>he_cfg = cfg0, he_callbacks = [], he_insn_handler = (\<lambda>_ c. c), he_memory_handler = (\<lambda>_ _ _ c. c), he_syscall = (\<lambda>_ _ c. (0, c)), he_posix = True,
     he_fa = env_fa env_x, he_run = (\<lambda>_ c. c)\<rparr>"

lemma host0_match: "env_match host0 env_x"
proof -
  have "distinct (map (env_fa env_x) all_host_fns)" "list_all (\<lambda>f. env_fa env_x f < 2 ^ 59) all_host_fns" by code_simp+
  then show ?thesis by (simp add: env_match_def host0_def env_x_def env0_def)
qed

lemma encode_x:
  "\<exists>s. encode env_x bin0 orch0 = Inr s \<and> orch_good s \<and> words_at s 0 1 (block_text env_x (take 2 (insns (snd (hd bin0)))))"
proof -
  have g: "orch_good orch0" by (simp add: orch_good_def orch0_def hits_def)
  have ok: "bin_ok env_x bin0" by code_simp
  have "\<forall>v n p. \<not> hits orch0 v n p" by (simp add: hits_def orch0_def)
  with encode_good [OF g ok] obtain s where s: "encode env_x bin0 orch0 = Inr s" "orch_good s" by blast
  obtain b where b: "encode_blocks env_x bin0 = Inr b" "rthandlers b = concat (block_words env_x bin0)"
    using encode_blocks_spec [of bin0 env_x] ok by (auto simp: bin_ok_def convert_def)
  have "concat (block_words env_x bin0) = take 1 (concat (block_words env_x bin0)) @
      block_text env_x (take 2 (insns (snd (hd bin0)))) @ drop 8 (concat (block_words env_x bin0))" by code_simp
  moreover have "length (take 1 (concat (block_words env_x bin0))) = 1" by code_simp
  ultimately have "\<exists>pre suf. rthandlers b = pre @ block_text env_x (take 2 (insns (snd (hd bin0)))) @ suf \<and> length pre = 1"
    unfolding b(2) by blast
  moreover have "basicblocks s = [b]" using s(1) b(1) by (auto simp: encode_def orch0_def)
  ultimately have "words_at s 0 1 (block_text env_x (take 2 (insns (snd (hd bin0)))))" by (simp add: words_at_def)
  with s show ?thesis by blast
qed

theorem block_executes_in_order_witness:
  "\<exists>s s'. encode env_x bin0 orch0 = Inr s \<and>
     exec_steps 7 host0 \<lparr>x_ptr = Word (At 0 1), x_orch = s, x_cpu = cpu0\<rparr> =
       Inr \<lparr>x_ptr = Word (orch_target s (pc_of cpu0)), x_orch = s', x_cpu = cpu0\<rparr>"
proof -
  obtain s where s: "encode env_x bin0 orch0 = Inr s" "orch_good s" "words_at s 0 1 (block_text env_x (take 2 (insns (snd (hd bin0)))))"
    using encode_x by blast
  let ?g = "take 1 (insns (snd (hd bin0)))" and ?t = "insns (snd (hd bin0)) ! 1"
  have gt: "take 2 (insns (snd (hd bin0))) = ?g @ [?t]" by (simp add: bin0_def)

  have g: "list_all (straight env_x) ?g" "lifted env_x ?t" "jumps (insn_ty ?t)" by code_simp+
  have len: "length (block_text env_x (?g @ [?t])) = 7" by code_simp
  have r: "ref_block host0 env_x (?g @ [?t]) cpu0 = Some cpu0"
    by (simp add: bin0_def observe_def host0_def ref_insn_def)
  from block_executes_in_order [OF host0_match g s(3) [unfolded gt] s(2) r, unfolded len] s(1) show ?thesis by auto
qed

text \<open>
  What happens when a callback answers \<open>Processed\<close> before an instruction.  Execution goes on two words further.
  Without the debugger that is the event after the instruction, so the instruction is skipped.
  With the debugger configured it is the instruction's handler: only the debugger's word is skipped
  and the instruction, which the callback has already processed, is executed again.
\<close>

lemma processed_skips_one_word:
  assumes "env_match H E" and "lifted E i" and "cfg_insn (env_cfg E)" and "words_at s n p (body_words E i @ ws)"
    and "observe H InsnBefore c = (Processed, c')"
  shows "exec_steps 2 H \<lparr>x_ptr = Word (At n (int p)), x_orch = s, x_cpu = c\<rparr> =
     Inr \<lparr>x_ptr = Word (At n (int p + 3)), x_orch = s,
       x_cpu = if cfg_debug (env_cfg E) then he_run H (real_entry E i) c' else snd (observe H InsnAfter c')\<rparr>"
proof -
  let ?e = "\<lambda>f. event_insn (env_fa E f)" and ?r = "real_insn (real_entry E i) (insn_oplen i)"
  have w: "words_at s n p (?e event_insn_before # (if cfg_debug (env_cfg E) then [?e event_debugging] else []) @ ?r # ?e event_insn_after # ws)"
    using assms(3,4) by (simp add: body_words_def ev_def)
  have first: "exec_step H \<lparr>x_ptr = Word (At n (int p)), x_orch = s, x_cpu = c\<rparr> =
      Inr \<lparr>x_ptr = Word (At n (int (Suc (Suc p)))), x_orch = s, x_cpu = c'\<rparr>"
    using step_word [OF w] run_event_word [OF assms(1)] assms(5) by (simp add: host_call_def algebra_simps)
  have second: "exec_step H \<lparr>x_ptr = Word (At n (int (Suc (Suc p)))), x_orch = s, x_cpu = c'\<rparr> =
      Inr \<lparr>x_ptr = Word (At n (int p + 3)), x_orch = s,
        x_cpu = if cfg_debug (env_cfg E) then he_run H (real_entry E i) c' else snd (observe H InsnAfter c')\<rparr>"
  proof (cases "cfg_debug (env_cfg E)")
    case True
    with words_at_Cons [OF words_at_Cons] w have "words_at s n (Suc (Suc p)) (?r # ?e event_insn_after # ws)" by fastforce
    from step_word [OF this] run_real_word [OF assms(1,2)] True show ?thesis by simp
  next
    case False
    with words_at_Cons [OF words_at_Cons] w have "words_at s n (Suc (Suc p)) (?e event_insn_after # ws)" by fastforce
    from step_word [OF this] run_event_word [OF assms(1)] False show ?thesis by (simp add: host_call_def)
  qed
  show ?thesis using first second by (simp add: numeral_2_eq_2)
qed

text \<open>A callback that answers \<open>Processed\<close>, with the debugger configured.\<close>

definition host_p :: host_env where
  "host_p = host0\<lparr>he_cfg := cfg0\<lparr>cfg_debug := True\<rparr>, he_callbacks := [\<lambda>e c. (Processed, e, c)], he_run := (\<lambda>_ c. c\<lparr>retaddr := 7\<rparr>)\<rparr>"

definition env_p :: enc_env where
  "env_p = env_x\<lparr>env_cfg := cfg0\<lparr>cfg_debug := True\<rparr>\<rparr>"


end
