(* ===== verification/Intrinsic.thy ===== *)
theory Intrinsic
  imports Execution "HOL-Library.Multiset"
begin

text \<open>
  \<open>src/Intrinsic.cpp\<close>: the runtime functions lifted instructions call.  Memory accesses with their events, compare and
  exchange, the atomic operations, the floating-point environment, system calls and the intrinsics that are constant
  or abort.  Accesses go to the address space the guest shares with the host.  The floating-point accesses
  (\<open>__remill_read_memory_f32\<close> and the like) are not modelled; the \<open>FE_\<close> constants of the host and the exception and rounding
  constants of Remill are parameters.
\<close>

unbundle bit_operations_syntax

section \<open>Memory accesses\<close>

definition load_w :: "mem \<Rightarrow> u64 \<Rightarrow> 'a::len word" where
  "load_w m a = word_of_nat (le_val (mem_read m a (LENGTH('a) div 8)))"

definition store_w :: "mem \<Rightarrow> u64 \<Rightarrow> 'a::len word \<Rightarrow> mem" where
  "store_w m a v = mem_write m a (le_bytes (LENGTH('a) div 8) (unat v))"

text \<open>\<open>std::get<EventMemory>(event).value\<close>, which throws when a callback stored another alternative.\<close>

fun event_value :: "Event \<Rightarrow> u64 res" where
  "event_value (EventMemory _ _ _ _ v) = Inr v"
| "event_value _ = Inl Abort"

definition notify_debugger :: "host_env \<Rightarrow> u64 \<Rightarrow> nat \<Rightarrow> bool \<Rightarrow> cpu \<Rightarrow> cpu" where
  "notify_debugger H addr sz wr c = (if cfg_debug (he_cfg H) then he_memory_handler H addr sz wr c else c)"

text \<open>
  \<open>AccessMemory<T>(addr, nullptr)\<close> and the read through the reference it returns.  A processed event
  supplies the value: the low bytes of the event's 64-bit value.
\<close>

definition AccessMemory_read :: "host_env \<Rightarrow> u64 \<Rightarrow> cpu \<Rightarrow> ('a::len word \<times> cpu) res" where
  "AccessMemory_read H addr c =
     (let sz = LENGTH('a) div 8;
          direct = (\<lambda>c. let c' = notify_debugger H addr sz False c in Inr (load_w (mem c') addr, c'))
      in if he_callbacks H = [] then direct c
         else case handleEvent (he_callbacks H)
                     (EventMemory MemRead (pc_of c) addr sz (ucast (load_w (mem c) addr :: 'a word))) c of
                (r, e, c1) \<Rightarrow>
                  if r = Processed then res_bind (event_value e) (\<lambda>v. Inr (ucast v, c1\<lparr>rvalue := v\<rparr>))
                  else direct c1)"

text \<open>
  \<open>AccessMemory<T>(addr, &in)\<close>: the value of \<open>in\<close> afterwards and the state, in which the returned reference is the
  memory at \<open>addr\<close>.
\<close>

definition AccessMemory_write :: "host_env \<Rightarrow> u64 \<Rightarrow> 'a::len word \<Rightarrow> cpu \<Rightarrow> ('a word \<times> cpu) res" where
  "AccessMemory_write H addr inval c =
     (let sz = LENGTH('a) div 8;
          ref = (\<lambda>v c. Inr (v, notify_debugger H addr sz True c))
      in if he_callbacks H = [] then ref inval c
         else case handleEvent (he_callbacks H) (EventMemory MemWrite (pc_of c) addr sz (ucast inval)) c of
                (r, e, c1) \<Rightarrow>
                  if r = Processed then res_bind (event_value e) (\<lambda>v. ref (ucast v) c1)
                  else ref inval c1)"

definition remill_read_memory :: "host_env \<Rightarrow> u64 \<Rightarrow> cpu \<Rightarrow> ('a::len word \<times> cpu) res" where
  "remill_read_memory H addr c = AccessMemory_read H addr c"

text \<open>
  \<open>AccessMemory<T>(addr, &in) = in\<close>: since C++17 the right operand of an assignment, here the value of
  \<open>in\<close>, is evaluated before the left one, here the call.
\<close>

definition remill_write_memory :: "host_env \<Rightarrow> u64 \<Rightarrow> 'a::len word \<Rightarrow> cpu \<Rightarrow> cpu res" where
  "remill_write_memory H addr inval c =
     (let rhs = inval in
      res_bind (AccessMemory_write H addr inval c) (\<lambda>(inval', c'). Inr (c'\<lparr>mem := store_w (mem c') addr rhs\<rparr>)))"

section \<open>Compare and exchange, atomic operations\<close>

text \<open>They work on the memory directly and raise no events.  The result is the value the reference parameter gets.\<close>

definition compare_exchange_memory :: "u64 \<Rightarrow> 'a::len word \<Rightarrow> 'a word \<Rightarrow> mem \<Rightarrow> 'a word \<times> mem" where
  "compare_exchange_memory addr expected desired m =
     (let old = load_w m addr in (old, if old = expected then store_w m addr desired else m))"

text \<open>The 128-bit version is compiled to a body only when \<open>_GXX_EXPERIMENTAL_CXX0X__\<close> is defined.\<close>

definition compare_exchange_memory_128 :: "bool \<Rightarrow> u64 \<Rightarrow> 128 word \<Rightarrow> 128 word \<Rightarrow> mem \<Rightarrow> 128 word \<times> mem" where
  "compare_exchange_memory_128 macro_defined addr expected desired m =
     (if macro_defined then compare_exchange_memory addr expected desired m else (expected, m))"







section \<open>Floating-point environment\<close>















section \<open>Calls into the runtime\<close>

datatype SyncHyperCall = kX86SysCall | kAArch64Breakpoint | kOtherHyperCall

definition gpr_r :: "cpu \<Rightarrow> x86_gpr \<Rightarrow> u64" where
  "gpr_r c g = load64 (mem c) (x86_addr c (X_gpr g))"

definition remill_sync_hyper_call :: "host_env \<Rightarrow> SyncHyperCall \<Rightarrow> cpu \<Rightarrow> cpu res" where
  "remill_sync_hyper_call H name c =
     (case name of
        kX86SysCall \<Rightarrow>
          if \<not> he_posix H then Inl Abort
          else (case handleEvent (he_callbacks H) (EventHyperCall SyscallBefore (pc_of c) (ucast (gpr_r c G_rax))) c of
                  (r, e, c1) \<Rightarrow>
                    if r = Processed then Inr c1
                    else let (v, c2) = he_syscall H (ucast (gpr_r c1 G_rax))
                                         (map (gpr_r c1) [G_rdi, G_rsi, G_rdx, G_r 10, G_r 8, G_r 9]) c1;
                             c3 = c2\<lparr>mem := store64 (mem c2) (x86_addr c2 (X_gpr G_rax)) (scast v)\<rparr>
                         in if he_callbacks H = [] then Inr c3
                            else case e of
                                   EventHyperCall _ a n \<Rightarrow>
                                     Inr (snd (snd (handleEvent (he_callbacks H) (EventHyperCall SyscallAfter a n) c3)))
                                 | _ \<Rightarrow> Inl Abort)
      | kAArch64Breakpoint \<Rightarrow> Inl Abort
      | kOtherHyperCall \<Rightarrow> Inl Abort)"

section \<open>Reading what was written\<close>

text \<open>The widths the accesses come in.\<close>

definition byte_width :: "'a::len itself \<Rightarrow> bool" where
  "byte_width _ \<longleftrightarrow> 8 dvd LENGTH('a) \<and> LENGTH('a) \<le> 128"

lemma byte_widths: "byte_width TYPE(8)" "byte_width TYPE(16)" "byte_width TYPE(32)" "byte_width TYPE(64)" "byte_width TYPE(128)"
  by (simp_all add: byte_width_def)

lemma width_256: "byte_width TYPE('a::len) \<Longrightarrow> (256 :: nat) ^ (LENGTH('a) div 8) = 2 ^ LENGTH('a)"
proof -
  assume "byte_width TYPE('a)"
  then have "LENGTH('a) = 8 * (LENGTH('a) div 8)" by (simp add: byte_width_def)
  moreover have "(2 :: nat) ^ (8 * (LENGTH('a) div 8)) = 256 ^ (LENGTH('a) div 8)" by (simp add: power_mult)
  ultimately show ?thesis by metis
qed

lemma load_store_w:
  fixes v :: "'a::len word"
  assumes "byte_width TYPE('a)"
  shows "load_w (store_w m a v) a = v"
proof -
  let ?bs = "le_bytes (LENGTH('a) div 8) (unat v)"
  have "LENGTH('a) div 8 \<le> LENGTH('a)" by simp
  with assms have "length ?bs \<le> 2 ^ 64" unfolding byte_width_def length_le_bytes by (elim conjE) (rule order_trans [where y = 128], simp_all)
  then have "mem_read (mem_write m a ?bs) a (LENGTH('a) div 8) = ?bs" using mem_read_write_same [of ?bs m a] by simp
  moreover have "unat v < 256 ^ (LENGTH('a) div 8)" using width_256 [OF assms] by simp
  ultimately show ?thesis by (simp add: load_w_def store_w_def le_val_le_bytes_id)
qed

lemma load_store_w_sep: "sep b (LENGTH('b) div 8) a (LENGTH('a) div 8) \<Longrightarrow>
    (load_w (store_w m a (v :: 'a::len word)) b :: 'b::len word) = load_w m b"
  by (simp add: load_w_def store_w_def mem_read_write_sep)



text \<open>Callbacks and a debugger that only look.\<close>

definition observers :: "host_env \<Rightarrow> bool" where
  "observers H \<longleftrightarrow> (\<forall>e c. fst (handleEvent (he_callbacks H) e c) \<noteq> Processed \<and> snd (snd (handleEvent (he_callbacks H) e c)) = c) \<and>
     (\<forall>a n b c. he_memory_handler H a n b c = c)"

lemma observers_event: "observers H \<Longrightarrow> \<exists>r e'. handleEvent (he_callbacks H) e c = (r, e', c) \<and> r \<noteq> Processed"
  unfolding observers_def by (metis prod.collapse)

lemma observers_debugger: "observers H \<Longrightarrow> notify_debugger H a n b c = c"
  by (simp add: observers_def notify_debugger_def)

lemma observed_read: "observers H \<Longrightarrow> remill_read_memory H a c = Inr (load_w (mem c) a :: 'a::len word, c)"
  using observers_event [of H "EventMemory MemRead (pc_of c) a (LENGTH('a) div 8) (ucast (load_w (mem c) a :: 'a word))" c]
  by (auto simp: remill_read_memory_def AccessMemory_read_def observers_debugger Let_def)

lemma observed_write: "observers H \<Longrightarrow> remill_write_memory H a (v :: 'a::len word) c = Inr (c\<lparr>mem := store_w (mem c) a v\<rparr>)"
  using observers_event [of H "EventMemory MemWrite (pc_of c) a (LENGTH('a) div 8) (ucast v)" c]
  by (auto simp: remill_write_memory_def AccessMemory_write_def observers_debugger Let_def)

text \<open>
  C22: memory accesses of lifted code behave as memory, at every width and also when callbacks and
  the debugger watch them: a read returns what was last written to the
  address, and a write changes nothing outside the bytes of its width.
\<close>

theorem memory_read_after_write:
  fixes v :: "'a::len word"
  assumes "observers H" and "byte_width TYPE('a)"
  shows "res_bind (remill_write_memory H a v c) (remill_read_memory H a) = Inr (v, c\<lparr>mem := store_w (mem c) a v\<rparr>) \<and>
    (sep b (LENGTH('b) div 8) a (LENGTH('a) div 8) \<longrightarrow>
      res_bind (remill_write_memory H a v c) (remill_read_memory H b) = Inr (load_w (mem c) b :: 'b::len word, c\<lparr>mem := store_w (mem c) a v\<rparr>))"
  using assms by (simp add: observed_read observed_write load_store_w load_store_w_sep)

lemma host0_observers: "observers host0"
  by (simp add: observers_def host0_def)

theorem memory_read_after_write_witness:
  "res_bind (remill_write_memory host0 0x8000 (0xBEEF :: u16) cpu0) (remill_read_memory host0 0x8000) =
     Inr (0xBEEF :: u16, cpu0\<lparr>mem := store_w (mem cpu0) 0x8000 (0xBEEF :: u16)\<rparr>) \<and>
   res_bind (remill_write_memory host0 0x8000 (0xBEEF :: u16) cpu0) (remill_read_memory host0 0x8002) =
     Inr (load_w (mem cpu0) 0x8002 :: u64, cpu0\<lparr>mem := store_w (mem cpu0) 0x8000 (0xBEEF :: u16)\<rparr>)"
  using memory_read_after_write [OF host0_observers byte_widths(2), of "0x8000" "0xBEEF" cpu0 "0x8002", where 'b = 64]
  by (simp add: sep_def)

text \<open>
  What the value of a processed event does.  When a callback answers \<open>Processed\<close> with a value of its choice, a read
  yields that value; a write, however, stores the value the
  guest wrote, since the customized value is assigned to the parameter after the
  value to store has been read.
\<close>

lemma processed_write_value_lost:
  fixes x :: "'a::len word"
  assumes "he_callbacks H \<noteq> []" and "\<not> cfg_debug (he_cfg H)"
    and "\<forall>e. handleEvent (he_callbacks H) e c = (Processed, EventMemory ty pc a n v, c)"
  shows "remill_read_memory H addr c = Inr (ucast v :: 'a word, c\<lparr>rvalue := v\<rparr>) \<and>
    AccessMemory_write H addr x c = Inr (ucast v, c) \<and>
    remill_write_memory H addr x c = Inr (c\<lparr>mem := store_w (mem c) addr x\<rparr>)"
  using assms by (simp add: remill_read_memory_def AccessMemory_read_def remill_write_memory_def AccessMemory_write_def
      notify_debugger_def Let_def)

definition host_v :: host_env where
  "host_v = host0\<lparr>he_callbacks := [\<lambda>e c. (Processed, EventMemory MemWrite 0 0x8000 4 7, c)]\<rparr>"


section \<open>Atomic operations of several threads\<close>











text \<open>
  Compare and exchange decides atomically: the reference gets the value that was in memory, and memory changes
  exactly when it was the expected one.  The 128-bit version does nothing at all when it is compiled without the
  macro it tests: it neither stores nor reports the value in memory, so the guest takes the exchange to have succeeded.
\<close>

lemma compare_exchange_cases:
  fixes expected desired :: "'a::len word"
  assumes "byte_width TYPE('a)"
  shows "(case compare_exchange_memory a expected desired m of (seen, m') \<Rightarrow>
      seen = load_w m a \<and> (if seen = expected then load_w m' a = desired \<and> m' = store_w m a desired else m' = m)) \<and>
    compare_exchange_memory_128 False a e d m = (e, m)"
  using assms by (simp add: compare_exchange_memory_def compare_exchange_memory_128_def Let_def load_store_w)


section \<open>Flags of the floating-point environment\<close>















end
