(* ===== verification/GuestMemory.thy ===== *)
theory GuestMemory
  imports Prelude
begin

text \<open>
  \<open>src/Memory.h\<close> and \<open>src/Memory.cpp\<close>: the reserved guest address range.  Page allocation and
  commitment (\<open>page_alloc\<close>, \<open>page_commit\<close>) are calls into the operating system: the base
  address and the result of a commit are inputs.
\<close>

record guest_memory =
  basePointer :: u64
  m_offset :: u64

definition GUEST_SIZE :: u64 where
  "GUEST_SIZE = 3 * 1024 * 1024 * 1024"

definition guest_memory_init :: "u64 \<Rightarrow> guest_memory" where
  "guest_memory_init page_alloc_result = \<lparr>basePointer = page_alloc_result, m_offset = 0\<rparr>"

definition valid :: "guest_memory \<Rightarrow> u64 \<Rightarrow> u64 \<Rightarrow> bool" where
  "valid g vmaddr sz \<longleftrightarrow> basePointer g \<le> vmaddr \<and> vmaddr < basePointer g + m_offset g \<and>
     vmaddr + sz < basePointer g + m_offset g"

definition guestAvailable :: "guest_memory \<Rightarrow> u64" where
  "guestAvailable g = basePointer g + m_offset g"

definition commit :: "guest_memory \<Rightarrow> bool \<Rightarrow> u64 \<Rightarrow> u64 \<Rightarrow> bool \<times> guest_memory" where
  "commit g page_commit_result vmaddr sz =
     (if GUEST_SIZE \<le> m_offset g + sz then (False, g)
      else let offset = vmaddr - basePointer g in
           if GUEST_SIZE \<le> offset + sz then (False, g)
           else (page_commit_result, g\<lparr>m_offset := m_offset g + sz\<rparr>))"

section \<open>Lemmas\<close>

text \<open>The reservation lies in the address space and the committed size below its size.\<close>

definition guest_ok :: "guest_memory \<Rightarrow> bool" where
  "guest_ok g \<longleftrightarrow> unat (basePointer g) + unat GUEST_SIZE \<le> 2 ^ 63 \<and> m_offset g < GUEST_SIZE"

lemma unat_GUEST_SIZE: "unat GUEST_SIZE = 3221225472"
  by (simp add: GUEST_SIZE_def)

lemma unat_plus_small: "unat (x :: u64) + unat y < 2 ^ 64 \<Longrightarrow> unat (x + y) = unat x + unat y"
  by (subst unat_add_lem [THEN iffD1]) simp_all

lemma guest_end: "guest_ok g \<Longrightarrow> unat (guestAvailable g) = unat (basePointer g) + unat (m_offset g)"
  by (simp add: guest_ok_def guestAvailable_def word_less_nat_alt unat_GUEST_SIZE unat_plus_small)

lemma commit_success:
  assumes "guest_ok g" and "unat sz < 2 ^ 62" and "commit g ok vmaddr sz = (True, g')"
  shows "unat (m_offset g) + unat sz < unat GUEST_SIZE \<and> g' = g\<lparr>m_offset := m_offset g + sz\<rparr> \<and>
    vmaddr - basePointer g + sz < GUEST_SIZE"
proof -
  have "unat (m_offset g + sz) = unat (m_offset g) + unat sz"
    using assms(1,2) by (intro unat_plus_small) (simp add: guest_ok_def word_less_nat_alt unat_GUEST_SIZE)
  with assms(3) show ?thesis
    by (auto simp: commit_def Let_def not_le word_less_nat_alt split: if_splits)
qed

section \<open>Properties\<close>

text \<open>
  A commit that succeeds for a range starting at or above the base keeps the committed size below
  the reservation, advances the available address by exactly the size, and the whole range
  lies inside the reservation (sizes below \<open>2^62\<close>, addresses below \<open>2^63\<close>, so that the sums of
  the two checks do not wrap).
\<close>

lemma commit_stays_in_reservation:
  assumes "guest_ok g" and "unat sz < 2 ^ 62" and "basePointer g \<le> vmaddr" and "unat vmaddr < 2 ^ 63"
    and "commit g ok vmaddr sz = (True, g')"
  shows "guest_ok g' \<and> unat (guestAvailable g') = unat (guestAvailable g) + unat sz \<and>
    unat vmaddr + unat sz < unat (basePointer g) + unat GUEST_SIZE"
proof -
  note c = commit_success [OF assms(1,2,5)]
  have m: "unat (m_offset g + sz) = unat (m_offset g) + unat sz"
    using c by (intro unat_plus_small) (simp add: unat_GUEST_SIZE)
  with c assms(1) have ok: "guest_ok g'" by (simp add: guest_ok_def word_less_nat_alt)
  have d: "unat (vmaddr - basePointer g) = unat vmaddr - unat (basePointer g)" "unat (basePointer g) \<le> unat vmaddr"
    using assms(3) by (simp_all add: unat_sub word_le_nat_alt)
  have "unat (vmaddr - basePointer g) + unat sz < 2 ^ 64" using assms(2,4) d by simp
  then have "unat (vmaddr - basePointer g + sz) = unat (vmaddr - basePointer g) + unat sz" by (rule unat_plus_small)
  moreover have "unat (vmaddr - basePointer g + sz) < unat GUEST_SIZE" using c by (simp only: word_less_nat_alt)
  ultimately have "unat vmaddr + unat sz < unat (basePointer g) + unat GUEST_SIZE" using d by linarith
  with ok m c guest_end [OF assms(1)] guest_end [OF ok] show ?thesis by simp
qed


text \<open>
  \<open>valid\<close> accepts only ranges inside the committed memory, but not all of them: for a
  range \<open>[vmaddr, vmaddr + sz)\<close> that starts in committed memory and does not wrap it holds
  exactly when the range ends strictly before the committed end, so a range that ends
  exactly at the committed end, which the comment includes, is rejected.
\<close>

lemma valid_is_strict:
  assumes "guest_ok g" and "unat vmaddr + unat sz < 2 ^ 64" and "basePointer g \<le> vmaddr" and "vmaddr < guestAvailable g"
  shows "valid g vmaddr sz \<longleftrightarrow> unat vmaddr + unat sz < unat (basePointer g) + unat (m_offset g)"
  using assms guest_end [OF assms(1)]
  by (simp add: valid_def guestAvailable_def word_less_nat_alt unat_plus_small)


end
