(* ===== verification/Facade.thy ===== *)
theory Facade
  imports OpcodeInvariants Intrinsic GuestMemory
begin

text \<open>
  \<open>src/AetherVM.cpp\<close> and \<open>src/BinaryEngine.cpp\<close>: the interface an embedder uses.  It composes the opcode engines, the
  orchestrator, the guest memory, the events and the register file.

  The attached binary (\<open>Binary\<close>), the disassembler, the lifter and the operating system are parameters.  Addresses of the binary
  are those of the file; run-time addresses are host addresses.
\<close>

section \<open>State\<close>

record section_info =
  sect_addr :: u64
  sect_size :: u64
  sect_foff :: u64
  sect_text :: bool \<comment> \<open>\<open>type == TEXT\<close>\<close>

record binary =
  b_imageBase :: u64
  b_sections :: "(u64 \<times> section_info) list" \<comment> \<open>ascending\<close>
  b_addrBuff :: "u64 \<Rightarrow> u64" \<comment> \<open>address in the file image, 0 when there is none\<close>
  b_isCode :: "u64 \<Rightarrow> bool"
  b_fileBuffer :: u64
  b_functions :: "(u64 \<times> bin_func) list"

record os_env =
  os_page_size :: u64
  os_page_commit :: "u64 \<Rightarrow> u64 \<Rightarrow> bool"
  os_memory_read :: "u64 \<Rightarrow> nat \<Rightarrow> mem \<Rightarrow> bytes option"
  os_memory_write :: "u64 \<Rightarrow> bytes \<Rightarrow> mem \<Rightarrow> mem option"
  os_stack_size :: u64
  os_new_stack :: u64
  os_retaddr :: u64 \<comment> \<open>where the entry stub returns to\<close>

text \<open>
  What \<open>liftOpcodes\<close> does at an address: it hands the instruction to the lifter, or it reports an invalid one.
\<close>

datatype lift_action = Transform u64 bytes | InvalidAt u64

record machine =
  m_machine :: bool \<comment> \<open>whether there is one\<close>
  m_binary :: "binary option"
  m_binary_opcode :: "binary option"
  m_pe :: bool \<comment> \<open>\<open>osFile == PE\<close>\<close>
  m_config :: EventConfig
  m_watchdog :: bool
  m_callbacks :: "callback list"
  m_memory :: guest_memory
  m_shared :: OpcodeEngine \<comment> \<open>\<open>opcodeEmu\<close>, read-only\<close>
  m_thread :: OpcodeEngine \<comment> \<open>\<open>EMU\<close> of the calling thread\<close>
  m_vm :: vm \<comment> \<open>the shared tables and \<open>CPU\<close>\<close>
  m_orch :: orch
  m_lifted :: "lift_action list" \<comment> \<open>what was handed to the lifter\<close>

abbreviation m_cpu :: "machine \<Rightarrow> cpu" where
  "m_cpu M \<equiv> v_cpu (m_vm M)"

definition set_cpu :: "cpu \<Rightarrow> machine \<Rightarrow> machine" where
  "set_cpu c M = M\<lparr>m_vm := (m_vm M)\<lparr>v_cpu := c\<rparr>\<rparr>"

section \<open>Emulating opcodes\<close>

definition eng_emulate_u8 :: "lib_env \<Rightarrow> u8 \<Rightarrow> OpcodeEngine \<Rightarrow> vm \<Rightarrow> (bool \<times> OpcodeEngine \<times> vm) res" where
  "eng_emulate_u8 L opc e s = res_bind (handlers_emulate fib_hash8_u8 (word_bytes 1) L opc (eng_readonly e) (opc1 e) s) (\<lambda>(ok, t, s). Inr (ok, e\<lparr>opc1 := t\<rparr>, s))"

definition eng_emulate_u16 :: "lib_env \<Rightarrow> u16 \<Rightarrow> OpcodeEngine \<Rightarrow> vm \<Rightarrow> (bool \<times> OpcodeEngine \<times> vm) res" where
  "eng_emulate_u16 L opc e s = res_bind (handlers_emulate fib_hash8_u16 (word_bytes 2) L opc (eng_readonly e) (opc2 e) s) (\<lambda>(ok, t, s). Inr (ok, e\<lparr>opc2 := t\<rparr>, s))"

definition eng_emulate_u32 :: "lib_env \<Rightarrow> u32 \<Rightarrow> OpcodeEngine \<Rightarrow> vm \<Rightarrow> (bool \<times> OpcodeEngine \<times> vm) res" where
  "eng_emulate_u32 L opc e s = res_bind (handlers_emulate fib_hash8_u32 (word_bytes 4) L opc (eng_readonly e) (opc4 e) s) (\<lambda>(ok, t, s). Inr (ok, e\<lparr>opc4 := t\<rparr>, s))"

definition eng_emulate_u64 :: "lib_env \<Rightarrow> u64 \<Rightarrow> OpcodeEngine \<Rightarrow> vm \<Rightarrow> (bool \<times> OpcodeEngine \<times> vm) res" where
  "eng_emulate_u64 L opc e s = res_bind (handlers_emulate fib_hash8_u64 (word_bytes 8) L opc (eng_readonly e) (opc8 e) s) (\<lambda>(ok, t, s). Inr (ok, e\<lparr>opc8 := t\<rparr>, s))"

text \<open>\<open>engine->emulate(opcode) || EMU.emulate(opcode)\<close>.\<close>

definition try_engines :: "(OpcodeEngine \<Rightarrow> vm \<Rightarrow> (bool \<times> OpcodeEngine \<times> vm) res) \<Rightarrow> machine \<Rightarrow> (bool \<times> machine) res" where
  "try_engines f M =
     (if \<not> m_machine M then Inr (False, M)
      else res_bind (f (m_shared M) (m_vm M)) (\<lambda>(ok, e, s).
           if ok then Inr (True, M\<lparr>m_shared := e, m_vm := s\<rparr>)
           else res_bind (f (m_thread M) s) (\<lambda>(ok, e', s'). Inr (ok, M\<lparr>m_shared := e, m_thread := e', m_vm := s'\<rparr>))))"

definition emulate_u8 :: "lib_env \<Rightarrow> u8 \<Rightarrow> machine \<Rightarrow> (bool \<times> machine) res" where
  "emulate_u8 L opc = try_engines (eng_emulate_u8 L opc)"

definition emulate_u16 :: "lib_env \<Rightarrow> u16 \<Rightarrow> machine \<Rightarrow> (bool \<times> machine) res" where
  "emulate_u16 L opc = try_engines (eng_emulate_u16 L opc)"

definition emulate_u32 :: "lib_env \<Rightarrow> u32 \<Rightarrow> machine \<Rightarrow> (bool \<times> machine) res" where
  "emulate_u32 L opc = try_engines (eng_emulate_u32 L opc)"

definition emulate_u64 :: "lib_env \<Rightarrow> u64 \<Rightarrow> machine \<Rightarrow> (bool \<times> machine) res" where
  "emulate_u64 L opc = try_engines (eng_emulate_u64 L opc)"

text \<open>An opcode given as a span; a pointer that is a code address of the attached binary is replaced by the bytes of the file.\<close>

definition redirect_opcode :: "machine \<Rightarrow> u64 \<Rightarrow> bytes \<Rightarrow> bytes" where
  "redirect_opcode M ptr opcode =
     (case m_binary_opcode M of
        None \<Rightarrow> opcode
      | Some b \<Rightarrow>
          if b_isCode b ptr \<and> b_addrBuff b ptr \<noteq> 0 then mem_read (mem (m_cpu M)) (b_addrBuff b ptr) (length opcode) else opcode)"

definition emulate_opcode :: "lib_env \<Rightarrow> u64 \<Rightarrow> bytes \<Rightarrow> machine \<Rightarrow> (bool \<times> machine) res" where
  "emulate_opcode L ptr opcode M = try_engines (emulate_span L (redirect_opcode M ptr opcode)) M"

definition prefetch :: "lib_env \<Rightarrow> bytes \<Rightarrow> nat \<Rightarrow> machine \<Rightarrow> (nat \<times> machine) res" where
  "prefetch L opcodes n M =
     (if \<not> m_machine M then Inr (0, M)
      else res_bind (engine_prefetch L opcodes n (m_shared M) (m_vm M)) (\<lambda>(k, e, s). Inr (k, M\<lparr>m_shared := e, m_vm := s\<rparr>)))"

section \<open>Registers, callbacks and threads\<close>

text \<open>The search for the section that holds the program counter: it ends at the first section that is not code.\<close>

fun opcode_pc :: "u64 \<Rightarrow> u64 \<Rightarrow> (u64 \<times> section_info) list \<Rightarrow> u64 option" where
  "opcode_pc filebuf pc [] = None"
| "opcode_pc filebuf pc ((addr, sect) # rest) =
     (let sectbuf = filebuf + sect_foff sect; sectend = sectbuf + sect_size sect in
      if sectbuf \<le> pc \<and> pc < sectend then Some (addr + pc - sectbuf)
      else if \<not> sect_text sect then None
      else opcode_pc filebuf pc rest)"

text \<open>
  \<open>getRegister\<close>: the address to read the value from.  The converted program counter is kept in \<open>CPUState::pc\<close>,
  whose address the model does not fix: \<open>Inl\<close> its value.
\<close>

definition converted_pc :: "machine \<Rightarrow> u64 option" where
  "converted_pc M =
     (case m_binary M of
        Some b \<Rightarrow> Some (b_imageBase b + pc_of (m_cpu M) - basePointer (m_memory M))
      | None \<Rightarrow>
          (case m_binary_opcode M of
             Some b \<Rightarrow> opcode_pc (b_fileBuffer b) (pc_of (m_cpu M)) (b_sections b)
           | None \<Rightarrow> None))"

definition getRegister :: "bool \<Rightarrow> Register \<Rightarrow> bool \<Rightarrow> machine \<Rightarrow> (u64 + u64 option) \<times> machine" where
  "getRegister arm64 reg cvtpc M =
     (case (if reg = PC \<and> cvtpc then converted_pc M else None) of
        Some v \<Rightarrow> (Inl v, set_cpu ((m_cpu M)\<lparr>conv_pc := v\<rparr>) M)
      | None \<Rightarrow>
          (case (if arm64 then getRegisterAArch64 (m_cpu M) reg else getRegisterX86 (m_cpu M) reg) of
             (p, c) \<Rightarrow> (Inr p, set_cpu c M)))"

definition setRegister :: "bool \<Rightarrow> Register \<Rightarrow> u64 \<Rightarrow> machine \<Rightarrow> bool \<times> machine" where
  "setRegister arm64 reg val M =
     (case (if arm64 then setRegisterAArch64 (m_cpu M) reg val else setRegisterX86 (m_cpu M) reg val) of
        (ok, c) \<Rightarrow> (ok, set_cpu c M))"

definition setRegisterSIMD :: "bool \<Rightarrow> Register \<Rightarrow> u64 \<Rightarrow> u64 \<Rightarrow> machine \<Rightarrow> bool \<times> machine" where
  "setRegisterSIMD arm64 reg lo hi M =
     (case (if arm64 then setRegisterNEON (m_cpu M) reg lo hi else setRegisterSSE (m_cpu M) reg lo hi) of
        (ok, c) \<Rightarrow> (ok, set_cpu c M))"

definition setOpcodeBinary :: "binary option \<Rightarrow> bool \<Rightarrow> machine \<Rightarrow> machine" where
  "setOpcodeBinary bin watchdog M = M\<lparr>m_binary_opcode := bin, m_watchdog := watchdog\<rparr>"

definition registerCallback :: "callback \<Rightarrow> machine \<Rightarrow> nat \<times> machine" where
  "registerCallback cb M = (length (m_callbacks M @ [cb]), M\<lparr>m_callbacks := m_callbacks M @ [cb]\<rparr>)"

definition enterThread :: "os_env \<Rightarrow> bool \<Rightarrow> machine \<Rightarrow> machine" where
  "enterThread Os arm64 M = set_cpu (initContext arm64 (os_stack_size Os) (os_new_stack Os) 0 (m_cpu M)) M"

definition leaveThread :: "machine \<Rightarrow> machine" where
  "leaveThread M = set_cpu (freeContext (m_cpu M)) M"

definition watchDog :: "host_env \<Rightarrow> u64 \<Rightarrow> machine \<Rightarrow> machine" where
  "watchDog H pc M = set_cpu (he_insn_handler H pc (m_cpu M)) M"

section \<open>Memory\<close>

definition mapMemory :: "os_env \<Rightarrow> u64 \<Rightarrow> machine \<Rightarrow> u64 \<times> machine" where
  "mapMemory Os sz M =
     (let vmaddr = guestAvailable (m_memory M); sz' = align_up sz (os_page_size Os) in
      case commit (m_memory M) (os_page_commit Os vmaddr sz') vmaddr sz' of
        (ok, g) \<Rightarrow> (if ok then vmaddr else 0, M\<lparr>m_memory := g\<rparr>))"

definition mappedAddress :: "machine \<Rightarrow> u64 \<Rightarrow> u64 \<Rightarrow> u64 res" where
  "mappedAddress M addr sz =
     (let rtaddr = basePointer (m_memory M) + addr;
          guest = (if valid (m_memory M) rtaddr sz then rtaddr else 0)
      in case m_binary_opcode M of
           None \<Rightarrow> Inr guest
         | Some b \<Rightarrow>
             if b_sections b = [] then Inl Undefined
             else let lastsect = snd (last (b_sections b)) in
                  if b_imageBase b \<le> addr \<and> addr < sect_addr lastsect + sect_size lastsect then Inr (b_addrBuff b addr) else Inr guest)"

definition readMemory :: "os_env \<Rightarrow> u64 \<Rightarrow> nat \<Rightarrow> machine \<Rightarrow> bytes res" where
  "readMemory Os addr n M =
     res_bind (mappedAddress M addr (word_of_nat n)) (\<lambda>rtaddr.
     if rtaddr \<noteq> 0 then Inr (mem_read (mem (m_cpu M)) rtaddr n)
     else Inr (case os_memory_read Os addr n (mem (m_cpu M)) of Some bs \<Rightarrow> bs | None \<Rightarrow> []))"

definition readUInt64 :: "os_env \<Rightarrow> u64 \<Rightarrow> machine \<Rightarrow> u64 res" where
  "readUInt64 Os addr M =
     res_bind (mappedAddress M addr 8) (\<lambda>rtaddr.
     if rtaddr \<noteq> 0 then Inr (load64 (mem (m_cpu M)) rtaddr)
     else res_bind (readMemory Os addr 8 M) (\<lambda>buff. Inr (if buff \<noteq> [] then word_of_nat (le_val buff) else 0)))"

definition writeMemory :: "os_env \<Rightarrow> u64 \<Rightarrow> bytes \<Rightarrow> machine \<Rightarrow> (bool \<times> machine) res" where
  "writeMemory Os addr buff M =
     res_bind (mappedAddress M addr (word_of_nat (length buff))) (\<lambda>rtaddr.
     if rtaddr \<noteq> 0 then Inr (True, set_cpu ((m_cpu M)\<lparr>mem := mem_write (mem (m_cpu M)) rtaddr buff\<rparr>) M)
     else Inr (case os_memory_write Os addr buff (mem (m_cpu M)) of
                 Some m' \<Rightarrow> (True, set_cpu ((m_cpu M)\<lparr>mem := m'\<rparr>) M)
               | None \<Rightarrow> (False, M)))"

section \<open>Lifting and loading a binary\<close>

text \<open>
  The environment of loading and running: the guest architecture, the operating system, the host
  functions, the disassembler (the length of the instruction in a window of sixteen bytes, 0 for none), the size by which the x86 machine
  skips an invalid instruction, and the handlers the lifter has for what it was given.
\<close>

record world =
  w_arm64 :: bool
  w_os :: os_env
  w_host :: host_env
  w_disassemble :: "bytes \<Rightarrow> nat"
  w_default_size :: nat
  w_dyn :: "lift_action list \<Rightarrow> bytes \<rightharpoonup> u64"

text \<open>
  The event object of \<open>liftOpcodes\<close> is created once: callbacks may change its type, only the address is set again; the
  reference to its alternative dangles when a callback stores another one.
\<close>

definition report_invalid :: "callback list \<Rightarrow> EventType \<Rightarrow> u64 \<Rightarrow> cpu \<Rightarrow> (EventType \<times> cpu) res" where
  "report_invalid cbs ty addr c =
     (case handleEvent cbs (EventRuntime ty addr) c of
        (_, EventRuntime ty' _, c') \<Rightarrow> Inr (ty', c')
      | _ \<Rightarrow> Inl Undefined)"

text \<open>The AArch64 loop: \<open>n\<close> bytes from \<open>ptr\<close> remain, \<open>addr\<close> is their address.\<close>

function lift_a64 :: "world \<Rightarrow> callback list \<Rightarrow> EventType \<Rightarrow> u64 \<Rightarrow> u64 \<Rightarrow> nat \<Rightarrow> lift_action list \<Rightarrow> cpu \<Rightarrow> (lift_action list \<times> cpu) res" where
  "lift_a64 W cbs ty addr ptr n acc c =
     (if n = 0 then Inr (acc, c)
      else if w_disassemble W (mem_read (mem c) ptr 16) = 4
      then lift_a64 W cbs ty (addr + 4) (ptr + 4) (n - 4) (acc @ [Transform addr (mem_read (mem c) ptr 4)]) c
      else case report_invalid cbs ty addr c of
             Inl f \<Rightarrow> Inl f
           | Inr (ty', c') \<Rightarrow> lift_a64 W cbs ty' (addr + 4) (ptr + 4) (n - 4) (acc @ [InvalidAt addr]) c')"
  by pat_completeness auto
termination
  by (relation "measure (\<lambda>(W, cbs, ty, addr, ptr, n, acc, c). n)") auto

declare lift_a64.simps [simp del]

text \<open>The x86 loop, which ends only when an invalid instruction is skipped by at least one byte.\<close>

partial_function (option) lift_x86 ::
  "world \<Rightarrow> callback list \<Rightarrow> EventType \<Rightarrow> u64 \<Rightarrow> u64 \<Rightarrow> nat \<Rightarrow> lift_action list \<Rightarrow> cpu \<Rightarrow> (lift_action list \<times> cpu) res option" where
  "lift_x86 W cbs ty addr ptr n acc c =
     (if n = 0 then Some (Inr (acc, c))
      else let oplen = w_disassemble W (mem_read (mem c) ptr 16) in
           if oplen \<noteq> 0
           then lift_x86 W cbs ty (addr + word_of_nat oplen) (ptr + word_of_nat oplen) (n - oplen)
                  (acc @ [Transform addr (mem_read (mem c) ptr oplen)]) c
           else case report_invalid cbs ty addr c of
                  Inl f \<Rightarrow> Some (Inl f)
                | Inr (ty', c') \<Rightarrow>
                    lift_x86 W cbs ty' (addr + word_of_nat (w_default_size W)) (ptr + word_of_nat (w_default_size W))
                      (n - w_default_size W) (acc @ [InvalidAt addr]) c')"

definition liftOpcodes :: "world \<Rightarrow> u64 \<Rightarrow> u64 \<Rightarrow> nat \<Rightarrow> machine \<Rightarrow> machine res option" where
  "liftOpcodes W addr ptr n M =
     (case (if w_arm64 W then Some (lift_a64 W (m_callbacks M) InvalidInsn addr ptr n (m_lifted M) (m_cpu M))
            else lift_x86 W (m_callbacks M) InvalidInsn addr ptr n (m_lifted M) (m_cpu M)) of
        None \<Rightarrow> None
      | Some (Inl f) \<Rightarrow> Some (Inl f)
      | Some (Inr (acts, c)) \<Rightarrow> Some (Inr (set_cpu c (M\<lparr>m_lifted := acts\<rparr>))))"

text \<open>The loop over the sections: copy, and lift the code.\<close>

fun load_sections :: "world \<Rightarrow> binary \<Rightarrow> u64 \<Rightarrow> (u64 \<times> section_info) list \<Rightarrow> machine \<Rightarrow> machine res option" where
  "load_sections W bin addend [] M = Some (Inr M)"
| "load_sections W bin addend ((_, sect) # rest) M =
     (if sect_size sect = 0 then load_sections W bin addend rest M
      else let sectbuff = b_addrBuff bin (sect_addr sect); addr = sect_addr sect + addend in
           if sectbuff = 0 then Some (Inl Undefined)
           else case writeMemory (w_os W) addr (mem_read (mem (m_cpu M)) sectbuff (unat (sect_size sect))) M of
                  Inl f \<Rightarrow> Some (Inl f)
                | Inr (_, M1) \<Rightarrow>
                    (case (if sect_text sect then liftOpcodes W addr sectbuff (unat (sect_size sect)) M1 else Some (Inr M1)) of
                       None \<Rightarrow> None
                     | Some (Inl f) \<Rightarrow> Some (Inl f)
                     | Some (Inr M2) \<Rightarrow> load_sections W bin addend rest M2))"

definition encode_env :: "world \<Rightarrow> u64 \<Rightarrow> machine \<Rightarrow> enc_env" where
  "encode_env W addend M =
     \<lparr>env_arch = (if w_arm64 W then ARM64 else X86_64), env_cfg = m_config M, env_fa = he_fa (w_host W),
      env_dyn = w_dyn W (m_lifted M), env_addend = addend\<rparr>"

definition orchBinary :: "world \<Rightarrow> binary \<Rightarrow> u64 \<Rightarrow> machine \<Rightarrow> machine res option" where
  "orchBinary W bin addend M =
     (let size = align_up (sum_list (map (sect_size \<circ> snd) (b_sections bin))) (os_page_size (w_os W));
          vmaddr = b_imageBase bin + addend;
          (_, g) = commit (m_memory M) (os_page_commit (w_os W) vmaddr size) vmaddr size
      in case load_sections W bin addend (b_sections bin) (M\<lparr>m_memory := g\<rparr>) of
           None \<Rightarrow> None
         | Some (Inl f) \<Rightarrow> Some (Inl f)
         | Some (Inr M') \<Rightarrow>
             Some (res_bind (encode (encode_env W addend M') (b_functions bin) (m_orch M')) (\<lambda>s. Inr (M'\<lparr>m_orch := s\<rparr>))))"

section \<open>Running\<close>

definition retaddr_aarch64 :: "cpu \<Rightarrow> u64 \<times> cpu" where
  "retaddr_aarch64 c = (case getRegisterAArch64 c LR of (p, c') \<Rightarrow> (case p of None \<Rightarrow> 0 | Some a \<Rightarrow> a, c'))"

text \<open>The stack pointer is lowered by the return address and, for PE, the shadow space of four words.\<close>

definition retaddr_x86 :: "bool \<Rightarrow> cpu \<Rightarrow> u64 \<times> cpu" where
  "retaddr_x86 pe c =
     (case getRegisterX86 c SP of
        (None, c') \<Rightarrow> (0, c')
      | (Some sp, c') \<Rightarrow>
          let new = load64 (mem c') sp - 8 * (if pe then 1 + 4 else 1 + 0) in (new, c'\<lparr>mem := store64 (mem c') sp new\<rparr>))"

text \<open>\<open>vm_enter_aarch64\<close> and \<open>vm_enter_x64\<close>: the address to return to goes to the CPU context and to the guest.\<close>

definition vm_enter :: "u64 \<Rightarrow> u64 \<Rightarrow> cpu \<Rightarrow> cpu" where
  "vm_enter lr storage c = c\<lparr>retaddr := lr, mem := store64 (mem c) storage lr\<rparr>"

definition start_cpu :: "world \<Rightarrow> bool \<Rightarrow> u64 \<Rightarrow> cpu \<Rightarrow> cpu" where
  "start_cpu W pe entry c =
     (let c1 = initContext (w_arm64 W) (os_stack_size (w_os W)) (os_new_stack (w_os W)) entry c;
          (storage, c2) = (if w_arm64 W then retaddr_aarch64 c1 else retaddr_x86 pe c1)
      in vm_enter (os_retaddr (w_os W)) storage c2)"

text \<open>\<open>startVM\<close> up to the first handler, and with \<open>fuel\<close> steps of execution.\<close>

definition machine_host :: "world \<Rightarrow> machine \<Rightarrow> host_env" where
  "machine_host W M = (w_host W)\<lparr>he_cfg := m_config M, he_callbacks := m_callbacks M\<rparr>"

definition enter_vm :: "world \<Rightarrow> u64 \<Rightarrow> machine \<Rightarrow> exec res" where
  "enter_vm W entry M =
     res_bind (find_insn entry (m_orch M)) (\<lambda>(p, s).
     Inr \<lparr>x_ptr = Word p, x_orch = s, x_cpu = start_cpu W (m_pe M) entry (m_cpu M)\<rparr>)"

definition startVM :: "nat \<Rightarrow> world \<Rightarrow> u64 \<Rightarrow> machine \<Rightarrow> (bool \<times> machine) res option" where
  "startVM fuel W entry M =
     (case res_bind (enter_vm W entry M) (exec_steps fuel (machine_host W M)) of
        Inl f \<Rightarrow> Some (Inl f)
      | Inr x \<Rightarrow> if x_ptr x = RetSlot then Some (Inr (True, set_cpu (x_cpu x) (M\<lparr>m_orch := x_orch x\<rparr>))) else None)"

definition execute_target :: "nat \<Rightarrow> world \<Rightarrow> u64 \<Rightarrow> machine \<Rightarrow> (bool \<times> machine) res option" where
  "execute_target fuel W target M =
     (case m_binary M of
        None \<Rightarrow> Some (Inr (False, M))
      | Some bin \<Rightarrow>
          (case (if guestAvailable (m_memory M) = basePointer (m_memory M) then orchBinary W bin (basePointer (m_memory M)) M
                 else Some (Inr M)) of
             None \<Rightarrow> None
           | Some (Inl f) \<Rightarrow> Some (Inl f)
           | Some (Inr M1) \<Rightarrow>
               (case mappedAddress M1 target 1 of
                  Inl f \<Rightarrow> Some (Inl f)
                | Inr rtaddr \<Rightarrow> if rtaddr \<noteq> 0 then startVM fuel W rtaddr M1 else Some (Inr (False, M1)))))"

text \<open>\<open>execute\<close> of raw opcodes; \<open>bin\<close> is the binary made of the object the opcodes are wrapped in.\<close>

definition execute_raw :: "nat \<Rightarrow> world \<Rightarrow> binary option \<Rightarrow> machine \<Rightarrow> (bool \<times> machine) res option" where
  "execute_raw fuel W obj M =
     (case obj of
        None \<Rightarrow> Some (Inr (False, M))
      | Some bin \<Rightarrow>
          let oldbin = m_binary M; M1 = M\<lparr>m_binary := Some bin\<rparr>; vmbase = guestAvailable (m_memory M1) in
          case (case b_functions bin of
                  [] \<Rightarrow> Some (Inr (0, M1))
                | (addr, _) # _ \<Rightarrow>
                    (case orchBinary W bin vmbase M1 of
                       None \<Rightarrow> None
                     | Some (Inl f) \<Rightarrow> Some (Inl f)
                     | Some (Inr M2) \<Rightarrow> Some (Inr (vmbase + addr - b_imageBase bin, M2)))) of
            None \<Rightarrow> None
          | Some (Inl f) \<Rightarrow> Some (Inl f)
          | Some (Inr (entry, M2)) \<Rightarrow>
              (case (if entry \<noteq> 0 then startVM fuel W entry M2 else Some (Inr (False, M2))) of
                 None \<Rightarrow> None
               | Some (Inl f) \<Rightarrow> Some (Inl f)
               | Some (Inr (result, M3)) \<Rightarrow> Some (Inr (result, M3\<lparr>m_binary := oldbin\<rparr>))))"

section \<open>Two engines\<close>

lemma table_missing:
  assumes "handlers_ok hash t" and "hs_set t opc = None"
  shows "handlers_emulate hash kb L opc True t s = Inr (False, t, s)"
proof -
  have "hs_caches t (hash opc) \<noteq> Some opc" using assms by (auto simp: handlers_ok_def)
  with assms(2) show ?thesis by (simp add: handlers_emulate_def Let_def)
qed

lemma emulate_missing:
  assumes ok: "engine_ok e" and "eng_readonly e" and look: "engine_lookup opcode e = None"
    and len: "if l_arm64 L then length opcode = 4 else opcode \<noteq> [] \<and> length opcode < 16"
  shows "emulate_span L opcode e s = Inr (False, e, s)"
proof -
  define n where "n = length opcode"
  have n: "(if l_arm64 L then (if length opcode < 4 then 0 else 4)
       else if 16 \<le> length opcode then fst (l_disassemble L opcode) else length opcode) = n"
    "\<not> ((l_arm64 L \<and> length opcode < 4) \<or> (\<not> l_arm64 L \<and> 16 \<le> length opcode \<and> n = 0))"
    using len by (auto simp: n_def split: if_splits)
  have t: "handlers_ok fib_hash8_u8 (opc1 e)" "handlers_ok fib_hash8_u16 (opc2 e)" "handlers_ok fib_hash8_u32 (opc4 e)"
    "handlers_ok fib_hash8_u64 (opc8 e)" "handlers_ok fib_hash8_u128 (OpcodeEngine.opc16 e)"
    using ok by (simp_all add: engine_ok_def)
  note look' = look [unfolded engine_lookup_def Let_def, folded n_def]
  consider (w1) "n = 1" | (w2) "n = 2" | (w4) "n = 3 \<or> n = 4" | (w8) "5 \<le> n \<and> n \<le> 8" | (w16) "n = 0 \<or> 8 < n" by linarith
  then show ?thesis unfolding emulate_span_def Let_def n(1) if_not_P [OF n(2)] using look' assms(2)
    by cases (auto simp: table_missing [OF t(1)] table_missing [OF t(2)] table_missing [OF t(3)] table_missing [OF t(4)] table_missing [OF t(5)])
qed

text \<open>
  C15: emulation asks the shared engine first.  When the shared read-only engine has a handler for an opcode, the
  opcode is executed by it, and if that succeeds the engine of the thread is not touched; when it has none, the result and the new thread state are
  those of the thread's own engine, and the shared engine is unchanged.
\<close>

theorem shared_engine_first:
  assumes "m_machine M" and "engine_ok (m_shared M)" and "eng_readonly (m_shared M)" and "m_binary_opcode M = None"
    and "if l_arm64 L then length opcode = 4 else opcode \<noteq> [] \<and> length opcode < 16"
  shows "case engine_lookup opcode (m_shared M) of
       Some h \<Rightarrow>
         (case interpret_handler L h (m_vm M) of
            Inl f \<Rightarrow> emulate_opcode L ptr opcode M = Inl f
          | Inr (ok, s') \<Rightarrow> ok \<longrightarrow>
              (\<exists>sh. emulate_opcode L ptr opcode M = Inr (True, M\<lparr>m_shared := sh, m_vm := s'\<rparr>) \<and> same_handlers (m_shared M) sh))
     | None \<Rightarrow>
         emulate_opcode L ptr opcode M =
           res_bind (emulate_span L opcode (m_thread M) (m_vm M)) (\<lambda>(ok, e, s'). Inr (ok, M\<lparr>m_thread := e, m_vm := s'\<rparr>))"
proof (cases "engine_lookup opcode (m_shared M)")
  case None
  from emulate_missing [OF assms(2,3) None assms(5)] None assms(1,4) show ?thesis
    by (simp add: emulate_opcode_def redirect_opcode_def try_engines_def)
next
  case (Some h)
  note e = emulate_found [OF assms(2) Some assms(5), of "m_vm M"]
  show ?thesis
  proof (cases "emulate_span L opcode (m_shared M) (m_vm M)")
    case (Inl f)
    with e Some assms(1,4) show ?thesis by (simp add: emulate_opcode_def redirect_opcode_def try_engines_def)
  next
    case (Inr x)
    with e Some assms(1,4) show ?thesis by (cases x) (auto simp: emulate_opcode_def redirect_opcode_def try_engines_def)
  qed
qed

section \<open>Memory\<close>

text \<open>
  The promise of the operating system's access to process memory: what was written is readable there, nothing else changes.
\<close>

definition os_ok :: "os_env \<Rightarrow> bool" where
  "os_ok Os \<longleftrightarrow> (\<forall>a bs m m'. os_memory_write Os a bs m = Some m' \<longrightarrow>
     m' = mem_write m a bs \<and> os_memory_read Os a (length bs) m' = Some (mem_read m' a (length bs)))"

lemma mappedAddress_set_cpu [simp]: "mappedAddress (set_cpu c M) = mappedAddress M"
  by (intro ext) (simp add: mappedAddress_def set_cpu_def)

lemma m_cpu_set_cpu [simp]: "m_cpu (set_cpu c M) = c"
  by (simp add: set_cpu_def)

text \<open>
  What the embedder writes is read back.  After a successful \<open>writeMemory\<close>, to guest memory, to the
  file image of the attached binary or to any other memory of the process, \<open>readMemory\<close> of the same
  range returns the bytes, and for eight bytes \<open>readUInt64\<close> their little-endian value.
\<close>

lemma embedder_reads_what_it_wrote:
  assumes "os_ok Os" and "writeMemory Os addr buff M = Inr (True, M')" and "length buff < 2 ^ 64"
  shows "readMemory Os addr (length buff) M' = Inr buff \<and>
    (length buff = 8 \<longrightarrow> readUInt64 Os addr M' = Inr (word_of_nat (le_val buff)))"
proof -
  from assms(2) obtain rt where rt: "mappedAddress M addr (word_of_nat (length buff)) = Inr rt"
    by (cases "mappedAddress M addr (word_of_nat (length buff))") (simp_all add: writeMemory_def)
  obtain m' where M': "M' = set_cpu ((m_cpu M)\<lparr>mem := m'\<rparr>) M"
    "if rt \<noteq> 0 then m' = mem_write (mem (m_cpu M)) rt buff else os_memory_write Os addr buff (mem (m_cpu M)) = Some m'"
    using assms(2) rt by (auto simp: writeMemory_def split: if_splits option.splits)
  have rd: "mem_read (mem_write m a buff) a (length buff) = buff" for m a
    using assms(3) by (intro mem_read_write_same) simp
  have read: "readMemory Os addr (length buff) M' = Inr buff"
    using rt M' assms(1) rd by (auto simp: readMemory_def os_ok_def split: option.splits) (metis option.distinct(1) option.inject)
  moreover have "readUInt64 Os addr M' = Inr (word_of_nat (le_val buff))" if "length buff = 8"
    using that rt M' read rd by (auto simp: readUInt64_def load64_def)
  ultimately show ?thesis by blast
qed

text \<open>A machine with one shared handler and 64 kB of committed guest memory, for the witnesses.\<close>

definition os0 :: os_env where
  "os0 = \<lparr>os_page_size = 4096, os_page_commit = (\<lambda>_ _. True), os_memory_read = (\<lambda>a n m. Some (mem_read m a n)),
     os_memory_write = (\<lambda>a bs m. Some (mem_write m a bs)), os_stack_size = 65536, os_new_stack = 0x700000, os_retaddr = 0x5550\<rparr>"

definition machine0 :: machine where
  "machine0 = \<lparr>m_machine = True, m_binary = None, m_binary_opcode = None, m_pe = False, m_config = cfg0, m_watchdog = True,
     m_callbacks = [], m_memory = \<lparr>basePointer = 0x10000000, m_offset = 0x10000\<rparr>, m_shared = (engine1 False)\<lparr>eng_readonly := True\<rparr>,
     m_thread = engine0, m_vm = vm0, m_orch = orch0, m_lifted = []\<rparr>"

lemma os0_ok: "os_ok os0"
  by (simp add: os_ok_def os0_def)

theorem shared_engine_first_witness:
  "\<exists>sh. emulate_opcode lib0 0x4000 [1, 2, 3, 4] machine0 = Inr (True, machine0\<lparr>m_shared := sh\<rparr>)"
proof -
  have ok: "m_machine machine0" "engine_ok (m_shared machine0)" "eng_readonly (m_shared machine0)" "m_binary_opcode machine0 = None"
    "if l_arm64 lib0 then length [1, 2, 3, 4 :: byte] = 4 else [1, 2, 3, 4 :: byte] \<noteq> [] \<and> length [1, 2, 3, 4 :: byte] < 16"
    using engine1_ok(1) [of False] by (simp_all add: machine0_def lib0_def engine_ok_def)
  have "engine_lookup [1, 2, 3, 4] (m_shared machine0) = Some entry0"
    by (simp add: machine0_def engine_lookup_def engine1_def engine0_def key_of_def Let_def)
  moreover have "interpret_handler lib0 entry0 (m_vm machine0) = Inr (True, m_vm machine0)"
    by (simp add: interpret_handler_def entry0_def lib0_def machine0_def vm0_def)
  ultimately show ?thesis using shared_engine_first [OF ok, of "0x4000"] by auto
qed


section \<open>Lifting a code section\<close>

fun action_addr :: "lift_action \<Rightarrow> u64" where
  "action_addr (Transform a _) = a"
| "action_addr (InvalidAt a) = a"

fun action_len :: "nat \<Rightarrow> lift_action \<Rightarrow> nat" where
  "action_len d (Transform _ bs) = length bs"
| "action_len d (InvalidAt _) = d"

text \<open>The actions lie one after the other from an address on, and only the last may reach over the end of the \<open>n\<close> bytes.\<close>

fun tiles :: "nat \<Rightarrow> u64 \<Rightarrow> nat \<Rightarrow> lift_action list \<Rightarrow> bool" where
  "tiles d addr n [] \<longleftrightarrow> n = 0"
| "tiles d addr n (a # as) \<longleftrightarrow> n \<noteq> 0 \<and> action_addr a = addr \<and> action_len d a \<noteq> 0 \<and>
     tiles d (addr + word_of_nat (action_len d a)) (n - action_len d a) as"

text \<open>Callbacks leave the kind of an event as it is.\<close>

definition keeps_events :: "callback list \<Rightarrow> bool" where
  "keeps_events cbs \<longleftrightarrow> (\<forall>ty a c. \<exists>r ty' a' c'. handleEvent cbs (EventRuntime ty a) c = (r, EventRuntime ty' a', c'))"

lemma keeps_events_report: "keeps_events cbs \<Longrightarrow> \<exists>ty' c'. report_invalid cbs ty addr c = Inr (ty', c')"
  unfolding keeps_events_def report_invalid_def by (metis (no_types, lifting) Event.simps(17) case_prod_conv)

lemma lift_end: "lift_a64 W cbs ty addr ptr 0 acc c = Inr (acc, c)" "lift_x86 W cbs ty addr ptr 0 acc c = Some (Inr (acc, c))"
  by (simp_all add: lift_a64.simps lift_x86.simps)

lemma lift_a64_tiles:
  assumes "keeps_events cbs"
  shows "\<exists>as c'. lift_a64 W cbs ty addr ptr n acc c = Inr (acc @ as, c') \<and> tiles 4 addr n as"
proof (induction n arbitrary: ty addr ptr acc c rule: less_induct)
  case (less n)
  show ?case
  proof (cases "n = 0")
    case False
    then have "n - 4 < n" by simp
    note IH = less [OF this, of _ "addr + 4" "ptr + 4"]
    obtain ty' c' where r: "report_invalid cbs ty addr c = Inr (ty', c')" using keeps_events_report [OF assms] by blast
    let ?t = "Transform addr (mem_read (mem c) ptr 4)"
    from IH [of ty "acc @ [?t]" c] IH [of ty' "acc @ [InvalidAt addr]" c'] obtain as1 c1 as2 c2 where
      a: "lift_a64 W cbs ty (addr + 4) (ptr + 4) (n - 4) (acc @ [?t]) c = Inr ((acc @ [?t]) @ as1, c1)" "tiles 4 addr n (?t # as1)"
      "lift_a64 W cbs ty' (addr + 4) (ptr + 4) (n - 4) (acc @ [InvalidAt addr]) c' = Inr ((acc @ [InvalidAt addr]) @ as2, c2)"
      "tiles 4 addr n (InvalidAt addr # as2)"
      using False by auto
    show ?thesis unfolding lift_a64.simps [of W cbs ty addr ptr n acc c] r
      using a False by (auto intro: exI [of _ "?t # as1"] exI [of _ "InvalidAt addr # as2"])
  qed (simp add: lift_end exI [of _ "[]"])
qed

lemma lift_x86_tiles:
  assumes "keeps_events cbs" and "0 < w_default_size W"
  shows "\<exists>as c'. lift_x86 W cbs ty addr ptr n acc c = Some (Inr (acc @ as, c')) \<and> tiles (w_default_size W) addr n as"
proof (induction n arbitrary: ty addr ptr acc c rule: less_induct)
  case (less n)
  define k where "k = w_disassemble W (mem_read (mem c) ptr 16)"
  obtain ty' c' where r: "report_invalid cbs ty addr c = Inr (ty', c')" using keeps_events_report [OF assms(1)] by blast
  show ?case
  proof (cases "n = 0")
    case n: False
    show ?thesis
    proof (cases "k = 0")
      case True
      from n assms(2) have "n - w_default_size W < n" by simp
      from less [OF this, of ty' "addr + word_of_nat (w_default_size W)" "ptr + word_of_nat (w_default_size W)" "acc @ [InvalidAt addr]" c']
      obtain as1 c1 where a: "lift_x86 W cbs ty' (addr + word_of_nat (w_default_size W)) (ptr + word_of_nat (w_default_size W)) (n - w_default_size W)
          (acc @ [InvalidAt addr]) c' = Some (Inr ((acc @ [InvalidAt addr]) @ as1, c1))" "tiles (w_default_size W) addr n (InvalidAt addr # as1)"
        using n assms(2) by auto
      show ?thesis using a n True r by (auto simp: lift_x86.simps [of W cbs ty addr ptr n acc c] k_def intro!: exI [of _ "InvalidAt addr # as1"])
    next
      case False
      let ?t = "Transform addr (mem_read (mem c) ptr k)"
      from n False have "n - k < n" by simp
      from less [OF this, of ty "addr + word_of_nat k" "ptr + word_of_nat k" "acc @ [?t]" c]
      obtain as1 c1 where a: "lift_x86 W cbs ty (addr + word_of_nat k) (ptr + word_of_nat k) (n - k) (acc @ [?t]) c =
          Some (Inr ((acc @ [?t]) @ as1, c1))" "tiles (w_default_size W) addr n (?t # as1)"
        using n False by auto
      show ?thesis using a n False by (auto simp: lift_x86.simps [of W cbs ty addr ptr n acc c] k_def Let_def intro!: exI [of _ "?t # as1"])
    qed
  qed (simp add: lift_end exI [of _ "[]"])
qed

text \<open>
  C16: lifting a code section ends, and misses nothing.  With callbacks that leave the kind of an event alone and, for
  x86-64, a machine that skips at least one byte of an invalid instruction, \<open>liftOpcodes\<close> returns, and the instructions it
  hands to the lifter and the invalid ones it reports follow each other without gap or overlap from the first address of the section
  to its end.
\<close>

theorem lifting_terminates_and_tiles:
  assumes "keeps_events (m_callbacks M)" and "w_arm64 W \<or> 0 < w_default_size W"
  shows "\<exists>acts M'. liftOpcodes W addr ptr n M = Some (Inr M') \<and> m_lifted M' = m_lifted M @ acts \<and>
    tiles (if w_arm64 W then 4 else w_default_size W) addr n acts"
proof (cases "w_arm64 W")
  case True
  with lift_a64_tiles [OF assms(1), of W InvalidInsn addr ptr n "m_lifted M" "m_cpu M"] show ?thesis
    by (auto simp: liftOpcodes_def set_cpu_def)
next
  case False
  with assms(2) lift_x86_tiles [OF assms(1), of W InvalidInsn addr ptr n "m_lifted M" "m_cpu M"] show ?thesis
    by (auto simp: liftOpcodes_def set_cpu_def)
qed

definition world0 :: "bool \<Rightarrow> world" where
  "world0 arm64 = \<lparr>w_arm64 = arm64, w_os = os0, w_host = host0, w_disassemble = (\<lambda>bs. if hd bs = 0 then 0 else 4), w_default_size = 1,
     w_dyn = (\<lambda>_ _. Some 0x1000)\<rparr>"

theorem lifting_terminates_and_tiles_witness:
  "\<exists>acts M'. liftOpcodes (world0 False) 0xC000 0x9000 5 machine0 = Some (Inr M') \<and> m_lifted M' = acts \<and> tiles 1 0xC000 5 acts"
proof -
  have k: "keeps_events (m_callbacks machine0)" by (simp add: keeps_events_def machine0_def)
  have w: "w_arm64 (world0 False) \<or> 0 < w_default_size (world0 False)" by (simp add: world0_def)
  from lifting_terminates_and_tiles [OF k w, of "0xC000" "0x9000" 5] show ?thesis by (simp add: world0_def machine0_def)
qed

section \<open>Starting and stopping\<close>

text \<open>
  The state a started machine begins with.  The program counter is the entry address, and the guest will return to
  the address that ends the emulation: for AArch64 it is in the link register, for x86-64 on top of the stack,
  which is lowered by one word (five for PE), provided the new stack does not overlap the guest's registers.
\<close>

lemma started_machine_returns_to_host:
  assumes "if w_arm64 W then a64_inv c else x86_inv c"
    and "c' = start_cpu W pe entry c"
    and "sp = stack c' + stacksize c' - (if w_arm64 W then 0 else if pe then 40 else 8)"
    and "w_arm64 W \<or> sep (x86_addr c (X_gpr G_rip)) 8 sp 8 \<and> sep (x86_addr c (X_gpr G_rsp)) 8 sp 8"
  shows "pc_of c' = entry \<and> retaddr c' = os_retaddr (w_os W) \<and>
    (if w_arm64 W then a64_value c' LR = Some (retaddr c') \<and> a64_value c' SP = Some sp
     else x86_value c' SP = Some sp \<and> load64 (mem c') sp = retaddr c')"
proof (cases "w_arm64 W")
  case True
  have f: "a64_reg_field PC = Some A_pc" "a64_reg_field SP = Some A_sp" "a64_reg_field LR = Some (A_gpr 30)"
      "PC \<noteq> NZCV" "SP \<noteq> NZCV" "LR \<noteq> NZCV"
    by (simp_all add: a64_reg_field_def reg_defs)
  have s: "sep (a64_addr c A_pc) 8 (a64_addr c A_sp) 8" "sep (a64_addr c A_pc) 8 (a64_addr c (A_gpr 30)) 8"
      "sep (a64_addr c A_sp) 8 (a64_addr c (A_gpr 30)) 8"
    using assms(1) True by (auto intro!: a64_sep simp: a64_inv_def)
  show ?thesis using True f s assms(2,3)
    by (simp add: start_cpu_def retaddr_aarch64_def vm_enter_def pc_of_def initContext_def Let_def setRegisterAArch64_def
        getRegisterAArch64_def a64_value_def a64_addr_def load64_store64_sep)
next
  case False
  have f: "x86_reg_field PC = Some (X_gpr G_rip)" "x86_reg_field SP = Some (X_gpr G_rsp)" "PC \<noteq> RFLAGS" "SP \<noteq> RFLAGS"
    by (simp_all add: x86_reg_field_def x86_gpr_reg_def reg_defs)
  have s: "sep (x86_addr c (X_gpr G_rip)) 8 (x86_addr c (X_gpr G_rsp)) 8" "sep (x86_addr c (X_gpr G_rsp)) 8 (x86_addr c (X_gpr G_rip)) 8"
    using assms(1) False by (auto intro!: x86_sep)
  note unf = start_cpu_def retaddr_x86_def vm_enter_def initContext_def Let_def setRegisterX86_def getRegisterX86_def x86_addr_def
  have st: "stack c' = stack (if stack c = 0 then c\<lparr>stacksize := os_stack_size (w_os W), stack := os_new_stack (w_os W)\<rparr> else c)"
    "stacksize c' = stacksize (if stack c = 0 then c\<lparr>stacksize := os_stack_size (w_os W), stack := os_new_stack (w_os W)\<rparr> else c)"
    unfolding assms(2) using False f by (simp_all add: unf)
  have m: "mem c' = store64 (store64 (store64 (store64 (mem c) (x86_addr c (X_gpr G_rip)) entry) (x86_addr c (X_gpr G_rsp)) (stack c' + stacksize c'))
        (x86_addr c (X_gpr G_rsp)) sp) sp (os_retaddr (w_os W))"
    "pcptr c' = x86_addr c (X_gpr G_rip)" "x86_addr c' r = x86_addr c r" "retaddr c' = os_retaddr (w_os W)" for r
    using False f assms(2,3) by (simp_all add: unf st)
  have "load64 (mem c') (x86_addr c (X_gpr G_rip)) = entry" "load64 (mem c') (x86_addr c (X_gpr G_rsp)) = sp"
    using False s assms(4) unfolding m(1) by (simp_all add: load64_store64_sep)
  with False f m show ?thesis by (simp add: pc_of_def x86_value_def getRegisterX86_def)
qed


section \<open>What loading leaves alone\<close>

definition same_setup :: "machine \<Rightarrow> machine \<Rightarrow> bool" where
  "same_setup M M' \<longleftrightarrow> m_memory M' = m_memory M \<and> m_binary M' = m_binary M \<and> m_binary_opcode M' = m_binary_opcode M \<and>
     m_callbacks M' = m_callbacks M \<and> m_config M' = m_config M \<and> m_pe M' = m_pe M \<and> m_orch M' = m_orch M"

lemma same_setup_trans: "same_setup M M' \<Longrightarrow> same_setup M' M'' \<Longrightarrow> same_setup M M''"
  by (simp add: same_setup_def)

lemma writeMemory_setup: "writeMemory Os addr bs M = Inr (ok, M') \<Longrightarrow> same_setup M M'"
  by (cases "mappedAddress M addr (word_of_nat (length bs))")
    (auto simp: writeMemory_def same_setup_def set_cpu_def split: if_splits option.splits)

lemma liftOpcodes_setup: "liftOpcodes W addr ptr n M = Some (Inr M') \<Longrightarrow> same_setup M M'"
  by (auto simp: liftOpcodes_def same_setup_def set_cpu_def split: option.splits sum.splits)

lemma load_sections_setup: "load_sections W bin addend ss M = Some (Inr M') \<Longrightarrow> same_setup M M'"
proof (induction W bin addend ss M arbitrary: M' rule: load_sections.induct)
  case (2 W bin addend u sect rest M)
  show ?case
  proof (cases "sect_size sect = 0")
    case False
    with "2.prems" obtain ok M1 M2 where w: "writeMemory (w_os W) (sect_addr sect + addend)
          (mem_read (mem (m_cpu M)) (b_addrBuff bin (sect_addr sect)) (unat (sect_size sect))) M = Inr (ok, M1)"
      and l: "(if sect_text sect then liftOpcodes W (sect_addr sect + addend) (b_addrBuff bin (sect_addr sect)) (unat (sect_size sect)) M1
          else Some (Inr M1)) = Some (Inr M2)" and r: "load_sections W bin addend rest M2 = Some (Inr M')"
      and nz: "b_addrBuff bin (sect_addr sect) \<noteq> 0"
      by (auto simp: Let_def split: if_splits sum.splits option.splits prod.splits)
    have "same_setup M1 M2" using l liftOpcodes_setup by (auto simp: same_setup_def split: if_splits)
    moreover have "same_setup M2 M'" using "2.IH"(2) [OF False refl refl nz w refl l] r by blast
    ultimately show ?thesis using writeMemory_setup [OF w] same_setup_trans by blast
  qed (use 2 in simp)
qed (simp add: same_setup_def)

section \<open>Addresses of the file and of the process\<close>

text \<open>
  The two conversions of an address are not inverse.  When the program counter is the run-time address \<open>mappedAddress\<close> gives for an
  address of the binary, the converted program counter \<open>getRegister\<close> reports is that address plus the image base, so
  it is the address only when the image base is zero.
\<close>

lemma converted_pc_adds_image_base:
  assumes "m_binary M = Some b" and "m_binary_opcode M = None" and "mappedAddress M target sz = Inr (pc_of (m_cpu M))"
    and "pc_of (m_cpu M) \<noteq> 0"
  shows "fst (getRegister arm64 PC True M) = Inl (b_imageBase b + target) \<and>
    (fst (getRegister arm64 PC True M) = Inl target \<longleftrightarrow> b_imageBase b = 0)"
proof -
  have "pc_of (m_cpu M) = basePointer (m_memory M) + target"
    using assms by (auto simp: mappedAddress_def Let_def split: if_splits)
  then have "converted_pc M = Some (b_imageBase b + target)" using assms(1) by (simp add: converted_pc_def)
  then show ?thesis by (simp add: getRegister_def)
qed

text \<open>A binary with one code section away from the start.\<close>

definition binary0 :: binary where
  "binary0 = \<lparr>b_imageBase = 0x100000000, b_sections = [(0x8000, \<lparr>sect_addr = 0x8000, sect_size = 0x10, sect_foff = 0, sect_text = True\<rparr>)],
     b_addrBuff = (\<lambda>_. 0x9000), b_isCode = (\<lambda>_. True), b_fileBuffer = 0x9000, b_functions = bin0\<rparr>"


text \<open>
  A target behind the committed size is refused.  The first \<open>execute\<close> commits as many bytes as the sections of the binary have
  together, although it copies each section to its address; a target address that is not below
  this size, because of gaps between the sections or an image base, is not executed even when it is code.
\<close>

lemma execute_refuses_target_behind_sum:
  assumes "m_binary M = Some bin" and "m_binary_opcode M = None" and "guest_ok (m_memory M)" and "m_offset (m_memory M) = 0"
    and "orchBinary W bin (basePointer (m_memory M)) M = Some (Inr M1)"
    and "align_up (sum_list (map (sect_size \<circ> snd) (b_sections bin))) (os_page_size (w_os W)) \<le> target" and "unat target < 2 ^ 62"
  shows "execute_target fuel W target M = Some (Inr (False, M1))"
proof -
  let ?size = "align_up (sum_list (map (sect_size \<circ> snd) (b_sections bin))) (os_page_size (w_os W))" and ?g = "m_memory M"
  obtain ok g' M2 s where c: "commit ?g ok (b_imageBase bin + basePointer ?g) ?size = g'"
    and l: "load_sections W bin (basePointer ?g) (b_sections bin) (M\<lparr>m_memory := snd g'\<rparr>) = Some (Inr M2)"
    and M1: "M1 = M2\<lparr>m_orch := s\<rparr>"
    using assms(5) by (auto simp: orchBinary_def Let_def res_bind_Inr_iff split: prod.splits option.splits sum.splits)
  have mem: "m_memory M1 = snd g'" "m_binary_opcode M1 = None" using load_sections_setup [OF l] assms(2) M1 by (simp_all add: same_setup_def)
  have g': "basePointer (snd g') = basePointer ?g" "m_offset (snd g') = 0 \<or> m_offset (snd g') = ?size"
    using c assms(4) by (auto simp: commit_def Let_def split: if_splits)
  have u: "unat (basePointer ?g) \<le> 2 ^ 63" using assms(3) by (simp add: guest_ok_def)
  have "unat (basePointer ?g + target) = unat (basePointer ?g) + unat target"
    by (rule unat_plus_small) (use u assms(7) in simp)
  moreover have "unat (m_offset (snd g')) \<le> unat target" using g'(2) assms(6) by (auto simp: word_le_nat_alt)
  moreover from this have "unat (basePointer ?g + m_offset (snd g')) = unat (basePointer ?g) + unat (m_offset (snd g'))"
    by (intro unat_plus_small) (use u assms(7) in simp)
  ultimately have "\<not> valid (snd g') (basePointer (snd g') + target) 1" by (simp add: valid_def g'(1) word_less_nat_alt)
  then have "mappedAddress M1 target 1 = Inr 0" by (simp add: mappedAddress_def mem Let_def)
  moreover have "guestAvailable ?g = basePointer ?g" by (simp add: guestAvailable_def assms(4))
  ultimately show ?thesis using assms(1,5) by (simp add: execute_target_def)
qed

lemma writeMemory_returns:
  assumes "m_binary_opcode M = None"
  obtains ok M' where "writeMemory Os addr bs M = Inr (ok, M')"
proof -
  obtain rt where "mappedAddress M addr (word_of_nat (length bs)) = Inr rt" using assms by (simp add: mappedAddress_def Let_def)
  then show ?thesis using that by (cases "os_memory_write Os addr bs (mem (m_cpu M))"; cases "rt = 0") (auto simp: writeMemory_def)
qed

lemma orch_binary0:
  assumes "M = machine0\<lparr>m_binary := Some binary0, m_memory := guest_memory_init 0x10000000\<rparr>"
  shows "\<exists>M1. orchBinary (world0 True) binary0 0x10000000 M = Some (Inr M1)"
proof -
  define g where "g = snd (commit (m_memory M) True 0x110000000 0x1000)"
  let ?bs = "mem_read (mem (m_cpu M)) 0x9000 16"
  let ?W = "world0 True" and ?Mg = "M\<lparr>m_memory := g\<rparr>"
  have al: "align_up 0x10 0x1000 = 0x1000" by (simp add: align_up_def)
  obtain ok M1 where w: "writeMemory os0 0x10008000 ?bs ?Mg = Inr (ok, M1)"
    by (rule writeMemory_returns [of ?Mg]) (simp add: assms machine0_def)
  have cb: "keeps_events (m_callbacks M1)" using writeMemory_setup [OF w] by (simp add: same_setup_def assms machine0_def keeps_events_def)
  obtain M2 where l: "liftOpcodes ?W 0x10008000 0x9000 16 M1 = Some (Inr M2)"
    using lift_a64_tiles [OF cb, of ?W InvalidInsn "0x10008000" "0x9000" 16 "m_lifted M1" "m_cpu M1"]
    by (auto simp: liftOpcodes_def world0_def)
  have ls: "load_sections ?W binary0 0x10000000 (b_sections binary0) ?Mg = Some (Inr M2)"
    using w l by (simp add: binary0_def Let_def world0_def)
  have "bin0 \<noteq> []" "list_all func_ok bin0" by (simp_all add: bin0_def func_ok_def)
  from encode_blocks_spec [OF this] have en: "\<exists>s. encode E (b_functions binary0) s0 = Inr s" for E s0
    by (simp add: encode_def binary0_def)
  have f: "align_up (sum_list (map (sect_size \<circ> snd) (b_sections binary0))) (os_page_size (w_os ?W)) = 0x1000"
    "b_imageBase binary0 + 0x10000000 = 0x110000000" "os_page_commit (w_os ?W) a b" for a b
    by (simp_all add: binary0_def world0_def os0_def al)
  obtain okc where "commit (m_memory M) True 0x110000000 0x1000 = (okc, g)" by (metis g_def prod.collapse)
  then have "orchBinary ?W binary0 0x10000000 M =
      Some (res_bind (encode (encode_env ?W 0x10000000 M2) (b_functions binary0) (m_orch M2)) (\<lambda>s. Inr (M2\<lparr>m_orch := s\<rparr>)))"
    using ls by (simp add: orchBinary_def f)
  with en [of "encode_env ?W 0x10000000 M2" "m_orch M2"] show ?thesis by auto
qed


section \<open>Running a function\<close>

text \<open>
  What running a function means, without words, pointers or tables: the events at its start, its instructions, the
  event at its end.
\<close>

definition run_function :: "host_env \<Rightarrow> enc_env \<Rightarrow> bin_insn list \<Rightarrow> cpu \<Rightarrow> cpu option" where
  "run_function H E is c =
     (let c1 = (if cfg_func (env_cfg E) then snd (observe H FuncBefore c) else c);
          c2 = (if cfg_block (env_cfg E) then snd (observe H BlockBefore c1) else c1)
      in map_option (\<lambda>c3. if cfg_func (env_cfg E) then snd (observe H FuncAfter c3) else c3) (ref_block H E is c2))"

text \<open>A function that is one block: ordinary instructions, none of them a jump target, and a return.\<close>

definition straight_function :: "enc_env \<Rightarrow> bin_insn list \<Rightarrow> bin_insn \<Rightarrow> bool" where
  "straight_function E g t \<longleftrightarrow> list_all (straight E) g \<and> lifted E t \<and> insn_ty t = RET \<and> list_all (\<lambda>i. comins i = 0) (tl (g @ [t]))"

lemma cut_straight: "list_all (\<lambda>i. comins i = 0) (g @ [t]) \<Longrightarrow> list_all (\<lambda>i. insn_ty i = OTHER) g \<Longrightarrow> cut False (g @ [t]) = (g @ [t], [])"
  by (induction g) (simp_all add: is_transfer_def)

lemma groups_straight:
  assumes "straight_function E g t"
  shows "block_groups (g @ [t]) = [g @ [t]]"
proof (cases g)
  case (Cons i g')
  have "list_all (\<lambda>i. insn_ty i = OTHER) g" using assms by (auto simp: straight_function_def straight_def list_all_iff)
  with Cons assms cut_straight [of g' t] show ?thesis by (simp add: straight_function_def is_transfer_def)
qed simp

lemma function_words:
  assumes "straight_function E g t" and "insns f = g @ [t]"
  shows "block_words E [(a, f)] =
    [ev (cfg_func (env_cfg E)) (env_fa E event_func_before) @ ev (cfg_block (env_cfg E)) (env_fa E event_block_before) @
       block_text E (g @ [t]) @ [event_insn (env_fa E finish_emulation)]]"
  by (simp add: block_words_def render_func_def assms(2) groups_straight [OF assms(1)] add_before_def render_block_def block_text_def)

text \<open>The words of an encoded function and where its address leads.\<close>

lemma encoded_function_found:
  assumes sf: "straight_function E g t" and f: "insns f = g @ [t]" and ok: "bin_ok E [(a, f)]" and good: "orch_good s"
    and disj: "\<forall>v n p. hits s v n p \<longrightarrow> v < hd (insn_addrs E [(a, f)]) \<or> fend f + env_addend E \<le> v"
    and s': "encode E [(a, f)] s = Inr s'"
  shows "orch_good s'" and "\<exists>s''. find_insn (a + env_addend E) s' = Inr (At (length (basicblocks s)) 0, s'') \<and> orch_good s'' \<and>
    words_at s'' (length (basicblocks s)) 0 (concat (block_words E [(a, f)]))"
proof -
  have fs: "list_all func_ok [(a, f)]" using ok by (simp add: bin_ok_def)
  obtain b where b: "encode_blocks E [(a, f)] = Inr b" "vmaddrs b = func_addrs E (a, f)" "rthandlers b = concat (block_words E [(a, f)])"
    using encode_blocks_spec [OF _ fs] by (auto simp: convert_def)
  have bb: "basicblocks s' = basicblocks s @ [b]" using s' b(1) by (auto simp: encode_def)
  from encode_good [OF good ok] disj s' show g': "orch_good s'" by auto
  have v: "vmaddrs b = [a + env_addend E]"
    using fs by (simp add: b(2) func_addrs_def f groups_straight [OF sf] insn_addr_def func_ok_def)
  obtain p where p: "lookup_blocks b (a + env_addend E) = Inr (Some (int p))" "drop p (rthandlers b) = rthandlers b"
    using block_start [OF ok b(1), of 0] v b(3) function_words [OF sf f] by auto
  have "rthandlers b \<noteq> []" by (simp add: b(3) function_words [OF sf f])
  with p(2) have "p = 0" by (metis append_eq_conv_conj append_take_drop_id drop_eq_Nil2 length_drop length_greater_0_conv diff_less neq0_conv less_irrefl)
  with p(1) bb have "hits s' (a + env_addend E) (length (basicblocks s)) 0" by (simp add: hits_def)
  from orch_target_hit [OF g' this] find_insn_good [OF g', of "a + env_addend E"]
  obtain s'' where "find_insn (a + env_addend E) s' = Inr (At (length (basicblocks s)) 0, s'')" "orch_good s''" "basicblocks s'' = basicblocks s'"
    by auto
  moreover from this(3) bb b(3) have "words_at s'' (length (basicblocks s)) 0 (concat (block_words E [(a, f)]))"
    by (auto simp: words_at_def)
  ultimately show "\<exists>s''. find_insn (a + env_addend E) s' = Inr (At (length (basicblocks s)) 0, s'') \<and> orch_good s'' \<and>
    words_at s'' (length (basicblocks s)) 0 (concat (block_words E [(a, f)]))" by blast
qed

lemma function_runs:
  assumes m: "env_match H E" and sf: "straight_function E g t" and f: "insns f = g @ [t]"
    and w: "words_at s n 0 (concat (block_words E [(a, f)]))" and r: "run_function H E (g @ [t]) c = Some c'" and pc: "pc_of c' = retaddr c'"
    and k: "length (concat (block_words E [(a, f)])) \<le> fuel"
  shows "exec_steps fuel H \<lparr>x_ptr = Word (At n 0), x_orch = s, x_cpu = c\<rparr> = Inr \<lparr>x_ptr = RetSlot, x_orch = s, x_cpu = c'\<rparr>"
proof -
  let ?f = "ev (cfg_func (env_cfg E)) (env_fa E event_func_before)" and ?b = "ev (cfg_block (env_cfg E)) (env_fa E event_block_before)"
  let ?c1 = "if cfg_func (env_cfg E) then snd (observe H FuncBefore c) else c"
  let ?c2 = "if cfg_block (env_cfg E) then snd (observe H BlockBefore ?c1) else ?c1"
  have ws: "concat (block_words E [(a, f)]) = ?f @ ?b @ block_text E (g @ [t]) @ [event_insn (env_fa E finish_emulation)]"
    by (simp add: function_words [OF sf f])
  note w1 = w [unfolded ws]
  have w2: "words_at s n (0 + length ?f) (?b @ block_text E (g @ [t]) @ [event_insn (env_fa E finish_emulation)])" using words_at_append [OF w1] by blast
  have w3: "words_at s n (0 + length ?f + length ?b) (block_text E (g @ [t]))" using words_at_append [OF w2] words_at_append by blast
  have e1: "exec_steps (length ?f) H \<lparr>x_ptr = Word (At n (int 0)), x_orch = s, x_cpu = c\<rparr> =
      Inr \<lparr>x_ptr = Word (At n (int (0 + length ?f))), x_orch = s, x_cpu = ?c1\<rparr>"
    by (rule exec_event_word [OF m w1]) (simp add: host_call_def)
  have e2: "exec_steps (length ?b) H \<lparr>x_ptr = Word (At n (int (0 + length ?f))), x_orch = s, x_cpu = ?c1\<rparr> =
      Inr \<lparr>x_ptr = Word (At n (int (0 + length ?f + length ?b))), x_orch = s, x_cpu = ?c2\<rparr>"
    by (rule exec_event_word [OF m w2]) (simp add: host_call_def)
  obtain c3 where c3: "ref_block H E (g @ [t]) ?c2 = Some c3" "c' = (if cfg_func (env_cfg E) then snd (observe H FuncAfter c3) else c3)"
    using r by (auto simp: run_function_def Let_def)
  obtain j where j: "fuel = length ?f + (length ?b + (length (block_text E (g @ [t])) + j))"
    using le_Suc_ex [OF k] unfolding ws by (auto simp: algebra_simps)
  have sf': "list_all (straight E) g" "lifted E t" "insn_ty t = RET" using sf by (simp_all add: straight_function_def)
  have e3: "exec_steps (length (block_text E (g @ [t])) + j) H \<lparr>x_ptr = Word (At n (int (0 + length ?f + length ?b))), x_orch = s, x_cpu = ?c2\<rparr> =
      Inr \<lparr>x_ptr = RetSlot, x_orch = s, x_cpu = c'\<rparr>"
    by (rule return_steps [OF m sf' w3 c3 pc]) simp
  show ?thesis
    unfolding j exec_steps_add [of "length ?f"] exec_steps_add [of "length ?b"] using e1 e2 e3 by simp
qed

text \<open>Loading an object with one function and starting it.\<close>

lemma execute_raw_unfold:
  assumes "b_functions bin = [(a, f)]" and "b_imageBase bin = 0" and vb: "vmbase = guestAvailable (m_memory M)"
    and "orchBinary W bin vmbase (M\<lparr>m_binary := Some bin\<rparr>) = Some (Inr M2)" and "vmbase + a \<noteq> 0"
    and "startVM fuel W (vmbase + a) M2 = Some (Inr (True, M3))"
  shows "execute_raw fuel W (Some bin) M = Some (Inr (True, M3\<lparr>m_binary := m_binary M\<rparr>))"
  using assms by (simp add: execute_raw_def Let_def)

lemma orchBinary_unfold:
  assumes "sz = align_up (sum_list (map (sect_size \<circ> snd) (b_sections bin))) (os_page_size (w_os W))"
    and "load_sections W bin addend (b_sections bin)
      (M\<lparr>m_memory := snd (commit (m_memory M) (os_page_commit (w_os W) (b_imageBase bin + addend) sz) (b_imageBase bin + addend) sz)\<rparr>) = Some (Inr M1)"
    and "encode (encode_env W addend M1) (b_functions bin) (m_orch M1) = Inr s"
  shows "orchBinary W bin addend M = Some (Inr (M1\<lparr>m_orch := s\<rparr>))"
  using assms by (simp add: orchBinary_def Let_def case_prod_beta)

end
