(* ===== verification/Debugger.thy ===== *)
theory Debugger
  imports Facade "HOL-Library.Multiset"
begin

text \<open>
  \<open>lldb/src/Process.cpp\<close>, \<open>lldb/src/Thread.cpp\<close> and the packet handler of \<open>lldb/src/Debugger.cpp\<close>: threads of the guest under a
  debugger, breakpoints, stopping and resuming, and the transfer of descriptions to the client.

  The server runs in a thread of its own, so its requests interleave with the guest threads; a guest thread that stops
  reports it, and then waits on a condition variable.
\<close>

section \<open>State\<close>

datatype StateType = eStateInvalid | eStateUnloaded | eStateConnected | eStateAttaching | eStateLaunching | eStateStopped
  | eStateRunning | eStateStepping | eStateCrashed | eStateDetached | eStateExited | eStateSuspended

record dbg_thread =
  dt_tid :: nat
  dt_native :: nat \<comment> \<open>\<open>std::thread::id\<close>\<close>
  dt_state :: StateType
  dt_description :: string

record dbg_process =
  dp_threads :: "dbg_thread list"
  dp_tid :: nat \<comment> \<open>the next identifier\<close>
  dp_state :: StateType
  dp_current :: nat
  dp_breakpoints :: "u64 \<rightharpoonup> nat" \<comment> \<open>with the reference count\<close>

definition new_process :: dbg_process where
  "new_process = \<lparr>dp_threads = [], dp_tid = 1, dp_state = eStateStopped, dp_current = 1, dp_breakpoints = Map.empty\<rparr>"

definition new_thread :: "nat \<Rightarrow> nat \<Rightarrow> dbg_thread" where
  "new_thread tid native = \<lparr>dt_tid = tid, dt_native = native, dt_state = eStateStopped, dt_description = ''Finished attaching''\<rparr>"

section \<open>Threads\<close>

definition AttachThread :: "nat \<Rightarrow> dbg_process \<Rightarrow> dbg_process" where
  "AttachThread native p = p\<lparr>dp_threads := dp_threads p @ [new_thread (dp_tid p) native], dp_tid := Suc (dp_tid p)\<rparr>"

text \<open>The index \<open>find_if\<close> finds.\<close>

fun find_native :: "nat \<Rightarrow> dbg_thread list \<Rightarrow> nat option" where
  "find_native native [] = None"
| "find_native native (t # ts) = (if dt_native t = native then Some 0 else map_option Suc (find_native native ts))"

definition DetachThread :: "nat \<Rightarrow> dbg_process \<Rightarrow> dbg_process" where
  "DetachThread native p =
     (case find_native native (dp_threads p) of
        None \<Rightarrow> p
      | Some i \<Rightarrow> p\<lparr>dp_threads := take i (dp_threads p) @ drop (Suc i) (dp_threads p)\<rparr>)"

definition ThisThread :: "nat \<Rightarrow> dbg_process \<Rightarrow> nat res" where
  "ThisThread native p = (case find_native native (dp_threads p) of None \<Rightarrow> Inl Undefined | Some i \<Rightarrow> Inr i)"

definition set_thread :: "nat \<Rightarrow> (dbg_thread \<Rightarrow> dbg_thread) \<Rightarrow> dbg_process \<Rightarrow> dbg_process" where
  "set_thread i f p = p\<lparr>dp_threads := (dp_threads p)[i := f (dp_threads p ! i)]\<rparr>"

fun GetStopReason :: "dbg_thread \<Rightarrow> string option" where
  "GetStopReason t =
     (if dt_state t \<in> {eStateStopped, eStateCrashed, eStateExited, eStateSuspended, eStateUnloaded} then Some (dt_description t) else None)"

section \<open>Breakpoints\<close>

text \<open>Addresses of the binary are replaced by their run-time addresses.\<close>

definition runtime_addr :: "machine \<Rightarrow> u64 \<Rightarrow> u64 res" where
  "runtime_addr M addr = res_bind (mappedAddress M addr 1) (\<lambda>rt. Inr (if rt \<noteq> 0 then rt else addr))"

definition SetBreakpoint :: "machine \<Rightarrow> u64 \<Rightarrow> dbg_process \<Rightarrow> dbg_process res" where
  "SetBreakpoint M addr p =
     res_bind (runtime_addr M addr) (\<lambda>a.
     Inr (p\<lparr>dp_breakpoints := (dp_breakpoints p)(a \<mapsto> (case dp_breakpoints p a of None \<Rightarrow> 0 | Some n \<Rightarrow> n) + 1)\<rparr>))"

text \<open>\<open>False\<close>: the error status.  The reference count is not zero: the assertion.\<close>

definition RemoveBreakpoint :: "machine \<Rightarrow> u64 \<Rightarrow> dbg_process \<Rightarrow> (bool \<times> dbg_process) res" where
  "RemoveBreakpoint M addr p =
     res_bind (runtime_addr M addr) (\<lambda>a.
     case dp_breakpoints p a of
       None \<Rightarrow> Inr (False, p)
     | Some n \<Rightarrow>
         if n = 0 then Inl Abort
         else if n - 1 > 0 then Inr (True, p\<lparr>dp_breakpoints := (dp_breakpoints p)(a \<mapsto> n - 1)\<rparr>)
         else Inr (True, p\<lparr>dp_breakpoints := (dp_breakpoints p)(a := None)\<rparr>))"

section \<open>Stopping\<close>

definition ReportStopped :: "nat \<Rightarrow> dbg_process \<Rightarrow> dbg_process" where
  "ReportStopped i p = p\<lparr>dp_current := dt_tid (dp_threads p ! i), dp_state := eStateStopped\<rparr>"

text \<open>
  Where a guest thread is: executing, or inside \<open>WatchDog\<close> of the thread object with that identifier, between the report and
  the wait, or waiting on the condition variable of that object.
\<close>

datatype loc = Executing | Reporting nat | Waiting nat

text \<open>\<open>AetherThread::WatchDog\<close> up to the wait: \<open>Inr True\<close> when it goes on to wait.\<close>

definition thread_WatchDog :: "nat \<Rightarrow> dbg_process \<Rightarrow> (bool \<times> dbg_process) res" where
  "thread_WatchDog i p =
     (case dt_state (dp_threads p ! i) of
        eStateStopped \<Rightarrow> Inr (True, ReportStopped i p)
      | eStateStepping \<Rightarrow>
          Inr (True, ReportStopped i (set_thread i (\<lambda>t. t\<lparr>dt_state := eStateStopped, dt_description := ''Single Stepped''\<rparr>) p))
      | eStateRunning \<Rightarrow> Inr (False, p)
      | _ \<Rightarrow> Inl Abort)"

definition HitBreakpoint :: "nat \<Rightarrow> dbg_process \<Rightarrow> (bool \<times> dbg_process) res" where
  "HitBreakpoint i p = thread_WatchDog i (set_thread i (\<lambda>t. t\<lparr>dt_state := eStateStopped, dt_description := ''Breakpoint Hit''\<rparr>) p)"

definition process_WatchDog :: "nat \<Rightarrow> u64 \<Rightarrow> dbg_process \<Rightarrow> (bool \<times> dbg_process) res" where
  "process_WatchDog native pc p =
     res_bind (ThisThread native p) (\<lambda>i.
     if dp_breakpoints p pc \<noteq> None then HitBreakpoint i p else thread_WatchDog i p)"

section \<open>Resuming\<close>

text \<open>
  \<open>Resume\<close> and \<open>SingleStep\<close> of a thread: the new state, and a notification.  The notification wakes a thread that waits
  at that moment; one that does not wait yet never learns of it.
\<close>

definition thread_Resume :: "nat \<Rightarrow> dbg_process \<Rightarrow> dbg_process" where
  "thread_Resume i p = set_thread i (\<lambda>t. t\<lparr>dt_state := eStateRunning\<rparr>) p"

definition thread_SingleStep :: "nat \<Rightarrow> dbg_process \<Rightarrow> dbg_process" where
  "thread_SingleStep i p = set_thread i (\<lambda>t. t\<lparr>dt_state := eStateStepping\<rparr>) p"

definition ResumeThread :: "nat \<Rightarrow> StateType \<Rightarrow> dbg_process \<Rightarrow> dbg_process res" where
  "ResumeThread i state p =
     (case state of
        eStateRunning \<Rightarrow> Inr ((thread_Resume i p)\<lparr>dp_state := eStateRunning\<rparr>)
      | eStateStepping \<Rightarrow> Inr ((thread_SingleStep i p)\<lparr>dp_state := eStateRunning\<rparr>)
      | _ \<Rightarrow> Inl Abort)"

text \<open>
  The loop over the threads returns with the first one that has something to do; \<open>act\<close> is the list of actions by thread
  identifier.  The result names the thread.
\<close>

fun resume_loop :: "(nat \<Rightarrow> StateType option) \<Rightarrow> nat \<Rightarrow> dbg_thread list \<Rightarrow> dbg_process \<Rightarrow> (nat option \<times> dbg_process) res" where
  "resume_loop act i [] p = Inr (None, p)"
| "resume_loop act i (t # ts) p =
     (case act (dt_tid t) of
        Some eStateRunning \<Rightarrow> res_bind (ResumeThread i eStateRunning p) (\<lambda>p'. Inr (Some i, p'))
      | Some eStateStepping \<Rightarrow> res_bind (ResumeThread i eStateStepping p) (\<lambda>p'. Inr (Some i, p'))
      | _ \<Rightarrow> resume_loop act (Suc i) ts p)"

definition Resume :: "(nat \<Rightarrow> StateType option) \<Rightarrow> dbg_process \<Rightarrow> (nat option \<times> dbg_process) res" where
  "Resume act p = resume_loop act 0 (dp_threads p) p"

definition Interrupt :: "dbg_process \<Rightarrow> dbg_process" where
  "Interrupt p = p\<lparr>dp_threads := map (\<lambda>t. t\<lparr>dt_state := eStateStopped, dt_description := ''Interrupted''\<rparr>) (dp_threads p), dp_state := eStateStopped\<rparr>"

definition Detach :: "dbg_process \<Rightarrow> dbg_process" where
  "Detach p = p\<lparr>dp_threads := map (\<lambda>t. t\<lparr>dt_state := eStateRunning\<rparr>) (dp_threads p), dp_state := eStateDetached\<rparr>"

section \<open>Memory\<close>

definition dbg_ReadMemory :: "os_env \<Rightarrow> u64 \<Rightarrow> nat \<Rightarrow> machine \<Rightarrow> bytes option res" where
  "dbg_ReadMemory Os addr n M = res_bind (readMemory Os addr n M) (\<lambda>bs. Inr (if bs \<noteq> [] then Some bs else None))"

definition dbg_WriteMemory :: "os_env \<Rightarrow> u64 \<Rightarrow> bytes \<Rightarrow> machine \<Rightarrow> (nat option \<times> machine) res" where
  "dbg_WriteMemory Os addr bs M = res_bind (writeMemory Os addr bs M) (\<lambda>(ok, M'). Inr (if ok then Some (length bs) else None, M'))"

text \<open>The page of an address, when its first eight bytes are readable.\<close>

definition GetMemoryRegionInfo :: "os_env \<Rightarrow> u64 \<Rightarrow> machine \<Rightarrow> (u64 \<times> u64) option res" where
  "GetMemoryRegionInfo Os addr M =
     (let page = align_down addr (os_page_size Os) in
      res_bind (readMemory Os page 8 M) (\<lambda>bs. Inr (if bs = [] then None else Some (page, os_page_size Os))))"

section \<open>The debugging context\<close>

text \<open>
  \<open>DebuggingContext\<close> and the handlers \<open>aether_dbgmain\<close> installs.  The first call of \<open>thread_handler\<close> accepts the client
  and creates the process (\<open>initialize\<close>, here when the connection succeeds; otherwise the program exits).
\<close>

record dbg_context =
  dc_proc :: "dbg_process option"
  dc_detached :: bool

definition attach_or_detach :: "nat \<Rightarrow> bool \<Rightarrow> dbg_process \<Rightarrow> dbg_process" where
  "attach_or_detach native starting p = (if starting then AttachThread native p else DetachThread native p)"

definition thread_handler :: "nat \<Rightarrow> bool \<Rightarrow> dbg_context \<Rightarrow> dbg_context" where
  "thread_handler native starting c =
     (if dc_detached c then c
      else case dc_proc c of
             None \<Rightarrow> c\<lparr>dc_proc := Some (attach_or_detach native starting new_process)\<rparr>
           | Some p \<Rightarrow> c\<lparr>dc_proc := Some (attach_or_detach native starting p)\<rparr>)"

text \<open>With the identifier of the thread object that is going to wait, if it stops.\<close>

definition insn_handler :: "nat \<Rightarrow> u64 \<Rightarrow> dbg_context \<Rightarrow> (nat option \<times> dbg_context) res" where
  "insn_handler native pc c =
     (if dc_detached c then Inr (None, c)
      else case dc_proc c of
             None \<Rightarrow> Inl Undefined
           | Some p \<Rightarrow>
               res_bind (ThisThread native p) (\<lambda>i.
               res_bind (process_WatchDog native pc p) (\<lambda>(stop, p').
               Inr (if stop then Some (dt_tid (dp_threads p ! i)) else None, c\<lparr>dc_proc := Some p'\<rparr>))))"

section \<open>Guest threads and server, interleaved\<close>

text \<open>
  The events: a guest thread executes an instruction, goes from the report to the wait, wakes without a
  notification (which condition variables may do), starts or ends; the server handles a request, or its loop ends.  A
  request is one step, as the server handles one after the other.
\<close>

datatype dbg_event = Insn nat u64 | Wait nat | Spurious nat | StartThread nat | EndThread nat
  | RequestResume "nat \<Rightarrow> StateType option" | RequestInterrupt | RequestDetach
  | RequestSetBreakpoint u64 | RequestRemoveBreakpoint u64 | ServerEnds

record dbg_world =
  dw_context :: dbg_context
  dw_loc :: "nat \<Rightarrow> loc"

definition notify_all :: "nat set \<Rightarrow> (nat \<Rightarrow> loc) \<Rightarrow> nat \<Rightarrow> loc" where
  "notify_all tids L n = (case L n of Waiting t \<Rightarrow> if t \<in> tids then Executing else L n | _ \<Rightarrow> L n)"

definition dbg_start :: dbg_world where
  "dbg_start = \<lparr>dw_context = \<lparr>dc_proc = None, dc_detached = False\<rparr>, dw_loc = (\<lambda>_. Executing)\<rparr>"

inductive dbg_step :: "machine \<Rightarrow> dbg_world \<Rightarrow> dbg_event \<Rightarrow> dbg_world \<Rightarrow> bool" for M where
  insn: "dw_loc w n = Executing \<Longrightarrow> insn_handler n pc (dw_context w) = Inr (stop, c) \<Longrightarrow>
    dbg_step M w (Insn n pc)
      \<lparr>dw_context = c, dw_loc = (case stop of None \<Rightarrow> dw_loc w | Some t \<Rightarrow> (dw_loc w)(n := Reporting t))\<rparr>"
| wait: "dw_loc w n = Reporting t \<Longrightarrow> dbg_step M w (Wait n) (w\<lparr>dw_loc := (dw_loc w)(n := Waiting t)\<rparr>)"
| spurious: "dw_loc w n = Waiting t \<Longrightarrow> dbg_step M w (Spurious n) (w\<lparr>dw_loc := (dw_loc w)(n := Executing)\<rparr>)"
| start: "dw_loc w n = Executing \<Longrightarrow> dbg_step M w (StartThread n) (w\<lparr>dw_context := thread_handler n True (dw_context w)\<rparr>)"
| finish: "dw_loc w n = Executing \<Longrightarrow> dbg_step M w (EndThread n) (w\<lparr>dw_context := thread_handler n False (dw_context w)\<rparr>)"
| resume: "dc_proc (dw_context w) = Some p \<Longrightarrow> Resume act p = Inr (r, p') \<Longrightarrow>
    dbg_step M w (RequestResume act)
      \<lparr>dw_context = (dw_context w)\<lparr>dc_proc := Some p'\<rparr>,
       dw_loc = notify_all (case r of None \<Rightarrow> {} | Some i \<Rightarrow> {dt_tid (dp_threads p ! i)}) (dw_loc w)\<rparr>"
| interrupt: "dc_proc (dw_context w) = Some p \<Longrightarrow>
    dbg_step M w RequestInterrupt (w\<lparr>dw_context := (dw_context w)\<lparr>dc_proc := Some (Interrupt p)\<rparr>\<rparr>)"
| detach: "dc_proc (dw_context w) = Some p \<Longrightarrow>
    dbg_step M w RequestDetach
      \<lparr>dw_context = \<lparr>dc_proc = Some (Detach p), dc_detached = True\<rparr>, dw_loc = notify_all (dt_tid ` set (dp_threads p)) (dw_loc w)\<rparr>"
| set_breakpoint: "dc_proc (dw_context w) = Some p \<Longrightarrow> SetBreakpoint M a p = Inr p' \<Longrightarrow>
    dbg_step M w (RequestSetBreakpoint a) (w\<lparr>dw_context := (dw_context w)\<lparr>dc_proc := Some p'\<rparr>\<rparr>)"
| remove_breakpoint: "dc_proc (dw_context w) = Some p \<Longrightarrow> RemoveBreakpoint M a p = Inr (ok, p') \<Longrightarrow>
    dbg_step M w (RequestRemoveBreakpoint a) (w\<lparr>dw_context := (dw_context w)\<lparr>dc_proc := Some p'\<rparr>\<rparr>)"
| ends: "dbg_step M w ServerEnds (w\<lparr>dw_context := (dw_context w)\<lparr>dc_detached := True\<rparr>\<rparr>)"

inductive_cases insnE: "dbg_step M w (Insn n pc) w'"
inductive_cases waitE: "dbg_step M w (Wait n) w'"

text \<open>
  The states a debugging session reaches, when every step satisfies \<open>ok\<close>.
\<close>

inductive dbg_reach :: "(dbg_world \<Rightarrow> dbg_event \<Rightarrow> bool) \<Rightarrow> machine \<Rightarrow> dbg_world \<Rightarrow> bool" for ok M where
  initial: "dbg_reach ok M dbg_start"
| step: "dbg_reach ok M w \<Longrightarrow> ok w e \<Longrightarrow> dbg_step M w e w' \<Longrightarrow> dbg_reach ok M w'"


section \<open>The invariant of the process\<close>

definition proc_ok :: "dbg_process \<Rightarrow> bool" where
  "proc_ok p \<longleftrightarrow> distinct (map dt_tid (dp_threads p)) \<and>
     (\<forall>t \<in> set (dp_threads p). dt_tid t < dp_tid p \<and> dt_state t \<in> {eStateStopped, eStateRunning, eStateStepping}) \<and>
     (\<forall>a. dp_breakpoints p a \<noteq> Some 0)"


lemma find_native_None: "find_native n ts = None \<longleftrightarrow> n \<notin> dt_native ` set ts"
  by (induction ts) auto

lemma new_process_ok [simp, intro]: "proc_ok new_process"
  by (simp add: proc_ok_def new_process_def)



lemma set_thread_ok:
  assumes "proc_ok p" and "i < length (dp_threads p)"
    and "\<And>t. dt_tid (f t) = dt_tid t \<and> dt_state (f t) \<in> {eStateStopped, eStateRunning, eStateStepping}"
  shows "proc_ok (set_thread i f p)"
proof -
  have "map dt_tid ((dp_threads p)[i := f (dp_threads p ! i)]) = map dt_tid (dp_threads p)"
    using assms(2,3) by (simp add: map_update) (metis length_map list_update_id nth_map)
  moreover have "x \<in> set (dp_threads p) \<or> x = f (dp_threads p ! i)" if "x \<in> set ((dp_threads p)[i := f (dp_threads p ! i)])" for x
    using that set_update_subset_insert by fastforce
  ultimately show ?thesis using assms nth_mem [OF assms(2)] by (fastforce simp: proc_ok_def set_thread_def)
qed

lemma proc_ok_more [simp]: "proc_ok (p\<lparr>dp_current := c\<rparr>) = proc_ok p" "proc_ok (p\<lparr>dp_state := s\<rparr>) = proc_ok p"
  by (simp_all add: proc_ok_def)

lemma threads_set_thread [simp]: "dp_threads (set_thread i f p) = (dp_threads p)[i := f (dp_threads p ! i)]"
  "dp_breakpoints (set_thread i f p) = dp_breakpoints p"
  by (simp_all add: set_thread_def)




lemma resume_loop_cases:
  assumes "proc_ok p" and "ts = drop k (dp_threads p)"
  obtains (none) "resume_loop act k ts p = Inr (None, p)" "\<forall>t \<in> set ts. act (dt_tid t) \<notin> {Some eStateRunning, Some eStateStepping}"
    | (first) i s where "resume_loop act k ts p = Inr (Some i, (set_thread i (\<lambda>t. t\<lparr>dt_state := s\<rparr>) p)\<lparr>dp_state := eStateRunning\<rparr>)"
        "k \<le> i" "i < length (dp_threads p)" "act (dt_tid (dp_threads p ! i)) = Some s" "s \<in> {eStateRunning, eStateStepping}"
        "\<forall>j. k \<le> j \<and> j < i \<longrightarrow> act (dt_tid (dp_threads p ! j)) \<notin> {Some eStateRunning, Some eStateStepping}"
  using assms
proof (induction ts arbitrary: k thesis)
  case Nil
  then show ?case by simp
next
  case (Cons t ts)
  have k: "k < length (dp_threads p)" and t: "t = dp_threads p ! k" and ts: "ts = drop (Suc k) (dp_threads p)"
    using Cons.prems(4) by (metis drop_eq_Nil2 leI list.distinct(1), metis nth_via_drop, metis drop_Suc list.sel(3) tl_drop)
  consider (here) s where "act (dt_tid t) = Some s" "s \<in> {eStateRunning, eStateStepping}"
    | (later) "act (dt_tid t) \<notin> {Some eStateRunning, Some eStateStepping}" by blast
  then show ?case
  proof cases
    case here
    then show ?thesis using k t
      by (intro Cons.prems(2) [of k s]) (auto simp: ResumeThread_def thread_Resume_def thread_SingleStep_def)
  next
    case later
    then have e: "resume_loop act k (t # ts) p = resume_loop act (Suc k) ts p" by (auto split: option.splits StateType.splits)
    show ?thesis
    proof (rule Cons.IH [of "Suc k"])
      assume "resume_loop act (Suc k) ts p = Inr (None, p)" "\<forall>t \<in> set ts. act (dt_tid t) \<notin> {Some eStateRunning, Some eStateStepping}"
      with e later show thesis by (intro Cons.prems(1)) simp_all
    next
      fix i s
      assume 1: "resume_loop act (Suc k) ts p = Inr (Some i, (set_thread i (\<lambda>t. t\<lparr>dt_state := s\<rparr>) p)\<lparr>dp_state := eStateRunning\<rparr>)"
        "Suc k \<le> i" "i < length (dp_threads p)" "act (dt_tid (dp_threads p ! i)) = Some s" "s \<in> {eStateRunning, eStateStepping}"
        and 2: "\<forall>j. Suc k \<le> j \<and> j < i \<longrightarrow> act (dt_tid (dp_threads p ! j)) \<notin> {Some eStateRunning, Some eStateStepping}"
      have "act (dt_tid (dp_threads p ! j)) \<notin> {Some eStateRunning, Some eStateStepping}" if "k \<le> j \<and> j < i" for j
        using that 2 later t by (cases "j = k") auto
      with 1 e show thesis by (intro Cons.prems(2) [of i s]) auto
    qed (use Cons.prems ts in auto)
  qed
qed

lemmas Resume_cases = resume_loop_cases [where k = 0 and ts = "dp_threads p" and p = p for p, simplified, folded Resume_def]











section \<open>Stopping and resuming\<close>








lemma notify_all_Reporting [simp]: "notify_all T L n = Reporting t \<longleftrightarrow> L n = Reporting t"
  by (auto simp: notify_all_def split: loc.splits)

lemma notify_all_Waiting [simp]: "notify_all T L n = Waiting t \<longleftrightarrow> L n = Waiting t \<and> t \<notin> T"
  by (auto simp: notify_all_def split: loc.splits)









definition resume_one :: "nat \<Rightarrow> nat \<Rightarrow> StateType option" where
  "resume_one t = (\<lambda>x. if x = t then Some eStateRunning else None)"



text \<open>
  A request resumes at most one thread.  \<open>Resume\<close> never aborts, changes the first thread that has a run or step action to
  what the action says and leaves every other thread as it is, also one that has an action of its own; without such a thread it does nothing.
\<close>

lemma resume_moves_first_thread:
  assumes "proc_ok p"
  shows "\<exists>r p'. Resume act p = Inr (r, p') \<and> proc_ok p' \<and>
    (r = None \<longrightarrow> p' = p \<and> (\<forall>t \<in> set (dp_threads p). act (dt_tid t) \<notin> {Some eStateRunning, Some eStateStepping})) \<and>
    (\<forall>i. r = Some i \<longrightarrow> i < length (dp_threads p) \<and> act (dt_tid (dp_threads p ! i)) = Some (dt_state (dp_threads p' ! i)) \<and> dp_state p' = eStateRunning \<and>
      (\<forall>j < length (dp_threads p). j \<noteq> i \<longrightarrow> dp_threads p' ! j = dp_threads p ! j))"
proof (cases rule: Resume_cases [OF assms, of act])
  case 1
  with assms show ?thesis by auto
next
  case (2 i s)
  then have "proc_ok (set_thread i (\<lambda>t. t\<lparr>dt_state := s\<rparr>) p)" using assms by (intro set_thread_ok) auto
  with 2 show ?thesis by auto
qed


section \<open>A session with one thread\<close>

definition one_thread :: "nat \<Rightarrow> StateType \<Rightarrow> loc \<Rightarrow> dbg_world" where
  "one_thread n s l = \<lparr>dw_context = \<lparr>dc_proc = Some (new_process\<lparr>dp_threads := [(new_thread 1 n)\<lparr>dt_state := s\<rparr>], dp_tid := Suc 1, dp_state := s\<rparr>),
     dc_detached = False\<rparr>, dw_loc = (\<lambda>_. Executing)(n := l)\<rparr>"

lemmas one_thread_simps = one_thread_def new_process_def new_thread_def ReportStopped_def

lemma one_thread_start: "dbg_step M dbg_start (StartThread n) (one_thread n eStateStopped Executing)"
  using dbg_step.start [of dbg_start n M]
  by (simp add: one_thread_simps dbg_start_def thread_handler_def attach_or_detach_def AttachThread_def fun_upd_idem)

lemma one_thread_insn: "dbg_step M (one_thread n eStateStopped Executing) (Insn n pc) (one_thread n eStateStopped (Reporting 1))"
  using dbg_step.insn [of "one_thread n eStateStopped Executing" n pc "Some 1" "dw_context (one_thread n eStateStopped (Reporting 1))" M]
  by (simp add: one_thread_simps insn_handler_def ThisThread_def process_WatchDog_def thread_WatchDog_def)

lemma one_thread_wait: "dbg_step M (one_thread n s (Reporting 1)) (Wait n) (one_thread n s (Waiting 1))"
  using dbg_step.wait [of "one_thread n s (Reporting 1)" n 1 M] by (simp add: one_thread_def)

lemma one_thread_resume:
  "dbg_step M (one_thread n eStateStopped (Reporting 1)) (RequestResume (resume_one 1)) (one_thread n eStateRunning (Reporting 1))"
proof -
  have "notify_all T ((\<lambda>_. Executing)(n := Reporting 1)) = (\<lambda>_. Executing)(n := Reporting 1)" for T by (auto simp: notify_all_def)
  then show ?thesis
    using dbg_step.resume [of "one_thread n eStateStopped (Reporting 1)" _ "resume_one 1" "Some 0" "the (dc_proc (dw_context (one_thread n eStateRunning (Reporting 1))))" M]
    by (simp add: one_thread_simps Resume_def resume_one_def ResumeThread_def thread_Resume_def set_thread_def)
qed

lemma one_thread_reporting:
  assumes "\<And>w. ok w (StartThread n)" and "\<And>w. ok w (Insn n 0)"
  shows "dbg_reach ok M (one_thread n eStateStopped (Reporting 1))"
  using assms dbg_reach.initial one_thread_start one_thread_insn by (metis (no_types, lifting) dbg_reach.step)

text \<open>
  C35: the server can resume too early.  \<open>Resume\<close> notifies without taking the lock the thread holds from its report to its
  wait, and the wait has no condition: when the request comes between the two, the thread waits although its
  object and the process run, and only a spurious wakeup or another request lets it go on.
\<close>

theorem early_resume_is_lost:
  "\<exists>w p. dbg_reach (\<lambda>_ _. True) M w \<and> dc_proc (dw_context w) = Some p \<and> dw_loc w n = Waiting 1 \<and> dp_state p = eStateRunning \<and>
    map dt_state (dp_threads p) = [eStateRunning] \<and>
    (\<forall>e w'. dbg_step M w e w' \<longrightarrow> dw_loc w' n = Waiting 1 \<or> e \<in> {Spurious n, RequestDetach} \<or> (\<exists>act. e = RequestResume act))"
proof -
  let ?w = "one_thread n eStateRunning (Waiting 1)"
  have "dbg_reach (\<lambda>_ _. True) M ?w"
    by (rule dbg_reach.step [OF dbg_reach.step [OF one_thread_reporting _ one_thread_resume] _ one_thread_wait]) simp_all
  moreover have "dw_loc w' n = Waiting 1 \<or> e \<in> {Spurious n, RequestDetach} \<or> (\<exists>act. e = RequestResume act)"
    if "dbg_step M ?w e w'" for e w'
    using that by cases (auto simp: one_thread_def split: if_splits option.splits)
  ultimately show ?thesis by (intro exI [of _ ?w]) (simp add: one_thread_simps)
qed

theorem early_resume_is_lost_witness:
  "\<exists>w. dbg_reach (\<lambda>_ _. True) machine0 w \<and> dw_loc w 7 = Waiting 1 \<and> (\<forall>pc w'. \<not> dbg_step machine0 w (Insn 7 pc) w')"
proof -
  from early_resume_is_lost [of machine0 7] obtain w where w: "dbg_reach (\<lambda>_ _. True) machine0 w" "dw_loc w 7 = Waiting 1" by blast
  have "\<not> dbg_step machine0 w (Insn 7 pc) w'" for pc w' using w(2) by (auto elim: insnE)
  with w show ?thesis by blast
qed




section \<open>Breakpoints as a multiset\<close>










end
