(* ===== verification/DebugRegisters.thy ===== *)
theory DebugRegisters
  imports Debugger
begin

text \<open>
  \<open>lldb/src/Context.cpp\<close>: the registers of the two guests as the debugger shows them, their table of descriptions beside the
  table of register numbers of the machine, and reading and writing one of them.

  The register numbers of the debugger's own headers (DWARF, EH frame and plug-in numbers) are a parameter; the enumerators the file
  adds to them are not.
\<close>

section \<open>Descriptions\<close>

datatype lldb_encoding = eEncodingInvalid | eEncodingUint | eEncodingSint | eEncodingIEEE754 | eEncodingVector

datatype lldb_format = eFormatDefault | eFormatInvalid | eFormatBoolean | eFormatBinary | eFormatBytes | eFormatBytesWithASCII | eFormatChar
  | eFormatCharPrintable | eFormatComplex | eFormatCString | eFormatDecimal | eFormatEnum | eFormatHex | eFormatHexUppercase | eFormatFloat
  | eFormatOctal | eFormatOSType | eFormatUnicode16 | eFormatUnicode32 | eFormatUnsigned | eFormatPointer | eFormatVectorOfChar
  | eFormatVectorOfSInt8 | eFormatVectorOfUInt8 | eFormatVectorOfSInt16 | eFormatVectorOfUInt16 | eFormatVectorOfSInt32 | eFormatVectorOfUInt32
  | eFormatVectorOfSInt64 | eFormatVectorOfUInt64 | eFormatVectorOfFloat16 | eFormatVectorOfFloat32 | eFormatVectorOfFloat64
  | eFormatVectorOfUInt128 | eFormatComplexInteger | eFormatCharArray | eFormatAddressInfo | eFormatHexFloat | eFormatInstruction | eFormatVoid
  | eFormatUnicode8 | eFormatFloat128

datatype generic_kind = GENERIC_PC | GENERIC_SP | GENERIC_FP | GENERIC_RA | GENERIC_FLAGS | GENERIC_ARG1 | GENERIC_ARG2 | GENERIC_ARG3
  | GENERIC_ARG4 | GENERIC_ARG5 | GENERIC_ARG6 | GENERIC_ARG7 | GENERIC_ARG8 | GENERIC_TP

text \<open>\<open>None\<close> is \<open>LLDB_INVALID_REGNUM\<close>, or a null pointer.\<close>

record RegisterInfo =
  ri_name :: string
  ri_alt_name :: "string option"
  ri_byte_size :: nat
  ri_byte_offset :: nat
  ri_encoding :: lldb_encoding
  ri_format :: lldb_format
  ri_ehframe :: "nat option"
  ri_dwarf :: "nat option"
  ri_generic :: "generic_kind option"
  ri_process :: "nat option"
  ri_lldb :: "nat option"
  ri_value_regs :: "nat list option"
  ri_invalidate_regs :: "nat list option"
  ri_flags_type :: "string option"

record RegisterSet =
  rs_name :: string
  rs_short_name :: string
  rs_registers :: "nat list"

record reg_numbers =
  rn_arm64_dwarf :: "string \<Rightarrow> nat"
  rn_arm64_ehframe :: "string \<Rightarrow> nat"
  rn_x86_dwarf :: "string \<Rightarrow> nat"
  rn_x86_lldb :: "string \<Rightarrow> nat"

section \<open>AArch64\<close>

text \<open>The enumerators the file adds after \<open>z31\<close>.\<close>

definition arm64_dwarf :: "reg_numbers \<Rightarrow> string \<Rightarrow> nat" where
  "arm64_dwarf N reg =
     (if reg = ''fpsr'' then rn_arm64_dwarf N ''z31'' + 1 else if reg = ''fpcr'' then rn_arm64_dwarf N ''z31'' + 2 else rn_arm64_dwarf N reg)"

definition arm64_ehframe :: "reg_numbers \<Rightarrow> string \<Rightarrow> nat" where
  "arm64_ehframe N reg =
     (if reg = ''fpsr'' then rn_arm64_ehframe N ''z31'' + 1 else if reg = ''fpcr'' then rn_arm64_ehframe N ''z31'' + 2
      else rn_arm64_ehframe N reg)"

definition arm64_registers :: "Register list" where
  "arm64_registers = map (\<lambda>i. X (int i)) [0..<29] @ [FP, LR, SP, PC, NZCV] @ map (\<lambda>i. Q (int i)) [0..<32] @ [FPSR, FPCR]"

text \<open>\<open>MISC_KIND\<close> and the description every macro builds.\<close>

definition arm64_info :: "reg_numbers \<Rightarrow> string \<Rightarrow> string option \<Rightarrow> nat \<Rightarrow> lldb_encoding \<Rightarrow> lldb_format \<Rightarrow> generic_kind option \<Rightarrow> RegisterInfo" where
  "arm64_info N reg alt sz enc fmt generic =
     \<lparr>ri_name = reg, ri_alt_name = alt, ri_byte_size = sz, ri_byte_offset = 0, ri_encoding = enc, ri_format = fmt,
      ri_ehframe = Some (arm64_ehframe N reg), ri_dwarf = Some (arm64_dwarf N reg), ri_generic = generic, ri_process = None,
      ri_lldb = Some (arm64_dwarf N reg), ri_value_regs = None, ri_invalidate_regs = None, ri_flags_type = None\<rparr>"

definition DEFINE_GPR64 :: "reg_numbers \<Rightarrow> string \<Rightarrow> generic_kind option \<Rightarrow> RegisterInfo" where
  "DEFINE_GPR64 N reg generic = arm64_info N reg None 8 eEncodingUint eFormatHex generic"

definition DEFINE_GPR64_ALT :: "reg_numbers \<Rightarrow> string \<Rightarrow> string \<Rightarrow> generic_kind option \<Rightarrow> RegisterInfo" where
  "DEFINE_GPR64_ALT N reg alt generic = arm64_info N reg (Some alt) 8 eEncodingUint eFormatHex generic"

text \<open>\<open>MISC_GPR_KIND\<close> makes every such register a flags register.\<close>

definition DEFINE_MISC_REGS :: "reg_numbers \<Rightarrow> string \<Rightarrow> nat \<Rightarrow> RegisterInfo" where
  "DEFINE_MISC_REGS N reg sz = arm64_info N reg None sz eEncodingUint eFormatHex (Some GENERIC_FLAGS)"

definition DEFINE_VREG :: "reg_numbers \<Rightarrow> string \<Rightarrow> RegisterInfo" where
  "DEFINE_VREG N reg = arm64_info N reg None 16 eEncodingVector eFormatVectorOfUInt8 None"

definition arg_kinds :: "generic_kind list" where
  "arg_kinds = [GENERIC_ARG1, GENERIC_ARG2, GENERIC_ARG3, GENERIC_ARG4, GENERIC_ARG5, GENERIC_ARG6, GENERIC_ARG7, GENERIC_ARG8]"

definition arm64_register_infos :: "reg_numbers \<Rightarrow> RegisterInfo list" where
  "arm64_register_infos N =
     map (\<lambda>i. DEFINE_GPR64 N (''x'' @ digits i) (if i < 8 then Some (arg_kinds ! i) else None)) [0..<29] @
     [DEFINE_GPR64_ALT N ''fp'' ''x29'' (Some GENERIC_FP), DEFINE_GPR64_ALT N ''lr'' ''x30'' (Some GENERIC_RA),
      DEFINE_GPR64_ALT N ''sp'' ''x31'' (Some GENERIC_SP), DEFINE_GPR64 N ''pc'' (Some GENERIC_PC), DEFINE_MISC_REGS N ''cpsr'' 4] @
     map (\<lambda>i. DEFINE_VREG N (''v'' @ digits i)) [0..<32] @ [DEFINE_MISC_REGS N ''fpsr'' 4, DEFINE_MISC_REGS N ''fpcr'' 4]"

definition arm64_gpr_regnums :: "reg_numbers \<Rightarrow> nat list" where
  "arm64_gpr_regnums N =
     map (\<lambda>i. arm64_dwarf N (''x'' @ digits i)) [0..<29] @ map (arm64_dwarf N) [''fp'', ''lr'', ''sp'', ''pc'', ''cpsr'']"

definition arm64_gpu_regnums :: "reg_numbers \<Rightarrow> nat list" where
  "arm64_gpu_regnums N = map (\<lambda>i. arm64_dwarf N (''v'' @ digits i)) [0..<32] @ map (arm64_dwarf N) [''fpsr'', ''fpcr'']"

definition arm64_register_sets :: "reg_numbers \<Rightarrow> RegisterSet list" where
  "arm64_register_sets N =
     [\<lparr>rs_name = ''General Purpose Registers'', rs_short_name = ''gpr'', rs_registers = arm64_gpr_regnums N\<rparr>,
      \<lparr>rs_name = ''Floating Point Registers'', rs_short_name = ''fpu'', rs_registers = arm64_gpu_regnums N\<rparr>]"

section \<open>x86-64\<close>

definition x86_dwarf_xmm :: "reg_numbers \<Rightarrow> nat \<Rightarrow> nat" where
  "x86_dwarf_xmm N i = (if i < 16 then rn_x86_dwarf N (''xmm'' @ digits i) else rn_x86_dwarf N ''xmm15'' + (i - 15))"

definition x86_lldb_xmm :: "reg_numbers \<Rightarrow> nat \<Rightarrow> nat" where
  "x86_lldb_xmm N i = (if i < 16 then rn_x86_lldb N (''xmm'' @ digits i) else rn_x86_lldb N ''xmm15'' + (i - 15))"

definition x86_registers :: "Register list" where
  "x86_registers =
     [RAX, RBX, RCX, RDX, RSI, RDI, RBP, RSP] @ map (\<lambda>i. R (int i)) [8..<16] @ [RIP, RFLAGS, CS, SS, DS, ES, FS, GS] @
     map (\<lambda>i. ST (int i)) [0..<8] @ map (\<lambda>i. MM (int i)) [0..<8] @ map (\<lambda>i. XMM (int i)) [0..<32]"

definition x86_info :: "string \<Rightarrow> nat \<Rightarrow> lldb_encoding \<Rightarrow> lldb_format \<Rightarrow> nat \<Rightarrow> generic_kind option \<Rightarrow> nat \<Rightarrow> RegisterInfo" where
  "x86_info name sz enc fmt dwarf generic lldb =
     \<lparr>ri_name = name, ri_alt_name = None, ri_byte_size = sz, ri_byte_offset = 0, ri_encoding = enc, ri_format = fmt,
      ri_ehframe = Some dwarf, ri_dwarf = Some dwarf, ri_generic = generic, ri_process = None,
      ri_lldb = Some lldb, ri_value_regs = None, ri_invalidate_regs = None, ri_flags_type = None\<rparr>"

definition DEFINE_GPR :: "reg_numbers \<Rightarrow> string \<Rightarrow> generic_kind option \<Rightarrow> RegisterInfo" where
  "DEFINE_GPR N reg generic = x86_info reg 8 eEncodingUint eFormatHex (rn_x86_dwarf N reg) generic (rn_x86_lldb N reg)"

definition DEFINE_FLAG :: "reg_numbers \<Rightarrow> string \<Rightarrow> generic_kind option \<Rightarrow> RegisterInfo" where
  "DEFINE_FLAG N reg generic = x86_info ''eflags'' 4 eEncodingUint eFormatHex (rn_x86_dwarf N reg) generic (rn_x86_lldb N reg)"

definition DEFINE_SEG :: "reg_numbers \<Rightarrow> string \<Rightarrow> RegisterInfo" where
  "DEFINE_SEG N reg = x86_info reg 4 eEncodingUint eFormatHex (rn_x86_dwarf N reg) None (rn_x86_lldb N reg)"

definition DEFINE_FP_ST :: "reg_numbers \<Rightarrow> nat \<Rightarrow> RegisterInfo" where
  "DEFINE_FP_ST N i = (let reg = ''st'' @ digits i in
     x86_info reg 10 eEncodingVector eFormatVectorOfUInt8 (rn_x86_dwarf N reg) None (rn_x86_lldb N reg))"

definition DEFINE_FP_MM :: "reg_numbers \<Rightarrow> nat \<Rightarrow> RegisterInfo" where
  "DEFINE_FP_MM N i = (let reg = ''mm'' @ digits i in x86_info reg 8 eEncodingUint eFormatHex (rn_x86_dwarf N reg) None (rn_x86_lldb N reg))"

definition DEFINE_XMM :: "reg_numbers \<Rightarrow> nat \<Rightarrow> RegisterInfo" where
  "DEFINE_XMM N i = x86_info (''xmm'' @ digits i) 16 eEncodingVector eFormatVectorOfUInt8 (x86_dwarf_xmm N i) None (x86_lldb_xmm N i)"

definition x86_register_infos :: "reg_numbers \<Rightarrow> RegisterInfo list" where
  "x86_register_infos N =
     [DEFINE_GPR N ''rax'' None, DEFINE_GPR N ''rbx'' None, DEFINE_GPR N ''rcx'' (Some GENERIC_ARG4), DEFINE_GPR N ''rdx'' (Some GENERIC_ARG3),
      DEFINE_GPR N ''rsi'' (Some GENERIC_ARG2), DEFINE_GPR N ''rdi'' (Some GENERIC_ARG1), DEFINE_GPR N ''rbp'' (Some GENERIC_FP),
      DEFINE_GPR N ''rsp'' (Some GENERIC_SP), DEFINE_GPR N ''r8'' (Some GENERIC_ARG5), DEFINE_GPR N ''r9'' (Some GENERIC_ARG6)] @
     map (\<lambda>i. DEFINE_GPR N (''r'' @ digits i) None) [10..<16] @
     [DEFINE_GPR N ''rip'' (Some GENERIC_PC), DEFINE_FLAG N ''rflags'' (Some GENERIC_FLAGS)] @
     map (DEFINE_SEG N) [''cs'', ''fs'', ''gs'', ''ss'', ''ds'', ''es''] @
     map (DEFINE_FP_ST N) [0..<8] @ map (DEFINE_FP_MM N) [0..<8] @ map (DEFINE_XMM N) [0..<32]"

definition x86_gpr_regnums :: "reg_numbers \<Rightarrow> nat list" where
  "x86_gpr_regnums N =
     map (rn_x86_lldb N) [''rax'', ''rbx'', ''rcx'', ''rdx'', ''rdi'', ''rsi'', ''rbp'', ''rsp'', ''r8'', ''r9'', ''r10'', ''r11'',
       ''r12'', ''r13'', ''r14'', ''r15'', ''rip'', ''rflags'']"

definition x86_fpu_regnums :: "reg_numbers \<Rightarrow> nat list" where
  "x86_fpu_regnums N =
     map (\<lambda>i. rn_x86_lldb N (''st'' @ digits i)) [0..<8] @ map (\<lambda>i. rn_x86_lldb N (''mm'' @ digits i)) [0..<8] @ map (x86_lldb_xmm N) [0..<32]"

definition x86_register_sets :: "reg_numbers \<Rightarrow> RegisterSet list" where
  "x86_register_sets N =
     [\<lparr>rs_name = ''General Purpose Registers'', rs_short_name = ''gpr'', rs_registers = x86_gpr_regnums N\<rparr>,
      \<lparr>rs_name = ''Floating Point Registers'', rs_short_name = ''fpu'', rs_registers = x86_fpu_regnums N\<rparr>]"

section \<open>Access\<close>

fun init_offsets :: "nat \<Rightarrow> RegisterInfo list \<Rightarrow> RegisterInfo list" where
  "init_offsets offset [] = []"
| "init_offsets offset (r # rs) = r\<lparr>ri_byte_offset := offset\<rparr> # init_offsets (offset + ri_byte_size r) rs"

definition registers :: "bool \<Rightarrow> Register list" where
  "registers arm64 = (if arm64 then arm64_registers else x86_registers)"

text \<open>After \<open>InitOffsets\<close>.\<close>

definition register_infos :: "reg_numbers \<Rightarrow> bool \<Rightarrow> RegisterInfo list" where
  "register_infos N arm64 = init_offsets 0 (if arm64 then arm64_register_infos N else x86_register_infos N)"

definition GetRegisterCount :: "bool \<Rightarrow> nat" where
  "GetRegisterCount arm64 = length (registers arm64)"

definition GetRegisterInfoAtIndex :: "reg_numbers \<Rightarrow> bool \<Rightarrow> nat \<Rightarrow> RegisterInfo option" where
  "GetRegisterInfoAtIndex N arm64 i = (if i < length (registers arm64) then Some (register_infos N arm64 ! i) else None)"

definition GetRegisterSet :: "reg_numbers \<Rightarrow> bool \<Rightarrow> nat \<Rightarrow> RegisterSet option" where
  "GetRegisterSet N arm64 i =
     (let sets = (if arm64 then arm64_register_sets N else x86_register_sets N) in if i < length sets then Some (sets ! i) else None)"



text \<open>\<open>bs\<close> are the bytes of the value, at least as many as the register has.  The result of \<open>setRegister\<close> is not looked at.\<close>

definition regval_low :: "bytes \<Rightarrow> u64" where "regval_low bs = word_of_nat (le_val (take 8 bs))"
definition regval_high :: "bytes \<Rightarrow> u64" where "regval_high bs = word_of_nat (le_val (take 8 (drop 8 bs)))"

definition DoWriteRegister :: "reg_numbers \<Rightarrow> bool \<Rightarrow> nat \<Rightarrow> bytes \<Rightarrow> machine \<Rightarrow> machine" where
  "DoWriteRegister N arm64 i bs M =
     (let reg = registers arm64 ! i; sz = ri_byte_size (register_infos N arm64 ! i);
          regval = take sz bs @ replicate (16 - sz) 0 in
      snd (if 8 < sz then setRegisterSIMD arm64 reg (regval_low regval) (regval_high regval) M
           else setRegister arm64 reg (regval_low regval) M))"

section \<open>The tables\<close>

lemmas info_defs = arm64_info_def DEFINE_GPR64_def DEFINE_GPR64_ALT_def DEFINE_MISC_REGS_def DEFINE_VREG_def x86_info_def DEFINE_GPR_def
  DEFINE_FLAG_def DEFINE_SEG_def DEFINE_FP_ST_def DEFINE_FP_MM_def DEFINE_XMM_def

lemma init_offsets_length [simp]: "length (init_offsets k rs) = length rs"
  by (induction rs arbitrary: k) simp_all

lemma init_offsets_keeps [simp]: "map ri_name (init_offsets k rs) = map ri_name rs" "map ri_byte_size (init_offsets k rs) = map ri_byte_size rs"
  by (induction rs arbitrary: k) simp_all

lemma init_offsets_sum: "i < length rs \<Longrightarrow> ri_byte_offset (init_offsets k rs ! i) = k + sum_list (map ri_byte_size (take i rs))"
proof (induction rs arbitrary: k i)
  case (Cons r rs)
  then show ?case by (cases i) (simp_all add: add.assoc)
qed simp

definition info_names :: "bool \<Rightarrow> string list" where
  "info_names arm64 =
     (if arm64 then map (\<lambda>i. ''x'' @ digits i) [0..<29] @ [''fp'', ''lr'', ''sp'', ''pc'', ''cpsr''] @ map (\<lambda>i. ''v'' @ digits i) [0..<32] @ [''fpsr'', ''fpcr'']
      else [''rax'', ''rbx'', ''rcx'', ''rdx'', ''rsi'', ''rdi'', ''rbp'', ''rsp'', ''r8'', ''r9''] @ map (\<lambda>i. ''r'' @ digits i) [10..<16] @
        [''rip'', ''eflags'', ''cs'', ''fs'', ''gs'', ''ss'', ''ds'', ''es''] @ map (\<lambda>i. ''st'' @ digits i) [0..<8] @
        map (\<lambda>i. ''mm'' @ digits i) [0..<8] @ map (\<lambda>i. ''xmm'' @ digits i) [0..<32])"

definition info_sizes :: "bool \<Rightarrow> nat list" where
  "info_sizes arm64 =
     (if arm64 then replicate 33 8 @ [4] @ replicate 32 16 @ [4, 4] else replicate 17 8 @ replicate 7 4 @ replicate 8 10 @ replicate 8 8 @ replicate 32 16)"

lemma map_name_infos: "map ri_name (register_infos N arm64) = info_names arm64"
  by (simp add: register_infos_def arm64_register_infos_def x86_register_infos_def info_names_def info_defs comp_def Let_def)

lemma map_size_infos: "map ri_byte_size (register_infos N arm64) = info_sizes arm64"
  by (simp add: register_infos_def arm64_register_infos_def x86_register_infos_def info_sizes_def info_defs comp_def Let_def
      map_replicate_const numeral_nat upt_rec)

lemma table_lengths: "length (register_infos N arm64) = length (registers arm64)" "length (registers arm64) = (if arm64 then 68 else 72)"
proof -
  show "length (registers arm64) = (if arm64 then 68 else 72)" by (simp add: registers_def arm64_registers_def x86_registers_def)
  then show "length (register_infos N arm64) = length (registers arm64)"
    by (simp add: register_infos_def arm64_register_infos_def x86_register_infos_def)
qed

text \<open>The register of the machine a name of the debugger stands for.\<close>

definition special_names :: "(string \<times> Register) list" where
  "special_names =
     [(''fp'', FP), (''lr'', LR), (''sp'', SP), (''pc'', PC), (''cpsr'', NZCV), (''fpsr'', FPSR), (''fpcr'', FPCR),
      (''rax'', RAX), (''rbx'', RBX), (''rcx'', RCX), (''rdx'', RDX), (''rsi'', RSI), (''rdi'', RDI), (''rbp'', RBP), (''rsp'', RSP),
      (''rip'', RIP), (''eflags'', RFLAGS), (''cs'', CS), (''ss'', SS), (''ds'', DS), (''es'', ES), (''fs'', FS), (''gs'', GS)]"

definition register_named :: "string \<Rightarrow> Register" where
  "register_named name =
     (case map_of special_names name of
        Some r \<Rightarrow> r
      | None \<Rightarrow>
          if take 3 name = ''xmm'' then XMM (int (dec_val (drop 3 name)))
          else if take 2 name = ''mm'' then MM (int (dec_val (drop 2 name)))
          else if take 2 name = ''st'' then ST (int (dec_val (drop 2 name)))
          else if take 1 name = ''r'' then R (int (dec_val (drop 1 name)))
          else if take 1 name = ''v'' then Q (int (dec_val (drop 1 name)))
          else X (int (dec_val (drop 1 name))))"

lemma named_arm64: "map register_named (info_names True) = arm64_registers"
  by code_simp

lemma named_x86: "map register_named (info_names False) = x86_registers [19 := FS, 20 := GS, 21 := SS, 22 := DS, 23 := ES]"
  by code_simp

section \<open>Reading and writing through the tables\<close>

lemma register_infos_nth:
  assumes "i < GetRegisterCount arm64"
  shows "ri_name (register_infos N arm64 ! i) = info_names arm64 ! i" "ri_byte_size (register_infos N arm64 ! i) = info_sizes arm64 ! i"
  using assms table_lengths(1) [of N arm64] by (simp_all add: GetRegisterCount_def flip: map_name_infos [of N] map_size_infos [of N])

text \<open>
  C36: the two tables of a guest describe the same registers.  \<open>DoReadRegister\<close> and \<open>DoWriteRegister\<close> take the register
  at the index of the description.  For AArch64 it is the register the description names, at every index; for x86-64 it is
  at every index but the five from 19 to 23, where the segment registers are listed in different orders: a client that asks for \<open>fs\<close> gets \<open>ss\<close>.
\<close>

theorem debug_register_tables:
  assumes "i < GetRegisterCount arm64"
  shows "register_named (ri_name (register_infos N arm64 ! i)) = registers arm64 ! i \<longleftrightarrow> arm64 \<or> i < 19 \<or> 23 < i"
proof (cases arm64)
  case True
  have "length (info_names True) = 68" by (simp add: info_names_def)
  then have "i < length (info_names True)" using assms True table_lengths(2) [of True] by (simp add: GetRegisterCount_def)
  then have "register_named (info_names True ! i) = arm64_registers ! i" using arg_cong [OF named_arm64, of "\<lambda>l. l ! i"] by simp
  with True register_infos_nth(1) [OF assms, of N] show ?thesis by (simp add: registers_def)
next
  case False
  then have i: "i < 72" using assms table_lengths(2) [of False] by (simp add: GetRegisterCount_def)
  have l: "length (info_names False) = 72" by (simp add: info_names_def)
  have e: "register_named (info_names False ! i) = x86_registers [19 := FS, 20 := GS, 21 := SS, 22 := DS, 23 := ES] ! i"
    using i l arg_cong [OF named_x86, of "\<lambda>l. l ! i"] by simp
  have len: "length x86_registers = 72" by (simp add: x86_registers_def)
  have x: "x86_registers ! 19 = SS" "x86_registers ! 20 = DS" "x86_registers ! 21 = ES" "x86_registers ! 22 = FS" "x86_registers ! 23 = GS"
    by (simp_all add: x86_registers_def nth_append nth_Cons')
  consider "i = 19" | "i = 20" | "i = 21" | "i = 22" | "i = 23" | "i < 19 \<or> 23 < i" by linarith
  then show ?thesis
    by cases (use False register_infos_nth [OF assms, of N] e x len in \<open>auto simp: registers_def nth_list_update reg_defs\<close>)
qed

text \<open>
  The windows of the registers in the context the debugger transfers follow each other without gap or overlap, from offset 0 to 788
  (AArch64) or 820 (x86-64).
\<close>

lemma register_windows_tile:
  "i < GetRegisterCount arm64 \<Longrightarrow>
   ri_byte_offset (register_infos N arm64 ! i) + ri_byte_size (register_infos N arm64 ! i) =
     (if Suc i < GetRegisterCount arm64 then ri_byte_offset (register_infos N arm64 ! Suc i) else if arm64 then 788 else 820) \<and>
   ri_byte_offset (register_infos N arm64 ! 0) = 0"
proof -
  assume i: "i < GetRegisterCount arm64"
  let ?rs = "if arm64 then arm64_register_infos N else x86_register_infos N"
  have len: "length ?rs = GetRegisterCount arm64" using table_lengths(1) [of N arm64] by (simp add: GetRegisterCount_def register_infos_def)
  have off: "ri_byte_offset (register_infos N arm64 ! j) = sum_list (take j (info_sizes arm64))" if "j < GetRegisterCount arm64" for j
    using that init_offsets_sum [of j ?rs 0] map_size_infos [of N arm64] len by (simp add: register_infos_def take_map [symmetric])
  have l: "length (info_sizes arm64) = GetRegisterCount arm64" using map_size_infos [of N arm64] table_lengths(1) [of N arm64]
    by (metis GetRegisterCount_def length_map)
  have s: "sum_list (take i (info_sizes arm64)) + info_sizes arm64 ! i = sum_list (take (Suc i) (info_sizes arm64))"
    using i l by (simp add: take_Suc_conv_app_nth)
  have t: "sum_list (info_sizes arm64) = (if arm64 then 788 else 820)" by (cases arm64) (simp_all add: info_sizes_def sum_list_replicate)
  show ?thesis
    using i off [of i] off [of "Suc i"] off [of 0] s t l register_infos_nth(2) [OF i, of N] by (auto simp: not_less_eq)
qed



definition file_addr :: "bool \<Rightarrow> cpu \<Rightarrow> Register \<Rightarrow> u64 option" where
  "file_addr arm64 c r = (if arm64 then map_option (a64_addr c) (a64_reg_field r) else map_option (x86_addr c) (x86_reg_field r))"




lemma set_cpu_id: "set_cpu (m_cpu M) M = M"
  by (simp add: set_cpu_def)

lemma set_cpu_binary [simp]: "m_binary (set_cpu c M) = m_binary M" "m_binary_opcode (set_cpu c M) = m_binary_opcode M"
  by (simp_all add: set_cpu_def)




text \<open>
  A write to an x87 register is lost.  The description of \<open>st0\<close> to \<open>st7\<close> has ten bytes, so the write goes to the setter for
  vector registers, which refuses these registers; its result is dropped, and the client is told the write succeeded.
\<close>

lemma x87_write_is_dropped:
  assumes "24 \<le> i" and "i \<le> 31"
  shows "DoWriteRegister N False i bs M = M"
proof -
  have "i < GetRegisterCount False" using assms(2) table_lengths(2) [of False] by (simp add: GetRegisterCount_def)
  note sz = register_infos_nth(2) [OF this, of N]
  have "info_sizes False ! i = 10" using assms by (auto simp: info_sizes_def nth_append)
  moreover have "registers False ! i = ST (int (i - 24))" using assms by (auto simp: registers_def x86_registers_def nth_append nth_Cons')
  moreover have "\<not> XMM 0 \<le> ST (int (i - 24))" using assms(2) by (simp add: reg_defs)
  ultimately show ?thesis using sz by (simp add: DoWriteRegister_def Let_def setRegisterSIMD_def setRegisterSSE_def set_cpu_id)
qed

definition nums0 :: reg_numbers where
  "nums0 = \<lparr>rn_arm64_dwarf = length, rn_arm64_ehframe = length, rn_x86_dwarf = length, rn_x86_lldb = length\<rparr>"

lemma counts [simp]: "GetRegisterCount True = 68" "GetRegisterCount False = 72"
  by (simp_all add: GetRegisterCount_def table_lengths(2))

theorem debug_register_tables_witness:
  "register_named (ri_name (register_infos nums0 False ! 18)) = CS \<and> register_named (ri_name (register_infos nums0 False ! 19)) \<noteq> registers False ! 19"
proof -
  have "registers False ! 18 = CS" by (simp add: registers_def x86_registers_def nth_append)
  with debug_register_tables [of 18 False nums0] debug_register_tables [of 19 False nums0] show ?thesis by simp
qed




end
