(* ===== verification/DebugServer.thy ===== *)
theory DebugServer
  imports DebugRegisters
begin

text \<open>
  \<open>lldb/src/Debugger.cpp\<close>: the server's description of the registers (\<open>target.xml\<close>) and the packets that transfer it to the
  client piece by piece.

  Streams, string splitting and number parsing are those of LLVM and LLDB, parameters of the model; the description is the
  sequence of operations on the stream.
\<close>

section \<open>Names\<close>

fun GetEncodingNameOrEmpty :: "lldb_encoding \<Rightarrow> string" where
  "GetEncodingNameOrEmpty eEncodingUint = ''uint''"
| "GetEncodingNameOrEmpty eEncodingSint = ''sint''"
| "GetEncodingNameOrEmpty eEncodingIEEE754 = ''ieee754''"
| "GetEncodingNameOrEmpty eEncodingVector = ''vector''"
| "GetEncodingNameOrEmpty eEncodingInvalid = ''''"

text \<open>A format that is not listed is unreachable code.\<close>

fun GetFormatNameOrEmpty :: "lldb_format \<Rightarrow> string res" where
  "GetFormatNameOrEmpty eFormatDefault = Inr ''''"
| "GetFormatNameOrEmpty eFormatBoolean = Inr ''boolean''"
| "GetFormatNameOrEmpty eFormatBinary = Inr ''binary''"
| "GetFormatNameOrEmpty eFormatBytes = Inr ''bytes''"
| "GetFormatNameOrEmpty eFormatBytesWithASCII = Inr ''bytes-with-ascii''"
| "GetFormatNameOrEmpty eFormatChar = Inr ''char''"
| "GetFormatNameOrEmpty eFormatCharPrintable = Inr ''char-printable''"
| "GetFormatNameOrEmpty eFormatComplex = Inr ''complex''"
| "GetFormatNameOrEmpty eFormatCString = Inr ''cstring''"
| "GetFormatNameOrEmpty eFormatDecimal = Inr ''decimal''"
| "GetFormatNameOrEmpty eFormatEnum = Inr ''enum''"
| "GetFormatNameOrEmpty eFormatHex = Inr ''hex''"
| "GetFormatNameOrEmpty eFormatHexUppercase = Inr ''hex-uppercase''"
| "GetFormatNameOrEmpty eFormatFloat = Inr ''float''"
| "GetFormatNameOrEmpty eFormatOctal = Inr ''octal''"
| "GetFormatNameOrEmpty eFormatOSType = Inr ''ostype''"
| "GetFormatNameOrEmpty eFormatUnicode16 = Inr ''unicode16''"
| "GetFormatNameOrEmpty eFormatUnicode32 = Inr ''unicode32''"
| "GetFormatNameOrEmpty eFormatUnsigned = Inr ''unsigned''"
| "GetFormatNameOrEmpty eFormatPointer = Inr ''pointer''"
| "GetFormatNameOrEmpty eFormatVectorOfChar = Inr ''vector-char''"
| "GetFormatNameOrEmpty eFormatVectorOfSInt64 = Inr ''vector-sint64''"
| "GetFormatNameOrEmpty eFormatVectorOfFloat16 = Inr ''vector-float16''"
| "GetFormatNameOrEmpty eFormatVectorOfFloat64 = Inr ''vector-float64''"
| "GetFormatNameOrEmpty eFormatVectorOfSInt8 = Inr ''vector-sint8''"
| "GetFormatNameOrEmpty eFormatVectorOfUInt8 = Inr ''vector-uint8''"
| "GetFormatNameOrEmpty eFormatVectorOfSInt16 = Inr ''vector-sint16''"
| "GetFormatNameOrEmpty eFormatVectorOfUInt16 = Inr ''vector-uint16''"
| "GetFormatNameOrEmpty eFormatVectorOfSInt32 = Inr ''vector-sint32''"
| "GetFormatNameOrEmpty eFormatVectorOfUInt32 = Inr ''vector-uint32''"
| "GetFormatNameOrEmpty eFormatVectorOfFloat32 = Inr ''vector-float32''"
| "GetFormatNameOrEmpty eFormatVectorOfUInt64 = Inr ''vector-uint64''"
| "GetFormatNameOrEmpty eFormatVectorOfUInt128 = Inr ''vector-uint128''"
| "GetFormatNameOrEmpty eFormatComplexInteger = Inr ''complex-integer''"
| "GetFormatNameOrEmpty eFormatCharArray = Inr ''char-array''"
| "GetFormatNameOrEmpty eFormatAddressInfo = Inr ''address-info''"
| "GetFormatNameOrEmpty eFormatHexFloat = Inr ''hex-float''"
| "GetFormatNameOrEmpty eFormatInstruction = Inr ''instruction''"
| "GetFormatNameOrEmpty eFormatVoid = Inr ''void''"
| "GetFormatNameOrEmpty eFormatUnicode8 = Inr ''unicode8''"
| "GetFormatNameOrEmpty eFormatFloat128 = Inr ''float128''"
| "GetFormatNameOrEmpty eFormatInvalid = Inl Undefined"

fun GetKindGenericOrEmpty :: "generic_kind option \<Rightarrow> string" where
  "GetKindGenericOrEmpty None = ''''"
| "GetKindGenericOrEmpty (Some GENERIC_PC) = ''pc''"
| "GetKindGenericOrEmpty (Some GENERIC_SP) = ''sp''"
| "GetKindGenericOrEmpty (Some GENERIC_FP) = ''fp''"
| "GetKindGenericOrEmpty (Some GENERIC_RA) = ''ra''"
| "GetKindGenericOrEmpty (Some GENERIC_FLAGS) = ''flags''"
| "GetKindGenericOrEmpty (Some GENERIC_ARG1) = ''arg1''"
| "GetKindGenericOrEmpty (Some GENERIC_ARG2) = ''arg2''"
| "GetKindGenericOrEmpty (Some GENERIC_ARG3) = ''arg3''"
| "GetKindGenericOrEmpty (Some GENERIC_ARG4) = ''arg4''"
| "GetKindGenericOrEmpty (Some GENERIC_ARG5) = ''arg5''"
| "GetKindGenericOrEmpty (Some GENERIC_ARG6) = ''arg6''"
| "GetKindGenericOrEmpty (Some GENERIC_ARG7) = ''arg7''"
| "GetKindGenericOrEmpty (Some GENERIC_ARG8) = ''arg8''"
| "GetKindGenericOrEmpty (Some GENERIC_TP) = ''tp''"

fun hex_digits :: "nat \<Rightarrow> string" where
  "hex_digits n = (if n < 16 then [''0123456789abcdef'' ! n] else hex_digits (n div 16) @ [''0123456789abcdef'' ! (n mod 16)])"

declare hex_digits.simps [simp del]

text \<open>The list ends at \<open>LLDB_INVALID_REGNUM\<close>, which is not part of it here.\<close>

fun CollectRegNums :: "bool \<Rightarrow> nat list \<Rightarrow> string" where
  "CollectRegNums usehex [] = ''''"
| "CollectRegNums usehex [r] = (if usehex then hex_digits r else digits r)"
| "CollectRegNums usehex (r # rs) = (if usehex then hex_digits r else digits r) @ '','' @ CollectRegNums usehex rs"

section \<open>The description of the target\<close>

text \<open>
  The operations on the stream; \<open>Indent\<close> writes the indentation and then the text.  \<open>FlagsXML\<close> stands for \<open>EnumsToXML\<close> and
  \<open>ToXML\<close> of a flags type.
\<close>

datatype xml_op = Text string | IndentMore | IndentLess | Indent string | FlagsXML string
  | Feature string | SwitchFeature string string | Reg string nat nat | Attr string string | EndReg

text \<open>The text each operation writes.\<close>

definition newline :: string where "newline = [char_of (10 :: nat)]"

fun xml_text :: "xml_op \<Rightarrow> string" where
  "xml_text (Text s) = s"
| "xml_text (Indent s) = s"
| "xml_text (Feature ns) = ''<feature name=\"'' @ ns @ ''\">'' @ newline"
| "xml_text (SwitchFeature ns types) = ''</feature>'' @ newline @ ''<feature name=\"'' @ ns @ ''\">'' @ newline @ types @ newline"
| "xml_text (Reg name bits i) = ''<reg name=\"'' @ name @ ''\" bitsize=\"'' @ digits bits @ ''\" regnum=\"'' @ digits i @ ''\" ''"
| "xml_text (Attr key val) = key @ ''=\"'' @ val @ ''\" ''"
| "xml_text EndReg = ''/>'' @ newline"
| "xml_text _ = ''''"

definition fpu_types_arm64 :: string where
  "fpu_types_arm64 = concat (map (\<lambda>l. l @ newline)
     [''<vector id=\"v2d\" type=\"ieee_double\" count=\"2\"/>'', ''<vector id=\"v4f\" type=\"ieee_single\" count=\"4\"/>'',
      ''<vector id=\"v16i8\" type=\"int8\" count=\"16\"/>'', ''<union id=\"aarch64v\">'', ''  <field name=\"f\" type=\"v4f\"/>'',
      ''  <field name=\"d\" type=\"v2d\"/>'', ''  <field name=\"u\" type=\"v16i8\"/>'']) @ ''</union>''"

definition fpu_types_x86 :: string where
  "fpu_types_x86 = concat (map (\<lambda>l. l @ newline)
     [''<vector id=\"v4f\" type=\"ieee_single\" count=\"4\"/>'', ''<vector id=\"v2d\" type=\"ieee_double\" count=\"2\"/>'',
      ''<vector id=\"v16i8\" type=\"int8\" count=\"16\"/>'', ''<vector id=\"v8i16\" type=\"int16\" count=\"8\"/>'',
      ''<vector id=\"v4i32\" type=\"int32\" count=\"4\"/>'', ''<vector id=\"v2i64\" type=\"int64\" count=\"2\"/>'', ''<union id=\"vec128\">'',
      ''  <field name=\"v4_float\" type=\"v4f\"/>'', ''  <field name=\"v2_double\" type=\"v2d\"/>'', ''  <field name=\"v16_int8\" type=\"v16i8\"/>'',
      ''  <field name=\"v8_int16\" type=\"v8i16\"/>'', ''  <field name=\"v4_int32\" type=\"v4i32\"/>'', ''  <field name=\"v2_int64\" type=\"v2i64\"/>'',
      ''  <field name=\"uint128\" type=\"uint128\"/>'']) @ ''</union>''"

text \<open>
  The process as the description needs it: whether it has a thread, its architecture and the name of that, whether
  offsets are dynamic, and the name of the set of a register (\<open>GetRegisterSetNameForRegisterAtIndex\<close>).
\<close>

record xml_env =
  xe_thread :: bool
  xe_arm64 :: bool
  xe_arch_name :: string
  xe_numbers :: reg_numbers
  xe_dynamic_offset :: bool
  xe_set_name :: "nat \<Rightarrow> string option"

definition gpr_namespace :: "bool \<Rightarrow> string" where
  "gpr_namespace arm64 = (if arm64 then ''org.gnu.gdb.aarch64.core'' else ''org.gnu.gdb.i386.core'')"

definition fpu_namespace :: "bool \<Rightarrow> string" where
  "fpu_namespace arm64 = (if arm64 then ''org.gnu.gdb.aarch64.fpu'' else ''org.gnu.gdb.i386.sse'')"

definition fpu_reg0 :: "bool \<Rightarrow> string" where "fpu_reg0 arm64 = (if arm64 then ''v0'' else ''xmm0'')"
definition fpu_type :: "bool \<Rightarrow> string" where "fpu_type arm64 = (if arm64 then ''aarch64v'' else ''vec128'')"
definition fpu_group :: "bool \<Rightarrow> string" where "fpu_group arm64 = (if arm64 then ''fpu'' else ''sse'')"

definition attr_if :: "string \<Rightarrow> string \<Rightarrow> xml_op list" where
  "attr_if key val = (if val = '''' then [] else [Attr key val])"

definition attr_opt :: "string \<Rightarrow> string option \<Rightarrow> xml_op list" where
  "attr_opt key val = (case val of None \<Rightarrow> [] | Some v \<Rightarrow> [Attr key v])"

text \<open>One register; \<open>fpu\<close>: the switch to the vector registers has happened, so \<open>reg_type\<close> and \<open>reg_group\<close> are set.\<close>

definition reg_ops :: "xml_env \<Rightarrow> bool \<Rightarrow> nat \<Rightarrow> RegisterInfo \<Rightarrow> xml_op list res" where
  "reg_ops E fpu i r =
     res_bind (GetFormatNameOrEmpty (ri_format r)) (\<lambda>format. Inr (
       (case ri_flags_type r of None \<Rightarrow> [] | Some t \<Rightarrow> [IndentMore, FlagsXML t, IndentLess]) @
       [Indent '''', Reg (ri_name r) (ri_byte_size r * 8) i] @
       (if xe_dynamic_offset E then [] else [Attr ''offset'' (digits (ri_byte_offset r))]) @
       (case ri_alt_name r of None \<Rightarrow> [] | Some a \<Rightarrow> attr_if ''altname'' a) @
       attr_if ''encoding'' (GetEncodingNameOrEmpty (ri_encoding r)) @
       attr_if ''format'' format @
       (if fpu \<and> 16 \<le> ri_byte_size r then [Attr ''type'' (fpu_type (xe_arm64 E))] else attr_opt ''type'' (ri_flags_type r)) @
       (if fpu then [Attr ''group'' (fpu_group (xe_arm64 E))] else attr_opt ''group'' (xe_set_name E i)) @
       attr_opt ''ehframe_regnum'' (map_option digits (ri_ehframe r)) @
       attr_opt ''dwarf_regnum'' (map_option digits (ri_dwarf r)) @
       attr_if ''generic'' (GetKindGenericOrEmpty (ri_generic r)) @
       (case ri_value_regs r of Some (v # vs) \<Rightarrow> [Attr ''value_regnums'' (CollectRegNums False (v # vs))] | _ \<Rightarrow> []) @
       (case ri_invalidate_regs r of Some vs \<Rightarrow> if vs = [] \<or> hd vs \<noteq> 0 then [Attr ''invalidate_regnums'' (CollectRegNums False vs)] else [] | None \<Rightarrow> []) @
       [EndReg]))"

fun regs_ops :: "xml_env \<Rightarrow> bool \<Rightarrow> nat list \<Rightarrow> xml_op list res" where
  "regs_ops E fpu [] = Inr []"
| "regs_ops E fpu (i # is) =
     (case GetRegisterInfoAtIndex (xe_numbers E) (xe_arm64 E) i of
        None \<Rightarrow> regs_ops E fpu is
      | Some r \<Rightarrow>
          let switch = (ri_name r = fpu_reg0 (xe_arm64 E)); fpu' = (fpu \<or> switch) in
          res_bind (reg_ops E fpu' i r) (\<lambda>ops.
          res_bind (regs_ops E fpu' is) (\<lambda>rest.
          Inr ((if switch then [SwitchFeature (fpu_namespace (xe_arm64 E)) (if xe_arm64 E then fpu_types_arm64 else fpu_types_x86)] else []) @
            ops @ rest))))"

text \<open>\<open>Inl\<close>: no thread.\<close>

definition BuildTargetXml_VM :: "xml_env \<Rightarrow> (string + xml_op list) res" where
  "BuildTargetXml_VM E =
     (if \<not> xe_thread E then Inr (Inl ''No thread available'')
      else let count = GetRegisterCount (xe_arm64 E) in
        res_bind (regs_ops E False [0..<count]) (\<lambda>regs.
        Inr (Inr ([Text (''<?xml version=\"1.0\"?>'' @ newline), Text (''<target version=\"1.0\">'' @ newline), IndentMore, Indent '''',
          Text (''<architecture>'' @ xe_arch_name E @ ''</architecture>'' @ newline), Feature (gpr_namespace (xe_arm64 E))] @
          (if count \<noteq> 0 then [IndentMore] else []) @ regs @ (if count \<noteq> 0 then [IndentLess] else []) @
          [Indent (''</feature>'' @ newline), IndentLess, Indent (''</target>'' @ newline)]))))"

section \<open>Transferring objects\<close>

text \<open>
  What the server asks of LLVM and LLDB: splitting at the first four colons, reading a hexadecimal number (the value and the rest of the
  string; the greatest number when there is none), writing the stream, encoding an attribute value, and what the process says about
  signals and libraries.
\<close>

record library_info =
  li_name :: string
  li_link_map :: u64
  li_base_addr :: u64
  li_ld_addr :: u64

record xfer_env =
  xf_split :: "string \<Rightarrow> string list"
  xf_hex :: "string \<Rightarrow> u64 \<times> string"
  xf_stream :: "xml_op list \<Rightarrow> string"
  xf_encode :: "string \<Rightarrow> string"
  xf_process :: bool
  xf_siginfo :: "(string + string) option" \<comment> \<open>\<open>None\<close>: no current thread\<close>
  xf_libraries :: "string + library_info list"
  xf_xml :: xml_env

definition library_text :: "xfer_env \<Rightarrow> library_info \<Rightarrow> string" where
  "library_text V l =
     ''<library name=\"'' @ xf_encode V (li_name l) @ ''\" '' @ ''lm=\"0x'' @ hex_digits (unat (li_link_map l)) @ ''\" '' @
     ''l_addr=\"0x'' @ hex_digits (unat (li_base_addr l)) @ ''\" '' @ ''l_ld=\"0x'' @ hex_digits (unat (li_ld_addr l)) @ ''\" />''"

text \<open>\<open>Inl\<close> of the result: the error.  Auxiliary vectors are not implemented by the process: it aborts.\<close>

definition ReadXferObject_VM :: "xfer_env \<Rightarrow> string \<Rightarrow> string \<Rightarrow> (string + string) res" where
  "ReadXferObject_VM V object annex =
     (if \<not> xf_process V then Inr (Inl ''No process available'')
      else if object = ''auxv'' then Inl Abort
      else if object = ''siginfo'' then
        Inr (case xf_siginfo V of None \<Rightarrow> Inl ''no current thread'' | Some r \<Rightarrow> r)
      else if object = ''libraries-svr4'' then
        Inr (case xf_libraries V of
               Inl e \<Rightarrow> Inl e
             | Inr ls \<Rightarrow> Inr (''<library-list-svr4 version=\"1.0\">'' @ concat (map (library_text V) ls) @ ''</library-list-svr4>''))
      else if object = ''features'' \<and> annex = ''target.xml'' then
        res_bind (BuildTargetXml_VM (xf_xml V)) (\<lambda>r. Inr (case r of Inl e \<Rightarrow> Inl e | Inr ops \<Rightarrow> Inr (xf_stream V ops)))
      else Inr (Inl ''unimplemented''))"

datatype xfer_reply = IllFormed string | Unimplemented string | XferError string | Packet char string

text \<open>The fields of a packet: object, annex, offset and length.\<close>

definition xfer_fields :: "xfer_env \<Rightarrow> string \<Rightarrow> xfer_reply + string \<times> string \<times> u64 \<times> u64" where
  "xfer_fields V packet =
     (let fields = xf_split V packet in
      if length fields \<noteq> 5 then Inl (IllFormed ''malformed qXfer packet'')
      else if fields ! 2 \<noteq> ''read'' then Inl (Unimplemented ''qXfer action not supported'')
      else case xf_hex V (fields ! 4) of (xfer_offset, rest) \<Rightarrow>
        if xfer_offset = - 1 then Inl (IllFormed ''qXfer packet missing offset'')
        else if rest = [] \<or> hd rest \<noteq> CHR '','' then Inl (IllFormed ''qXfer packet missing comma after offset'')
        else case xf_hex V (tl rest) of (xfer_length, _) \<Rightarrow>
          if xfer_length = - 1 then Inl (IllFormed ''qXfer packet missing length'')
          else Inr (fields ! 1, fields ! 3, xfer_offset, xfer_length))"

definition buffer_key :: "string \<Rightarrow> string \<Rightarrow> string" where
  "buffer_key object annex = object @ ''read'' @ annex"

text \<open>The answer from the buffer, and whether the buffer is done with.\<close>

definition xfer_answer :: "nat \<Rightarrow> nat \<Rightarrow> string \<Rightarrow> xfer_reply \<times> bool" where
  "xfer_answer offset len buffer =
     (if length buffer \<le> offset then (Packet CHR ''l'' [], True)
      else let rest = drop offset buffer in
        if length rest \<le> len then (Packet CHR ''l'' rest, True) else (Packet CHR ''m'' (take len rest), False))"

text \<open>The handler, with the buffers under construction (\<open>m_xfer_buffer_map\<close>).\<close>

definition Handle_qXfer_VM :: "xfer_env \<Rightarrow> string \<Rightarrow> (string \<rightharpoonup> string) \<Rightarrow> (xfer_reply \<times> (string \<rightharpoonup> string)) res" where
  "Handle_qXfer_VM V packet bufs =
     (case xfer_fields V packet of
        Inl r \<Rightarrow> Inr (r, bufs)
      | Inr (object, annex, offset, len) \<Rightarrow>
          let key = buffer_key object annex in
          res_bind (case bufs key of Some b \<Rightarrow> Inr (Inr b) | None \<Rightarrow> ReadXferObject_VM V object annex) (\<lambda>r.
          case r of
            Inl e \<Rightarrow> Inr (XferError e, bufs)
          | Inr buffer \<Rightarrow>
              (case xfer_answer (unat offset) (unat len) buffer of
                 (reply, done_with_buffer) \<Rightarrow> Inr (reply, if done_with_buffer then bufs(key := None) else bufs(key \<mapsto> buffer)))))"

text \<open>
  A client that follows the protocol: it asks for pieces of the same length from offset 0 until it gets the last one.  The server's
  environment may be another one at each request; \<open>None\<close> is a transfer that needs more requests.
\<close>

fun client_transfer :: "nat \<Rightarrow> (nat \<Rightarrow> xfer_env) \<Rightarrow> (nat \<Rightarrow> string) \<Rightarrow> nat \<Rightarrow> string \<Rightarrow> (string \<rightharpoonup> string) \<Rightarrow>
    (string option \<times> (string \<rightharpoonup> string)) res option" where
  "client_transfer 0 Vs request k acc bufs = None"
| "client_transfer (Suc fuel) Vs request k acc bufs =
     (case Handle_qXfer_VM (Vs k) (request (length acc)) bufs of
        Inl f \<Rightarrow> Some (Inl f)
      | Inr (Packet c bs, bufs') \<Rightarrow>
          if c = CHR ''l'' then Some (Inr (Some (acc @ bs), bufs')) else client_transfer fuel Vs request (Suc k) (acc @ bs) bufs'
      | Inr (_, bufs') \<Rightarrow> Some (Inr (None, bufs')))"

section \<open>What the description says\<close>

text \<open>The registers a client finds, each with the feature it is in.\<close>

fun xml_regs :: "string \<Rightarrow> xml_op list \<Rightarrow> (string \<times> string \<times> nat \<times> nat) list" where
  "xml_regs f [] = []"
| "xml_regs f (Feature ns # ops) = xml_regs ns ops"
| "xml_regs f (SwitchFeature ns types # ops) = xml_regs ns ops"
| "xml_regs f (Reg name bits i # ops) = (f, name, bits, i) # xml_regs f ops"
| "xml_regs f (_ # ops) = xml_regs f ops"

fun plain_op :: "xml_op \<Rightarrow> bool" where
  "plain_op (Feature _) = False"
| "plain_op (SwitchFeature _ _) = False"
| "plain_op (Reg _ _ _) = False"
| "plain_op _ = True"

lemma xml_regs_plain [simp]: "list_all plain_op xs \<Longrightarrow> xml_regs f (xs @ ys) = xml_regs f ys"
proof (induction xs)
  case (Cons x xs)
  then show ?case by (cases x) simp_all
qed simp

lemma plain_attrs [simp]: "list_all plain_op (attr_if k v)" "list_all plain_op (attr_opt k w)"
  by (simp_all add: attr_if_def attr_opt_def split: option.splits)

lemma reg_ops_split:
  assumes "reg_ops E fpu i r = Inr ops"
  obtains pre rest where "ops = pre @ Reg (ri_name r) (ri_byte_size r * 8) i # rest" "list_all plain_op pre" "list_all plain_op rest"
proof -
  obtain fmt where "GetFormatNameOrEmpty (ri_format r) = Inr fmt"
    using assms by (cases "GetFormatNameOrEmpty (ri_format r)") (simp_all add: reg_ops_def)
  with assms that [of "(case ri_flags_type r of None \<Rightarrow> [] | Some t \<Rightarrow> [IndentMore, FlagsXML t, IndentLess]) @ [Indent '''']"] show thesis
    by (fastforce simp: reg_ops_def split: option.splits list.splits)
qed

lemma init_offsets_format: "map ri_format (init_offsets k rs) = map ri_format rs"
  by (induction rs arbitrary: k) simp_all

lemma register_formats:
  assumes "i < GetRegisterCount arm64"
  shows "ri_format (register_infos N arm64 ! i) \<in> {eFormatHex, eFormatVectorOfUInt8}"
proof -
  have "set (map ri_format (register_infos N arm64)) \<subseteq> {eFormatHex, eFormatVectorOfUInt8}"
    unfolding register_infos_def init_offsets_format
    by (auto simp: arm64_register_infos_def x86_register_infos_def info_defs Let_def)
  moreover have "register_infos N arm64 ! i \<in> set (register_infos N arm64)"
    using assms table_lengths(1) [of N arm64] by (simp add: GetRegisterCount_def)
  ultimately show ?thesis by auto
qed

text \<open>The description of a range of registers, before the switch or after it.\<close>

lemma regs_ops_range:
  assumes "n \<le> GetRegisterCount (xe_arm64 E)" and "k \<le> n"
    and "\<And>j. k \<le> j \<Longrightarrow> j < n \<Longrightarrow> info_names (xe_arm64 E) ! j = fpu_reg0 (xe_arm64 E) \<longleftrightarrow> j = s"
    and "fpu \<longleftrightarrow> s < k" and "f = (if s < k then fpu_namespace (xe_arm64 E) else gpr_namespace (xe_arm64 E))"
  shows "\<exists>ops. regs_ops E fpu [k..<n] = Inr ops \<and> (\<forall>tl. list_all plain_op tl \<longrightarrow> xml_regs f (ops @ tl) =
    map (\<lambda>j. (if s \<le> j then fpu_namespace (xe_arm64 E) else gpr_namespace (xe_arm64 E), info_names (xe_arm64 E) ! j, info_sizes (xe_arm64 E) ! j * 8, j)) [k..<n])"
  using assms
proof (induction "n - k" arbitrary: k fpu f)
  case 0
  then have "xml_regs f tl = []" if "list_all plain_op tl" for tl using xml_regs_plain [OF that, of f "[]"] by simp
  with 0 show ?case by simp
next
  case (Suc d)
  then have k: "k < n" "k < GetRegisterCount (xe_arm64 E)" by simp_all
  let ?r = "register_infos (xe_numbers E) (xe_arm64 E) ! k"
  let ?ns = "\<lambda>j. if s \<le> j then fpu_namespace (xe_arm64 E) else gpr_namespace (xe_arm64 E)"
  note r = register_infos_nth [OF k(2), of "xe_numbers E"]
  obtain fmt where "GetFormatNameOrEmpty (ri_format ?r) = Inr fmt" using register_formats [OF k(2), of "xe_numbers E"] by auto
  then obtain ops where ops: "reg_ops E (fpu \<or> k = s) k ?r = Inr ops" by (simp add: reg_ops_def)
  have sw: "ri_name ?r = fpu_reg0 (xe_arm64 E) \<longleftrightarrow> k = s" using Suc.prems(3) [of k] k r by simp
  have fpu: "fpu \<or> k = s \<longleftrightarrow> s < Suc k" using Suc.prems(4) by auto
  have ns: "?ns k = (if s < Suc k then fpu_namespace (xe_arm64 E) else gpr_namespace (xe_arm64 E))" by auto
  obtain rest where rest: "regs_ops E (fpu \<or> k = s) [Suc k..<n] = Inr rest"
    and IH: "\<And>tl. list_all plain_op tl \<Longrightarrow> xml_regs (?ns k) (rest @ tl) = map (\<lambda>j. (?ns j, info_names (xe_arm64 E) ! j, info_sizes (xe_arm64 E) ! j * 8, j)) [Suc k..<n]"
  proof -
    have "d = n - Suc k" "Suc k \<le> n" using Suc.hyps(2) k(1) by linarith+
    from Suc.hyps(1) [OF this(1) Suc.prems(1) this(2) Suc.prems(3) fpu ns] that show thesis by auto
  qed
  have step: "regs_ops E fpu [k..<n] = Inr ((if k = s then [SwitchFeature (fpu_namespace (xe_arm64 E)) (if xe_arm64 E then fpu_types_arm64 else fpu_types_x86)] else []) @ ops @ rest)"
    using k ops rest sw by (simp add: upt_conv_Cons GetRegisterInfoAtIndex_def GetRegisterCount_def Let_def)
  obtain pre post where split: "ops = pre @ Reg (ri_name ?r) (ri_byte_size ?r * 8) k # post" "list_all plain_op pre" "list_all plain_op post"
    using reg_ops_split [OF ops] by blast
  have "xml_regs (?ns k) (ops @ rest @ tl) = (?ns k, info_names (xe_arm64 E) ! k, info_sizes (xe_arm64 E) ! k * 8, k) # xml_regs (?ns k) (rest @ tl)" for tl
    using split r by simp
  then show ?case using step IH k Suc.prems(5) by (auto simp: upt_conv_Cons)
qed

text \<open>The first vector register: \<open>v0\<close> at index 34, \<open>xmm0\<close> at index 40.\<close>

definition first_fpu :: "bool \<Rightarrow> nat" where "first_fpu arm64 = (if arm64 then 34 else 40)"

lemma first_fpu_name:
  assumes "j < GetRegisterCount arm64"
  shows "info_names arm64 ! j = fpu_reg0 arm64 \<longleftrightarrow> j = first_fpu arm64"
proof -
  have l: "length (info_names b) = GetRegisterCount b" for b by (cases b) (simp_all add: info_names_def)
  have d: "distinct (info_names True)" "distinct (info_names False)" by code_simp+
  have "info_names True ! first_fpu True = fpu_reg0 True" "info_names False ! first_fpu False = fpu_reg0 False" by code_simp+
  then have n: "info_names b ! first_fpu b = fpu_reg0 b" for b by (cases b) simp_all
  show ?thesis using assms l [of arm64] d n [of arm64] nth_eq_iff_index_eq [of "info_names arm64" j "first_fpu arm64"]
    by (cases arm64) (simp_all add: first_fpu_def)
qed

text \<open>
  C33: the target description lists every register once, in the order of the tables.  For a process with a thread \<open>target.xml\<close> is built
  without reaching the unreachable format, and a client that reads it finds at number \<open>i\<close> the name and the size in bits of description \<open>i\<close>: in the core feature
  up to the first vector register, in the vector feature from there.
\<close>

theorem target_xml_lists_registers:
  assumes "xe_thread E"
  shows "\<exists>ops. BuildTargetXml_VM E = Inr (Inr ops) \<and>
    xml_regs f ops = map (\<lambda>i. (if first_fpu (xe_arm64 E) \<le> i then fpu_namespace (xe_arm64 E) else gpr_namespace (xe_arm64 E),
      ri_name (register_infos (xe_numbers E) (xe_arm64 E) ! i), ri_byte_size (register_infos (xe_numbers E) (xe_arm64 E) ! i) * 8, i))
      [0..<GetRegisterCount (xe_arm64 E)]"
proof -
  let ?n = "GetRegisterCount (xe_arm64 E)"
  obtain ops where ops: "regs_ops E False [0..<?n] = Inr ops"
    and x: "\<And>tl. list_all plain_op tl \<Longrightarrow> xml_regs (gpr_namespace (xe_arm64 E)) (ops @ tl) =
      map (\<lambda>j. (if first_fpu (xe_arm64 E) \<le> j then fpu_namespace (xe_arm64 E) else gpr_namespace (xe_arm64 E),
        info_names (xe_arm64 E) ! j, info_sizes (xe_arm64 E) ! j * 8, j)) [0..<?n]"
    using regs_ops_range [of ?n E 0 "first_fpu (xe_arm64 E)" False "gpr_namespace (xe_arm64 E)"] first_fpu_name by auto
  have "map (\<lambda>j. (if first_fpu (xe_arm64 E) \<le> j then fpu_namespace (xe_arm64 E) else gpr_namespace (xe_arm64 E),
        info_names (xe_arm64 E) ! j, info_sizes (xe_arm64 E) ! j * 8, j)) [0..<?n] =
    map (\<lambda>i. (if first_fpu (xe_arm64 E) \<le> i then fpu_namespace (xe_arm64 E) else gpr_namespace (xe_arm64 E),
      ri_name (register_infos (xe_numbers E) (xe_arm64 E) ! i), ri_byte_size (register_infos (xe_numbers E) (xe_arm64 E) ! i) * 8, i)) [0..<?n]"
    by (simp add: register_infos_nth)
  moreover have "?n \<noteq> 0" by (cases "xe_arm64 E") simp_all
  ultimately show ?thesis using assms ops x by (simp add: BuildTargetXml_VM_def Let_def)
qed

definition xml0 :: xml_env where
  "xml0 = \<lparr>xe_thread = True, xe_arm64 = True, xe_arch_name = ''aarch64'', xe_numbers = nums0, xe_dynamic_offset = False, xe_set_name = (\<lambda>_. None)\<rparr>"

theorem target_xml_lists_registers_witness:
  "\<exists>ops. BuildTargetXml_VM xml0 = Inr (Inr ops) \<and> length (xml_regs [] ops) = 68 \<and> xml_regs [] ops ! 34 = (''org.gnu.gdb.aarch64.fpu'', ''v0'', 128, 34)"
proof -
  have "info_names True ! 34 = ''v0''" "info_sizes True ! 34 = 16" by code_simp+
  then show ?thesis using target_xml_lists_registers [of xml0 "[]"] register_infos_nth [of 34 True nums0]
    by (auto simp: xml0_def first_fpu_def fpu_namespace_def)
qed

section \<open>Transfers end\<close>

lemma unat_offset: "n < 2 ^ 64 \<Longrightarrow> unat (word_of_nat n :: u64) = n"
  by (rule unat_word_of_nat64)

text \<open>Once the buffer is kept, the rest of the transfer comes from it.\<close>

lemma transfer_from_buffer:
  assumes "\<And>k off. off \<le> length b \<Longrightarrow> xfer_fields (Vs k) (request off) = Inr (object, annex, word_of_nat off, len)"
    and "0 < len" and "length b < 2 ^ 64 - 1" and "acc @ rest = b" and "length rest < fuel"
    and "bufs (buffer_key object annex) = Some b \<or> bufs (buffer_key object annex) = None \<and> ReadXferObject_VM (Vs k) object annex = Inr (Inr b)"
  shows "client_transfer fuel Vs request k acc bufs = Some (Inr (Some b, bufs(buffer_key object annex := None)))"
  using assms(4-6)
proof (induction fuel arbitrary: acc rest bufs k)
  case (Suc fuel)
  let ?key = "buffer_key object annex" and ?n = "unat len"
  have len: "0 < ?n" using assms(2) by (simp add: word_less_nat_alt)
  have acc: "length acc \<le> length b" "drop (length acc) b = rest" using Suc.prems(1) by auto
  have off: "unat (word_of_nat (length acc) :: u64) = length acc" using acc assms(3) by (intro unat_offset) simp
  have h: "Handle_qXfer_VM (Vs k) (request (length acc)) bufs =
    (case xfer_answer (length acc) ?n b of (reply, fin) \<Rightarrow> Inr (reply, if fin then bufs(?key := None) else bufs(?key \<mapsto> b)))"
    using Suc.prems(3) by (auto simp: Handle_qXfer_VM_def Let_def assms(1) [OF acc(1)] off)
  consider (empty) "rest = []" | (last) "rest \<noteq> []" "length rest \<le> ?n" | (more) "?n < length rest" by linarith
  then show ?case
  proof cases
    case empty
    then show ?thesis using Suc.prems(1) h acc by (simp add: xfer_answer_def fun_upd_def)
  next
    case last
    then have "length acc < length b" using Suc.prems(1) by auto
    with last show ?thesis using Suc.prems(1) h acc by (simp add: xfer_answer_def Let_def fun_upd_def)
  next
    case more
    then have "length acc < length b" using Suc.prems(1) by auto
    with more have "client_transfer (Suc fuel) Vs request k acc bufs = client_transfer fuel Vs request (Suc k) (acc @ take ?n rest) (bufs(?key \<mapsto> b))"
      using h acc by (simp add: xfer_answer_def Let_def)
    also have "\<dots> = Some (Inr (Some b, (bufs(?key \<mapsto> b))(?key := None)))"
      by (rule Suc.IH [of _ "drop ?n rest"]) (use Suc.prems more len in auto)
    also have "(bufs(?key \<mapsto> b))(?key := None) = bufs(?key := None)" by (rule fun_upd_upd)
    finally show ?thesis .
  qed
qed simp

text \<open>
  C31: a transfer ends with the object.  A client that asks for pieces of any length greater than zero gets, after at most one request per byte
  and one more, exactly the object as it was at its first request, even when
  the object would be built differently at a later one; the buffer is gone afterwards, so the next transfer sees the new object.
\<close>

theorem xfer_ends_with_object:
  assumes "\<And>k off. off \<le> length b \<Longrightarrow> xfer_fields (Vs k) (request off) = Inr (object, annex, word_of_nat off, len)"
    and "0 < len" and "length b < 2 ^ 64 - 1"
    and "bufs (buffer_key object annex) = None" and "ReadXferObject_VM (Vs 0) object annex = Inr (Inr b)"
  shows "client_transfer (Suc (length b)) Vs request 0 [] bufs = Some (Inr (Some b, bufs))"
proof -
  have "bufs(buffer_key object annex := None) = bufs" using assms(4) by (simp add: fun_upd_idem)
  then show ?thesis using transfer_from_buffer [OF assms(1,2,3), where acc = "[]" and rest = b and bufs = bufs and k = 0] assms(4,5) by (simp del: client_transfer.simps)
qed

definition xfer0 :: "string \<Rightarrow> xfer_env" where
  "xfer0 info = \<lparr>xf_split = (\<lambda>s. [''qXfer'', ''siginfo'', ''read'', [], s]), xf_hex = (\<lambda>s. if s = ''2'' then (2, []) else (word_of_nat (length s - 2), '',2'')),
     xf_stream = (\<lambda>_. []), xf_encode = id, xf_process = True, xf_siginfo = Some (Inr info), xf_libraries = Inr [], xf_xml = xml0\<rparr>"

theorem xfer_ends_with_object_witness:
  "client_transfer 6 (\<lambda>k. xfer0 (if k = 0 then ''abcde'' else ''xyz'')) (\<lambda>off. replicate (off + 2) CHR ''0'') 0 [] Map.empty = Some (Inr (Some ''abcde'', Map.empty))"
proof -
  let ?V = "\<lambda>k :: nat. xfer0 (if k = 0 then ''abcde'' else ''xyz'')" and ?r = "\<lambda>off. replicate (off + 2) CHR ''0''"
  have f: "xfer_fields (?V k) (?r off) = Inr (''siginfo'', [], word_of_nat off, 2)" if "off \<le> length ''abcde''" for k off
  proof -
    have "unat (- 1 :: u64) = 2 ^ 64 - 1" by (simp add: unsigned_minus_1_eq_mask mask_eq_exp_minus_1)
    moreover have "unat (word_of_nat off :: u64) = off" using that by (simp add: unat_word_of_nat64)
    ultimately have "unat (word_of_nat off :: u64) \<noteq> unat (- 1 :: u64)" using that by simp
    then have "word_of_nat off \<noteq> (- 1 :: u64)" by auto
    moreover have "?r off \<noteq> ''2''" by simp
    ultimately show ?thesis by (simp add: xfer_fields_def xfer0_def del: replicate_Suc)
  qed
  have rd: "ReadXferObject_VM (?V 0) ''siginfo'' [] = Inr (Inr ''abcde'')" by (simp add: ReadXferObject_VM_def xfer0_def)
  have "client_transfer (Suc (length ''abcde'')) ?V ?r 0 [] Map.empty = Some (Inr (Some ''abcde'', Map.empty))"
    by (rule xfer_ends_with_object [where Vs = ?V and request = ?r, OF f _ _ _ rd]) simp_all
  moreover have "Suc (length ''abcde'') = 6" by simp
  ultimately show ?thesis by (simp only:)
qed

end
