(* ===== verification/OpcodeChain.thy ===== *)
theory OpcodeChain
  imports NativeHandler
begin

text \<open>
  \<open>ios/OpcodeEngine.cpp\<close> and the functions that \<open>opcret_generator\<close> of \<open>src/UtilsAArch64.cpp\<close> writes: on a host without pages that are
  writable and executable an opcode Remill cannot interpret is executed by a copy that was compiled in, through a chain of small functions
  that switch between host and guest registers.  A chain does what the native handler of the instruction does, but for one register.
\<close>

section \<open>Chains\<close>

text \<open>
  The functions a chain is made of; the number of a register, and for guest registers the index of the register that holds the
  state pointer.
\<close>

datatype chain_word = ChainStrX nat | ChainStrD nat | ChainLdrX nat | ChainLdrD nat | SaveX26 nat | LoadX26 nat
  | V2H_gpr nat nat | V2H_fpu nat nat | H2V_gpr nat nat | H2V_fpu nat nat | ExecutePrebuilt | Prebuilt nat | FinishOpchain | FinishEmulation

definition cpu_regs :: "nat list" where "cpu_regs = [0, 1, 2, 3, 4, 5, 26]"

definition chain_save_host :: "Register list \<Rightarrow> chain_word list" where
  "chain_save_host used = concat (map (\<lambda>r.
     if saved_x r then [ChainStrX (19 + nat (r - X 19))] else if saved_q r then [ChainStrD (8 + nat (r - Q 8))] else []) used)"

definition chain_load_host :: "Register list \<Rightarrow> chain_word list" where
  "chain_load_host used = concat (map (\<lambda>r.
     if saved_x r then [ChainLdrX (19 + nat (r - X 19))] else if saved_q r then [ChainLdrD (8 + nat (r - Q 8))] else []) (rev used))"

definition chain_guest :: "(nat \<Rightarrow> nat \<Rightarrow> chain_word) \<Rightarrow> (nat \<Rightarrow> nat \<Rightarrow> chain_word) \<Rightarrow> nat \<Rightarrow> Register list \<Rightarrow> chain_word list" where
  "chain_guest fx fq c used = concat (map (\<lambda>r. if is_x r then [fx (xnum r) c] else if is_q r then [fq (qnum r) c] else []) used)"

text \<open>The array of functions that save x26 has six entries.\<close>

definition setup_chains :: "reg_enum \<Rightarrow> mcinst \<Rightarrow> nat \<Rightarrow> chain_word list res" where
  "setup_chains E inst prebuilt =
     (let used = parse_regused_a64 E inst; c = regcpu_a64 used in
      if c \<noteq> 26 \<and> 6 \<le> c then Inl OutOfBounds
      else let i = (if c = 26 then 6 else c) in
        Inr (chain_save_host used @ (if c \<noteq> 26 then [SaveX26 c] else []) @ chain_guest V2H_gpr V2H_fpu i used @ [ExecutePrebuilt, Prebuilt prebuilt] @
          chain_guest H2V_gpr H2V_fpu i used @ (if i \<noteq> 6 then [LoadX26 i] else []) @ chain_load_host used @ [FinishOpchain, FinishEmulation]))"

text \<open>
  The lines of a function, up to the branch to the next one: first the functions that move a guest register, which \<open>opcret_generator\<close> writes, then all.
\<close>

fun switch_lines :: "(a64_field \<Rightarrow> nat) \<Rightarrow> chain_word \<Rightarrow> a64_line list" where
  "switch_lines L (V2H_gpr x i) = [Ldr x (cpu_regs ! i) (int (projr (offset_reg_a64 L (X (int x)))))]"
| "switch_lines L (V2H_fpu q i) = [LdrQ q (cpu_regs ! i) (int (projr (offset_reg_a64 L (Q (int q)))))]"
| "switch_lines L (H2V_gpr x i) = [Str x (cpu_regs ! i) (int (projr (offset_reg_a64 L (X (int x)))))]"
| "switch_lines L (H2V_fpu q i) = [StrQ q (cpu_regs ! i) (int (projr (offset_reg_a64 L (Q (int q)))))]"
| "switch_lines L _ = []"

fun chain_lines :: "(a64_field \<Rightarrow> nat) \<Rightarrow> chain_word \<Rightarrow> a64_line list" where
  "chain_lines L (ChainStrX n) = [StrPre n]"
| "chain_lines L (ChainStrD n) = [StrDPre n]"
| "chain_lines L (ChainLdrX n) = [LdrPost n]"
| "chain_lines L (ChainLdrD n) = [LdrDPost n]"
| "chain_lines L (SaveX26 n) = [Mov n 26]"
| "chain_lines L (LoadX26 n) = [Mov 26 n]"
| "chain_lines L FinishOpchain = [Mov 0 26, Ldr 1 0 (-16), Ldr 2 1 0, AddI 2 2 4, Str 2 1 0, Mov 1 2]"
| "chain_lines L w = switch_lines L w"

section \<open>Running a chain\<close>

text \<open>
  Every function ends by loading the next word of the chain: x27 is advanced and x30 holds the word's address.  The call of the
  compiled-in opcode \<open>p\<close> (its effect is \<open>run p\<close>) leaves the return address in x30.  The chain ends at \<open>finish_emulation\<close>.
\<close>

definition enter_word :: "(chain_word \<Rightarrow> u64) \<Rightarrow> chain_word \<Rightarrow> host \<Rightarrow> host" where
  "enter_word wa w h = h\<lparr>hx := (hx h)(27 := hx h 27 + 8, 30 := wa w)\<rparr>"

fun chain_run :: "(a64_field \<Rightarrow> nat) \<Rightarrow> (chain_word \<Rightarrow> u64) \<Rightarrow> (nat \<Rightarrow> host \<Rightarrow> host) \<Rightarrow> u64 \<Rightarrow> chain_word list \<Rightarrow> host \<Rightarrow> host option" where
  "chain_run L wa run ra [] h = None"
| "chain_run L wa run ra (v # ws) h =
     (case v of
        FinishEmulation \<Rightarrow> Some h
      | ExecutePrebuilt \<Rightarrow>
          (case ws of
             Prebuilt p # w # rest \<Rightarrow>
               let h1 = enter_word wa (Prebuilt p) h; h2 = run p (h1\<lparr>hx := (hx h1)(30 := ra)\<rparr>) in
               chain_run L wa run ra (w # rest) (a64_step (Mov 2 27) (enter_word wa w h2))
           | _ \<Rightarrow> None)
      | FinishOpchain \<Rightarrow>
          (case ws of
             [] \<Rightarrow> None
           | w # rest \<Rightarrow> chain_run L wa run ra ws (a64_step (Mov 2 27) (enter_word wa w (fold a64_step (chain_lines L v) h))))
      | Prebuilt _ \<Rightarrow> None
      | _ \<Rightarrow>
          (case ws of
             [] \<Rightarrow> None
           | w # rest \<Rightarrow> chain_run L wa run ra ws (enter_word wa w (fold a64_step (chain_lines L v) h))))"

fun simple_word :: "chain_word \<Rightarrow> bool" where
  "simple_word ExecutePrebuilt = False"
| "simple_word (Prebuilt _) = False"
| "simple_word FinishOpchain = False"
| "simple_word FinishEmulation = False"
| "simple_word _ = True"

text \<open>The registers the chain itself changes: x27, x30 and, after the opcode, x2.\<close>

definition chain_regs :: "u64 \<Rightarrow> u64 \<Rightarrow> u64 \<Rightarrow> host \<Rightarrow> host" where
  "chain_regs a b d h = h\<lparr>hx := (hx h)(27 := a, 30 := b, 2 := d)\<rparr>"

definition free_num :: "nat \<Rightarrow> bool" where "free_num n \<longleftrightarrow> n \<noteq> 27 \<and> n \<noteq> 30 \<and> n \<noteq> 2"

fun free_line :: "a64_line \<Rightarrow> bool" where
  "free_line (StrPre n) = free_num n"
| "free_line (LdrPost n) = free_num n"
| "free_line (Mov d s) = (free_num d \<and> free_num s)"
| "free_line (Ldr t n k) = (free_num t \<and> free_num n)"
| "free_line (LdrQ t n k) = free_num n"
| "free_line (Str t n k) = (free_num t \<and> free_num n)"
| "free_line (StrQ t n k) = free_num n"
| "free_line (AddI d s k) = (free_num d \<and> free_num s)"
| "free_line (Ubfx59 d s) = (free_num d \<and> free_num s)"
| "free_line _ = True"

lemma free_step: "free_line l \<Longrightarrow> a64_step l (chain_regs a b d h) = chain_regs a b d (a64_step l h)"
  by (cases l) (auto simp: chain_regs_def free_num_def Let_def fun_upd_twist)

lemma free_fold: "list_all free_line ls \<Longrightarrow> fold a64_step ls (chain_regs a b d h) = chain_regs a b d (fold a64_step ls h)"
  by (induction ls arbitrary: h) (simp_all add: free_step)

lemma chain_regs_twice [simp]: "chain_regs a b d (chain_regs a' b' d' h) = chain_regs a b d h"
  by (simp add: chain_regs_def fun_upd_twist)

lemma chain_regs_id: "h = chain_regs (hx h 27) (hx h 30) (hx h 2) h"
  by (simp add: chain_regs_def)

lemma enter_chain_regs: "enter_word wa w (chain_regs a b d h) = chain_regs (a + 8) (wa w) d h"
  by (simp add: enter_word_def chain_regs_def fun_upd_twist)

text \<open>A run of simple words is the run of their lines, up to the registers of the chain.\<close>

lemma chain_run_simple:
  assumes "list_all simple_word vs" and "list_all free_line (concat (map (chain_lines L) vs))"
  shows "\<exists>b'. chain_run L wa run ra (vs @ w # ws) (chain_regs a b d h) =
    chain_run L wa run ra (w # ws) (chain_regs (a + 8 * word_of_nat (length vs)) b' d (fold a64_step (concat (map (chain_lines L) vs)) h))"
  using assms
proof (induction vs arbitrary: a b h)
  case Nil
  show ?case by (intro exI [of _ b]) simp
next
  case (Cons v vs)
  obtain u us where us: "vs @ w # ws = u # us" by (cases vs) auto
  have "chain_run L wa run ra ((v # vs) @ w # ws) (chain_regs a b d h) =
    chain_run L wa run ra (vs @ w # ws) (enter_word wa u (fold a64_step (chain_lines L v) (chain_regs a b d h)))"
    using Cons.prems(1) us by (cases v) simp_all
  also have "\<dots> = chain_run L wa run ra (vs @ w # ws) (chain_regs (a + 8) (wa u) d (fold a64_step (chain_lines L v) h))"
    using Cons.prems(2) by (simp add: free_fold enter_chain_regs)
  finally show ?case using Cons.IH [of "a + 8" "wa u" "fold a64_step (chain_lines L v) h"] Cons.prems by (simp add: algebra_simps)
qed

lemma chain_host_lines:
  "concat (map (chain_lines L) (chain_save_host used)) = save_host used" "list_all simple_word (chain_save_host used)"
  "concat (map (chain_lines L) (chain_load_host used)) = load_host used" "list_all simple_word (chain_load_host used)"
proof -
  show "concat (map (chain_lines L) (chain_save_host used)) = save_host used" "list_all simple_word (chain_save_host used)"
    by (induction used) (auto simp: chain_save_host_def save_host_def)
  have "concat (map (chain_lines L) (concat (map (\<lambda>r. if saved_x r then [ChainLdrX (19 + nat (r - X 19))]
      else if saved_q r then [ChainLdrD (8 + nat (r - Q 8))] else []) us))) =
    concat (map (\<lambda>r. if saved_x r then [LdrPost (19 + nat (r - X 19))] else if saved_q r then [LdrDPost (8 + nat (r - Q 8))] else []) us)" for us
    by (induction us) auto
  then show "concat (map (chain_lines L) (chain_load_host used)) = load_host used" by (simp add: chain_load_host_def load_host_def)
  show "list_all simple_word (chain_load_host used)" by (auto simp: chain_load_host_def list_all_iff split: if_splits)
qed

lemma offset_xq: "is_x r \<Longrightarrow> projr (offset_reg_a64 L (X (int (xnum r)))) = goff L r" "is_q r \<Longrightarrow> projr (offset_reg_a64 L (Q (int (qnum r)))) = goff L r"
proof -
  assume "is_x r"
  moreover from this have "X (int (xnum r)) = r" by (simp add: reg_class_defs)
  ultimately show "projr (offset_reg_a64 L (X (int (xnum r)))) = goff L r" by (simp add: offset_reg_goff)
next
  assume "is_q r"
  moreover from this have "Q (int (qnum r)) = r" by (simp add: reg_class_defs)
  ultimately show "projr (offset_reg_a64 L (Q (int (qnum r)))) = goff L r" by (simp add: offset_reg_goff)
qed

lemma chain_guest_lines:
  "concat (map (chain_lines L) (chain_guest V2H_gpr V2H_fpu 6 used)) = concat (map (ld_lines L 26) used)"
  "concat (map (chain_lines L) (chain_guest H2V_gpr H2V_fpu 6 used)) = concat (map (st_lines L 26) used)"
  "list_all simple_word (chain_guest V2H_gpr V2H_fpu 6 used)" "list_all simple_word (chain_guest H2V_gpr H2V_fpu 6 used)"
  by (induction used) (auto simp: chain_guest_def ld_lines_def st_lines_def cpu_regs_def offset_xq)

text \<open>When the instruction uses none of x2, x26, x27 and x30, no line but the last ones touches the registers of the chain.\<close>

definition chain_free :: "Register list \<Rightarrow> bool" where
  "chain_free used \<longleftrightarrow> X 2 \<notin> set used \<and> X 26 \<notin> set used \<and> X 27 \<notin> set used \<and> X 30 \<notin> set used"

lemma chain_free_num: "chain_free used \<Longrightarrow> r \<in> set used \<Longrightarrow> is_x r \<Longrightarrow> free_num (xnum r) \<and> xnum r \<noteq> 26"
proof -
  assume "chain_free used" and "r \<in> set used" and "is_x r"
  moreover from this have "r = X (int (xnum r))" by (simp add: reg_class_defs)
  ultimately show ?thesis unfolding chain_free_def free_num_def by (metis of_nat_numeral)
qed

lemma free_lines:
  assumes "chain_free used"
  shows "list_all free_line (save_host used)" "list_all free_line (load_host used)"
    "list_all free_line (concat (map (ld_lines L 26) used))" "list_all free_line (concat (map (st_lines L 26) used))"
proof -
  have "saved_x r \<Longrightarrow> is_x r" for r by (simp add: reg_class_defs)
  then have s: "free_num (xnum r)" if "r \<in> set used" "saved_x r" for r using chain_free_num [OF assms] that by blast
  have c: "free_num 26" by (simp add: free_num_def)
  show "list_all free_line (save_host used)" "list_all free_line (load_host used)"
    using s by (auto simp: save_host_lines load_host_lines list_all_iff push_line_def pop_line_def)
  show "list_all free_line (concat (map (ld_lines L 26) used))" "list_all free_line (concat (map (st_lines L 26) used))"
    using chain_free_num [OF assms] c by (auto simp: ld_lines_def st_lines_def list_all_iff)
qed

declare chain_run.simps [simp del]

lemma chain_run_prebuilt:
  "chain_run L wa run ra (ExecutePrebuilt # Prebuilt p # w # ws) (chain_regs a b d h) =
    chain_run L wa run ra (w # ws) (a64_step (Mov 2 27) (enter_word wa w (run p (chain_regs (a + 8) ra d h))))"
proof -
  have "(chain_regs (a + 8) (wa (Prebuilt p)) d h)\<lparr>hx := (hx (chain_regs (a + 8) (wa (Prebuilt p)) d h))(30 := ra)\<rparr> = chain_regs (a + 8) ra d h"
    by (simp add: chain_regs_def fun_upd_twist)
  then show ?thesis by (subst chain_run.simps) (simp add: enter_chain_regs Let_def del: a64_step.simps)
qed

text \<open>
  A chain runs the lines before the opcode, the opcode and the lines after it; \<open>exec\<close> is the opcode as these lines see it.
\<close>

definition chain_exec :: "(host \<Rightarrow> host) \<Rightarrow> u64 \<Rightarrow> u64 \<Rightarrow> u64 \<Rightarrow> host \<Rightarrow> host" where
  "chain_exec f a b d g = chain_regs (hx g 27) (hx g 30) (hx g 2) (f (chain_regs a b d g))"

lemma chain_exec_keeps:
  "insn_keeps used S (chain_regs a b d g) (f (chain_regs a b d g)) \<Longrightarrow> insn_keeps used S g (chain_exec f a b d g)"
  by (auto simp: insn_keeps_def chain_exec_def chain_regs_def)

lemma chain_run_body:
  fixes L :: "a64_field \<Rightarrow> nat" and vs us :: "chain_word list" and h :: host
  defines "a \<equiv> hx h 27 + 8 * word_of_nat (length vs) + 8"
  defines "h1 \<equiv> fold a64_step (concat (map (chain_lines L) vs)) h"
  assumes vs: "list_all simple_word vs" "list_all free_line (concat (map (chain_lines L) vs))"
    and us: "list_all simple_word us" "list_all free_line (concat (map (chain_lines L) us))"
    and x27: "hx (run p (chain_regs a ra (hx h 2) h1)) 27 = a"
  shows "\<exists>a' b'. chain_run L wa run ra (vs @ ExecutePrebuilt # Prebuilt p # us @ [FinishOpchain, FinishEmulation]) h =
    chain_run L wa run ra [FinishOpchain, FinishEmulation]
      (chain_regs a' b' (a + 8) (fold a64_step (concat (map (chain_lines L) us)) (chain_exec (run p) a ra (hx h 2) h1)))"
proof -
  obtain w ws where ws: "us @ [FinishOpchain, FinishEmulation] = w # ws" by (cases us) auto
  let ?k = "run p (chain_regs a ra (hx h 2) h1)"
  obtain b where "chain_run L wa run ra (vs @ ExecutePrebuilt # Prebuilt p # w # ws) h =
      chain_run L wa run ra (ExecutePrebuilt # Prebuilt p # w # ws) (chain_regs (a - 8) b (hx h 2) h1)"
    using chain_run_simple [OF vs, of wa run ra ExecutePrebuilt "Prebuilt p # w # ws" "hx h 27" "hx h 30" "hx h 2" h]
    unfolding chain_regs_id [of h, symmetric] by (auto simp: a_def h1_def)
  also have "\<dots> = chain_run L wa run ra (w # ws) (a64_step (Mov 2 27) (enter_word wa w ?k))" by (simp add: chain_run_prebuilt)
  also have "a64_step (Mov 2 27) (enter_word wa w ?k) = chain_regs (a + 8) (wa w) (a + 8) (chain_exec (run p) a ra (hx h 2) h1)"
    using x27 by (simp add: chain_exec_def) (simp add: chain_regs_def enter_word_def fun_upd_twist)
  finally show ?thesis
    using chain_run_simple [OF us, of wa run ra FinishOpchain "[FinishEmulation]" "a + 8" "wa w" "a + 8"] unfolding ws by metis
qed

lemma setup_chains_words:
  assumes "used = parse_regused_a64 E inst" and "chain_free used"
  shows "setup_chains E inst p = Inr ((chain_save_host used @ chain_guest V2H_gpr V2H_fpu 6 used) @ ExecutePrebuilt # Prebuilt p #
    (chain_guest H2V_gpr H2V_fpu 6 used @ chain_load_host used) @ [FinishOpchain, FinishEmulation])"
  using assms(2) regcpu_is_26 [of used] by (simp add: setup_chains_def Let_def chain_free_def flip: assms(1))

lemma guest_in_chain_regs:
  assumes "chain_free used"
  shows "guest_in L used st m (chain_regs a b d h) = guest_in L used st m h"
  using chain_free_num [OF assms] by (auto simp: guest_in_def chain_regs_def free_num_def)

lemma chain_tail:
  fixes h5 :: host
  defines "pcp \<equiv> load64 (hmem h5) (hx h5 26 - 16)"
  shows "chain_run L wa run ra [FinishOpchain, FinishEmulation] (chain_regs a b d h5) =
    Some (h5\<lparr>hx := (hx h5)(0 := hx h5 26, 1 := load64 (hmem h5) pcp + 4, 2 := a + 8, 27 := a + 8, 30 := wa FinishEmulation),
      hmem := store64 (hmem h5) pcp (load64 (hmem h5) pcp + 4)\<rparr>)"
  by (simp add: chain_run.simps chain_regs_def enter_word_def pcp_def fun_upd_twist)

text \<open>
  C11: a chain simulates its opcode.  For an instruction that uses none of x2, x26, x27 and x30, the chain \<open>setup_chains\<close>
  builds brings the guest's values of the used registers into the host's, runs the compiled-in copy, and ends at \<open>finish_emulation\<close> with the values the copy computed
  in the guest's \<open>State\<close>, nothing else changed in memory but the chain's stack frame and the pc, which has advanced by four, the argument registers
  of a handler call, the stack pointer and the protected registers as they were (x27 and x30, which the entry of the machine restores, apart).
\<close>

theorem chain_simulates:
  assumes used: "used = parse_regused_a64 E inst" and free: "chain_free used"
    and ss: "slots_sep (handler_slots L used h)"
    and insn: "\<And>h1. guest_in L used (hx h 26) (hmem h) h1 \<Longrightarrow> mem_frame (frame_of used h) (hmem h) (hmem h1) \<Longrightarrow>
       insn_keeps used (handler_slots L used h) h1 (run p h1)"
  shows "\<exists>ws h1 hf. setup_chains E inst p = Inr ws \<and> chain_run L wa run ra ws h = Some hf \<and>
     guest_in L used (hx h 26) (hmem h) h1 \<and> mem_frame (frame_of used h) (hmem h) (hmem h1) \<and>
     guest_in L used (hx h 26) (hmem hf) (run p h1) \<and> mem_frame (handler_slots L used h) (hmem (run p h1)) (hmem hf) \<and>
     (let pcp = load64 (hmem h) (hx h 26 - 16); pc = load64 (hmem h) pcp + 4 in
        load64 (hmem hf) pcp = pc \<and> hx hf 0 = hx h 26 \<and> hx hf 1 = pc \<and> hx hf 2 = hx hf 27) \<and> hsp hf = hsp h \<and>
     (\<forall>n. 19 \<le> n \<and> n \<le> 29 \<and> n \<noteq> 27 \<longrightarrow> hx hf n = hx h n) \<and> (\<forall>n. 8 \<le> n \<and> n \<le> 15 \<longrightarrow> fst (hq hf n) = fst (hq h n))"
proof -
  let ?S = "handler_slots L used h" and ?G = "concat (map (gslots L (hx h 26)) used)" and ?pc = "load64 (hmem h) (hx h 26 - 16)"
  let ?pro = "save_host used @ concat (map (ld_lines L 26) used)" and ?epi = "concat (map (st_lines L 26) used) @ load_host used"
  let ?vs = "chain_save_host used @ chain_guest V2H_gpr V2H_fpu 6 used" and ?us = "chain_guest H2V_gpr H2V_fpu 6 used @ chain_load_host used"
  have c: "regcpu_a64 used = 26" using free regcpu_is_26 by (simp add: chain_free_def)
  have pro: "concat (map (chain_lines L) ?vs) = ?pro" "list_all simple_word ?vs" "list_all free_line (concat (map (chain_lines L) ?vs))"
    using free_lines [OF free] by (simp_all add: chain_host_lines chain_guest_lines)
  have epi: "concat (map (chain_lines L) ?us) = ?epi" "list_all simple_word ?us" "list_all free_line (concat (map (chain_lines L) ?us))"
    using free_lines [OF free] by (simp_all add: chain_host_lines chain_guest_lines)
  define a where "a = hx h 27 + 8 * word_of_nat (length ?vs) + 8"
  let ?exec = "chain_exec (run p) a ra (hx h 2)"
  have kept: "insn_keeps used ?S (chain_regs a ra (hx h 2) g) (run p (chain_regs a ra (hx h 2) g))"
    if "guest_in L used (hx h 26) (hmem h) g" "mem_frame (frame_of used h) (hmem h) (hmem g)" for g
    by (rule insn) (use that guest_in_chain_regs [OF free] in \<open>simp_all, simp add: chain_regs_def\<close>)
  obtain h1 h5 where h: "fold a64_step ?pro h = h1" "fold a64_step ?epi (?exec h1) = h5"
    "guest_in L used (hx h 26) (hmem h) h1" "mem_frame (frame_of used h) (hmem h) (hmem h1)"
    "guest_in L used (hx h 26) (hmem h5) (?exec h1)" "mem_frame ?G (hmem (?exec h1)) (hmem h5)"
    "\<forall>a\<in>{hx h 26 - 16, ?pc, hx h 27 + 8}. load64 (hmem h5) a = load64 (hmem h) a" "abi_kept h h5" "hx h5 27 = hx h 27"
    by (rule body_run [of used L h ?exec, OF _ ss chain_exec_keeps [where f = "run p", OF kept]]) (use c in auto)
  define g1 where "g1 = chain_regs a ra (hx h 2) h1"
  have exec1: "?exec h1 = chain_regs (hx h1 27) (hx h1 30) (hx h1 2) (run p g1)" by (simp add: chain_exec_def g1_def)
  have x27: "hx (run p g1) 27 = a" using kept [OF h(3,4)] free by (auto simp: g1_def insn_keeps_def chain_free_def chain_regs_def)
  have mem1: "hmem (?exec h1) = hmem (run p g1)" by (simp add: exec1 chain_regs_def)
  obtain a' b' where "chain_run L wa run ra (?vs @ ExecutePrebuilt # Prebuilt p # ?us @ [FinishOpchain, FinishEmulation]) h =
      chain_run L wa run ra [FinishOpchain, FinishEmulation] (chain_regs a' b' (a + 8) h5)"
    using chain_run_body [OF pro(2,3) epi(2,3), of run p h ra wa] x27 unfolding pro(1) epi(1) h(1) a_def [symmetric] h(2) g1_def by blast
  note run = this [unfolded chain_tail]
  have x26: "hx h5 26 = hx h 26" using h(8) by (simp add: abi_kept_def)
  have pcs: "load64 (hmem h5) (hx h 26 - 16) = ?pc" "load64 (hmem h5) ?pc = load64 (hmem h) ?pc" using h(7) by auto
  have sg: "sep x 8 ?pc 8" if "x \<in> set ?G" for x
    using ss that by (auto simp: handler_slots_def slots_sep_append simp del: set_concat)
  let ?m = "store64 (hmem h5) ?pc (load64 (hmem h) ?pc + 4)"
  have g: "guest_in L used (hx h 26) ?m (run p g1)"
    by (rule guest_in_cong [OF h(5) [unfolded exec1 guest_in_chain_regs [OF free]]]) (rule load64_store64_sep, rule sg, auto)
  have fm: "mem_frame ?S (hmem (run p g1)) ?m"
    by (rule mem_frame_trans [OF h(6) [unfolded mem1] mem_frame_store [of ?pc "[?pc]"]]) (auto simp: handler_slots_def)
  have g1: "guest_in L used (hx h 26) (hmem h) g1" "mem_frame (frame_of used h) (hmem h) (hmem g1)"
    using h(3,4) guest_in_chain_regs [OF free] by (simp_all add: g1_def, simp add: chain_regs_def)
  show ?thesis unfolding setup_chains_words [OF used free]
    by (rule exI, rule exI [of _ g1], rule exI, rule conjI [OF refl], rule conjI [OF run])
      (use h(8) g fm g1 in \<open>auto simp: x26 pcs Let_def abi_kept_def\<close>)
qed

text \<open>\<open>add x19, x4, x1\<close>.\<close>

definition sum_inst :: mcinst where
  "sum_inst = \<lparr>mc_opcode = MC_other 7, mc_operands = [MC_reg 119, MC_reg 104, MC_reg 101, MC_imm 0]\<rparr>"

definition sum_sem :: "nat \<Rightarrow> host \<Rightarrow> host" where
  "sum_sem p h = h\<lparr>hx := (hx h)(19 := hx h 4 + hx h 1)\<rparr>"

lemma sum_regused: "parse_regused_a64 reg_enum0 sum_inst = [3, 6, 21]"
  by (simp add: parse_regused_a64_def sum_inst_def reg_enum0_def a64_operand_regs_def a64_ranges_def
      set_insert_all_def X_def Q_def insort_insert_key_def)

lemma sum_slots: "slots_sep (handler_slots a64_layout0 [3, 6, 21] host0)"
proof -
  have f: "filter saved [3, 6, 21] = [21]" by (simp add: saved_def saved_x_def saved_q_def X_def Q_def)
  have g: "gslots a64_layout0 65536 3 = [65552]" "gslots a64_layout0 65536 6 = [65600]" "gslots a64_layout0 65536 21 = [65840]"
    by (simp_all add: gslots_def goff_def is_x_def xnum_def X_def)
  have "handler_slots a64_layout0 [3, 6, 21] host0 = [1048560, 65552, 65600, 65840, 65520, 0, 131080]"
    unfolding handler_slots_def frame_of_def f by (simp add: host0_def g)
  then show ?thesis by (simp add: sep_def)
qed

theorem chain_simulates_witness:
  "\<exists>ws h1 hf. setup_chains reg_enum0 sum_inst 5 = Inr ws \<and> chain_run a64_layout0 (\<lambda>_. 0) sum_sem 0 ws host0 = Some hf \<and>
     guest_in a64_layout0 [3, 6, 21] 65536 (hmem hf) (sum_sem 5 h1) \<and> load64 (hmem hf) 0 = 4 \<and> hsp hf = 1048576 \<and> hx hf 19 = 0"
proof -
  have k: "insn_keeps [3, 6, 21] s h (sum_sem 5 h)" for s h by (simp add: insn_keeps_def sum_sem_def X_def)
  have f: "chain_free [3, 6, 21]" by (simp add: chain_free_def X_def)
  from chain_simulates [OF sum_regused [symmetric] f sum_slots, where run = sum_sem and p = 5 and wa = "\<lambda>_. 0" and ra = 0, OF k]
  obtain ws h1 hf where w: "setup_chains reg_enum0 sum_inst 5 = Inr ws" "chain_run a64_layout0 (\<lambda>_. 0) sum_sem 0 ws host0 = Some hf"
    "guest_in a64_layout0 [3, 6, 21] (hx host0 26) (hmem hf) (sum_sem 5 h1)"
    "let pcp = load64 (hmem host0) (hx host0 26 - 16); pc = load64 (hmem host0) pcp + 4 in load64 (hmem hf) pcp = pc"
    "hsp hf = hsp host0" "\<forall>n. 19 \<le> n \<and> n \<le> 29 \<and> n \<noteq> 27 \<longrightarrow> hx hf n = hx host0 n" unfolding Let_def by blast
  have "hx hf 19 = hx host0 19" using w(6) by simp
  with w(1-5) show ?thesis by (intro exI [of _ ws] exI [of _ h1] exI [of _ hf]) (simp add: host0_def)
qed

text \<open>
  C38: the result in x2 is lost.  The function that calls the compiled-in opcode sets x2 to the chain pointer before the registers are stored, so for an
  instruction on x2 the guest's x2 becomes the address of the fourth word of the chain, whatever the opcode computed.
\<close>

theorem chain_overwrites_x2:
  assumes "parse_regused_a64 E inst = [X 2]" and slot: "slot = hx h 26 + word_of_nat (goff L (X 2))"
    and "pcp = load64 (hmem h) (hx h 26 - 16)" and "sep (hx h 26 - 16) 8 slot 8" and "sep slot 8 pcp 8"
    and "\<And>g. hx (run p g) 26 = hx g 26 \<and> hx (run p g) 27 = hx g 27 \<and> load64 (hmem (run p g)) (hx g 26 - 16) = load64 (hmem g) (hx g 26 - 16)"
  shows "\<exists>ws hf. setup_chains E inst p = Inr ws \<and> chain_run L wa run ra ws h = Some hf \<and> load64 (hmem hf) slot = hx h 27 + 24"
proof -
  have x: "is_x (X 2)" "xnum (X 2) = 2" "\<not> saved_x (X 2)" "\<not> saved_q (X 2)" by (simp_all add: reg_class_defs)
  have r: "regcpu_a64 [X 2] = 26" by (rule regcpu_is_26) (simp add: X_def)
  have ws: "setup_chains E inst p = Inr [V2H_gpr 2 6, ExecutePrebuilt, Prebuilt p, H2V_gpr 2 6, FinishOpchain, FinishEmulation]"
    using x r by (simp add: setup_chains_def assms(1) chain_save_host_def chain_load_host_def chain_guest_def)
  let ?g = "chain_regs (hx h 27 + 8 + 8) ra (load64 (hmem h) slot) h"
  define k where "k = run p ?g"
  have k: "hx k 26 = hx h 26" "hx k 27 = hx h 27 + 16" "load64 (hmem k) (hx h 26 - 16) = pcp"
    using assms(3) assms(6) [of ?g] by (simp_all add: k_def chain_regs_def)
  have off: "projr (offset_reg_a64 L (X 2)) = goff L (X 2)" using offset_xq(1) [of "X 2" L] x by simp
  have "enter_word wa ExecutePrebuilt (fold a64_step (chain_lines L (V2H_gpr 2 6)) h) =
      chain_regs (hx h 27 + 8) (wa ExecutePrebuilt) (load64 (hmem h) slot) h"
    by (simp add: enter_word_def chain_regs_def cpu_regs_def off fun_upd_twist slot)
  then have "chain_run L wa run ra [V2H_gpr 2 6, ExecutePrebuilt, Prebuilt p, H2V_gpr 2 6, FinishOpchain, FinishEmulation] h =
      chain_run L wa run ra [H2V_gpr 2 6, FinishOpchain, FinishEmulation] (a64_step (Mov 2 27) (enter_word wa (H2V_gpr 2 6) k))"
    by (subst chain_run.simps) (simp add: chain_run_prebuilt k_def del: chain_lines.simps)
  moreover have "\<exists>hf. chain_run L wa run ra [H2V_gpr 2 6, FinishOpchain, FinishEmulation] (a64_step (Mov 2 27) (enter_word wa (H2V_gpr 2 6) k)) = Some hf \<and>
      load64 (hmem hf) slot = hx h 27 + 24"
    using k assms(4,5) by (simp add: chain_run.simps cpu_regs_def off enter_word_def load64_store64_sep flip: slot)
  ultimately show ?thesis using ws by auto
qed

text \<open>\<open>neg x2, x2\<close>.\<close>

definition neg_inst :: mcinst where
  "neg_inst = \<lparr>mc_opcode = MC_other 8, mc_operands = [MC_reg 102, MC_reg 102]\<rparr>"

definition neg_sem :: "nat \<Rightarrow> host \<Rightarrow> host" where
  "neg_sem p h = h\<lparr>hx := (hx h)(2 := - hx h 2)\<rparr>"

theorem chain_overwrites_x2_witness:
  "\<exists>ws hf. setup_chains reg_enum0 neg_inst 5 = Inr ws \<and> chain_run a64_layout0 (\<lambda>_. 0) neg_sem 0 ws host0 = Some hf \<and>
     load64 (hmem hf) 65568 = 131096"
proof -
  have u: "parse_regused_a64 reg_enum0 neg_inst = [X 2]"
    by (simp add: parse_regused_a64_def neg_inst_def reg_enum0_def a64_operand_regs_def a64_ranges_def
        set_insert_all_def X_def Q_def insort_insert_key_def)
  have g: "goff a64_layout0 (X 2) = 32" by (simp add: goff_def is_x_def xnum_def X_def)
  have "\<exists>ws hf. setup_chains reg_enum0 neg_inst 5 = Inr ws \<and> chain_run a64_layout0 (\<lambda>_. 0) neg_sem 0 ws host0 = Some hf \<and>
     load64 (hmem hf) 65568 = hx host0 27 + 24"
    by (rule chain_overwrites_x2 [OF u, where pcp = 0]) (simp_all add: host0_def g neg_sem_def sep_def)
  then show ?thesis by (simp add: host0_def)
qed

end
