(* ===== verification/PrebuiltOpcode.thy ===== *)
theory PrebuiltOpcode
  imports OpcodeChain
begin

text \<open>
  The compiled-in opcodes of \<open>src/UtilsAArch64.cpp\<close>, \<open>ios/OpcodeEngine.cpp\<close> and \<open>src/OpcodeEngine.cpp\<close>: the generator of the
  table and the search in it, renaming the registers of an opcode that is not in the table, the choice of a handler and the execution
  with renamed registers.  The locale \<open>cells\<close> is what the loops of that execution need of the guest's registers.
\<close>

section \<open>Renaming registers\<close>

text \<open>\<open>OpcodeRegisters\<close>: sets and maps as sorted lists.\<close>

record OpcodeRegisters =
  usedregs :: "Register list"
  regused :: "nat list"
  fpuused :: "nat list"
  regmaps :: "(nat \<times> nat) list"
  fpumaps :: "(nat \<times> nat) list"
  asmerropcs :: "mc_opcode list"

definition no_registers :: OpcodeRegisters where
  "no_registers = \<lparr>usedregs = [], regused = [], fpuused = [], regmaps = [], fpumaps = [], asmerropcs = []\<rparr>"

text \<open>
  The cascade of \<open>normalize_opcode\<close>: first and last enumerator, whether it is a general purpose register, the number of the first one,
  and the enumerator that a new number is added to.
\<close>

definition norm_ranges :: "(string \<times> string \<times> bool \<times> nat \<times> string) list" where
  "norm_ranges =
     [(''W0'', ''W30'', True, 0, ''W0''), (''X0'', ''X28'', True, 0, ''X0''), (''FP'', ''FP'', True, 29, ''X0''), (''LR'', ''LR'', True, 30, ''X0''),
      (''B0'', ''B31'', False, 0, ''B0''), (''H0'', ''H31'', False, 0, ''H0''), (''S0'', ''S31'', False, 0, ''S0''),
      (''D0'', ''D31'', False, 0, ''D0''), (''Q0'', ''Q31'', False, 0, ''Q0''), (''Z0'', ''Z31'', False, 0, ''Z0'')]"

fun norm_range :: "reg_enum \<Rightarrow> (string \<times> string \<times> bool \<times> nat \<times> string) list \<Rightarrow> nat \<Rightarrow> (bool \<times> nat \<times> nat) option" where
  "norm_range E [] reg = None"
| "norm_range E ((lo, hi, gp, base, out) # rs) reg =
     (if E lo \<le> reg \<and> reg \<le> E hi then Some (gp, reg - E lo + base, E out) else norm_range E rs reg)"

fun norm_scan :: "reg_enum \<Rightarrow> nat list \<Rightarrow> nat list \<times> nat list \<Rightarrow> nat list \<times> nat list" where
  "norm_scan E [] s = s"
| "norm_scan E (reg # regs) (xs, qs) =
     (case norm_range E norm_ranges reg of
        None \<Rightarrow> norm_scan E regs (xs, qs)
      | Some (True, n, _) \<Rightarrow> norm_scan E regs (insort_insert n xs, qs)
      | Some (False, n, _) \<Rightarrow> norm_scan E regs (xs, insort_insert n qs))"

text \<open>\<open>std::map::insert\<close>: nothing happens when there is an entry.\<close>

definition map_insert :: "'k :: linorder \<Rightarrow> 'v \<Rightarrow> ('k \<times> 'v) list \<Rightarrow> ('k \<times> 'v) list" where
  "map_insert k v m = (if k \<in> fst ` set m then m else insort_key fst (k, v) m)"

text \<open>The loop that gives every register the next number that is not used.\<close>

fun assign_regs :: "Register list \<Rightarrow> Register \<Rightarrow> nat \<Rightarrow> nat list \<Rightarrow> (nat \<times> nat) list \<Rightarrow> (nat \<times> nat) list" where
  "assign_regs used base ireg [] m = m"
| "assign_regs used base ireg (i # is) m =
     (let ireg' = nat (first_unused used (base + int ireg) - base) in assign_regs used base (Suc ireg') is (map_insert i ireg' m))"

fun norm_operand :: "reg_enum \<Rightarrow> OpcodeRegisters \<Rightarrow> mc_operand \<Rightarrow> mc_operand res" where
  "norm_operand E Rg (MC_reg reg) =
     (case norm_range E norm_ranges reg of
        None \<Rightarrow> Inr (MC_reg reg)
      | Some (gp, n, out) \<Rightarrow>
          (case map_of (if gp then regmaps Rg else fpumaps Rg) n of None \<Rightarrow> Inl Undefined | Some k \<Rightarrow> Inr (MC_reg (k + out))))"
| "norm_operand E Rg opr = Inr opr"

text \<open>\<open>assemble\<close> gives the bytes of an instruction.\<close>

definition normalize_opcode :: "reg_enum \<Rightarrow> (mcinst \<Rightarrow> bytes) \<Rightarrow> mcinst \<Rightarrow> u32 \<Rightarrow> OpcodeRegisters \<Rightarrow> (u32 \<times> mcinst \<times> OpcodeRegisters) res" where
  "normalize_opcode E assemble inst opcode Rg =
     (if mc_opcode inst \<in> set (asmerropcs Rg) then Inr (opcode, inst, Rg)
      else
        let (xs, qs) = norm_scan E (reg_operands (mc_operands inst)) (regused Rg, fpuused Rg);
            Rg1 = Rg\<lparr>regused := xs, fpuused := qs, regmaps := assign_regs (usedregs Rg) (X 0) 0 xs (regmaps Rg),
              fpumaps := assign_regs (usedregs Rg) (Q 0) 0 qs (fpumaps Rg)\<rparr> in
        res_bind (res_map (norm_operand E Rg1) (mc_operands inst)) (\<lambda>os.
        let inst' = inst\<lparr>mc_operands := os\<rparr>; newopcode = assemble inst' in
        if length newopcode \<noteq> 4 then Inr (opcode, inst', Rg1\<lparr>asmerropcs := mc_opcode inst # asmerropcs Rg1\<rparr>)
        else Inr (word_of_nat (le_val newopcode), inst', Rg1)))"

section \<open>The compiled-in opcodes\<close>

text \<open>The opcodes of the table, sorted; the position of the copy, when the instruction can use it.\<close>

definition reserved_operand :: "reg_enum \<Rightarrow> mcinst \<Rightarrow> bool" where
  "reserved_operand E inst \<longleftrightarrow> list_ex (\<lambda>r. r = E ''X26'' \<or> r = E ''X27'' \<or> r = E ''LR'') (reg_operands (mc_operands inst))"

definition callable :: "reg_enum \<Rightarrow> u32 list \<Rightarrow> u32 \<Rightarrow> mcinst \<Rightarrow> nat option res" where
  "callable E prebuilt opc inst =
     (if reserved_operand E inst then Inr None
      else res_bind (binary_search (<) prebuilt (length prebuilt) opc) (\<lambda>found.
        res_bind (is_exact (=) found prebuilt (length prebuilt) opc) (\<lambda>exact. Inr (if exact then Some found else None))))"




section \<open>Execution with renamed registers\<close>

text \<open>
  The loops of \<open>execPrebuiltMapped\<close> over pairs of an original and a substitute register: the substitutes are saved and get the
  values of the originals; afterwards the originals get the values of the substitutes, which are restored.
\<close>

fun swap_in :: "('s \<Rightarrow> 'r \<Rightarrow> 'v) \<Rightarrow> ('s \<Rightarrow> 'r \<Rightarrow> 'v \<Rightarrow> 's) \<Rightarrow> ('r \<times> 'r) list \<Rightarrow> 's \<Rightarrow> 'v list \<times> 's" where
  "swap_in rd wr [] s = ([], s)"
| "swap_in rd wr ((a, b) # ps) s = (let v = rd s b; (vs, s') = swap_in rd wr ps (wr s b (rd s a)) in (v # vs, s'))"

fun swap_out :: "('s \<Rightarrow> 'r \<Rightarrow> 'v) \<Rightarrow> ('s \<Rightarrow> 'r \<Rightarrow> 'v \<Rightarrow> 's) \<Rightarrow> ('r \<times> 'r) list \<Rightarrow> 'v list \<Rightarrow> 's \<Rightarrow> 's" where
  "swap_out rd wr ((a, b) # ps) (v # vs) s = (let s1 = wr s a (rd s b) in swap_out rd wr ps vs (wr s1 b v))"
| "swap_out rd wr _ _ s = s"

definition gpr_rd :: "cpu \<Rightarrow> Register \<Rightarrow> u64" where
  "gpr_rd c r = (case getRegisterAArch64 c r of (p, c') \<Rightarrow> load64 (mem c') (the p))"

definition gpr_wr :: "cpu \<Rightarrow> Register \<Rightarrow> u64 \<Rightarrow> cpu" where
  "gpr_wr c r v = snd (setRegisterAArch64 c r v)"

definition simd_rd :: "cpu \<Rightarrow> Register \<Rightarrow> u64 \<times> u64" where
  "simd_rd c r = (case getRegisterAArch64 c r of (p, c') \<Rightarrow> (load64 (mem c') (the p), load64 (mem c') (the p + 8)))"

definition simd_wr :: "cpu \<Rightarrow> Register \<Rightarrow> u64 \<times> u64 \<Rightarrow> cpu" where
  "simd_wr c r v = snd (setRegisterNEON c r (fst v) (snd v))"

text \<open>The values are kept in arrays of eight; a null pointer is dereferenced for a number that is no register.\<close>

definition execPrebuiltMapped :: "(cpu \<Rightarrow> cpu) \<Rightarrow> (Register \<times> Register) list \<Rightarrow> (Register \<times> Register) list \<Rightarrow> cpu \<Rightarrow> cpu res" where
  "execPrebuiltMapped exec gpr fpu c =
     (if list_ex (\<lambda>(a, b). a64_reg_field a = None \<or> a64_reg_field b = None) (gpr @ fpu) then Inl Undefined
      else if 8 < length gpr \<or> 8 < length fpu then Inl OutOfBounds
      else
        let (gprmapper, c1) = swap_in gpr_rd gpr_wr gpr c;
            (fpumapper, c2) = swap_in simd_rd simd_wr fpu c1;
            c3 = exec c2;
            c4 = swap_out gpr_rd gpr_wr gpr gprmapper c3 in
        Inr (swap_out simd_rd simd_wr fpu fpumapper c4))"

text \<open>Pairs of two different sorts of cells.\<close>

definition apart :: "('r \<Rightarrow> bool) \<Rightarrow> ('r \<Rightarrow> 'r \<Rightarrow> bool) \<Rightarrow> ('r \<times> 'r) list \<Rightarrow> bool" where
  "apart cell like ps \<longleftrightarrow> distinct (map fst ps) \<and> distinct (map snd ps) \<and> set (map fst ps) \<inter> set (map snd ps) = {} \<and>
     (\<forall>(a, b) \<in> set ps. cell a \<and> cell b \<and> like a b)"

lemma apart_Cons: "apart cell like ((a, b) # ps) \<Longrightarrow> apart cell like ps \<and> cell a \<and> cell b \<and> like a b \<and> a \<noteq> b \<and>
    a \<notin> fst ` set ps \<and> a \<notin> snd ` set ps \<and> b \<notin> fst ` set ps \<and> b \<notin> snd ` set ps"
  by (auto simp: apart_def)

lemma apart_mem: "apart cell like ps \<Longrightarrow> (x, y) \<in> set ps \<Longrightarrow> cell x \<and> cell y \<and> like x y"
  by (auto simp: apart_def)

lemma pair_mem: "(x, y) \<in> set ps \<Longrightarrow> x \<in> fst ` set ps \<and> y \<in> snd ` set ps"
  by force

lemma swap_in_append:
  "swap_in rd wr (ps @ qs) s = (let (vs, s1) = swap_in rd wr ps s; (ws, s2) = swap_in rd wr qs s1 in (vs @ ws, s2))"
  by (induction rd wr ps s rule: swap_in.induct) (simp_all add: Let_def split: prod.split)

lemma swap_out_append:
  "length vs = length ps \<Longrightarrow> swap_out rd wr (ps @ qs) (vs @ ws) s = swap_out rd wr qs ws (swap_out rd wr ps vs s)"
  by (induction ps vs arbitrary: s rule: list_induct2') (auto simp: Let_def)

lemma swap_in_length: "swap_in rd wr ps s = (vs, s') \<Longrightarrow> length vs = length ps"
  by (induction rd wr ps s arbitrary: vs s' rule: swap_in.induct) (auto simp: Let_def split: prod.splits)

text \<open>
  What the loops need of the registers: cells that are read back as they were written and do not disturb each other.
\<close>

locale cells =
  fixes rd :: "'s \<Rightarrow> 'r \<Rightarrow> 'v" and wr :: "'s \<Rightarrow> 'r \<Rightarrow> 'v \<Rightarrow> 's"
    and ok :: "'s \<Rightarrow> bool" and cell :: "'r \<Rightarrow> bool" and like :: "'r \<Rightarrow> 'r \<Rightarrow> bool"
  assumes rd_same: "ok s \<Longrightarrow> cell r \<Longrightarrow> cell r' \<Longrightarrow> like r r' \<Longrightarrow> ok s' \<Longrightarrow> rd (wr s r (rd s' r')) r = rd s' r'"
    and rd_other: "ok s \<Longrightarrow> cell r \<Longrightarrow> cell r' \<Longrightarrow> r \<noteq> r' \<Longrightarrow> rd (wr s r v) r' = rd s r'"
    and wr_ok: "ok s \<Longrightarrow> ok (wr s r v)"
    and like_refl: "like r r" and like_sym: "like r r' \<Longrightarrow> like r' r"
begin

lemma swap_in_run:
  "apart cell like ps \<Longrightarrow> ok s \<Longrightarrow> swap_in rd wr ps s = (vs, s') \<Longrightarrow>
    ok s' \<and> vs = map (\<lambda>(a, b). rd s b) ps \<and> (\<forall>(a, b) \<in> set ps. rd s' b = rd s a) \<and>
    (\<forall>r. cell r \<and> r \<notin> snd ` set ps \<longrightarrow> rd s' r = rd s r)"
proof (induction ps arbitrary: s vs)
  case (Cons p ps)
  obtain a b where p: "p = (a, b)" by fastforce
  note ap = apart_Cons [OF Cons.prems(1) [unfolded p]]
  let ?s = "wr s b (rd s a)"
  obtain ws where w: "swap_in rd wr ps ?s = (ws, s')" "vs = rd s b # ws" using Cons.prems(3) p by (auto simp: Let_def split: prod.splits)
  have IH: "ok s'" "ws = map (\<lambda>(a, b). rd ?s b) ps" "\<forall>(a, b) \<in> set ps. rd s' b = rd ?s a"
    "\<forall>r. cell r \<and> r \<notin> snd ` set ps \<longrightarrow> rd s' r = rd ?s r"
    using Cons.IH [OF _ wr_ok [OF Cons.prems(2)] w(1)] ap by blast+
  have o: "rd ?s r = rd s r" if "cell r" "r \<noteq> b" for r using rd_other [OF Cons.prems(2), of b r] that ap by simp
  have m: "cell x \<and> cell y \<and> x \<noteq> b \<and> y \<noteq> b" if "(x, y) \<in> set ps" for x y
    using apart_mem [OF _ that] pair_mem [OF that] ap by blast
  have "rd s' b = rd s a" using IH(4) ap rd_same [OF Cons.prems(2), of b a s] like_sym Cons.prems(2) by auto
  moreover have "ws = map (\<lambda>(a, b). rd s b) ps" using IH(2) m o by (auto intro!: map_cong)
  moreover have "\<forall>(a, b) \<in> set ps. rd s' b = rd s a" using IH(3) m o by fastforce
  moreover have "\<forall>r. cell r \<and> r \<notin> snd ` set (p # ps) \<longrightarrow> rd s' r = rd s r" using IH(4) o p by auto
  ultimately show ?case using IH(1) w(2) p by simp
qed simp

lemma swap_out_run:
  "apart cell like ps \<Longrightarrow> ok s \<Longrightarrow> ok s0 \<Longrightarrow>
    ok (swap_out rd wr ps (map (\<lambda>(a, b). rd s0 b) ps) s) \<and>
    (\<forall>(a, b) \<in> set ps. rd (swap_out rd wr ps (map (\<lambda>(a, b). rd s0 b) ps) s) a = rd s b \<and> rd (swap_out rd wr ps (map (\<lambda>(a, b). rd s0 b) ps) s) b = rd s0 b) \<and>
    (\<forall>r. cell r \<and> r \<notin> fst ` set ps \<and> r \<notin> snd ` set ps \<longrightarrow> rd (swap_out rd wr ps (map (\<lambda>(a, b). rd s0 b) ps) s) r = rd s r)"
proof (induction ps arbitrary: s)
  case (Cons p ps)
  obtain a b where p: "p = (a, b)" by fastforce
  note ap = apart_Cons [OF Cons.prems(1) [unfolded p]]
  let ?s1 = "wr s a (rd s b)"
  let ?s2 = "wr ?s1 b (rd s0 b)"
  have ok: "ok ?s1" "ok ?s2" using wr_ok Cons.prems(2) by blast+
  note IH = Cons.IH [OF _ ok(2) Cons.prems(3)]
  have o: "rd ?s2 r = rd s r" if "cell r" "r \<noteq> a" "r \<noteq> b" for r
    using rd_other [OF ok(1), of b r] rd_other [OF Cons.prems(2), of a r] that ap by simp
  have a: "rd ?s2 a = rd s b" using rd_other [OF ok(1), of b a] rd_same [OF Cons.prems(2), of a b s] ap Cons.prems(2) by auto
  have b: "rd ?s2 b = rd s0 b" using rd_same [OF ok(1), of b b s0] ap Cons.prems(3) like_refl by simp
  have m: "cell y \<and> y \<noteq> a \<and> y \<noteq> b" if "(x, y) \<in> set ps" for x y using apart_mem [OF _ that] pair_mem [OF that] ap by blast
  have out: "swap_out rd wr (p # ps) (map (\<lambda>(a, b). rd s0 b) (p # ps)) s = swap_out rd wr ps (map (\<lambda>(a, b). rd s0 b) ps) ?s2" by (simp add: p)
  have tail: "rd (swap_out rd wr ps (map (\<lambda>(a, b). rd s0 b) ps) ?s2) x = rd s y \<and> rd (swap_out rd wr ps (map (\<lambda>(a, b). rd s0 b) ps) ?s2) y = rd s0 y"
    if "(x, y) \<in> set ps" for x y using IH ap that m o by fastforce
  show ?case unfolding out using IH ap a b o tail p by fastforce
qed simp

text \<open>A register that is its own substitute: whatever happens between the loops, its old value comes back.\<close>

lemma swap_in_frame:
  "ok s \<Longrightarrow> \<forall>(a, b) \<in> set ps. cell a \<and> cell b \<Longrightarrow> cell r \<Longrightarrow> r \<notin> snd ` set ps \<Longrightarrow> swap_in rd wr ps s = (vs, s') \<Longrightarrow>
    ok s' \<and> rd s' r = rd s r"
proof (induction ps arbitrary: s vs)
  case (Cons p ps)
  obtain a b where p: "p = (a, b)" by fastforce
  obtain ws where "swap_in rd wr ps (wr s b (rd s a)) = (ws, s')" using Cons.prems(5) p by (auto simp: Let_def split: prod.splits)
  from Cons.IH [OF wr_ok [OF Cons.prems(1)] _ _ _ this] Cons.prems show ?case by (auto simp: p rd_other)
qed simp

lemma swap_out_frame:
  "ok s \<Longrightarrow> \<forall>(a, b) \<in> set ps. cell a \<and> cell b \<Longrightarrow> cell r \<Longrightarrow> r \<notin> fst ` set ps \<Longrightarrow> r \<notin> snd ` set ps \<Longrightarrow>
    ok (swap_out rd wr ps vs s) \<and> rd (swap_out rd wr ps vs s) r = rd s r"
  by (induction ps vs arbitrary: s rule: list_induct2') (auto simp: Let_def wr_ok rd_other)

lemma swap_out_ok: "ok s \<Longrightarrow> ok (swap_out rd wr ps vs s)"
  by (induction ps vs arbitrary: s rule: list_induct2') (auto simp: Let_def wr_ok)

lemma self_mapped:
  assumes "ok s" and cells: "\<forall>(a, b) \<in> set ps. cell a \<and> cell b" and d: "distinct (map fst ps)" "distinct (map snd ps)"
    and r: "(r, r) \<in> set ps" and s: "swap_in rd wr ps s = (vs, s1)" and exec: "\<And>t. ok t \<Longrightarrow> ok (exec t)"
  shows "rd (swap_out rd wr ps vs (exec s1)) r = rd s r"
proof -
  obtain ps1 ps2 where ps: "ps = ps1 @ (r, r) # ps2" using split_list [OF r] by blast
  have n: "r \<notin> snd ` set ps1" "r \<notin> fst ` set ps2" "r \<notin> snd ` set ps2" and c: "cell r" using d cells by (auto simp: ps)
  obtain us t where t: "swap_in rd wr ps1 s = (us, t)" by fastforce
  obtain ws t' where w: "swap_in rd wr ps2 (wr t r (rd t r)) = (ws, t')" by fastforce
  have v: "vs = us @ rd t r # ws" "s1 = t'" using s t w by (auto simp: ps swap_in_append Let_def)
  have i: "ok t" "rd t r = rd s r" using swap_in_frame [OF assms(1) _ c n(1) t] cells by (auto simp: ps)
  have t': "ok t'" using swap_in_frame [OF wr_ok [OF i(1)] _ c n(3) w] cells by (auto simp: ps)
  let ?x = "swap_out rd wr ps1 us (exec t')"
  let ?y = "wr (wr ?x r (rd ?x r)) r (rd t r)"
  have x: "ok ?x" "ok (wr ?x r (rd ?x r))" using swap_out_ok exec t' wr_ok by blast+
  have "swap_out rd wr ps vs (exec s1) = swap_out rd wr ps2 ws ?y"
    using swap_in_length [OF t] by (simp add: v ps swap_out_append Let_def)
  moreover have "rd (swap_out rd wr ps2 ws ?y) r = rd ?y r" using swap_out_frame [OF wr_ok [OF x(2)] _ c n(2,3)] cells by (auto simp: ps)
  ultimately show ?thesis using rd_same [OF x(2) c c like_refl i(1)] i(2) by simp
qed

end

text \<open>The registers a mapped opcode can name: one read and one write for both banks.\<close>

definition cell_rd :: "cpu \<Rightarrow> Register \<Rightarrow> u64 \<times> u64" where
  "cell_rd c r = (if is_q r then simd_rd c r else (gpr_rd c r, 0))"

definition cell_wr :: "cpu \<Rightarrow> Register \<Rightarrow> u64 \<times> u64 \<Rightarrow> cpu" where
  "cell_wr c r v = (if is_q r then simd_wr c r v else gpr_wr c r (fst v))"

definition guest_cell :: "Register \<Rightarrow> bool" where "guest_cell r \<longleftrightarrow> is_x r \<or> is_q r"

definition same_bank :: "Register \<Rightarrow> Register \<Rightarrow> bool" where "same_bank r r' \<longleftrightarrow> is_q r = is_q r'"

definition cell_field :: "Register \<Rightarrow> a64_field" where
  "cell_field r = (if is_q r then A_v (qnum r) else A_gpr (xnum r))"

lemma cell_reg_field: "guest_cell r \<Longrightarrow> a64_reg_field r = Some (cell_field r) \<and> r \<noteq> NZCV"
  by (auto simp: guest_cell_def cell_field_def a64_reg_field_def reg_class_defs reg_defs)

lemma cell_rd_mem: "guest_cell r \<Longrightarrow> cell_rd c r =
    (load64 (mem c) (a64_addr c (cell_field r)), if is_q r then load64 (mem c) (a64_addr c (cell_field r) + 8) else 0)"
  using cell_reg_field [of r] by (simp add: cell_rd_def simd_rd_def gpr_rd_def getRegisterAArch64_def)

lemma cell_wr_mem: "guest_cell r \<Longrightarrow> cell_wr c r v = c\<lparr>mem :=
    if is_q r then store64 (store64 (mem c) (a64_addr c (cell_field r)) (fst v)) (a64_addr c (cell_field r) + 8) (snd v)
    else store64 (mem c) (a64_addr c (cell_field r)) (fst v)\<rparr>"
  using cell_reg_field [of r]
  by (auto simp: cell_wr_def simd_wr_def gpr_wr_def setRegisterNEON_def setRegisterAArch64_def getRegisterAArch64_def) (auto simp: is_q_def)

lemma cell_sep:
  assumes "a64_inv c" and "guest_cell r" and "guest_cell r'" and "r \<noteq> r'"
  shows "sep (a64_addr c (cell_field r)) (if is_q r then 16 else 8) (a64_addr c (cell_field r')) (if is_q r' then 16 else 8)"
proof (rule a64_sep)
  show "cell_field r \<noteq> cell_field r'" using cell_reg_field [OF assms(2)] cell_reg_field [OF assms(3)] reg_field_inj assms(4) by metis
  show "a64_valid (cell_field r)" "a64_valid (cell_field r')"
    using cell_reg_field [OF assms(2)] cell_reg_field [OF assms(3)] reg_field_valid by blast+
qed (use assms(1) in \<open>simp_all add: a64_inv_def cell_field_def\<close>)

lemma sep_halves: "sep a m b 16 \<Longrightarrow> sep a m b 8 \<and> sep a m (b + 8) 8"
  using sep_split [of a m b 8 8] by simp

lemma sep_words:
  assumes "sep a (if p then 16 else 8) b (if q then 16 else 8)"
  shows "sep a 8 b 8 \<and> (q \<longrightarrow> sep a 8 (b + 8) 8) \<and> (p \<longrightarrow> sep (a + 8) 8 b 8 \<and> (q \<longrightarrow> sep (a + 8) 8 (b + 8) 8))"
proof -
  have l: "sep x 8 y n \<and> sep (x + 8) 8 y n" if "sep x 16 y n" for x y n
    using that sep_halves [of y n x] by (simp add: sep_sym)
  show ?thesis using assms by (auto split: if_splits dest: l sep_halves)
qed

interpretation guest_regs: cells cell_rd cell_wr a64_inv guest_cell same_bank
proof unfold_locales
  fix s s' :: cpu and r r' :: Register and v :: "u64 \<times> u64"
  have addr: "a64_addr (c\<lparr>mem := m\<rparr>) = a64_addr c" for c m by (rule ext) (simp add: a64_addr_def)
  show "cell_rd (cell_wr s r (cell_rd s' r')) r = cell_rd s' r'" if "guest_cell r" "guest_cell r'" "same_bank r r'"
    using that by (simp add: cell_rd_mem cell_wr_mem addr store64_halves same_bank_def)
  show "cell_rd (cell_wr s r v) r' = cell_rd s r'" if c: "a64_inv s" "guest_cell r" "guest_cell r'" and ne: "r \<noteq> r'"
  proof -
    have "sep (a64_addr s (cell_field r')) 8 (a64_addr s (cell_field r)) 8 \<and>
      (is_q r \<longrightarrow> sep (a64_addr s (cell_field r')) 8 (a64_addr s (cell_field r) + 8) 8) \<and>
      (is_q r' \<longrightarrow> sep (a64_addr s (cell_field r') + 8) 8 (a64_addr s (cell_field r)) 8 \<and>
        (is_q r \<longrightarrow> sep (a64_addr s (cell_field r') + 8) 8 (a64_addr s (cell_field r) + 8) 8))"
      using sep_words [OF cell_sep [OF c(1) c(3) c(2)]] ne by blast
    then show ?thesis using c by (simp add: cell_rd_mem cell_wr_mem addr load64_store64_sep)
  qed
  have "a64_inv (simd_wr s r v)" if "a64_inv s"
    using that by (auto simp: simd_wr_def setRegisterNEON_def getRegisterAArch64_def a64_inv_def split: option.split)
  then show "a64_inv (cell_wr s r v)" if "a64_inv s" using that by (simp add: cell_wr_def gpr_wr_def a64_regs.wr_inv)
qed (simp_all add: same_bank_def)

lemma swap_gpr:
  assumes "\<forall>(a, b) \<in> set ps. is_x a \<and> is_x b"
  shows "swap_in gpr_rd gpr_wr ps c = map_prod (map fst) id (swap_in cell_rd cell_wr ps c)"
    and "swap_out gpr_rd gpr_wr ps (map fst vs) c = swap_out cell_rd cell_wr ps vs c"
proof -
  have x: "cell_rd c r = (gpr_rd c r, 0)" "cell_wr c r v = gpr_wr c r (fst v)" if "is_x r" for c r v
    using that by (auto simp: cell_rd_def cell_wr_def reg_class_defs)
  show "swap_in gpr_rd gpr_wr ps c = map_prod (map fst) id (swap_in cell_rd cell_wr ps c)"
    using assms by (induction ps arbitrary: c) (auto simp: x Let_def split: prod.splits)
  show "swap_out gpr_rd gpr_wr ps (map fst vs) c = swap_out cell_rd cell_wr ps vs c"
    using assms by (induction ps vs arbitrary: c rule: list_induct2') (auto simp: x Let_def)
qed

lemma swap_fpu:
  assumes "\<forall>(a, b) \<in> set ps. is_q a \<and> is_q b"
  shows "swap_in simd_rd simd_wr ps c = swap_in cell_rd cell_wr ps c"
    and "swap_out simd_rd simd_wr ps vs c = swap_out cell_rd cell_wr ps vs c"
proof -
  show "swap_in simd_rd simd_wr ps c = swap_in cell_rd cell_wr ps c"
    using assms by (induction ps arbitrary: c) (auto simp: cell_rd_def cell_wr_def Let_def split: prod.splits)
  show "swap_out simd_rd simd_wr ps vs c = swap_out cell_rd cell_wr ps vs c"
    using assms by (induction ps vs arbitrary: c rule: list_induct2') (auto simp: cell_rd_def cell_wr_def Let_def)
qed

text \<open>Both banks at once.\<close>

lemma mapped_cells:
  assumes x: "\<forall>(a, b) \<in> set gpr. is_x a \<and> is_x b" and q: "\<forall>(a, b) \<in> set fpu. is_q a \<and> is_q b"
    and "length gpr \<le> 8" and "length fpu \<le> 8"
  shows "execPrebuiltMapped exec gpr fpu c =
    (let (vs, c1) = swap_in cell_rd cell_wr (gpr @ fpu) c in Inr (swap_out cell_rd cell_wr (gpr @ fpu) vs (exec c1)))"
proof -
  obtain vs c1 where 1: "swap_in cell_rd cell_wr gpr c = (vs, c1)" by fastforce
  obtain ws c2 where 2: "swap_in cell_rd cell_wr fpu c1 = (ws, c2)" by fastforce
  have "a64_reg_field r \<noteq> None" if "is_x r \<or> is_q r" for r using that cell_reg_field [of r] by (simp add: guest_cell_def)
  then have f: "\<not> list_ex (\<lambda>(a, b). a64_reg_field a = None \<or> a64_reg_field b = None) (gpr @ fpu)"
    using x q by (fastforce simp: list_ex_iff)
  show ?thesis using assms(3,4) f
    by (simp add: execPrebuiltMapped_def swap_gpr [OF x] swap_fpu [OF q] 1 2 swap_in_append swap_out_append [OF swap_in_length [OF 1]])
qed

definition bank_pairs :: "(Register \<times> Register) list \<Rightarrow> (Register \<times> Register) list \<Rightarrow> bool" where
  "bank_pairs gpr fpu \<longleftrightarrow> list_all (\<lambda>(a, b). is_x a \<and> is_x b) gpr \<and> list_all (\<lambda>(a, b). is_q a \<and> is_q b) fpu \<and> length gpr \<le> 8 \<and> length fpu \<le> 8"

text \<open>The substitute of a register, itself when there is none.\<close>

definition renamed :: "(Register \<times> Register) list \<Rightarrow> Register \<Rightarrow> Register" where
  "renamed ps r = (case map_of ps r of None \<Rightarrow> r | Some b \<Rightarrow> b)"

lemma renamed_mem: "distinct (map fst ps) \<Longrightarrow> (a, b) \<in> set ps \<Longrightarrow> renamed ps a = b"
  by (simp add: renamed_def)

text \<open>
  C5: executing a renamed copy is executing the instruction.  Let \<open>F\<close> compute the registers of the original instruction from
  their values, and let the copy do the same on the substitutes and leave every other register alone.  When no substitute is one of the
  originals, \<open>execPrebuiltMapped\<close> gives every original register the value \<open>F\<close> computes from the guest's registers and leaves every
  other general purpose and vector register, the substitutes included, as it was.
\<close>

theorem mapped_execution_refines:
  assumes banks: "bank_pairs gpr fpu" and ap: "apart guest_cell same_bank (gpr @ fpu)" and inv: "a64_inv c"
    and F: "\<And>v w a. (\<And>b. b \<in> fst ` set (gpr @ fpu) \<Longrightarrow> v b = w b) \<Longrightarrow> F v a = F w a"
    and exec: "\<And>d. a64_inv d \<Longrightarrow> a64_inv (exec d)"
      "\<And>d a. a64_inv d \<Longrightarrow> a \<in> fst ` set (gpr @ fpu) \<Longrightarrow> cell_rd (exec d) (renamed (gpr @ fpu) a) = F (\<lambda>b. cell_rd d (renamed (gpr @ fpu) b)) a"
      "\<And>d r. a64_inv d \<Longrightarrow> guest_cell r \<Longrightarrow> r \<notin> snd ` set (gpr @ fpu) \<Longrightarrow> cell_rd (exec d) r = cell_rd d r"
  shows "\<exists>c'. execPrebuiltMapped exec gpr fpu c = Inr c' \<and>
    (\<forall>r. guest_cell r \<longrightarrow> cell_rd c' r = (if r \<in> fst ` set (gpr @ fpu) then F (cell_rd c) r else cell_rd c r))"
proof -
  let ?ps = "gpr @ fpu"
  obtain vs c1 where s: "swap_in cell_rd cell_wr ?ps c = (vs, c1)" by fastforce
  note si = guest_regs.swap_in_run [OF ap inv s]
  have c1: "a64_inv c1" "vs = map (\<lambda>(a, b). cell_rd c b) ?ps" using si by blast+
  let ?c' = "swap_out cell_rd cell_wr ?ps (map (\<lambda>(a, b). cell_rd c b) ?ps) (exec c1)"
  note so = guest_regs.swap_out_run [OF ap exec(1) [OF c1(1)] inv]
  have run: "execPrebuiltMapped exec gpr fpu c = Inr ?c'"
    using banks by (subst mapped_cells) (auto simp: bank_pairs_def list_all_iff s c1(2))
  have ren: "renamed ?ps a = b" if "(a, b) \<in> set ?ps" for a b using that ap renamed_mem [of ?ps a b] by (simp add: apart_def)
  have val: "cell_rd c1 (renamed ?ps a) = cell_rd c a" if "a \<in> fst ` set ?ps" for a using that ren si by fastforce
  have "cell_rd ?c' r = (if r \<in> fst ` set ?ps then F (cell_rd c) r else cell_rd c r)" if r: "guest_cell r" for r
  proof -
    consider b where "(r, b) \<in> set ?ps" | a where "(a, r) \<in> set ?ps" "r \<notin> fst ` set ?ps" | "r \<notin> fst ` set ?ps" "r \<notin> snd ` set ?ps"
      by force
    then show ?thesis
    proof cases
      case 1
      have "cell_rd ?c' r = cell_rd (exec c1) b" using so 1 by blast
      also have "\<dots> = F (\<lambda>b. cell_rd c1 (renamed ?ps b)) r" using exec(2) [OF c1(1), of r] ren [OF 1] pair_mem [OF 1] by metis
      also have "\<dots> = F (cell_rd c) r" by (rule F) (rule val)
      finally show ?thesis using pair_mem [OF 1] by simp
    next
      case 2
      have "cell_rd ?c' r = cell_rd c r" using so 2(1) by blast
      with 2(2) show ?thesis by simp
    next
      case 3
      have "cell_rd ?c' r = cell_rd (exec c1) r" using so r 3 by blast
      also have "\<dots> = cell_rd c r" using exec(3) [OF c1(1) r 3(2)] si r 3(2) by metis
      finally show ?thesis using 3(1) by simp
    qed
  qed
  with run show ?thesis by blast
qed

text \<open>An increment of x5, executed by the copy for x0.\<close>

definition inc_exec :: "cpu \<Rightarrow> cpu" where
  "inc_exec d = cell_wr d (X 0) (fst (cell_rd d (X 0)) + 1, 0)"

lemma x_cells: "guest_cell (X 0)" "guest_cell (X 5)" "\<not> is_q (X 0)" "\<not> is_q (X 5)" "is_x (X 0)" "is_x (X 5)" "X 0 \<noteq> X 5"
  by (simp_all add: guest_cell_def reg_class_defs)

lemma inc_exec_rd:
  assumes "a64_inv d"
  shows "cell_rd (inc_exec d) (X 0) = (fst (cell_rd d (X 0)) + 1, 0)" "guest_cell r \<Longrightarrow> r \<noteq> X 0 \<Longrightarrow> cell_rd (inc_exec d) r = cell_rd d r" "a64_inv (inc_exec d)"
proof -
  show "cell_rd (inc_exec d) (X 0) = (fst (cell_rd d (X 0)) + 1, 0)"
    using x_cells by (simp add: inc_exec_def cell_rd_mem cell_wr_mem a64_addr_def mem_laws)
  show "guest_cell r \<Longrightarrow> r \<noteq> X 0 \<Longrightarrow> cell_rd (inc_exec d) r = cell_rd d r"
    unfolding inc_exec_def by (rule guest_regs.rd_other [OF assms x_cells(1)]) auto
  show "a64_inv (inc_exec d)" unfolding inc_exec_def by (rule guest_regs.wr_ok [OF assms])
qed

theorem mapped_execution_refines_witness:
  "\<exists>c'. execPrebuiltMapped inc_exec [(X 5, X 0)] [] cpu0 = Inr c' \<and> cell_rd c' (X 5) = (1, 0) \<and> cell_rd c' (X 0) = (0, 0)"
proof -
  have b: "bank_pairs [(X 5, X 0)] []" "apart guest_cell same_bank ([(X 5, X 0)] @ [])"
    using x_cells by (simp_all add: bank_pairs_def apart_def same_bank_def)
  have r: "renamed ([(X 5, X 0)] @ []) (X 5) = X 0" by (simp add: renamed_def)
  have z: "cell_rd cpu0 (X 0) = (0, 0)" "cell_rd cpu0 (X 5) = (0, 0)" using x_cells by (simp_all add: cell_rd_mem cpu0_def)
  from mapped_execution_refines [OF b cpu0_inv(1), where F = "\<lambda>v a. (fst (v (X 5)) + 1, 0)" and exec = inc_exec]
  have "\<exists>c'. execPrebuiltMapped inc_exec [(X 5, X 0)] [] cpu0 = Inr c' \<and> (\<forall>r. guest_cell r \<longrightarrow> cell_rd c' r =
      (if r \<in> fst ` set ([(X 5, X 0)] @ []) then (fst (cell_rd cpu0 (X 5)) + 1, 0) else cell_rd cpu0 r))"
    using inc_exec_rd by (force simp: r [simplified])
  with x_cells z show ?thesis by force
qed

section \<open>Choosing a handler\<close>

text \<open>
  \<open>initPrebuilt\<close>: \<open>disassemble\<close> is the disassembler (no bytes: not an instruction), \<open>prebuilt\<close> the table.  An
  instruction on the stack pointer is interpreted; one without a copy is renamed; when the renamed one has no copy either the
  program stops.
\<close>

datatype prebuilt_impl =
    PI_mcinst nat
  | PI_abort
  | PI_prebuilt nat "chain_word list"
  | PI_mapped nat "chain_word list" "(Register \<times> Register) list" "(Register \<times> Register) list"

definition initPrebuilt :: "reg_enum \<Rightarrow> mc_env \<Rightarrow> (u32 \<Rightarrow> nat \<times> mcinst) \<Rightarrow> (mcinst \<Rightarrow> bytes) \<Rightarrow> u32 list \<Rightarrow> u32 \<Rightarrow> mc_table \<Rightarrow>
    (prebuilt_impl \<times> mc_table) res" where
  "initPrebuilt E M disassemble assemble prebuilt opcode T =
     (let (oplen, inst) = disassemble opcode in
      case initMCInstARM64 M opcode inst T of
        (Some i, T') \<Rightarrow> Inr (PI_mcinst i, T')
      | (None, T') \<Rightarrow>
          if oplen = 0 then Inr (PI_abort, T')
          else res_bind (callable E prebuilt opcode inst) (\<lambda>found. case found of
            Some i \<Rightarrow> res_bind (setup_chains E inst i) (\<lambda>chains. Inr (PI_prebuilt i chains, T'))
          | None \<Rightarrow>
              res_bind (normalize_opcode E assemble inst opcode no_registers) (\<lambda>(opc, inst', Rg).
              res_bind (callable E prebuilt opc inst') (\<lambda>found'. case found' of
                None \<Rightarrow> Inl Abort
              | Some i \<Rightarrow> res_bind (setup_chains E inst' i) (\<lambda>chains.
                  Inr (PI_mapped i chains (map (\<lambda>(a, b). (X 0 + int a, X 0 + int b)) (regmaps Rg))
                         (map (\<lambda>(a, b). (Q 0 + int a, Q 0 + int b)) (fpumaps Rg)), T'))))))"

text \<open>The numbers given to a sorted list of registers.\<close>

fun next_regs :: "Register list \<Rightarrow> Register \<Rightarrow> nat \<Rightarrow> nat list \<Rightarrow> nat list" where
  "next_regs used base ireg [] = []"
| "next_regs used base ireg (i # is) =
     (let k = nat (first_unused used (base + int ireg) - base) in k # next_regs used base (Suc k) is)"

lemma next_regs_length [simp]: "length (next_regs used base i is) = length is"
  by (induction "is" arbitrary: i) (simp_all add: Let_def)

lemma next_regs_unused:
  "sorted_wrt (<) (next_regs used base i is) \<and> (\<forall>k \<in> set (next_regs used base i is). i \<le> k \<and> base + int k \<notin> set used)"
proof (induction "is" arbitrary: i)
  case (Cons j js)
  let ?f = "first_unused used (base + int i)"
  have f: "base + int i \<le> ?f" "?f \<notin> set used" by (rule first_unused_ge, rule first_unused_notin)
  then have "int (nat (?f - base)) = ?f - base" "i \<le> nat (?f - base)" by linarith+
  with f(2) Cons.IH [of "Suc (nat (?f - base))"] show ?case by (auto simp: Let_def Suc_le_eq)
qed simp

lemma map_insert_last: "\<forall>a \<in> fst ` set m. a < k \<Longrightarrow> map_insert k v m = m @ [(k, v)]"
  by (induction m) (auto simp: map_insert_def)

lemma assign_regs_zip:
  "sorted_wrt (<) is \<Longrightarrow> \<forall>a \<in> fst ` set m. \<forall>i \<in> set is. a < i \<Longrightarrow> assign_regs used base ireg is m = m @ zip is (next_regs used base ireg is)"
  by (induction "is" arbitrary: ireg m) (auto simp: Let_def map_insert_last)

definition set_list :: "nat list \<Rightarrow> bool" where "set_list xs \<longleftrightarrow> sorted_wrt (<) xs"

lemma set_list_insert: "set_list xs \<Longrightarrow> set_list (insort_insert n xs)"
  by (simp add: set_list_def strict_sorted_iff sorted_insort_insert distinct_insort_insert)

lemma norm_scan_numbers:
  "set_list xs \<Longrightarrow> set_list qs \<Longrightarrow> norm_scan E regs (xs, qs) = (xs', qs') \<Longrightarrow>
    set_list xs' \<and> set_list qs' \<and>
    set xs' = set xs \<union> {n. \<exists>reg \<in> set regs. \<exists>out. norm_range E norm_ranges reg = Some (True, n, out)} \<and>
    set qs' = set qs \<union> {n. \<exists>reg \<in> set regs. \<exists>out. norm_range E norm_ranges reg = Some (False, n, out)}"
proof (induction regs arbitrary: xs qs)
  case (Cons reg regs)
  consider "norm_range E norm_ranges reg = None" | n out where "norm_range E norm_ranges reg = Some (True, n, out)"
    | n out where "norm_range E norm_ranges reg = Some (False, n, out)" by (metis (full_types) not_Some_eq prod_cases3)
  then show ?case
  proof cases
    case 1
    with Cons show ?thesis by auto
  next
    case (2 n out)
    with Cons.IH [of "insort_insert n xs" qs] Cons.prems show ?thesis by (auto simp: set_list_insert set_insort_insert)
  next
    case (3 n out)
    with Cons.IH [of xs "insort_insert n qs"] Cons.prems show ?thesis by (auto simp: set_list_insert set_insort_insert)
  qed
qed auto

text \<open>A fresh renaming: the registers of the instruction in order, and the numbers given to them.\<close>

definition scanned :: "reg_enum \<Rightarrow> mcinst \<Rightarrow> nat list \<times> nat list" where
  "scanned E inst = norm_scan E (reg_operands (mc_operands inst)) ([], [])"

definition fresh_maps :: "reg_enum \<Rightarrow> Register list \<Rightarrow> mcinst \<Rightarrow> (nat \<times> nat) list \<times> (nat \<times> nat) list" where
  "fresh_maps E U inst = (case scanned E inst of (xs, qs) \<Rightarrow> (zip xs (next_regs U (X 0) 0 xs), zip qs (next_regs U (Q 0) 0 qs)))"

definition renames_operand :: "reg_enum \<Rightarrow> (nat \<times> nat) list \<Rightarrow> (nat \<times> nat) list \<Rightarrow> mc_operand \<Rightarrow> mc_operand \<Rightarrow> bool" where
  "renames_operand E xm qm opr opr' \<longleftrightarrow> (case opr of
      MC_reg reg \<Rightarrow> (case norm_range E norm_ranges reg of
          None \<Rightarrow> opr' = opr
        | Some (gp, n, out) \<Rightarrow> (\<exists>k. (n, k) \<in> set (if gp then xm else qm) \<and> opr' = MC_reg (k + out)))
    | _ \<Rightarrow> opr' = opr)"

lemma reg_operands_mem: "MC_reg r \<in> set os \<Longrightarrow> r \<in> set (reg_operands os)"
  by (induction os rule: reg_operands.induct) auto

lemma scanned_facts:
  assumes "scanned E inst = (xs, qs)"
  shows "set_list xs" "set_list qs"
    "MC_reg reg \<in> set (mc_operands inst) \<Longrightarrow> norm_range E norm_ranges reg = Some (gp, n, out) \<Longrightarrow> n \<in> set (if gp then xs else qs)"
    "n \<in> set xs \<Longrightarrow> \<exists>reg out. norm_range E norm_ranges reg = Some (True, n, out)"
    "n \<in> set qs \<Longrightarrow> \<exists>reg out. norm_range E norm_ranges reg = Some (False, n, out)"
  using norm_scan_numbers [OF _ _ assms [unfolded scanned_def]]
  by (auto simp: set_list_def dest!: reg_operands_mem) metis+

lemma norm_operand_renames:
  assumes s: "scanned E inst = (xs, qs)" and m: "regmaps Rg = zip xs ks" "fpumaps Rg = zip qs js" "length ks = length xs" "length js = length qs"
    and o: "opr \<in> set (mc_operands inst)"
  shows "\<exists>opr'. norm_operand E Rg opr = Inr opr' \<and> renames_operand E (regmaps Rg) (fpumaps Rg) opr opr'"
proof (cases opr)
  case (MC_reg reg)
  show ?thesis
  proof (cases "norm_range E norm_ranges reg")
    case (Some t)
    obtain gp n out where t: "t = (gp, n, out)" by (cases t)
    have n: "n \<in> set (if gp then xs else qs)" using scanned_facts(3) [OF s _ Some [unfolded t]] o MC_reg by simp
    let ?m = "if gp then regmaps Rg else fpumaps Rg"
    have "n \<in> fst ` set ?m" using n m by (cases gp) (simp_all add: set_map [symmetric] del: set_map)
    then obtain k where k: "map_of ?m n = Some k" by (metis map_of_eq_None_iff not_Some_eq)
    from map_of_SomeD [OF k] have "(n, k) \<in> set ?m" .
    with k show ?thesis using MC_reg Some t by (auto simp: renames_operand_def)
  qed (simp add: MC_reg renames_operand_def)
qed (simp_all add: renames_operand_def)

lemma res_map_all2: "\<forall>x \<in> set xs. \<exists>y. f x = Inr y \<and> P x y \<Longrightarrow> \<exists>ys. res_map f xs = Inr ys \<and> list_all2 P xs ys"
  by (induction xs) auto

lemma normalize_fresh:
  "\<exists>inst' Rg. normalize_opcode E assemble inst opc (no_registers\<lparr>usedregs := U\<rparr>) =
      Inr (if length (assemble inst') = 4 then word_of_nat (le_val (assemble inst')) else opc, inst', Rg) \<and>
    (regmaps Rg, fpumaps Rg) = fresh_maps E U inst \<and> mc_opcode inst' = mc_opcode inst \<and>
    list_all2 (renames_operand E (regmaps Rg) (fpumaps Rg)) (mc_operands inst) (mc_operands inst')"
proof -
  obtain xs qs where s: "scanned E inst = (xs, qs)" by fastforce
  let ?ks = "next_regs U (X 0) 0 xs" and ?js = "next_regs U (Q 0) 0 qs"
  let ?R = "no_registers\<lparr>usedregs := U, regused := xs, fpuused := qs, regmaps := zip xs ?ks, fpumaps := zip qs ?js\<rparr>"
  have a: "assign_regs U (X 0) 0 xs [] = zip xs ?ks" "assign_regs U (Q 0) 0 qs [] = zip qs ?js"
    using scanned_facts(1,2) [OF s] assign_regs_zip [of xs "[]"] assign_regs_zip [of qs "[]"] by (simp_all add: set_list_def)
  have "\<forall>opr \<in> set (mc_operands inst). \<exists>opr'. norm_operand E ?R opr = Inr opr' \<and> renames_operand E (regmaps ?R) (fpumaps ?R) opr opr'"
    using norm_operand_renames [OF s, of ?R] by simp
  from res_map_all2 [OF this] obtain os where os: "res_map (norm_operand E ?R) (mc_operands inst) = Inr os"
    "list_all2 (renames_operand E (regmaps ?R) (fpumaps ?R)) (mc_operands inst) os" by blast
  let ?i = "inst\<lparr>mc_operands := os\<rparr>"
  have f: "fresh_maps E U inst = (zip xs ?ks, zip qs ?js)" by (simp add: fresh_maps_def s)
  have e: "usedregs (no_registers\<lparr>usedregs := U\<rparr>) = U" "regused (no_registers\<lparr>usedregs := U\<rparr>) = []" "fpuused (no_registers\<lparr>usedregs := U\<rparr>) = []"
    "regmaps (no_registers\<lparr>usedregs := U\<rparr>) = []" "fpumaps (no_registers\<lparr>usedregs := U\<rparr>) = []" "asmerropcs (no_registers\<lparr>usedregs := U\<rparr>) = []"
    by (simp_all add: no_registers_def)
  show ?thesis
    by (rule exI [of _ ?i], rule exI [of _ "if length (assemble ?i) = 4 then ?R else ?R\<lparr>asmerropcs := [mc_opcode inst]\<rparr>"])
      (use os s [unfolded scanned_def] a f in \<open>simp add: normalize_opcode_def e Let_def no_registers_def\<close>)
qed

text \<open>
  \<open>normalize_opcode\<close> renames.  From a fresh set of maps it always returns; an operand that is no general purpose or vector register is
  kept, every other one becomes the register of the same width whose number is the substitute of its number, in both maps the registers are in
  increasing order and so are their substitutes (two registers never share one), and no substitute is one of the registers it was told to avoid.
\<close>

lemma normalize_opcode_renames:
  "\<exists>opc' inst' Rg. normalize_opcode E assemble inst opc (no_registers\<lparr>usedregs := U\<rparr>) = Inr (opc', inst', Rg) \<and>
    list_all2 (renames_operand E (regmaps Rg) (fpumaps Rg)) (mc_operands inst) (mc_operands inst') \<and>
    sorted_wrt (<) (map fst (regmaps Rg)) \<and> sorted_wrt (<) (map snd (regmaps Rg)) \<and>
    sorted_wrt (<) (map fst (fpumaps Rg)) \<and> sorted_wrt (<) (map snd (fpumaps Rg)) \<and>
    list_all (\<lambda>k. X 0 + int k \<notin> set U) (map snd (regmaps Rg)) \<and> list_all (\<lambda>k. Q 0 + int k \<notin> set U) (map snd (fpumaps Rg))"
proof -
  obtain inst' Rg where n: "normalize_opcode E assemble inst opc (no_registers\<lparr>usedregs := U\<rparr>) =
      Inr (if length (assemble inst') = 4 then word_of_nat (le_val (assemble inst')) else opc, inst', Rg)"
    "(regmaps Rg, fpumaps Rg) = fresh_maps E U inst" "list_all2 (renames_operand E (regmaps Rg) (fpumaps Rg)) (mc_operands inst) (mc_operands inst')"
    using normalize_fresh by blast
  obtain xs qs where s: "scanned E inst = (xs, qs)" by fastforce
  have m: "regmaps Rg = zip xs (next_regs U (X 0) 0 xs)" "fpumaps Rg = zip qs (next_regs U (Q 0) 0 qs)"
    using n(2) by (simp_all add: fresh_maps_def s)
  show ?thesis using n scanned_facts(1,2) [OF s] next_regs_unused [of U] by (auto simp: m set_list_def list_all_iff dest: set_zip_rightD)
qed

text \<open>What the numbers of the register tables have in common with LLVM's: a range does not reach past the last register.\<close>

definition enum_banks :: "reg_enum \<Rightarrow> bool" where
  "enum_banks E \<longleftrightarrow> list_all (\<lambda>(lo, hi, gp, base, out). E hi - E lo + base \<le> (if gp then 30 else 31)) norm_ranges"

lemma norm_range_bound:
  "norm_range E rs reg = Some (gp, n, out) \<Longrightarrow> list_all (\<lambda>(lo, hi, gp, base, out). E hi - E lo + base \<le> (if gp then 30 else 31)) rs \<Longrightarrow>
    n \<le> (if gp then 30 else 31)"
  by (induction E rs reg rule: norm_range.induct) (auto split: if_splits)

lemma next_regs_none: "next_regs [] base i is = [i..<i + length is]"
  by (induction "is" arbitrary: i) (simp_all add: first_unused.simps upt_rec [of _ "Suc _"] del: upt_Suc)

lemma set_list_hd: "set_list xs \<Longrightarrow> 0 \<in> set xs \<Longrightarrow> \<exists>ys. xs = 0 # ys"
  by (cases xs) (auto simp: set_list_def)

definition as_pairs :: "Register \<Rightarrow> (nat \<times> nat) list \<Rightarrow> (Register \<times> Register) list" where
  "as_pairs base m = map (\<lambda>(a, b). (base + int a, base + int b)) m"

lemma as_pairs_distinct:
  "set_list xs \<Longrightarrow> distinct (map fst (as_pairs base (zip xs [0..<length xs]))) \<and> distinct (map snd (as_pairs base (zip xs [0..<length xs])))"
proof -
  assume "set_list xs"
  then have "distinct xs" by (simp add: set_list_def strict_sorted_iff)
  moreover have "map fst (as_pairs base m) = map (\<lambda>a. base + int a) (map fst m)" "map snd (as_pairs base m) = map (\<lambda>a. base + int a) (map snd m)" for m
    by (simp_all add: as_pairs_def comp_def case_prod_unfold)
  ultimately show ?thesis by (simp add: distinct_map inj_on_def del: map_map)
qed

lemma as_pairs_zero: "set_list xs \<Longrightarrow> base \<in> fst ` set (as_pairs base (zip xs ys)) \<Longrightarrow> ys = [0..<length xs] \<Longrightarrow> (base, base) \<in> set (as_pairs base (zip xs ys))"
  by (auto simp: as_pairs_def upt_rec [of 0 "Suc _"] simp del: upt_Suc dest!: set_zip_leftD set_list_hd)

text \<open>The pairs of a mapped handler.\<close>

lemma mapped_pairs:
  assumes "initPrebuilt E M disassemble assemble prebuilt opcode T = Inr (PI_mapped i ws gpr fpu, T')"
  obtains inst xs qs where "scanned E inst = (xs, qs)" "gpr = as_pairs (X 0) (zip xs [0..<length xs])" "fpu = as_pairs (Q 0) (zip qs [0..<length qs])"
proof -
  obtain oplen inst where d: "disassemble opcode = (oplen, inst)" by fastforce
  obtain xs qs where s: "scanned E inst = (xs, qs)" by fastforce
  have nr: "no_registers\<lparr>usedregs := []\<rparr> = no_registers" by (simp add: no_registers_def)
  obtain opc' inst' Rg where n: "normalize_opcode E assemble inst opcode no_registers = Inr (opc', inst', Rg)"
    "(regmaps Rg, fpumaps Rg) = fresh_maps E [] inst"
    using normalize_fresh [of E assemble inst opcode "[]"] unfolding nr by blast
  have "gpr = as_pairs (X 0) (regmaps Rg) \<and> fpu = as_pairs (Q 0) (fpumaps Rg)"
    using assms d n(1) by (auto simp: initPrebuilt_def as_pairs_def Let_def res_bind_Inr_iff split: prod.splits option.splits if_splits)
  with n(2) that [OF s] show ?thesis by (simp add: fresh_maps_def s next_regs_none)
qed

text \<open>
  C37: results in register 0 are lost.  The handler that \<open>initPrebuilt\<close> sets up for a renamed opcode gives out the substitutes without
  avoiding the registers of the instruction, so an instruction on x0 (or q0) has it as its own substitute, and after the execution
  the register holds the value it had before, whatever the copy of the opcode computes.
\<close>

theorem mapped_register_zero_is_lost:
  assumes init: "initPrebuilt E M disassemble assemble prebuilt opcode T = Inr (PI_mapped i ws gpr fpu, T')"
    and "enum_banks E" and "length gpr \<le> 8" and "length fpu \<le> 8" and inv: "a64_inv c"
    and exec: "\<And>d. a64_inv d \<Longrightarrow> a64_inv (exec d)"
    and r: "r \<in> {X 0, Q 0}" "r \<in> fst ` set (gpr @ fpu)"
  shows "\<exists>c'. execPrebuiltMapped exec gpr fpu c = Inr c' \<and> cell_rd c' r = cell_rd c r"
proof -
  obtain inst xs qs where s: "scanned E inst = (xs, qs)" and g: "gpr = as_pairs (X 0) (zip xs [0..<length xs])" and f: "fpu = as_pairs (Q 0) (zip qs [0..<length qs])"
    by (rule mapped_pairs [OF init])
  note sf = scanned_facts [OF s]
  have len: "length xs \<le> 8" "length qs \<le> 8" using assms(3,4) by (simp_all add: g f as_pairs_def)
  have b: "n \<in> set xs \<Longrightarrow> n \<le> 30" "n \<in> set qs \<Longrightarrow> n \<le> 31" for n
    using norm_range_bound [OF _ assms(2) [unfolded enum_banks_def]] sf(4,5) by fastforce+
  have x: "\<forall>(a, b) \<in> set gpr. is_x a \<and> is_x b"
    using b(1) len(1) by (fastforce simp: g as_pairs_def reg_class_defs dest: set_zip_leftD set_zip_rightD)
  have q: "\<forall>(a, b) \<in> set fpu. is_q a \<and> is_q b"
    using b(2) len(2) by (fastforce simp: f as_pairs_def reg_class_defs dest: set_zip_leftD set_zip_rightD)
  have ne: "is_x a \<Longrightarrow> is_q a \<Longrightarrow> False" for a by (simp add: reg_class_defs)
  have zx: "\<not> is_q (X 0)" "\<not> is_x (Q 0)" by (simp_all add: reg_class_defs)
  have z: "X 0 \<in> fst ` set gpr \<Longrightarrow> (X 0, X 0) \<in> set gpr" "Q 0 \<in> fst ` set fpu \<Longrightarrow> (Q 0, Q 0) \<in> set fpu"
    using as_pairs_zero [OF sf(1) _ refl, of "X 0"] as_pairs_zero [OF sf(2) _ refl, of "Q 0"] by (simp_all flip: g f)
  have "X 0 \<notin> fst ` set fpu" "Q 0 \<notin> fst ` set gpr" using x q zx by fastforce+
  then have self: "(r, r) \<in> set (gpr @ fpu)" using r z unfolding set_append image_Un by blast
  have "a \<noteq> a' \<and> b \<noteq> b'" if "(a, b) \<in> set gpr" "(a', b') \<in> set fpu" for a b a' b' using that x q ne by fast
  then have d: "distinct (map fst (gpr @ fpu))" "distinct (map snd (gpr @ fpu))"
    using as_pairs_distinct [OF sf(1), of "X 0"] as_pairs_distinct [OF sf(2), of "Q 0"] by (auto simp flip: g f)
  have c: "\<forall>(a, b) \<in> set (gpr @ fpu). guest_cell a \<and> guest_cell b" using x q by (auto simp: guest_cell_def)
  obtain vs c1 where "swap_in cell_rd cell_wr (gpr @ fpu) c = (vs, c1)" by fastforce
  with guest_regs.self_mapped [OF inv c d self this exec] show ?thesis by (simp add: mapped_cells [OF x q assms(3,4)])
qed

text \<open>An instruction on x0 and x5 whose renamed form, on x0 and x1, is the only one in the table.\<close>

definition pair_inst :: mcinst where
  "pair_inst = \<lparr>mc_opcode = MC_other 9, mc_operands = [MC_reg 100, MC_reg 105]\<rparr>"

definition mc_env0 :: mc_env where "mc_env0 = \<lparr>mc_D0 = 200, mc_Q0 = 300, mc_SP = 400\<rparr>"

lemma pair_norm_range: "norm_range reg_enum0 norm_ranges 100 = Some (True, 0, 100)" "norm_range reg_enum0 norm_ranges 105 = Some (True, 5, 100)"
  by (simp_all add: norm_ranges_def reg_enum0_def)

lemma pair_normalized:
  "normalize_opcode reg_enum0 (\<lambda>_. [1, 0, 0, 0]) pair_inst 7 no_registers =
     Inr (1, pair_inst\<lparr>mc_operands := [MC_reg 100, MC_reg 101]\<rparr>,
       no_registers\<lparr>regused := [0, 5], regmaps := [(0, 0), (5, 1)]\<rparr>)"
  by (simp add: normalize_opcode_def pair_inst_def no_registers_def pair_norm_range insort_insert_key_def first_unused.simps map_insert_def)

lemma pair_init:
  "\<exists>ws. initPrebuilt reg_enum0 mc_env0 (\<lambda>_. (4, pair_inst)) (\<lambda>_. [1, 0, 0, 0]) [1] 7 \<lparr>mc_insts = [], mc_instmap = Map.empty\<rparr> =
     Inr (PI_mapped 0 ws [(X 0, X 0), (X 5, X 1)] [], \<lparr>mc_insts = [], mc_instmap = Map.empty\<rparr>)"
proof -
  let ?i = "pair_inst\<lparr>mc_operands := [MC_reg 100, MC_reg 101]\<rparr>"
  have c: "callable reg_enum0 [1] 7 pair_inst = Inr None" "callable reg_enum0 [1] 1 ?i = Inr (Some 0)"
    by (simp_all add: callable_def reserved_operand_def pair_inst_def reg_enum0_def binary_search_def binary_search_loop.simps is_exact_def)
  have u: "parse_regused_a64 reg_enum0 ?i = [2, 3]"
    by (simp add: parse_regused_a64_def pair_inst_def reg_enum0_def a64_operand_regs_def a64_ranges_def set_insert_all_def X_def Q_def insort_insert_key_def)
  have "regcpu_a64 [2, 3] = 26" by (rule regcpu_is_26) (simp add: X_def)
  then obtain ws where "setup_chains reg_enum0 ?i 0 = Inr ws" by (simp add: setup_chains_def u Let_def)
  then show ?thesis
    by (simp add: initPrebuilt_def initMCInstARM64_def c pair_normalized) (simp add: pair_inst_def mc_env0_def no_registers_def X_def)
qed

theorem mapped_register_zero_is_lost_witness:
  "\<exists>ws c'. initPrebuilt reg_enum0 mc_env0 (\<lambda>_. (4, pair_inst)) (\<lambda>_. [1, 0, 0, 0]) [1] 7 \<lparr>mc_insts = [], mc_instmap = Map.empty\<rparr> =
      Inr (PI_mapped 0 ws [(X 0, X 0), (X 5, X 1)] [], \<lparr>mc_insts = [], mc_instmap = Map.empty\<rparr>) \<and>
    execPrebuiltMapped inc_exec [(X 0, X 0), (X 5, X 1)] [] cpu0 = Inr c' \<and> cell_rd c' (X 0) = (0, 0)"
proof -
  obtain ws where ws: "initPrebuilt reg_enum0 mc_env0 (\<lambda>_. (4, pair_inst)) (\<lambda>_. [1, 0, 0, 0]) [1] 7 \<lparr>mc_insts = [], mc_instmap = Map.empty\<rparr> =
      Inr (PI_mapped 0 ws [(X 0, X 0), (X 5, X 1)] [], \<lparr>mc_insts = [], mc_instmap = Map.empty\<rparr>)" using pair_init by blast
  have e: "enum_banks reg_enum0" by (simp add: enum_banks_def norm_ranges_def reg_enum0_def)
  have z: "cell_rd cpu0 (X 0) = (0, 0)" using x_cells by (simp add: cell_rd_mem cpu0_def)
  from mapped_register_zero_is_lost [OF ws e _ _ cpu0_inv(1) inc_exec_rd(3), where r = "X 0"] ws z show ?thesis by auto
qed

section \<open>The table of compiled-in opcodes\<close>






















end
