(* ===== verification/Lifter.thy ===== *)
theory Lifter
  imports Facade PrebuiltOpcode "HOL-Library.List_Lexorder" "HOL-Library.Char_ord"
begin

text \<open>
  The lifter of \<open>src/Lifter.cpp\<close> and the handler tables of \<open>src/Handler.cpp\<close>: which function is made for an opcode, how the functions it
  calls are found, and how the code generated for all of them becomes the entries that \<open>Orchestrator::encode\<close> uses.  Decoding and lifting an
  instruction (Remill), generating an object (LLVM) and encoding a branch (AetherBinary) are parameters.
\<close>

section \<open>Handler tables\<close>

type_synonym handler_table = "(u64 \<times> u64) list" \<comment> \<open>hash of the name, address\<close>

text \<open>
  \<open>load_handler\<close>: a table that has its size already is left alone.  The order of entries with equal hashes is not specified by
  \<open>std::sort\<close>; the model takes the one that keeps their order.
\<close>

definition load_handler :: "(string \<Rightarrow> u64) \<Rightarrow> (string \<times> u64) list \<Rightarrow> handler_table \<Rightarrow> handler_table" where
  "load_handler hash raw handlers =
     (if length handlers = length raw then handlers else sort_key fst (map (\<lambda>(name, impl). (hash name, impl)) raw))"

record handler_tables =
  ht_aarch64 :: handler_table
  ht_x86 :: handler_table
  ht_intrinsic :: handler_table

definition loadAArch64 :: "(string \<Rightarrow> u64) \<Rightarrow> (string \<times> u64) list \<Rightarrow> (string \<times> u64) list \<Rightarrow> handler_tables \<Rightarrow> handler_tables" where
  "loadAArch64 hash raw intr T = T\<lparr>ht_aarch64 := load_handler hash raw (ht_aarch64 T), ht_intrinsic := load_handler hash intr (ht_intrinsic T)\<rparr>"

definition loadX86 :: "(string \<Rightarrow> u64) \<Rightarrow> (string \<times> u64) list \<Rightarrow> (string \<times> u64) list \<Rightarrow> handler_tables \<Rightarrow> handler_tables" where
  "loadX86 hash raw intr T = T\<lparr>ht_x86 := load_handler hash raw (ht_x86 T), ht_intrinsic := load_handler hash intr (ht_intrinsic T)\<rparr>"

text \<open>The intrinsics, in the order of the table; \<open>fn\<close> gives the address of the function of a name.\<close>

definition HandlerIntrinsic_names :: "string list" where
  "HandlerIntrinsic_names =
     [''__remill_aarch32_check_not_el2'', ''__remill_aarch32_emulate_instruction'', ''__remill_aarch64_emulate_instruction'',
      ''__remill_amd64_set_control_reg_0'', ''__remill_amd64_set_control_reg_1'', ''__remill_amd64_set_control_reg_2'',
      ''__remill_amd64_set_control_reg_3'', ''__remill_amd64_set_control_reg_4'', ''__remill_amd64_set_control_reg_8'',
      ''__remill_amd64_set_debug_reg'', ''__remill_async_hyper_call'', ''__remill_atomic_begin'', ''__remill_atomic_end'',
      ''__remill_barrier_load_load'', ''__remill_barrier_load_store'', ''__remill_barrier_store_load'', ''__remill_barrier_store_store'',
      ''__remill_compare_eq'', ''__remill_compare_exchange_memory_128'', ''__remill_compare_exchange_memory_16'',
      ''__remill_compare_exchange_memory_32'', ''__remill_compare_exchange_memory_64'', ''__remill_compare_exchange_memory_8'',
      ''__remill_compare_neq'', ''__remill_compare_sge'', ''__remill_compare_sgt'', ''__remill_compare_sle'', ''__remill_compare_slt'',
      ''__remill_compare_uge'', ''__remill_compare_ugt'', ''__remill_compare_ule'', ''__remill_compare_ult'', ''__remill_defer_inlining'',
      ''__remill_delay_slot_begin'', ''__remill_delay_slot_end'', ''__remill_error'', ''__remill_fetch_and_add_16'', ''__remill_fetch_and_add_32'',
      ''__remill_fetch_and_add_64'', ''__remill_fetch_and_add_8'', ''__remill_fetch_and_and_16'', ''__remill_fetch_and_and_32'',
      ''__remill_fetch_and_and_64'', ''__remill_fetch_and_and_8'', ''__remill_fetch_and_or_16'', ''__remill_fetch_and_or_32'',
      ''__remill_fetch_and_or_64'', ''__remill_fetch_and_or_8'', ''__remill_fetch_and_sub_16'', ''__remill_fetch_and_sub_32'',
      ''__remill_fetch_and_sub_64'', ''__remill_fetch_and_sub_8'', ''__remill_fetch_and_xor_16'', ''__remill_fetch_and_xor_32'',
      ''__remill_fetch_and_xor_64'', ''__remill_fetch_and_xor_8'', ''__remill_flag_computation_carry'', ''__remill_flag_computation_overflow'',
      ''__remill_flag_computation_sign'', ''__remill_flag_computation_zero'', ''__remill_fpu_exception_clear'', ''__remill_fpu_exception_raise'',
      ''__remill_fpu_exception_test'', ''__remill_fpu_get_rounding'', ''__remill_fpu_set_rounding'', ''__remill_function_call'',
      ''__remill_function_return'', ''__remill_jump'', ''__remill_mark_as_used'', ''__remill_missing_block'', ''__remill_read_io_port_16'',
      ''__remill_read_io_port_32'', ''__remill_read_io_port_8'', ''__remill_read_memory_16'', ''__remill_read_memory_32'',
      ''__remill_read_memory_64'', ''__remill_read_memory_8'', ''__remill_read_memory_f128'', ''__remill_read_memory_f32'',
      ''__remill_read_memory_f64'', ''__remill_read_memory_f80'', ''__remill_sparc32_emulate_instruction'', ''__remill_sparc64_emulate_instruction'',
      ''__remill_sparc_set_asi_register'', ''__remill_sparc_trap_cond_a'', ''__remill_sparc_trap_cond_cc'', ''__remill_sparc_trap_cond_cs'',
      ''__remill_sparc_trap_cond_e'', ''__remill_sparc_trap_cond_g'', ''__remill_sparc_trap_cond_ge'', ''__remill_sparc_trap_cond_gu'',
      ''__remill_sparc_trap_cond_l'', ''__remill_sparc_trap_cond_le'', ''__remill_sparc_trap_cond_leu'', ''__remill_sparc_trap_cond_n'',
      ''__remill_sparc_trap_cond_ne'', ''__remill_sparc_trap_cond_neg'', ''__remill_sparc_trap_cond_pos'', ''__remill_sparc_trap_cond_vc'',
      ''__remill_sparc_trap_cond_vs'', ''__remill_sparc_unhandled_dcti'', ''__remill_sparc_unimplemented_instruction'',
      ''__remill_sparc_window_underflow'', ''__remill_sync_hyper_call'', ''__remill_undefined_16'', ''__remill_undefined_32'',
      ''__remill_undefined_64'', ''__remill_undefined_8'', ''__remill_undefined_f128'', ''__remill_undefined_f32'', ''__remill_undefined_f64'',
      ''__remill_undefined_f80'', ''__remill_write_io_port_16'', ''__remill_write_io_port_32'', ''__remill_write_io_port_8'',
      ''__remill_write_memory_16'', ''__remill_write_memory_32'', ''__remill_write_memory_64'', ''__remill_write_memory_8'',
      ''__remill_write_memory_f128'', ''__remill_write_memory_f32'', ''__remill_write_memory_f64'', ''__remill_write_memory_f80'',
      ''__remill_x86_set_control_reg_0'', ''__remill_x86_set_control_reg_1'', ''__remill_x86_set_control_reg_2'', ''__remill_x86_set_control_reg_3'',
      ''__remill_x86_set_control_reg_4'', ''__remill_x86_set_debug_reg'', ''__remill_x86_set_segment_ds'', ''__remill_x86_set_segment_es'',
      ''__remill_x86_set_segment_fs'', ''__remill_x86_set_segment_gs'', ''__remill_x86_set_segment_ss'']"

definition HandlerIntrinsic :: "(string \<Rightarrow> u64) \<Rightarrow> (string \<times> u64) list" where
  "HandlerIntrinsic fn = map (\<lambda>name. (name, fn name)) HandlerIntrinsic_names"

lemma HandlerIntrinsic_distinct: "distinct HandlerIntrinsic_names"
proof -
  have "successively (<) HandlerIntrinsic_names" unfolding HandlerIntrinsic_names_def by (simp add: less_char_def)
  then have "sorted_wrt (<) HandlerIntrinsic_names" by (simp add: successively_conv_sorted_wrt transp_on_less)
  then show ?thesis by (simp only: strict_sorted_iff)
qed

text \<open>\<open>find_target\<close>: the address for a name, \<open>abort\<close> when there is none.\<close>

definition find_target :: "(string \<Rightarrow> u64) \<Rightarrow> u64 \<Rightarrow> handler_table \<Rightarrow> string \<Rightarrow> u64 res" where
  "find_target hash abort_fn tab name =
     (let key = (hash name, 0) in
      res_bind (binary_search (\<lambda>x y. fst x < fst y) tab (length tab) key) (\<lambda>found.
      res_bind (is_exact (\<lambda>x y. fst x = fst y) found tab (length tab) key) (\<lambda>exact.
      Inr (if exact then snd (tab ! found) else abort_fn))))"

section \<open>Making a function for an opcode\<close>

text \<open>
  \<open>le_valid\<close>: Remill decodes the bytes; \<open>le_lifts\<close>: it lifts the decoded instruction; \<open>le_calls\<close>: the functions the lifted code calls.
  \<open>le_branch from to call\<close> and \<open>le_patch\<close> are \<open>genBranchOpcode\<close> and \<open>patchCallOffset\<close>.
\<close>

record lift_env =
  le_host_arm64 :: bool
  le_guest_arm64 :: bool
  le_windows :: bool
  le_valid :: "bytes \<Rightarrow> bool"
  le_lifts :: "bytes \<Rightarrow> bool"
  le_calls :: "bytes \<Rightarrow> string list"
  le_hash :: "string \<Rightarrow> u64"
  le_isel :: handler_table
  le_intrinsic :: handler_table
  le_abort :: u64
  le_regs :: reg_enum
  le_a64 :: "a64_field \<Rightarrow> nat"
  le_x86 :: "x86_field \<Rightarrow> nat"
  le_branch :: "u64 \<Rightarrow> u64 \<Rightarrow> bool \<Rightarrow> u32"
  le_patch :: "u64 \<Rightarrow> u64 \<Rightarrow> u64 \<Rightarrow> mem \<Rightarrow> mem"

datatype lifted_body = NativeA64 "a64_line list" | NativeX64 "x86_line list" | Semantics bytes string \<comment> \<open>opcode, final call\<close>

text \<open>
  The lifter and the static members of its class: the handlers of the guest's architecture by their 16 bytes, the handler a name belongs to, the functions and the
  trampolines of the module, and the pages of generated code.
\<close>

record lifter =
  lt_handlers :: "bytes \<rightharpoonup> u64"
  lt_names :: "string \<rightharpoonup> bytes"
  lt_funcs :: "(string \<times> lifted_body) list"
  lt_tramps :: "string \<rightharpoonup> u64"
  lt_pages :: "(u64 \<times> u64) list"

definition dyn_prefix :: string where "dyn_prefix = ''aethervm_''"

definition hex2 :: "u8 \<Rightarrow> string" where
  "hex2 b = [''0123456789abcdef'' ! (unat b div 16), ''0123456789abcdef'' ! (unat b mod 16)]"

definition lift_name :: "bytes \<Rightarrow> string" where
  "lift_name opcode = dyn_prefix @ concat (map hex2 opcode)"

definition has_prefix :: "string \<Rightarrow> string \<Rightarrow> bool" where
  "has_prefix p name \<longleftrightarrow> take (length p) name = p"

text \<open>
  The event before lifting.  A callback that processed it has changed the opcode to its own, of at most 16 bytes; from then on the opcode is the one in the
  event, which later callbacks see and may change again.
\<close>

definition lift_before :: "callback list \<Rightarrow> u64 \<Rightarrow> bytes \<Rightarrow> cpu \<Rightarrow> (nat option \<times> Event \<times> cpu) res" where
  "lift_before cbs addr opcode c =
     (if cbs = [] then Inr (None, EventLift LiftBefore addr (replicate 16 0) (length opcode) '''', c)
      else case handleEvent cbs (EventLift LiftBefore addr (Orchestrator.opc16 opcode) (length opcode) '''') c of
        (r, EventLift ty a bs n nm, c') \<Rightarrow> Inr (if r = Processed then Some n else None, EventLift ty a bs n nm, c')
      | _ \<Rightarrow> Inl Undefined)"

fun cur_opcode :: "bytes \<Rightarrow> nat option \<Rightarrow> Event \<Rightarrow> bytes res" where
  "cur_opcode opcode None e = Inr opcode"
| "cur_opcode opcode (Some n) (EventLift ty a bs k nm) = (if n \<le> length bs then Inr (take n bs) else Inl OutOfBounds)"
| "cur_opcode opcode (Some n) _ = Inl Undefined"

definition lift_after :: "callback list \<Rightarrow> string \<Rightarrow> Event \<times> cpu \<Rightarrow> (Event \<times> cpu) res" where
  "lift_after cbs nm ec =
     (if cbs = [] then Inr ec
      else case fst ec of
        EventLift ty a bs n _ \<Rightarrow> (case handleEvent cbs (EventLift LiftAfter a bs n nm) (snd ec) of (_, e, c) \<Rightarrow> Inr (e, c))
      | _ \<Rightarrow> Inl Undefined)"

text \<open>\<open>create_trampoline\<close>: one for every called function; all calls of the function go to it.\<close>

definition create_trampoline :: "string \<Rightarrow> u64 \<Rightarrow> lifter \<Rightarrow> lifter" where
  "create_trampoline name target s =
     (if lt_tramps s (dyn_prefix @ name) \<noteq> None then s else s\<lparr>lt_tramps := (lt_tramps s)(dyn_prefix @ name \<mapsto> target)\<rparr>)"

function resolve_calls :: "lift_env \<Rightarrow> callback list \<Rightarrow> string list \<Rightarrow> lifter \<Rightarrow> Event \<times> cpu \<Rightarrow> (lifter \<times> Event \<times> cpu) res" where
  "resolve_calls E cbs [] s ec = Inr (s, ec)"
| "resolve_calls E cbs (name # names) s ec =
     (if has_prefix dyn_prefix name then resolve_calls E cbs names s ec
      else if has_prefix ''.'' name then
        res_bind (find_target (le_hash E) (le_abort E) (le_isel E) (drop 6 name)) (\<lambda>target.
        res_bind (lift_after cbs (if target = le_abort E then ''abort'' else drop 6 name) ec) (\<lambda>ec'.
        resolve_calls E cbs (removeAll name names) (create_trampoline name target s) ec'))
      else
        res_bind (find_target (le_hash E) (le_abort E) (le_intrinsic E) name) (\<lambda>target.
        resolve_calls E cbs (removeAll name names) (create_trampoline name target s) ec))"
  by pat_completeness auto
termination
  by (relation "measure (\<lambda>(E, cbs, names, s, ec). length names)") (auto simp: le_imp_less_Suc length_removeAll_less_eq)

text \<open>The raw instruction on a host of the guest's architecture.  The registers are those of the decoded original opcode.\<close>

definition native_body :: "lift_env \<Rightarrow> mcinst \<Rightarrow> bytes \<Rightarrow> lifted_body res" where
  "native_body E inst opcode =
     (if le_host_arm64 E then res_bind (nativeHandlerAArch64 (le_regs E) (le_a64 E) inst opcode) (\<lambda>ls. Inr (NativeA64 ls))
      else res_bind (nativeHandlerX64 (le_windows E) (le_regs E) (le_x86 E) inst opcode) (\<lambda>ls. Inr (NativeX64 ls)))"

definition add_func :: "string \<Rightarrow> lifted_body \<Rightarrow> lifter \<Rightarrow> lifter" where
  "add_func name b s = s\<lparr>lt_funcs := lt_funcs s @ [(name, b)]\<rparr>"

text \<open>Both native branches of \<open>transform\<close>: the event, then the code.\<close>

definition emit_native :: "lift_env \<Rightarrow> callback list \<Rightarrow> mcinst \<Rightarrow> bytes \<Rightarrow> nat option \<Rightarrow> string \<Rightarrow> lifter \<Rightarrow> Event \<times> cpu \<Rightarrow> (lifter \<times> cpu) res" where
  "emit_native E cbs inst opcode custom name s ec =
     res_bind (cur_opcode opcode custom (fst ec)) (\<lambda>opc.
     res_bind (native_body E inst opc) (\<lambda>b. Inr (add_func name b s, snd ec)))"

definition same_arch :: "lift_env \<Rightarrow> bool" where
  "same_arch E \<longleftrightarrow> le_host_arm64 E = le_guest_arm64 E"

text \<open>From the point where Remill is asked to lift the decoded instruction \<open>opc\<close>.\<close>

definition lift_decoded :: "lift_env \<Rightarrow> callback list \<Rightarrow> mcinst \<Rightarrow> bytes \<Rightarrow> nat option \<Rightarrow> bytes \<Rightarrow> string \<Rightarrow> lifter \<Rightarrow> Event \<times> cpu \<Rightarrow> (lifter \<times> cpu) res" where
  "lift_decoded E cbs inst opcode custom opc name s ec =
     (let finish = (\<lambda>tailcall ec. res_bind (resolve_calls E cbs (le_calls E opc @ [tailcall]) (add_func name (Semantics opc tailcall) s) ec)
        (\<lambda>(s', ec'). Inr (s', snd ec'))) in
      if le_lifts E opc then finish ''__remill_function_return'' ec
      else res_bind (lift_after cbs ''AetherVM_NativeImpl'' ec) (\<lambda>ec'.
        if same_arch E then emit_native E cbs inst opcode custom name s ec' else finish ''__remill_error'' ec'))"

definition transform :: "lift_env \<Rightarrow> callback list \<Rightarrow> mcinst \<Rightarrow> bytes \<Rightarrow> u64 \<Rightarrow> lifter \<Rightarrow> cpu \<Rightarrow> (lifter \<times> cpu) res" where
  "transform E cbs inst opcode addr s c =
     (if 16 < length opcode then Inl OutOfBounds
      else
        let key = Orchestrator.opc16 opcode in
        if lt_handlers s key \<noteq> None then Inr (s, c)
        else res_bind (lift_before cbs addr opcode c) (\<lambda>(custom, e, c1).
          res_bind (cur_opcode opcode custom e) (\<lambda>opc.
          let name = lift_name opc;
              s1 = s\<lparr>lt_handlers := (lt_handlers s)(key \<mapsto> le_abort E),
                     lt_names := (if lt_names s name = None then (lt_names s)(name \<mapsto> key) else lt_names s)\<rparr> in
          if le_valid E opc then lift_decoded E cbs inst opcode custom opc name s1 (e, c1)
          else res_bind (lift_after cbs ''AetherVM_NativeImpl'' (e, c1)) (\<lambda>ec.
            if same_arch E then emit_native E cbs inst opcode custom name s1 ec
            else lift_decoded E cbs inst opcode custom opc name s1 ec))))"

definition canLift :: "lift_env \<Rightarrow> bytes \<Rightarrow> bool" where
  "canLift E opcode \<longleftrightarrow> le_valid E opcode \<and> le_lifts E opcode"

section \<open>Installing the generated code\<close>

text \<open>
  The object as LLVM reads it: sections with relocations (offset, value and name of the symbol, when they can be read) and contents, and symbols.
\<close>

record obj_section =
  sec_name :: "string option"
  sec_relocs :: "(u64 \<times> u64 option \<times> string option) list"
  sec_contents :: "bytes option"
  sec_address :: u64

record obj_symbol =
  sym_function :: bool
  sym_excluded :: bool \<comment> \<open>undefined, common, indirect or format specific\<close>
  sym_address :: "u64 option"
  sym_name :: "string option"

record obj_file =
  ob_sections :: "obj_section list"
  ob_symbols :: "obj_symbol list"

record text_scan =
  ts_addr :: u64
  ts_text :: bytes
  ts_refs :: "(u64 \<times> u64) list"
  ts_jumps :: "u64 set"

definition contains :: "string \<Rightarrow> string \<Rightarrow> bool" where
  "contains p name \<longleftrightarrow> (\<exists>i \<in> set [0..<Suc (length name)]. has_prefix p (drop i name))"

definition scan_reloc :: "u64 \<times> u64 option \<times> string option \<Rightarrow> text_scan \<Rightarrow> text_scan" where
  "scan_reloc r t = (case r of
      (from, Some to, Some name) \<Rightarrow>
        let t1 = (if contains ''__remill'' name then t\<lparr>ts_jumps := insert from (ts_jumps t)\<rparr> else t) in
        if contains dyn_prefix name then t1\<lparr>ts_refs := map_insert from to (ts_refs t1)\<rparr> else t1
    | _ \<Rightarrow> t)"

definition scan_section :: "obj_section \<Rightarrow> text_scan \<Rightarrow> text_scan" where
  "scan_section sec t =
     (if sec_name sec \<in> {Some ''.text'', Some ''__text'', Some ''.rela.text''} then
        let t1 = fold scan_reloc (sec_relocs sec) t in
        if sec_name sec \<noteq> Some ''.rela.text'' then (case sec_contents sec of None \<Rightarrow> t1 | Some bs \<Rightarrow> t1\<lparr>ts_text := bs, ts_addr := sec_address sec\<rparr>) else t1
      else t)"

definition patch_ref :: "lift_env \<Rightarrow> u64 \<Rightarrow> u64 set \<Rightarrow> u64 \<times> u64 \<Rightarrow> mem \<Rightarrow> mem" where
  "patch_ref E page js r m = (case r of (from, to) \<Rightarrow>
     if le_host_arm64 E then mem_write m (page + from) (le_bytes 4 (unat (le_branch E from to (from \<notin> js))))
     else le_patch E (page + (from - 1)) (from - 1) to m)"

definition isxdigit :: "char \<Rightarrow> bool" where
  "isxdigit ch \<longleftrightarrow> ch \<in> set ''0123456789abcdefABCDEF''"

text \<open>The name of a lifted function: a leading underscore of the object format is dropped; a hexadecimal digit follows the prefix.\<close>

definition symbol_key :: "obj_symbol \<Rightarrow> string option" where
  "symbol_key y =
     (if sym_function y \<and> \<not> sym_excluded y \<and> sym_address y \<noteq> None then
        (case sym_name y of
           None \<Rightarrow> None
         | Some nm \<Rightarrow>
             let name = (if has_prefix ''_'' nm then drop 1 nm else nm); rest = drop (length dyn_prefix) name in
             if has_prefix dyn_prefix name \<and> rest \<noteq> [] \<and> isxdigit (hd rest) then Some name else None)
      else None)"

definition reset_entry :: "u64 \<Rightarrow> u64 \<Rightarrow> obj_symbol \<Rightarrow> lifter \<Rightarrow> lifter" where
  "reset_entry page textaddr y s =
     (case symbol_key y of
        None \<Rightarrow> s
      | Some name \<Rightarrow>
          (case lt_names s name of
             None \<Rightarrow> s
           | Some key \<Rightarrow> s\<lparr>lt_handlers := (lt_handlers s)(key \<mapsto> page + the (sym_address y) - textaddr)\<rparr>))"

text \<open>
  \<open>page_alloc\<close> gives the page for a size; \<open>commit\<close> is asked for a range with the rights to read, write and execute.
\<close>

definition apply_object :: "lift_env \<Rightarrow> u64 \<Rightarrow> (u64 \<Rightarrow> u64) \<Rightarrow> (u64 \<Rightarrow> u64 \<Rightarrow> bool \<Rightarrow> bool \<Rightarrow> bool \<Rightarrow> bool) \<Rightarrow> obj_file option \<Rightarrow> lifter \<Rightarrow> mem \<Rightarrow> lifter \<times> mem" where
  "apply_object E page_size page_alloc page_commit obj s m =
     (case obj of
        None \<Rightarrow> (s, m)
      | Some ob \<Rightarrow>
          let t = fold scan_section (ob_sections ob) \<lparr>ts_addr = 0, ts_text = [], ts_refs = [], ts_jumps = {}\<rparr> in
          if ts_text t = [] then (s, m)
          else
            let pagesize = align_up (word_of_nat (length (ts_text t))) page_size; page = page_alloc pagesize in
            if \<not> page_commit page pagesize True True False then (s, m)
            else
              let m1 = fold (patch_ref E page (ts_jumps t)) (ts_refs t) (mem_write m page (ts_text t)) in
              if \<not> page_commit page pagesize True False True then (s, m1)
              else (fold (reset_entry page (ts_addr t)) (ob_symbols ob) (s\<lparr>lt_pages := map_insert page pagesize (lt_pages s)\<rparr>), m1))"

text \<open>\<open>clear\<close>: the lifted functions leave the module, trampolines stay.\<close>

definition clear_lifted :: "lifter \<Rightarrow> lifter" where
  "clear_lifted s = s\<lparr>lt_funcs := filter (\<lambda>(name, b). \<not> (has_prefix dyn_prefix name \<and> drop (length dyn_prefix) name \<noteq> [] \<and>
     isxdigit (hd (drop (length dyn_prefix) name)))) (lt_funcs s)\<rparr>"

text \<open>The life of a lifter: \<open>liftOpcodes\<close> makes one, hands it the instructions, and destroys it; \<open>generate_object\<close> compiles the module.\<close>

fun transform_all :: "lift_env \<Rightarrow> callback list \<Rightarrow> (mcinst \<times> bytes \<times> u64) list \<Rightarrow> lifter \<Rightarrow> cpu \<Rightarrow> (lifter \<times> cpu) res" where
  "transform_all E cbs [] s c = Inr (s, c)"
| "transform_all E cbs ((inst, opcode, addr) # is) s c = res_bind (transform E cbs inst opcode addr s c) (\<lambda>(s', c'). transform_all E cbs is s' c')"

definition new_lifter :: "lifter \<Rightarrow> lifter" where
  "new_lifter s = s\<lparr>lt_names := Map.empty\<rparr>"

definition destroy_lifter ::
  "lift_env \<Rightarrow> u64 \<Rightarrow> (u64 \<Rightarrow> u64) \<Rightarrow> (u64 \<Rightarrow> u64 \<Rightarrow> bool \<Rightarrow> bool \<Rightarrow> bool \<Rightarrow> bool) \<Rightarrow> ((string \<times> lifted_body) list \<Rightarrow> obj_file option) \<Rightarrow> lifter \<Rightarrow> mem \<Rightarrow> lifter \<times> mem" where
  "destroy_lifter E page_size page_alloc page_commit generate_object s m =
     (case apply_object E page_size page_alloc page_commit (generate_object (lt_funcs s)) s m of (s', m') \<Rightarrow> (clear_lifted s', m'))"

section \<open>Lookup\<close>

interpretation handler_order: search_order "\<lambda>x y :: u64 \<times> u64. fst x < fst y"
  by (rule search_order_key)

lemma find_target_sorted:
  assumes "sorted (map fst tab)" and "tab \<noteq> []" and d: "distinct (map fst tab)"
  shows "find_target hash ab tab name = Inr (case map_of tab (hash name) of None \<Rightarrow> ab | Some impl \<Rightarrow> impl)"
proof -
  have s: "sorted_by (\<lambda>x y. fst x < fst y) tab" using assms(1) by (simp add: sorted_by_key)
  obtain i where i: "binary_search (\<lambda>x y. fst x < fst y) tab (length tab) (hash name, 0) = Inr i" "split_at (\<lambda>x y. fst x < fst y) tab (hash name, 0) i"
    using handler_order.search_split [OF s assms(2)] by blast
  show ?thesis
  proof (cases "i < length tab \<and> fst (tab ! i) = hash name")
    case True
    then have "map_of tab (hash name) = Some (snd (tab ! i))" using d by (metis map_of_eq_Some_iff nth_mem prod.collapse)
    with True i(1) show ?thesis by (auto simp: find_target_def is_exact_def)
  next
    case False
    have "hash name \<notin> fst ` set tab"
    proof
      assume "hash name \<in> fst ` set tab"
      then obtain j where j: "j < length tab" "fst (tab ! j) = hash name" by (auto simp: in_set_conv_nth)
      with handler_order.search_hit_iff [OF s assms(2) i(1)] have "i < length tab" "\<not> hash name < fst (tab ! i)" by (force simp: in_set_conv_nth)+
      moreover from i(2) \<open>i < length tab\<close> have "\<not> fst (tab ! i) < hash name" by (simp add: split_at_def)
      ultimately show False using False by simp
    qed
    then have "map_of tab (hash name) = None" by (simp add: map_of_eq_None_iff)
    moreover have "i \<le> length tab" using i(2) by (simp add: split_at_def)
    ultimately show ?thesis using False i(1) by (cases "i = length tab") (simp_all add: find_target_def is_exact_def)
  qed
qed

lemma load_handler_sorted:
  assumes "distinct (map (hash \<circ> fst) raw)" and "length old \<noteq> length raw"
  shows "sorted (map fst (load_handler hash raw old))" "distinct (map fst (load_handler hash raw old))"
    "set (load_handler hash raw old) = (\<lambda>(name, impl). (hash name, impl)) ` set raw" "load_handler hash raw (load_handler hash raw old) = load_handler hash raw old"
proof -
  let ?es = "map (\<lambda>(name, impl). (hash name, impl)) raw"
  have l: "load_handler hash raw old = sort_key fst ?es" using assms(2) by (simp add: load_handler_def)
  show "sorted (map fst (load_handler hash raw old))" by (simp add: l)
  have "map fst ?es = map (hash \<circ> fst) raw" by auto
  with assms(1) have "distinct (map fst ?es)" by (simp only:)
  then show "distinct (map fst (load_handler hash raw old))" by (simp only: l distinct_map distinct_sort set_sort)
  show "set (load_handler hash raw old) = (\<lambda>(name, impl). (hash name, impl)) ` set raw" by (simp add: l)
  show "load_handler hash raw (load_handler hash raw old) = load_handler hash raw old" by (simp add: load_handler_def)
qed

text \<open>
  A loaded table answers for its names.  When the hashes of the names of a table are different, \<open>find_target\<close> gives for a name of the table the
  function stored with it, and \<open>abort\<close> for a name whose hash is not among them; loading the table again changes nothing.
\<close>

lemma loaded_handler_is_found:
  assumes "distinct (map (hash \<circ> fst) raw)" and "raw \<noteq> []" and "length old \<noteq> length raw"
  shows "(name, impl) \<in> set raw \<Longrightarrow> find_target hash ab (load_handler hash raw old) name = Inr impl"
    and "hash name \<notin> hash ` fst ` set raw \<Longrightarrow> find_target hash ab (load_handler hash raw old) name = Inr ab"
proof -
  note l = load_handler_sorted [OF assms(1,3)]
  have "length (load_handler hash raw old) = length raw" by (simp add: load_handler_def)
  then have "load_handler hash raw old \<noteq> []" using assms(2) by auto
  note f = find_target_sorted [OF l(1) this l(2)]
  show "find_target hash ab (load_handler hash raw old) name = Inr impl" if "(name, impl) \<in> set raw"
  proof -
    have "(hash name, impl) \<in> set (load_handler hash raw old)" using that l(3) by force
    then show ?thesis using f l(2) by (simp add: map_of_eq_Some_iff)
  qed
  show "find_target hash ab (load_handler hash raw old) name = Inr ab" if "hash name \<notin> hash ` fst ` set raw"
  proof -
    have "map_of (load_handler hash raw old) (hash name) = None" using that l(3) by (force simp: map_of_eq_None_iff)
    with f show ?thesis by simp
  qed
qed

lemma intrinsic_found:
  assumes "inj_on hash (set HandlerIntrinsic_names)" and "name \<in> set HandlerIntrinsic_names"
  shows "find_target hash ab (load_handler hash (HandlerIntrinsic fn) []) name = Inr (fn name)"
proof (rule loaded_handler_is_found(1))
  have "map (hash \<circ> fst) (HandlerIntrinsic fn) = map hash HandlerIntrinsic_names" by (simp add: HandlerIntrinsic_def)
  then show "distinct (map (hash \<circ> fst) (HandlerIntrinsic fn))" using HandlerIntrinsic_distinct assms(1) by (simp add: distinct_map)
  show "HandlerIntrinsic fn \<noteq> []" "length ([] :: handler_table) \<noteq> length (HandlerIntrinsic fn)" by (simp_all add: HandlerIntrinsic_def HandlerIntrinsic_names_def)
  show "(name, fn name) \<in> set (HandlerIntrinsic fn)" using assms(2) by (simp add: HandlerIntrinsic_def)
qed

section \<open>Names\<close>

lemma hex_nth_inj: "i < 16 \<Longrightarrow> j < 16 \<Longrightarrow> ''0123456789abcdef'' ! i = ''0123456789abcdef'' ! j \<Longrightarrow> i = j"
  by (rule nth_eq_iff_index_eq [THEN iffD1, of "''0123456789abcdef''"]) simp_all

lemma hex2_length: "length (hex2 a) = length (hex2 b)"
  by (simp add: hex2_def)

lemma hex2_inj: "hex2 a = hex2 b \<Longrightarrow> a = b"
proof -
  assume e: "hex2 a = hex2 b"
  have "unat w < 2 ^ LENGTH(8)" for w :: u8 by (rule unsigned_less)
  then have d: "unat w div 16 < 16" for w :: u8 by (simp add: div_less_iff_less_mult)
  from e have "unat a div 16 = unat b div 16" "unat a mod 16 = unat b mod 16"
    using hex_nth_inj [OF d d] hex_nth_inj [of "unat a mod 16" "unat b mod 16"] by (simp_all add: hex2_def)
  then have "unat a = unat b" by (metis div_mult_mod_eq)
  then show "a = b" by (simp only: unsigned_word_eqI)
qed

lemma lift_name_inj: "lift_name a = lift_name b \<Longrightarrow> a = b"
proof -
  have "concat (map hex2 a) = concat (map hex2 b) \<Longrightarrow> a = b" for a b
  proof (induction a arbitrary: b)
    case Nil
    then show ?case by (cases b) (auto simp: hex2_def)
  next
    case (Cons x xs)
    then obtain y ys where "b = y # ys" by (cases b) (auto simp: hex2_def)
    moreover from this Cons.prems have "hex2 x = hex2 y" "concat (map hex2 xs) = concat (map hex2 ys)" by (simp_all add: hex2_length)
    ultimately show ?case using Cons.IH hex2_inj by blast
  qed
  then show "lift_name a = lift_name b \<Longrightarrow> a = b" by (simp add: lift_name_def)
qed

section \<open>What a transformation keeps\<close>

definition same_store :: "lifter \<Rightarrow> lifter \<Rightarrow> bool" where
  "same_store s s' \<longleftrightarrow> lt_handlers s' = lt_handlers s \<and> lt_names s' = lt_names s \<and> lt_pages s' = lt_pages s"

lemma same_store_refl: "same_store s s" by (simp add: same_store_def)

lemma same_store_trans: "same_store s s' \<Longrightarrow> same_store s' s'' \<Longrightarrow> same_store s s''" by (simp add: same_store_def)

lemma trampoline_store: "same_store s (create_trampoline name target s)" by (simp add: same_store_def create_trampoline_def)

lemma add_func_store: "same_store s (add_func name b s)" by (simp add: same_store_def add_func_def)

lemma resolve_calls_store: "resolve_calls E cbs names s ec = Inr (s', ec') \<Longrightarrow> same_store s s'"
proof (induction E cbs names s ec arbitrary: s' ec' rule: resolve_calls.induct)
  case (2 E cbs name names s ec)
  show ?case
  proof (cases "has_prefix dyn_prefix name")
    case True
    with 2 show ?thesis by simp
  next
    case False
    have "\<exists>target. same_store (create_trampoline name target s) s'"
    proof (cases "has_prefix ''.'' name")
      case True
      with 2(4) False obtain target ec1 where "resolve_calls E cbs (removeAll name names) (create_trampoline name target s) ec1 = Inr (s', ec')"
        by (simp only: resolve_calls.simps if_False if_True res_bind_Inr_iff) blast
      with 2(2) [OF False True] show ?thesis by blast
    next
      case dot: False
      with 2(4) False obtain target where "resolve_calls E cbs (removeAll name names) (create_trampoline name target s) ec = Inr (s', ec')"
        by (simp only: resolve_calls.simps if_False res_bind_Inr_iff) blast
      with 2(3) [OF False dot] show ?thesis by blast
    qed
    then show ?thesis using same_store_trans [OF trampoline_store] by blast
  qed
qed (simp add: same_store_refl)

lemma emit_native_store: "emit_native E cbs inst opcode custom name s ec = Inr (s', c') \<Longrightarrow> same_store s s'"
  by (auto simp: emit_native_def res_bind_Inr_iff add_func_store)

lemma lift_decoded_store: "lift_decoded E cbs inst opcode custom opc name s ec = Inr (s', c') \<Longrightarrow> same_store s s'"
  by (auto simp: lift_decoded_def Let_def res_bind_Inr_iff split: if_splits
      dest!: resolve_calls_store emit_native_store intro: same_store_trans [OF add_func_store])

text \<open>A transformation of a new opcode enters it under the name of the opcode that is lifted for it.\<close>

lemma transform_enters:
  assumes "transform E cbs inst opcode addr s c = Inr (s', c')" and "lt_handlers s (Orchestrator.opc16 opcode) = None"
  obtains custom e c1 opc where "lift_before cbs addr opcode c = Inr (custom, e, c1)" "cur_opcode opcode custom e = Inr opc"
    "lt_handlers s' = (lt_handlers s)(Orchestrator.opc16 opcode \<mapsto> le_abort E)"
    "lt_names s' = (if lt_names s (lift_name opc) = None then (lt_names s)(lift_name opc \<mapsto> Orchestrator.opc16 opcode) else lt_names s)" "lt_pages s' = lt_pages s"
proof -
  let ?k = "Orchestrator.opc16 opcode"
  have n: "\<not> 16 < length opcode" using assms(1) by (auto simp: transform_def split: if_splits)
  obtain custom e c1 opc where b: "lift_before cbs addr opcode c = Inr (custom, e, c1)" "cur_opcode opcode custom e = Inr opc"
    using assms n by (auto simp: transform_def Let_def res_bind_Inr_iff)
  define s1 where "s1 = s\<lparr>lt_handlers := (lt_handlers s)(?k \<mapsto> le_abort E),
    lt_names := (if lt_names s (lift_name opc) = None then (lt_names s)(lift_name opc \<mapsto> ?k) else lt_names s)\<rparr>"
  have "(if le_valid E opc then lift_decoded E cbs inst opcode custom opc (lift_name opc) s1 (e, c1)
      else res_bind (lift_after cbs ''AetherVM_NativeImpl'' (e, c1)) (\<lambda>ec.
        if same_arch E then emit_native E cbs inst opcode custom (lift_name opc) s1 ec
        else lift_decoded E cbs inst opcode custom opc (lift_name opc) s1 ec)) = Inr (s', c')"
    using assms(1) n b assms(2) unfolding transform_def Let_def by (simp only: res_bind_simps if_False option.simps not_True_eq_False prod.case s1_def [symmetric] simp_thms)
  then have "same_store s1 s'" by (auto simp: res_bind_Inr_iff split: if_splits dest: lift_decoded_store emit_native_store)
  with b that show thesis by (simp add: same_store_def s1_def)
qed

text \<open>Callbacks that only look: they leave the event a lift event and do not process it.\<close>

definition lift_observers :: "callback list \<Rightarrow> bool" where
  "lift_observers cbs \<longleftrightarrow> (\<forall>ty a bs n nm c. \<exists>r ty' a' bs' n' nm' c'.
     handleEvent cbs (EventLift ty a bs n nm) c = (r, EventLift ty' a' bs' n' nm', c') \<and> r \<noteq> Processed)"

lemma observers_lift_own: "lift_observers cbs \<Longrightarrow> lift_before cbs addr opcode c = Inr (custom, e, c1) \<Longrightarrow> cur_opcode opcode custom e = Inr opc \<Longrightarrow> opc = opcode"
proof -
  assume o: "lift_observers cbs" and b: "lift_before cbs addr opcode c = Inr (custom, e, c1)" and u: "cur_opcode opcode custom e = Inr opc"
  obtain r ty' a' bs' n' nm' c' where "handleEvent cbs (EventLift LiftBefore addr (Orchestrator.opc16 opcode) (length opcode) '''') c = (r, EventLift ty' a' bs' n' nm', c')" "r \<noteq> Processed"
    using o unfolding lift_observers_def by blast
  with b have "custom = None" by (auto simp: lift_before_def split: if_splits)
  with u show "opc = opcode" by simp
qed

text \<open>
  The store while a lifter works, over the handlers \<open>H0\<close> there were before: new handlers are on \<open>abort\<close> and every one has a name of its own.
\<close>

definition lifting_store :: "u64 \<Rightarrow> (bytes \<rightharpoonup> u64) \<Rightarrow> bytes set \<Rightarrow> lifter \<Rightarrow> bool" where
  "lifting_store ab H0 done s \<longleftrightarrow>
     (\<forall>k e. H0 k = Some e \<longrightarrow> lt_handlers s k = Some e) \<and>
     (\<forall>opc \<in> done. lt_handlers s (Orchestrator.opc16 opc) \<noteq> None) \<and>
     (\<forall>k. lt_handlers s k \<noteq> None \<and> H0 k = None \<longrightarrow> (\<exists>opc \<in> done. k = Orchestrator.opc16 opc \<and> lt_names s (lift_name opc) = Some k)) \<and>
     (\<forall>name k. lt_names s name = Some k \<longrightarrow> (\<exists>opc \<in> done. name = lift_name opc \<and> k = Orchestrator.opc16 opc) \<and> lt_handlers s k \<noteq> None \<and> H0 k = None) \<and>
     (\<forall>name name' k. lt_names s name = Some k \<and> lt_names s name' = Some k \<longrightarrow> name = name')"

lemma transform_lifting:
  assumes "lift_observers cbs" and t: "transform E cbs inst opcode addr s c = Inr (s', c')" and i: "lifting_store ab H0 done s"
  shows "lifting_store ab H0 (insert opcode done) s'"
proof (cases "lt_handlers s (Orchestrator.opc16 opcode)")
  case None
  let ?k = "Orchestrator.opc16 opcode"
  obtain opc where n: "opc = opcode" "lt_handlers s' = (lt_handlers s)(?k \<mapsto> le_abort E)"
    "lt_names s' = (if lt_names s (lift_name opc) = None then (lt_names s)(lift_name opc \<mapsto> ?k) else lt_names s)"
    using transform_enters [OF t None] observers_lift_own [OF assms(1)] by metis
  have "lt_names s (lift_name opcode) = None"
  proof (rule ccontr)
    assume "lt_names s (lift_name opcode) \<noteq> None"
    then obtain k where "lt_names s (lift_name opcode) = Some k" by blast
    with i obtain opc' where "lift_name opcode = lift_name opc'" "k = Orchestrator.opc16 opc'" "lt_handlers s k \<noteq> None"
      unfolding lifting_store_def by blast
    with None show False using lift_name_inj [of opcode opc'] by simp
  qed
  with n have names: "lt_names s' = (lt_names s)(lift_name opcode \<mapsto> ?k)" by simp
  have h0: "H0 ?k = None" using i None by (cases "H0 ?k") (auto simp: lifting_store_def)
  have fresh: "lt_names s name \<noteq> Some ?k" for name
  proof
    assume "lt_names s name = Some ?k"
    with i have "lt_handlers s ?k \<noteq> None" unfolding lifting_store_def by blast
    with None show False by simp
  qed
  note i = i [unfolded lifting_store_def]
  have "\<forall>k e. H0 k = Some e \<longrightarrow> lt_handlers s' k = Some e" using i h0 by (auto simp: n(2))
  moreover have "\<forall>opc \<in> insert opcode done. lt_handlers s' (Orchestrator.opc16 opc) \<noteq> None" using i by (auto simp: n(2))
  moreover have "\<forall>k. lt_handlers s' k \<noteq> None \<and> H0 k = None \<longrightarrow>
      (\<exists>opc \<in> insert opcode done. k = Orchestrator.opc16 opc \<and> lt_names s' (lift_name opc) = Some k)"
  proof (intro allI impI)
    fix k
    assume k: "lt_handlers s' k \<noteq> None \<and> H0 k = None"
    show "\<exists>opc \<in> insert opcode done. k = Orchestrator.opc16 opc \<and> lt_names s' (lift_name opc) = Some k"
    proof (cases "k = ?k")
      case False
      with k have "lt_handlers s k \<noteq> None" by (simp add: n(2))
      with i k obtain opc where opc: "opc \<in> done" "k = Orchestrator.opc16 opc" "lt_names s (lift_name opc) = Some k" by blast
      then have "lift_name opc \<noteq> lift_name opcode" using False lift_name_inj by blast
      with opc show ?thesis by (auto simp: names)
    qed (simp add: names)
  qed
  moreover have "\<forall>name k. lt_names s' name = Some k \<longrightarrow>
      (\<exists>opc \<in> insert opcode done. name = lift_name opc \<and> k = Orchestrator.opc16 opc) \<and> lt_handlers s' k \<noteq> None \<and> H0 k = None"
    using i h0 by (auto simp: n(2) names split: if_splits)
  moreover have "\<forall>name name' k. lt_names s' name = Some k \<and> lt_names s' name' = Some k \<longrightarrow> name = name'"
    using i fresh by (auto simp: names split: if_splits)
  ultimately show ?thesis unfolding lifting_store_def by blast
next
  case (Some e)
  with t have "s' = s" by (auto simp: transform_def Let_def split: if_splits)
  with i Some show ?thesis unfolding lifting_store_def by blast
qed

lemma transform_all_lifting:
  "lift_observers cbs \<Longrightarrow> transform_all E cbs is s c = Inr (s', c') \<Longrightarrow> lifting_store ab H0 done s \<Longrightarrow>
    lifting_store ab H0 (done \<union> (fst \<circ> snd) ` set is) s'"
proof (induction "is" arbitrary: s c "done")
  case (Cons p "is")
  obtain inst opcode addr where p: "p = (inst, opcode, addr)" by (cases p)
  obtain s1 c1 where t: "transform E cbs inst opcode addr s c = Inr (s1, c1)" "transform_all E cbs is s1 c1 = Inr (s', c')"
    using Cons.prems(2) by (auto simp: p res_bind_Inr_iff)
  from Cons.IH [OF Cons.prems(1) t(2) transform_lifting [OF Cons.prems(1) t(1) Cons.prems(3)]] show ?case by (simp add: p)
qed simp

lemma new_lifter_lifting: "lifting_store ab (lt_handlers s) {} (new_lifter s)"
  by (auto simp: lifting_store_def new_lifter_def)

text \<open>Resetting the entries: the last symbol of a name counts.\<close>

definition symbol_at :: "obj_file \<Rightarrow> string \<Rightarrow> u64 \<Rightarrow> bool" where
  "symbol_at ob name a \<longleftrightarrow> (\<exists>y \<in> set (ob_symbols ob). symbol_key y = Some name) \<and>
     (\<forall>y \<in> set (ob_symbols ob). symbol_key y = Some name \<longrightarrow> sym_address y = Some a)"

lemma reset_names: "lt_names (fold (reset_entry page ta) ys s) = lt_names s"
  by (induction ys arbitrary: s) (auto simp: reset_entry_def split: option.split)

lemma reset_other: "\<forall>name. lt_names s name \<noteq> Some k \<Longrightarrow> lt_handlers (fold (reset_entry page ta) ys s) k = lt_handlers s k"
proof (induction ys arbitrary: s)
  case (Cons y ys)
  have "lt_names (reset_entry page ta y s) = lt_names s" using reset_names [of page ta "[y]" s] by simp
  moreover have "lt_handlers (reset_entry page ta y s) k = lt_handlers s k" using Cons.prems by (auto simp: reset_entry_def split: option.split)
  ultimately show ?case using Cons by simp
qed simp

lemma reset_named:
  assumes "lt_names s name = Some k" and "\<forall>name'. lt_names s name' = Some k \<longrightarrow> name' = name"
    and "\<forall>y \<in> set ys. symbol_key y = Some name \<longrightarrow> sym_address y = Some a"
  shows "lt_handlers (fold (reset_entry page ta) ys s) k =
    (if \<exists>y \<in> set ys. symbol_key y = Some name then Some (page + a - ta) else lt_handlers s k)"
  using assms
proof (induction ys arbitrary: s)
  case Nil
  show ?case by simp
next
  case (Cons y ys)
  have n: "lt_names (reset_entry page ta y s) = lt_names s" using reset_names [of page ta "[y]" s] by simp
  have step: "lt_handlers (reset_entry page ta y s) k = (if symbol_key y = Some name then Some (page + a - ta) else lt_handlers s k)"
  proof (cases "symbol_key y = Some name")
    case True
    then have "sym_address y = Some a" using Cons.prems(3) by simp
    with True Cons.prems(1) show ?thesis by (simp add: reset_entry_def)
  next
    case False
    show ?thesis
    proof (cases "symbol_key y")
      case (Some name')
      have "lt_names s name' \<noteq> Some k" using Cons.prems(2) Some False by blast
      with Some False show ?thesis by (simp add: reset_entry_def split: option.split)
    qed (simp add: reset_entry_def)
  qed
  have "lt_handlers (fold (reset_entry page ta) ys (reset_entry page ta y s)) k =
      (if \<exists>y \<in> set ys. symbol_key y = Some name then Some (page + a - ta) else lt_handlers (reset_entry page ta y s) k)"
  proof (rule Cons.IH)
    show "lt_names (reset_entry page ta y s) name = Some k" unfolding n by (rule Cons.prems(1))
    show "\<forall>name'. lt_names (reset_entry page ta y s) name' = Some k \<longrightarrow> name' = name" unfolding n by (rule Cons.prems(2))
    show "\<forall>y \<in> set ys. symbol_key y = Some name \<longrightarrow> sym_address y = Some a" using Cons.prems(3) by simp
  qed
  with step show ?case by simp
qed

text \<open>The whole object, when its code can be placed.\<close>

definition scan_object :: "obj_file \<Rightarrow> text_scan" where
  "scan_object ob = fold scan_section (ob_sections ob) \<lparr>ts_addr = 0, ts_text = [], ts_refs = [], ts_jumps = {}\<rparr>"

definition code_size :: "u64 \<Rightarrow> obj_file \<Rightarrow> u64" where
  "code_size page_size ob = align_up (word_of_nat (length (ts_text (scan_object ob)))) page_size"

lemma destroy_installs:
  assumes "generate_object (lt_funcs s) = Some ob" and "ts_text (scan_object ob) \<noteq> []" and "page = page_alloc (code_size ps ob)"
    and "page_commit page (code_size ps ob) True True False" and "page_commit page (code_size ps ob) True False True"
  shows "lt_handlers (fst (destroy_lifter E ps page_alloc page_commit generate_object s m)) =
      lt_handlers (fold (reset_entry page (ts_addr (scan_object ob))) (ob_symbols ob) (s\<lparr>lt_pages := map_insert page (code_size ps ob) (lt_pages s)\<rparr>))"
    and "snd (destroy_lifter E ps page_alloc page_commit generate_object s m) =
      fold (patch_ref E page (ts_jumps (scan_object ob))) (ts_refs (scan_object ob)) (mem_write m page (ts_text (scan_object ob)))"
  using assms by (simp_all add: destroy_lifter_def apply_object_def Let_def clear_lifted_def flip: scan_object_def code_size_def)

text \<open>
  C25: lifted instructions have their code.  When a lifter with observing callbacks has transformed a list of instructions and is destroyed, with an object that defines a function for every name the lifter
  gave out and room for its code, then every instruction of the list that had no handler before is executed, in whatever is encoded
  afterwards, through the entry at which the code of its function was placed; handlers from before keep their entries.
\<close>

theorem lifted_instructions_are_installed:
  assumes obs: "lift_observers cbs" and t: "transform_all E cbs is (new_lifter s0) c = Inr (s, c')"
    and gen: "generate_object (lt_funcs s) = Some ob" and "ts_text (scan_object ob) \<noteq> []" and page: "page = page_alloc (code_size ps ob)"
    and "page_commit page (code_size ps ob) True True False" and "page_commit page (code_size ps ob) True False True"
    and syms: "\<And>name. lt_names s name \<noteq> None \<Longrightarrow> symbol_at ob name (addr_of name)"
    and s1: "s1 = fst (destroy_lifter E ps page_alloc page_commit generate_object s m)"
    and "i \<in> (fst \<circ> snd) ` set is" and new: "lt_handlers s0 (Orchestrator.opc16 i) = None"
  shows "(\<exists>opc \<in> (fst \<circ> snd) ` set is. Orchestrator.opc16 opc = Orchestrator.opc16 i \<and>
      (opbytes b = i \<longrightarrow> real_entry (V\<lparr>env_dyn := lt_handlers s1\<rparr>) b = page + addr_of (lift_name opc) - ts_addr (scan_object ob))) \<and>
    (\<forall>k e. lt_handlers s0 k = Some e \<longrightarrow> lt_handlers s1 k = Some e)"
proof -
  let ?k = "Orchestrator.opc16 i" and ?s = "s\<lparr>lt_pages := map_insert page (code_size ps ob) (lt_pages s)\<rparr>"
  have i: "lifting_store (le_abort E) (lt_handlers s0) ({} \<union> (fst \<circ> snd) ` set is) s"
    by (rule transform_all_lifting [OF obs t new_lifter_lifting])
  note i = i [unfolded Un_empty_left lifting_store_def]
  have named: "\<exists>opc \<in> (fst \<circ> snd) ` set is. k = Orchestrator.opc16 opc \<and> lt_names s (lift_name opc) = Some k"
    if "lt_handlers s k \<noteq> None" "lt_handlers s0 k = None" for k using i that by blast
  note h = destroy_installs(1) [where page_alloc = page_alloc and page_commit = page_commit and ps = ps and generate_object = generate_object and s = s and E = E and m = m,
      OF gen assms(4) page assms(6,7), folded s1]
  have "lt_handlers s ?k \<noteq> None" using i assms(10) by blast
  from named [OF this new] obtain opc where opc: "opc \<in> (fst \<circ> snd) ` set is" "?k = Orchestrator.opc16 opc" "lt_names s (lift_name opc) = Some ?k" by blast
  have "lt_handlers s1 ?k = Some (page + addr_of (lift_name opc) - ts_addr (scan_object ob))"
    unfolding h
  proof (subst reset_named)
    show "lt_names ?s (lift_name opc) = Some ?k" using opc(3) by simp
    show "\<forall>name'. lt_names ?s name' = Some ?k \<longrightarrow> name' = lift_name opc" using i opc(3) by simp
    show "\<forall>y \<in> set (ob_symbols ob). symbol_key y = Some (lift_name opc) \<longrightarrow> sym_address y = Some (addr_of (lift_name opc))"
      using syms [of "lift_name opc"] opc(3) by (simp add: symbol_at_def)
  qed (use syms [of "lift_name opc"] opc(3) in \<open>auto simp: symbol_at_def\<close>)
  then have 1: "opbytes b = i \<longrightarrow> real_entry (V\<lparr>env_dyn := lt_handlers s1\<rparr>) b = page + addr_of (lift_name opc) - ts_addr (scan_object ob)"
    by (simp add: real_entry_def)
  have "lt_handlers s1 k = Some e" if "lt_handlers s0 k = Some e" for k e
  proof -
    have old: "lt_handlers s k = Some e" using i that by blast
    have "lt_names s name \<noteq> Some k" for name
    proof
      assume "lt_names s name = Some k"
      then have "lt_handlers s0 k = None" using i by blast
      with that show False by simp
    qed
    then have "\<forall>name. lt_names ?s name \<noteq> Some k" by simp
    from reset_other [OF this] old show ?thesis unfolding h by simp
  qed
  then have 2: "\<forall>k e. lt_handlers s0 k = Some e \<longrightarrow> lt_handlers s1 k = Some e" by blast
  show ?thesis
  proof (intro conjI 2)
    show "\<exists>opc \<in> (fst \<circ> snd) ` set is. Orchestrator.opc16 opc = Orchestrator.opc16 i \<and>
        (opbytes b = i \<longrightarrow> real_entry (V\<lparr>env_dyn := lt_handlers s1\<rparr>) b = page + addr_of (lift_name opc) - ts_addr (scan_object ob))"
      using opc(1) opc(2) [symmetric] 1 by blast
  qed
qed

lemma destroy_other:
  assumes "\<forall>name. lt_names s name \<noteq> Some k"
  shows "lt_handlers (fst (destroy_lifter E ps page_alloc page_commit generate_object s m)) k = lt_handlers s k"
proof -
  have "\<forall>name. lt_names (s\<lparr>lt_pages := p\<rparr>) name \<noteq> Some k" for p using assms by simp
  from reset_other [OF this] show ?thesis
    by (simp add: destroy_lifter_def apply_object_def Let_def clear_lifted_def split: option.split)
qed

text \<open>
  C39: a custom opcode serves one instruction.  When the callbacks replace the opcodes of two instructions by the same one, the second
  instruction gets a handler without a name of its own, and after the lifter is gone, whatever object was generated, its entry is still \<open>abort\<close>.
\<close>

theorem second_custom_opcode_aborts:
  assumes t: "transform E cbs inst1 oa addr1 s c = Inr (s1, c1)" "transform E cbs inst2 od addr2 s1 c1 = Inr (s2, c2)"
    and new: "lt_handlers s (Orchestrator.opc16 oa) = None" "lt_handlers s (Orchestrator.opc16 od) = None" "Orchestrator.opc16 oa \<noteq> Orchestrator.opc16 od"
    and names: "lt_names s = Map.empty" and "cbs \<noteq> []" and "n \<le> length bs"
    and cb: "\<And>a opc c. \<exists>ty a' nm c'. handleEvent cbs (EventLift LiftBefore a (Orchestrator.opc16 opc) (length opc) '''') c = (Processed, EventLift ty a' bs n nm, c')"
  shows "lt_handlers (fst (destroy_lifter E ps page_alloc page_commit generate_object s2 m)) (Orchestrator.opc16 od) = Some (le_abort E)"
proof -
  have custom: "opc = take n bs" if "lift_before cbs a op c = Inr (custom, e, d)" "cur_opcode op custom e = Inr opc" for a op c custom e d opc
    using cb [of a op c] that assms(7,8) by (auto simp: lift_before_def)
  have e1: "lt_handlers s1 = (lt_handlers s)(Orchestrator.opc16 oa \<mapsto> le_abort E)" "lt_names s1 = [lift_name (take n bs) \<mapsto> Orchestrator.opc16 oa]"
    using transform_enters [OF t(1) new(1)] custom names by (metis, metis fun_upd_apply)
  have "lt_handlers s1 (Orchestrator.opc16 od) = None" using new by (simp add: e1)
  from transform_enters [OF t(2) this] custom obtain
    "lt_handlers s2 = (lt_handlers s1)(Orchestrator.opc16 od \<mapsto> le_abort E)"
    "lt_names s2 = (if lt_names s1 (lift_name (take n bs)) = None then (lt_names s1)(lift_name (take n bs) \<mapsto> Orchestrator.opc16 od) else lt_names s1)" by metis
  moreover from this have "\<forall>name. lt_names s2 name \<noteq> Some (Orchestrator.opc16 od)" using new(3) by (simp add: e1)
  ultimately show ?thesis by (simp add: destroy_other)
qed

section \<open>The code\<close>

lemma map_insert_keys: "distinct (map fst m) \<Longrightarrow> distinct (map fst (map_insert k v m))"
proof -
  assume d: "distinct (map fst m)"
  have "mset (map fst (insort_key fst (k, v) m)) = mset (k # map fst m)" by simp
  then have "k \<notin> fst ` set m \<Longrightarrow> distinct (map fst (insort_key fst (k, v) m))" using d by (metis distinct.simps(2) list.set_map mset_eq_imp_distinct_iff)
  with d show ?thesis by (simp add: map_insert_def)
qed

lemma scan_refs_distinct: "distinct (map fst (ts_refs (scan_object ob)))"
proof -
  have r: "distinct (map fst (ts_refs t)) \<Longrightarrow> distinct (map fst (ts_refs (scan_reloc x t)))" for x t
    by (auto simp: scan_reloc_def Let_def map_insert_keys split: prod.split option.split)
  have rs: "distinct (map fst (ts_refs t)) \<Longrightarrow> distinct (map fst (ts_refs (fold scan_reloc xs t)))" for xs t
    by (induction xs arbitrary: t) (simp_all add: r)
  have sec: "distinct (map fst (ts_refs t)) \<Longrightarrow> distinct (map fst (ts_refs (scan_section y t)))" for y t
    by (auto simp: scan_section_def Let_def rs split: option.split)
  have "distinct (map fst (ts_refs t)) \<Longrightarrow> distinct (map fst (ts_refs (fold scan_section ys t)))" for ys t
    by (induction ys arbitrary: t) (simp_all add: sec)
  then show ?thesis by (simp add: scan_object_def)
qed

text \<open>Branches in whole words of the text.\<close>

definition refs_ok :: "nat \<Rightarrow> (u64 \<times> u64) list \<Rightarrow> bool" where
  "refs_ok n refs \<longleftrightarrow> list_all (\<lambda>(from, to). 4 dvd unat from \<and> unat from + 4 \<le> n) refs"

lemma refs_sep:
  assumes "refs_ok n refs" and "n \<le> 2 ^ 63" and "(f, t) \<in> set refs" and "(f', t') \<in> set refs" and "f \<noteq> f'"
  shows "sep (page + f) 4 (page + f') 4"
proof -
  have u: "unat f \<noteq> unat f'" using assms(5) unsigned_word_eqI by blast
  have d: "4 dvd unat f" "4 dvd unat f'" "unat f + 4 \<le> 2 ^ 63" "unat f' + 4 \<le> 2 ^ 63" using assms(1-4) by (auto simp: refs_ok_def list_all_iff)
  have "off_sep (unat f) 4 (unat f') 4" using d(1,2) u by (auto simp: off_sep_def elim!: dvdE)
  from sep_offsets [OF this d(3,4), of page] show ?thesis by simp
qed

lemma patch_frame:
  assumes "le_host_arm64 E" and "\<forall>(f, t) \<in> set refs. sep a n (page + f) 4"
  shows "mem_read (fold (patch_ref E page js) refs m) a n = mem_read m a n"
  using assms(2)
proof (induction refs arbitrary: m)
  case (Cons r refs)
  obtain f t where r: "r = (f, t)" by fastforce
  have "mem_read (patch_ref E page js r m) a n = mem_read m a n"
    using Cons.prems assms(1) by (simp add: r patch_ref_def mem_read_write_sep)
  with Cons show ?case by simp
qed simp

lemma patch_ref_read: "le_host_arm64 E \<Longrightarrow> mem_read (patch_ref E page js (f, t) m) (page + f) 4 = le_bytes 4 (unat (le_branch E f t (f \<notin> js)))"
  using mem_read_write_same [of "le_bytes 4 (unat (le_branch E f t (f \<notin> js)))" m "page + f"] by (simp add: patch_ref_def)

lemma patched_words:
  assumes "le_host_arm64 E" and "refs_ok n refs" and "n \<le> 2 ^ 63" and "distinct (map fst refs)" and "(f, t) \<in> set refs"
  shows "mem_read (fold (patch_ref E page js) refs m) (page + f) 4 = le_bytes 4 (unat (le_branch E f t (f \<notin> js)))"
  using assms(2,4,5)
proof (induction refs arbitrary: m)
  case (Cons r refs)
  have ok: "refs_ok n refs" using Cons.prems(1) by (simp add: refs_ok_def)
  show ?case
  proof (cases "r = (f, t)")
    case True
    have "\<forall>(f', t') \<in> set refs. sep (page + f) 4 (page + f') 4"
      using refs_sep [OF Cons.prems(1) assms(3), of f t] Cons.prems(2) True by force
    from patch_frame [OF assms(1) this] patch_ref_read [OF assms(1)] show ?thesis by (simp add: True)
  next
    case False
    with Cons.prems Cons.IH [OF ok] show ?thesis by simp
  qed
qed simp

text \<open>
  C27: the code that is installed.  On an AArch64 host, for a text section whose branches to lifted functions and trampolines are whole words, the page holds after the lifter is gone at every such branch the
  instruction that goes from there to the symbol (a call, or a jump when the symbol is an intrinsic), in every other byte the text of the object, and no byte outside the text has changed.
\<close>

theorem installed_code_is_patched_text:
  assumes gen: "generate_object (lt_funcs s) = Some ob" and "ts_text (scan_object ob) \<noteq> []" and page: "page = page_alloc (code_size ps ob)"
    and "page_commit page (code_size ps ob) True True False" and "page_commit page (code_size ps ob) True False True"
    and "le_host_arm64 E" and "length (ts_text (scan_object ob)) \<le> 2 ^ 63" and "refs_ok (length (ts_text (scan_object ob))) (ts_refs (scan_object ob))"
    and m': "m' = snd (destroy_lifter E ps page_alloc page_commit generate_object s m)"
  shows "((fr, to) \<in> set (ts_refs (scan_object ob)) \<longrightarrow>
      mem_read m' (page + fr) 4 = le_bytes 4 (unat (le_branch E fr to (fr \<notin> ts_jumps (scan_object ob))))) \<and>
    (j < length (ts_text (scan_object ob)) \<and> (\<forall>(fr, to) \<in> set (ts_refs (scan_object ob)). j < unat fr \<or> unat fr + 4 \<le> j) \<longrightarrow>
      m' (page + word_of_nat j) = ts_text (scan_object ob) ! j) \<and>
    (length (ts_text (scan_object ob)) \<le> unat (x - page) \<longrightarrow> m' x = m x)"
proof (intro conjI)
  let ?t = "scan_object ob"
  let ?n = "length (ts_text ?t)"
  note h = destroy_installs(2) [where page_alloc = page_alloc and page_commit = page_commit and ps = ps and generate_object = generate_object and s = s and E = E and m = m,
      OF gen assms(2) page assms(4,5), folded m']
  have ref: "unat f + 4 \<le> ?n" if "(f, t) \<in> set (ts_refs ?t)" for f t using that assms(8) by (auto simp: refs_ok_def list_all_iff)
  have byte: "m' a = mem_write m page (ts_text ?t) a" if "\<forall>(f, t) \<in> set (ts_refs ?t). sep a 1 (page + f) 4" for a
    using patch_frame [OF assms(6) that, of "ts_jumps ?t" "mem_write m page (ts_text ?t)"] by (simp add: h mem_read_def)
  show "(fr, to) \<in> set (ts_refs ?t) \<longrightarrow> mem_read m' (page + fr) 4 = le_bytes 4 (unat (le_branch E fr to (fr \<notin> ts_jumps ?t)))"
    unfolding h using patched_words [OF assms(6,8,7) scan_refs_distinct] by blast
  show "j < ?n \<and> (\<forall>(fr, to) \<in> set (ts_refs ?t). j < unat fr \<or> unat fr + 4 \<le> j) \<longrightarrow> m' (page + word_of_nat j) = ts_text ?t ! j"
  proof
    assume j: "j < ?n \<and> (\<forall>(fr, to) \<in> set (ts_refs ?t). j < unat fr \<or> unat fr + 4 \<le> j)"
    have "sep (page + word_of_nat j) 1 (page + f) 4" if "(f, t) \<in> set (ts_refs ?t)" for f t
    proof -
      have "off_sep j 1 (unat f) 4" using j that by (auto simp: off_sep_def)
      moreover have "j + 1 \<le> 2 ^ 63" "unat f + 4 \<le> 2 ^ 63" using j ref [OF that] assms(7) by simp_all
      ultimately have "sep (page + word_of_nat j) 1 (page + word_of_nat (unat f)) 4" by (rule sep_offsets)
      then show ?thesis by simp
    qed
    then have "m' (page + word_of_nat j) = mem_write m page (ts_text ?t) (page + word_of_nat j)" by (intro byte) blast
    moreover have "unat (word_of_nat j :: u64) = j" using j assms(7) by (intro unat_word_of_nat64) simp
    ultimately show "m' (page + word_of_nat j) = ts_text ?t ! j" using j by (simp add: mem_write_def)
  qed
  show "?n \<le> unat (x - page) \<longrightarrow> m' x = m x"
  proof
    assume x: "?n \<le> unat (x - page)"
    have "sep x 1 (page + f) 4" if "(f, t) \<in> set (ts_refs ?t)" for f t
    proof -
      let ?d = "x - page"
      have le: "unat f + 4 \<le> unat ?d" using x ref [OF that] by simp
      then have "f \<le> ?d" by (simp add: word_le_nat_alt)
      then have "unat (?d - f) = unat ?d - unat f" by (rule unat_sub)
      moreover have "f - ?d \<noteq> 0" using le by auto
      then have "unat (f - ?d) \<noteq> 0" by (metis unat_eq_zero)
      moreover have e: "x - (page + f) = ?d - f" "page + f - x = f - ?d" by simp_all
      ultimately show ?thesis using le unfolding sep_def e by linarith
    qed
    then have "m' x = mem_write m page (ts_text ?t) x" by (intro byte) blast
    then show "m' x = m x" using x by (simp add: mem_write_def)
  qed
qed

section \<open>Called functions\<close>

text \<open>The function a call of lifted code is directed to.\<close>

definition call_target :: "lift_env \<Rightarrow> string \<Rightarrow> u64 res" where
  "call_target E name =
     (if has_prefix ''.'' name then find_target (le_hash E) (le_abort E) (le_isel E) (drop 6 name)
      else find_target (le_hash E) (le_abort E) (le_intrinsic E) name)"

definition tramps_ok :: "lift_env \<Rightarrow> lifter \<Rightarrow> bool" where
  "tramps_ok E s \<longleftrightarrow> (\<forall>name target. lt_tramps s (dyn_prefix @ name) = Some target \<longrightarrow> call_target E name = Inr target)"

lemma trampoline_ok:
  assumes "tramps_ok E s" and "call_target E name = Inr target"
  shows "tramps_ok E (create_trampoline name target s) \<and> lt_tramps (create_trampoline name target s) (dyn_prefix @ name) = Some target"
proof (cases "lt_tramps s (dyn_prefix @ name)")
  case (Some t)
  with assms have "t = target" by (auto simp: tramps_ok_def)
  with Some assms(1) show ?thesis by (simp add: create_trampoline_def)
qed (use assms in \<open>auto simp: create_trampoline_def tramps_ok_def\<close>)

lemma trampoline_kept: "lt_tramps s nm = Some t \<Longrightarrow> lt_tramps (create_trampoline name target s) nm = Some t"
  by (auto simp: create_trampoline_def)

lemma resolve_calls_tramps:
  "resolve_calls E cbs names s ec = Inr (s', ec') \<Longrightarrow> tramps_ok E s \<Longrightarrow>
    tramps_ok E s' \<and> (\<forall>nm t. lt_tramps s nm = Some t \<longrightarrow> lt_tramps s' nm = Some t) \<and>
    (\<forall>nm \<in> set names. \<not> has_prefix dyn_prefix nm \<longrightarrow> (\<exists>t. call_target E nm = Inr t \<and> lt_tramps s' (dyn_prefix @ nm) = Some t))"
proof (induction E cbs names s ec arbitrary: s' ec' rule: resolve_calls.induct)
  case (2 E cbs name names s ec)
  show ?case
  proof (cases "has_prefix dyn_prefix name")
    case True
    with 2 show ?thesis by simp
  next
    case False
    let ?P = "\<lambda>s1. tramps_ok E s' \<and> (\<forall>nm t. lt_tramps s1 nm = Some t \<longrightarrow> lt_tramps s' nm = Some t) \<and>
      (\<forall>nm \<in> set (removeAll name names). \<not> has_prefix dyn_prefix nm \<longrightarrow> (\<exists>t. call_target E nm = Inr t \<and> lt_tramps s' (dyn_prefix @ nm) = Some t))"
    have "\<exists>target. call_target E name = Inr target \<and> ?P (create_trampoline name target s)"
    proof (cases "has_prefix ''.'' name")
      case True
      with 2(4) False obtain target ec1 where t: "find_target (le_hash E) (le_abort E) (le_isel E) (drop 6 name) = Inr target"
        "resolve_calls E cbs (removeAll name names) (create_trampoline name target s) ec1 = Inr (s', ec')"
        by (simp only: resolve_calls.simps if_False if_True res_bind_Inr_iff) blast
      then have c: "call_target E name = Inr target" using True by (simp add: call_target_def)
      with 2(2) [OF False True t(2)] trampoline_ok [OF 2(5) c] show ?thesis by blast
    next
      case dot: False
      with 2(4) False obtain target where t: "find_target (le_hash E) (le_abort E) (le_intrinsic E) name = Inr target"
        "resolve_calls E cbs (removeAll name names) (create_trampoline name target s) ec = Inr (s', ec')"
        by (simp only: resolve_calls.simps if_False res_bind_Inr_iff) blast
      then have c: "call_target E name = Inr target" using dot by (simp add: call_target_def)
      with 2(3) [OF False dot t(2)] trampoline_ok [OF 2(5) c] show ?thesis by blast
    qed
    then obtain target where t: "call_target E name = Inr target" "?P (create_trampoline name target s)" by blast
    from trampoline_ok [OF 2(5) t(1)] trampoline_kept [of s] t show ?thesis by auto
  qed
qed simp

text \<open>Transformations keep the trampolines right.\<close>

lemma add_func_tramps: "tramps_ok E (add_func name b s) = tramps_ok E s" "lt_tramps (add_func name b s) = lt_tramps s"
  by (simp_all add: tramps_ok_def add_func_def)

lemma lift_decoded_tramps:
  assumes "lift_decoded E cbs inst opcode custom opc name s ec = Inr (s', c')" and "tramps_ok E s"
  shows "tramps_ok E s'" and "le_lifts E opc \<Longrightarrow> nm \<in> set (le_calls E opc @ [''__remill_function_return'']) \<Longrightarrow> \<not> has_prefix dyn_prefix nm \<Longrightarrow>
      \<exists>t. call_target E nm = Inr t \<and> lt_tramps s' (dyn_prefix @ nm) = Some t"
proof -
  have ok: "tramps_ok E (add_func name b s)" for b using assms(2) by (simp add: add_func_tramps)
  show "tramps_ok E s'" using assms(1) unfolding lift_decoded_def Let_def
    by (auto simp: res_bind_Inr_iff emit_native_def ok split: if_splits dest!: resolve_calls_tramps [OF _ ok])
  assume "le_lifts E opc" and nm: "nm \<in> set (le_calls E opc @ [''__remill_function_return''])" "\<not> has_prefix dyn_prefix nm"
  with assms(1) obtain ec' where "resolve_calls E cbs (le_calls E opc @ [''__remill_function_return'']) (add_func name (Semantics opc ''__remill_function_return'') s) ec = Inr (s', ec')"
    by (auto simp: lift_decoded_def Let_def res_bind_Inr_iff)
  from resolve_calls_tramps [OF this ok] nm show "\<exists>t. call_target E nm = Inr t \<and> lt_tramps s' (dyn_prefix @ nm) = Some t" by blast
qed

text \<open>
  C26: lifted code reaches its semantics.  When the table of semantics functions was loaded from \<open>raw\<close>, whose names have different hashes, a transformation of an opcode Remill lifts leaves, for
  every function \<open>.ISEL_x\<close> its code calls with \<open>x\<close> in the table, a trampoline to the function the table has for \<open>x\<close>, and when the table of intrinsics was loaded too, one to the function that
  ends every handler; trampolines stay right, so the next transformation finds them so.
\<close>

theorem lifted_code_reaches_semantics:
  assumes "transform E cbs inst opcode addr s c = Inr (s', c')" and "lt_handlers s (Orchestrator.opc16 opcode) = None" and "lift_observers cbs"
    and "le_valid E opcode" and "le_lifts E opcode" and ok: "tramps_ok E s"
    and "le_isel E = load_handler (le_hash E) raw []" and "distinct (map (le_hash E \<circ> fst) raw)"
    and "(x, impl) \<in> set raw" and "''.ISEL_'' @ x \<in> set (le_calls E opcode)"
    and intr: "le_intrinsic E = load_handler (le_hash E) (HandlerIntrinsic fn) []" "inj_on (le_hash E) (set HandlerIntrinsic_names)"
  shows "lt_tramps s' (dyn_prefix @ ''.ISEL_'' @ x) = Some impl \<and>
    lt_tramps s' (dyn_prefix @ ''__remill_function_return'') = Some (fn ''__remill_function_return'') \<and> tramps_ok E s'"
proof -
  have n: "\<not> 16 < length opcode" using assms(1) by (auto simp: transform_def split: if_splits)
  obtain custom e c1 opc where b: "lift_before cbs addr opcode c = Inr (custom, e, c1)" "cur_opcode opcode custom e = Inr opc"
    using assms(1,2) n by (auto simp: transform_def Let_def res_bind_Inr_iff)
  have opc: "opc = opcode" by (rule observers_lift_own [OF assms(3) b])
  define s1 where "s1 = s\<lparr>lt_handlers := (lt_handlers s)(Orchestrator.opc16 opcode \<mapsto> le_abort E),
    lt_names := (if lt_names s (lift_name opcode) = None then (lt_names s)(lift_name opcode \<mapsto> Orchestrator.opc16 opcode) else lt_names s)\<rparr>"
  have ok1: "tramps_ok E s1" using ok by (simp add: tramps_ok_def s1_def)
  have d: "lift_decoded E cbs inst opcode custom opcode (lift_name opcode) s1 (e, c1) = Inr (s', c')"
    using assms(1,2,4) n b opc by (simp add: transform_def Let_def s1_def)
  have p: "\<not> has_prefix dyn_prefix (''.ISEL_'' @ x)" "has_prefix ''.'' (''.ISEL_'' @ x)" by (simp_all add: has_prefix_def dyn_prefix_def)
  have "raw \<noteq> []" "length ([] :: handler_table) \<noteq> length raw" using assms(9) by auto
  then have "call_target E (''.ISEL_'' @ x) = Inr impl"
    using loaded_handler_is_found(1) [OF assms(8) _ _ assms(9)] assms(7) p(2) by (simp add: call_target_def)
  moreover have "call_target E ''__remill_function_return'' = Inr (fn ''__remill_function_return'')"
    using intrinsic_found [OF intr(2), of "''__remill_function_return''" "le_abort E" fn] by (simp add: call_target_def has_prefix_def intr(1) HandlerIntrinsic_names_def)
  moreover have "\<not> has_prefix dyn_prefix ''__remill_function_return''" by (simp add: has_prefix_def dyn_prefix_def)
  ultimately show ?thesis
    using lift_decoded_tramps(1) [OF d ok1] lift_decoded_tramps(2) [OF d ok1, of "''.ISEL_'' @ x"]
      lift_decoded_tramps(2) [OF d ok1, of "''__remill_function_return''"] assms(5,10) p(1) by auto
qed

section \<open>An example\<close>

definition isel0 :: "(string \<times> u64) list" where "isel0 = [(''ADD'', 0x9000), (''LDRAA'', 0x9010)]"

text \<open>A hash without collisions: the position of a name in the table of intrinsics.\<close>

definition hash0 :: "string \<Rightarrow> u64" where
  "hash0 name = (if name = ''ADD'' then 200 else word_of_nat (length (takeWhile (\<lambda>n. n \<noteq> name) HandlerIntrinsic_names)))"

definition fn0 :: "string \<Rightarrow> u64" where "fn0 name = 0x9100"

definition lift_env0 :: lift_env where
  "lift_env0 = \<lparr>le_host_arm64 = True, le_guest_arm64 = True, le_windows = False, le_valid = (\<lambda>_. True), le_lifts = (\<lambda>_. True),
     le_calls = (\<lambda>_. [''.ISEL_ADD'']), le_hash = hash0, le_isel = load_handler hash0 isel0 [],
     le_intrinsic = load_handler hash0 (HandlerIntrinsic fn0) [], le_abort = 0x666,
     le_regs = reg_enum0, le_a64 = a64_layout0, le_x86 = x86_layout0, le_branch = (\<lambda>f t call. if call then 0x94000000 else 0x14000000), le_patch = (\<lambda>_ _ _ m. m)\<rparr>"

definition lifter0 :: lifter where
  "lifter0 = \<lparr>lt_handlers = Map.empty, lt_names = Map.empty, lt_funcs = [], lt_tramps = Map.empty, lt_pages = []\<rparr>"

definition object0 :: obj_file where
  "object0 = \<lparr>ob_sections = [\<lparr>sec_name = Some ''__text'', sec_relocs = [(4, Some 8, Some ''_aethervm_.ISEL_ADD'')], sec_contents = Some [1, 1, 1, 1, 2, 2, 2, 2, 3, 3, 3, 3], sec_address = 0\<rparr>],
     ob_symbols = [\<lparr>sym_function = True, sym_excluded = False, sym_address = Some 0, sym_name = Some ''_aethervm_01020304''\<rparr>]\<rparr>"

lemma observers_none: "lift_observers []"
  by (simp add: lift_observers_def)

lemma hash0_inj: "inj_on hash0 (set HandlerIntrinsic_names)"
proof (rule inj_onI)
  fix a b
  assume m: "a \<in> set HandlerIntrinsic_names" "b \<in> set HandlerIntrinsic_names" and e: "hash0 a = hash0 b"
  let ?i = "\<lambda>name. length (takeWhile (\<lambda>n. n \<noteq> name) HandlerIntrinsic_names)"
  have n: "HandlerIntrinsic_names ! ?i name = name" if mem: "name \<in> set HandlerIntrinsic_names" for name
  proof -
    obtain ys zs where s: "HandlerIntrinsic_names = ys @ name # zs" "name \<notin> set ys" using split_list_first [OF mem] by blast
    then have "takeWhile (\<lambda>n. n \<noteq> name) HandlerIntrinsic_names = ys" by (subst s(1), subst takeWhile_append2) auto
    then show ?thesis using s(1) by (metis nth_append_length)
  qed
  have l: "?i name < 2 ^ 64" for name
    using length_takeWhile_le [of "\<lambda>n. n \<noteq> name" HandlerIntrinsic_names] by (simp add: HandlerIntrinsic_names_def)
  have "''ADD'' \<notin> set HandlerIntrinsic_names" by (simp add: HandlerIntrinsic_names_def)
  with m have "a \<noteq> ''ADD''" "b \<noteq> ''ADD''" by blast+
  with e have "(word_of_nat (?i a) :: u64) = word_of_nat (?i b)" unfolding hash0_def by (simp only: if_False simp_thms)
  then have "?i a = ?i b" using unat_word_of_nat64 [OF l] by metis
  with n m show "a = b" by metis
qed

lemma isel0_hashes: "distinct (map (hash0 \<circ> fst) isel0)"
  by (simp add: isel0_def hash0_def HandlerIntrinsic_names_def)

lemma lifter0_targets:
  "find_target (le_hash lift_env0) 0x666 (le_isel lift_env0) ''ADD'' = Inr 0x9000"
  "find_target (le_hash lift_env0) 0x666 (le_intrinsic lift_env0) ''__remill_function_return'' = Inr 0x9100"
proof -
  have "find_target hash0 0x666 (load_handler hash0 isel0 []) ''ADD'' = Inr 0x9000"
    by (rule loaded_handler_is_found(1) [OF isel0_hashes]) (simp_all add: isel0_def)
  then show "find_target (le_hash lift_env0) 0x666 (le_isel lift_env0) ''ADD'' = Inr 0x9000" by (simp add: lift_env0_def)
  have "find_target hash0 0x666 (load_handler hash0 (HandlerIntrinsic fn0) []) ''__remill_function_return'' = Inr (fn0 ''__remill_function_return'')"
    by (rule intrinsic_found [OF hash0_inj]) (simp add: HandlerIntrinsic_names_def)
  then show "find_target (le_hash lift_env0) 0x666 (le_intrinsic lift_env0) ''__remill_function_return'' = Inr 0x9100" by (simp add: lift_env0_def fn0_def)
qed

lemma lifter0_transform:
  obtains s where "transform lift_env0 [] add_inst [1, 2, 3, 4] 0x40 (new_lifter lifter0) cpu0 = Inr (s, cpu0)" "lt_names s = [''aethervm_01020304'' \<mapsto> [1, 2, 3, 4, 0, 0, 0, 0, 0, 0, 0, 0, 0, 0, 0, 0]]"
proof -
  have e: "le_valid lift_env0 = (\<lambda>_. True)" "le_lifts lift_env0 = (\<lambda>_. True)" "le_calls lift_env0 = (\<lambda>_. [''.ISEL_ADD''])" "le_abort lift_env0 = 0x666"
    by (simp_all add: lift_env0_def)
  have n: "lift_name [1, 2, 3, 4] = ''aethervm_01020304''" by (simp add: lift_name_def dyn_prefix_def hex2_def)
  have k: "Orchestrator.opc16 [1, 2, 3, 4] = [1, 2, 3, 4, 0, 0, 0, 0, 0, 0, 0, 0, 0, 0, 0, 0]" by (simp add: Orchestrator.opc16_def numeral_eq_Suc)
  have l: "lift_before [] 0x40 [1, 2, 3, 4] cpu0 = Inr (None, EventLift LiftBefore 0x40 (replicate 16 0) 4 '''', cpu0)" by (simp add: lift_before_def)
  have p: "\<not> has_prefix dyn_prefix ''.ISEL_ADD''" "has_prefix ''.'' ''.ISEL_ADD''" "\<not> has_prefix dyn_prefix ''__remill_function_return''" "\<not> has_prefix ''.'' ''__remill_function_return''"
    by (simp_all add: has_prefix_def dyn_prefix_def)
  have "\<exists>s. transform lift_env0 [] add_inst [1, 2, 3, 4] 0x40 (new_lifter lifter0) cpu0 = Inr (s, cpu0)"
    by (simp add: transform_def k n l new_lifter_def lifter0_def e lift_decoded_def p lift_after_def lifter0_targets Let_def)
  then obtain s where s: "transform lift_env0 [] add_inst [1, 2, 3, 4] 0x40 (new_lifter lifter0) cpu0 = Inr (s, cpu0)" by blast
  have "lt_handlers (new_lifter lifter0) (Orchestrator.opc16 [1, 2, 3, 4]) = None" by (simp add: new_lifter_def lifter0_def)
  from transform_enters [OF s this] obtain custom ea c1 opc where b: "lift_before [] 0x40 [1, 2, 3, 4] cpu0 = Inr (custom, ea, c1)" "cur_opcode [1, 2, 3, 4] custom ea = Inr opc"
    "lt_names s = (if lt_names (new_lifter lifter0) (lift_name opc) = None then (lt_names (new_lifter lifter0))(lift_name opc \<mapsto> Orchestrator.opc16 [1, 2, 3, 4]) else lt_names (new_lifter lifter0))" by metis
  then have "opc = [1, 2, 3, 4]" using observers_lift_own [OF observers_none] by blast
  with b(3) have "lt_names s = [''aethervm_01020304'' \<mapsto> [1, 2, 3, 4, 0, 0, 0, 0, 0, 0, 0, 0, 0, 0, 0, 0]]" by (simp add: n k new_lifter_def lifter0_def)
  with s that show thesis by blast
qed

lemma object0_scan: "scan_object object0 = \<lparr>ts_addr = 0, ts_text = [1, 1, 1, 1, 2, 2, 2, 2, 3, 3, 3, 3], ts_refs = [(4, 8)], ts_jumps = {}\<rparr>"
proof -
  have "contains dyn_prefix ''_aethervm_.ISEL_ADD''" "\<not> contains ''__remill'' ''_aethervm_.ISEL_ADD''" by code_simp+
  then show ?thesis by (simp add: scan_object_def object0_def scan_section_def scan_reloc_def map_insert_def)
qed

lemma object0_symbol: "symbol_at object0 ''aethervm_01020304'' 0"
proof -
  have "symbol_key \<lparr>sym_function = True, sym_excluded = False, sym_address = Some 0, sym_name = Some ''_aethervm_01020304''\<rparr> = Some ''aethervm_01020304''"
    by (simp add: symbol_key_def has_prefix_def dyn_prefix_def isxdigit_def)
  then show ?thesis by (simp add: symbol_at_def object0_def)
qed

theorem lifted_instructions_are_installed_witness:
  "\<exists>s c'. transform_all lift_env0 [] [(add_inst, [1, 2, 3, 4], 0x40)] (new_lifter lifter0) cpu0 = Inr (s, c') \<and>
    real_entry (env0\<lparr>env_dyn := lt_handlers (fst (destroy_lifter lift_env0 4096 (\<lambda>_. 0x5000000) (\<lambda>_ _ _ _ _. True) (\<lambda>_. Some object0) s (\<lambda>_. 0)))\<rparr>)
      \<lparr>fnoff = 0, insn_oplen = 4, insn_ty = RET, comins = 0, opbytes = [1, 2, 3, 4]\<rparr> = 0x5000000"
proof -
  obtain s where s: "transform lift_env0 [] add_inst [1, 2, 3, 4] 0x40 (new_lifter lifter0) cpu0 = Inr (s, cpu0)"
    "lt_names s = [''aethervm_01020304'' \<mapsto> [1, 2, 3, 4, 0, 0, 0, 0, 0, 0, 0, 0, 0, 0, 0, 0]]" by (rule lifter0_transform)
  then have t: "transform_all lift_env0 [] [(add_inst, [1, 2, 3, 4], 0x40)] (new_lifter lifter0) cpu0 = Inr (s, cpu0)" by simp
  have y: "symbol_at object0 name 0" if "lt_names s name \<noteq> None" for name using that s(2) object0_symbol by (auto split: if_splits)
  from lifted_instructions_are_installed [OF observers_none t, where generate_object = "\<lambda>_. Some object0" and ob = object0 and page_alloc = "\<lambda>_. 0x5000000" and ps = 4096 and
      page = "0x5000000" and page_commit = "\<lambda>_ _ _ _ _. True" and addr_of = "\<lambda>_. 0" and m = "\<lambda>_. 0" and i = "[1, 2, 3, 4]" and V = env0 and
      b = "\<lparr>fnoff = 0, insn_oplen = 4, insn_ty = RET, comins = 0, opbytes = [1, 2, 3, 4]\<rparr>", OF refl _ refl _ _ y refl] t
  show ?thesis by (simp add: object0_scan lifter0_def)
qed

theorem installed_code_is_patched_text_witness:
  "let m' = snd (destroy_lifter lift_env0 4096 (\<lambda>_. 0x5000000) (\<lambda>_ _ _ _ _. True) (\<lambda>_. Some object0) lifter0 (\<lambda>_. 0)) in
    mem_read m' 0x5000004 4 = [0, 0, 0, 0x94] \<and> m' 0x5000008 = 3 \<and> m' 0x500000C = 0"
proof -
  note w = installed_code_is_patched_text [where generate_object = "\<lambda>_. Some object0" and ob = object0 and page_alloc = "\<lambda>_. 0x5000000" and ps = 4096 and
      page = "0x5000000" and page_commit = "\<lambda>_ _ _ _ _. True" and m = "\<lambda>_. 0" and s = lifter0 and E = lift_env0 and fr = 4 and to = 8 and j = 8 and x = "0x500000C",
      OF refl _ refl _ _ _ _ _ refl]
  have "le_host_arm64 lift_env0" "le_branch lift_env0 4 8 True = 0x94000000" by (simp_all add: lift_env0_def)
  moreover have four: "(4 :: nat) = Suc (Suc (Suc (Suc 0)))" by simp
  then have "le_bytes 4 0x94000000 = [0, 0, 0, 0x94]" unfolding four by simp
  ultimately show ?thesis using w by (simp add: object0_scan refs_ok_def Let_def)
qed

theorem lifted_code_reaches_semantics_witness:
  "\<exists>s'. transform lift_env0 [] add_inst [1, 2, 3, 4] 0x40 (new_lifter lifter0) cpu0 = Inr (s', cpu0) \<and>
    lt_tramps s' (dyn_prefix @ ''.ISEL_'' @ ''ADD'') = Some 0x9000 \<and> lt_tramps s' (dyn_prefix @ ''__remill_function_return'') = Some 0x9100"
proof -
  obtain s where s: "transform lift_env0 [] add_inst [1, 2, 3, 4] 0x40 (new_lifter lifter0) cpu0 = Inr (s, cpu0)" by (rule lifter0_transform)
  have i: "le_isel lift_env0 = load_handler (le_hash lift_env0) isel0 []" by (simp add: lift_env0_def)
  have j: "le_intrinsic lift_env0 = load_handler (le_hash lift_env0) (HandlerIntrinsic fn0) []" "inj_on (le_hash lift_env0) (set HandlerIntrinsic_names)"
    "distinct (map (le_hash lift_env0 \<circ> fst) isel0)" using hash0_inj isel0_hashes by (simp_all add: lift_env0_def)
  from lifted_code_reaches_semantics [OF s _ observers_none _ _ _ i j(3) _ _ j(1,2), where x = "''ADD''" and impl = "0x9000"] s show ?thesis
    by (simp add: new_lifter_def lifter0_def tramps_ok_def fn0_def) (simp add: lift_env0_def isel0_def)
qed

text \<open>Callbacks that replace every opcode by one.\<close>

definition replacing :: callback where
  "replacing e c = (case e of EventLift LiftBefore a bs n nm \<Rightarrow> (Processed, EventLift LiftBefore a [7, 7, 7, 7] 4 nm, c) | _ \<Rightarrow> (Continue, e, c))"

theorem second_custom_opcode_aborts_witness:
  "\<exists>s2 c2. transform_all lift_env0 [replacing] [(add_inst, [1, 2, 3, 4], 0x40), (add_inst, [1, 2, 3, 5], 0x44)] lifter0 cpu0 = Inr (s2, c2) \<and>
    lt_handlers (fst (destroy_lifter lift_env0 4096 (\<lambda>_. 0x5000000) (\<lambda>_ _ _ _ _. True) (\<lambda>_. Some object0) s2 (\<lambda>_. 0))) (Orchestrator.opc16 [1, 2, 3, 5]) = Some 0x666"
proof -
  have e: "le_valid lift_env0 = (\<lambda>_. True)" "le_lifts lift_env0 = (\<lambda>_. True)" "le_calls lift_env0 = (\<lambda>_. [''.ISEL_ADD''])" "le_abort lift_env0 = 0x666"
    by (simp_all add: lift_env0_def)
  have p: "\<not> has_prefix dyn_prefix ''.ISEL_ADD''" "has_prefix ''.'' ''.ISEL_ADD''" "\<not> has_prefix dyn_prefix ''__remill_function_return''" "\<not> has_prefix ''.'' ''__remill_function_return''"
    by (simp_all add: has_prefix_def dyn_prefix_def)
  have run: "\<exists>s' c'. transform lift_env0 [replacing] add_inst opc a s c = Inr (s', c')" if "length opc = 4" "lt_handlers s (Orchestrator.opc16 opc) = None" for opc a s c
    using that by (simp add: transform_def lift_before_def replacing_def e lift_decoded_def p lift_after_def lifter0_targets Let_def)
  have k: "Orchestrator.opc16 [1, 2, 3, 4] \<noteq> Orchestrator.opc16 [1, 2, 3, 5]" by (simp add: Orchestrator.opc16_def)
  have n: "lt_handlers lifter0 x = None" for x by (simp add: lifter0_def)
  obtain s1 c1 where 1: "transform lift_env0 [replacing] add_inst [1, 2, 3, 4] 0x40 lifter0 cpu0 = Inr (s1, c1)" using run n by fastforce
  have "lt_handlers s1 (Orchestrator.opc16 [1, 2, 3, 5]) = None" using transform_enters [OF 1 n] k n by (metis fun_upd_apply)
  then obtain s2 c2 where 2: "transform lift_env0 [replacing] add_inst [1, 2, 3, 5] 0x44 s1 c1 = Inr (s2, c2)" using run by fastforce
  have "lt_names lifter0 = Map.empty" by (simp add: lifter0_def)
  from second_custom_opcode_aborts [OF 1 2 n n k this, where n = 4 and bs = "[7, 7, 7, 7]"] 1 2 show ?thesis
    by (auto simp: replacing_def e)
qed

end
