(* ===== verification/EntryStubs.thy ===== *)
theory EntryStubs
  imports NativeHandler
begin

text \<open>
  The naked assembly functions between host and guest on an AArch64 host: \<open>aether_vm_entry\<close>, \<open>vm_enter_aarch64\<close>, the event stubs and
  \<open>call_host\<close> of \<open>src/AArch64.cpp\<close>, and \<open>__remill_function_return\<close> of \<open>src/Intrinsic.cpp\<close>.  A stub is the list of its lines; a function it
  calls is a parameter, the effect of the call on registers and memory.  The theorems say what the stubs hand to each other and that the host gets
  its registers back.
\<close>

section \<open>Chains of handlers\<close>

text \<open>
  Control and state of a chain: \<open>code\<close> gives for an address what the handler there does, until it jumps to the next one.  The chain ends at the
  address \<open>ret\<close>.
\<close>

inductive vm_reach :: "('a \<Rightarrow> 'h \<Rightarrow> ('h \<times> 'a) option) \<Rightarrow> 'a \<Rightarrow> 'h \<times> 'a \<Rightarrow> 'h \<times> 'a \<Rightarrow> bool" for code ret s where
  vm_reach_start: "vm_reach code ret s s"
| vm_reach_step: "vm_reach code ret s (h, t) \<Longrightarrow> t \<noteq> ret \<Longrightarrow> code t h = Some (h', t') \<Longrightarrow> vm_reach code ret s (h', t')"

text \<open>Handlers that hand over: each keeps \<open>kept\<close> and establishes \<open>ready\<close> for the next one.\<close>

locale handler_chain =
  fixes good :: "'e \<Rightarrow> bool" and code :: "'e \<Rightarrow> 'a \<Rightarrow> 'h \<Rightarrow> ('h \<times> 'a) option"
    and ready :: "'e \<Rightarrow> 'h \<times> 'a \<Rightarrow> bool" and kept :: "'e \<Rightarrow> 'h \<Rightarrow> 'h \<Rightarrow> bool"
  assumes kept_refl: "kept E h h"
    and kept_trans: "kept E h h' \<Longrightarrow> kept E h' h'' \<Longrightarrow> kept E h h''"
    and hands_over: "good E \<Longrightarrow> ready E (h, t) \<Longrightarrow> code E t h = Some (h', t') \<Longrightarrow> kept E h h' \<and> ready E (h', t')"
begin

lemma chain_keeps:
  assumes "vm_reach (code E) ret s s'" and "good E" and "ready E s"
  shows "kept E (fst s) (fst s') \<and> ready E s'"
  using assms(1)
proof induction
  case vm_reach_start
  then show ?case using assms(3) kept_refl by simp
next
  case (vm_reach_step h t h' t')
  then show ?case using hands_over [OF assms(2)] kept_trans by fastforce
qed

end

section \<open>Lines and their meaning\<close>

datatype stub_line =
    Line a64_line
  | SubSp nat \<comment> \<open>\<open>sub sp, sp, #k\<close>\<close>
  | AddSp nat
  | FpFromSp nat \<comment> \<open>\<open>add fp, sp, #k\<close>\<close>
  | MovFromSp nat
  | MovToSp nat
  | MovZero nat \<comment> \<open>\<open>mov x, #0\<close>\<close>
  | StpSp nat nat nat \<comment> \<open>\<open>stp x, x, [sp, #k]\<close>\<close>
  | LdpSp nat nat nat
  | StrSp nat nat
  | LdrSp nat nat
  | StpQ nat nat nat nat \<comment> \<open>\<open>stp q, q, [x, #k]\<close>\<close>
  | LdpQ nat nat nat nat
  | Bl string
  | Blr nat
  | Ret

fun stub_step :: "stub_line \<Rightarrow> host \<Rightarrow> host" where
  "stub_step (Line l) h = a64_step l h"
| "stub_step (SubSp k) h = h\<lparr>hsp := hsp h - word_of_nat k\<rparr>"
| "stub_step (AddSp k) h = h\<lparr>hsp := hsp h + word_of_nat k\<rparr>"
| "stub_step (FpFromSp k) h = h\<lparr>hx := (hx h)(29 := hsp h + word_of_nat k)\<rparr>"
| "stub_step (MovFromSp n) h = h\<lparr>hx := (hx h)(n := hsp h)\<rparr>"
| "stub_step (MovToSp n) h = h\<lparr>hsp := hx h n\<rparr>"
| "stub_step (MovZero n) h = h\<lparr>hx := (hx h)(n := 0)\<rparr>"
| "stub_step (StpSp a b k) h =
     h\<lparr>hmem := store64 (store64 (hmem h) (hsp h + word_of_nat k) (hx h a)) (hsp h + word_of_nat (k + 8)) (hx h b)\<rparr>"
| "stub_step (LdpSp a b k) h =
     h\<lparr>hx := (hx h)(a := load64 (hmem h) (hsp h + word_of_nat k), b := load64 (hmem h) (hsp h + word_of_nat (k + 8)))\<rparr>"
| "stub_step (StrSp a k) h = h\<lparr>hmem := store64 (hmem h) (hsp h + word_of_nat k) (hx h a)\<rparr>"
| "stub_step (LdrSp a k) h = h\<lparr>hx := (hx h)(a := load64 (hmem h) (hsp h + word_of_nat k))\<rparr>"
| "stub_step (StpQ a b n k) h = a64_step (StrQ b n (int (k + 16))) (a64_step (StrQ a n (int k)) h)"
| "stub_step (LdpQ a b n k) h = a64_step (LdrQ b n (int (k + 16))) (a64_step (LdrQ a n (int k)) h)"
| "stub_step _ h = h"

text \<open>
  A run: \<open>lab\<close> gives the address of a function, \<open>fn\<close> the effect of calling the function at an address up to its return to the link register, which
  a call sets to the address of the next line.  A run ends with a jump or return, and its target.
\<close>

fun stub_run :: "(string \<Rightarrow> u64) \<Rightarrow> (u64 \<Rightarrow> host \<Rightarrow> host) \<Rightarrow> u64 \<Rightarrow> stub_line list \<Rightarrow> host \<Rightarrow> host \<times> u64 option" where
  "stub_run lab fn pc [] h = (h, None)"
| "stub_run lab fn pc (l # ls) h =
     (case l of
        Bl f \<Rightarrow> stub_run lab fn (pc + 4) ls (fn (lab f) (h\<lparr>hx := (hx h)(30 := pc + 4)\<rparr>))
      | Blr n \<Rightarrow> stub_run lab fn (pc + 4) ls (fn (hx h n) (h\<lparr>hx := (hx h)(30 := pc + 4)\<rparr>))
      | Ret \<Rightarrow> (h, Some (hx h 30))
      | Line (Br n) \<Rightarrow> (h, Some (hx h n))
      | _ \<Rightarrow> stub_run lab fn (pc + 4) ls (stub_step l h))"

section \<open>The stubs\<close>

definition extract_x16_lines :: "stub_line list" where
  "extract_x16_lines = [Line (Ldr 16 27 0), Line (Ubfx59 16 16)]"

definition event_vm :: "string \<Rightarrow> stub_line list" where
  "event_vm n =
     [Line (Mov 0 26), MovZero 1, Line (Mov 2 27), Bl (''host_'' @ n), Line (Mov 27 0), Line (Mov 0 26),
      Line (Ldr 1 0 (-16)), Line (Ldr 1 1 0), Line (Mov 2 27)] @ extract_x16_lines @ [Line (Br 16)]"

definition event_names :: "string list" where
  "event_names =
     [''event_func_before'', ''event_func_after'', ''event_insn_before'', ''event_insn_after'', ''event_block_before'',
      ''event_block_after'', ''event_debugging'', ''syscall_interpret'', ''interrupt_interpret'', ''jump_interpret'',
      ''call_interpret'', ''finish_function'', ''finish_emulation'', ''terminate_execution'']"

definition remill_function_return :: "stub_line list" where
  "remill_function_return = [Line (AddI 27 27 8), Line (Mov 2 27)] @ extract_x16_lines @ [Line (Br 16)]"

definition vm_enter_aarch64 :: "stub_line list" where
  "vm_enter_aarch64 = [Line (Str 30 3 0), Line (Str 30 4 0)] @ extract_x16_lines @ [Line (Br 16)]"

text \<open>\<open>aether_vm_entry\<close>, up to and after its call of \<open>vm_enter_aarch64\<close>.\<close>

definition vm_entry_before :: "stub_line list" where
  "vm_entry_before =
     [SubSp 0x30, StpSp 26 27 0x10, StpSp 29 30 0x20, FpFromSp 0x20, Line (Mov 26 0), Line (Mov 27 2), StpSp 1 3 0, Blr 4,
      Line (Mov 4 0), Line (Mov 0 26), Line (Mov 2 27), LdpSp 1 3 0]"

definition vm_entry_after :: "stub_line list" where
  "vm_entry_after = [LdpSp 29 30 0x20, LdpSp 26 27 0x10, AddSp 0x30, Ret]"

definition vm_entry_return :: "u64 \<Rightarrow> u64" where
  "vm_entry_return pc = pc + 4 * word_of_nat (length vm_entry_before + 1)"

text \<open>
  Calling the entry at address \<open>pc\<close>: until the jump to the first handler, and from the return of the guest on.
\<close>

definition vm_entry_start :: "(string \<Rightarrow> u64) \<Rightarrow> (u64 \<Rightarrow> host \<Rightarrow> host) \<Rightarrow> u64 \<Rightarrow> host \<Rightarrow> host \<times> u64 option" where
  "vm_entry_start lab fn pc h =
     (let h1 = fst (stub_run lab fn pc vm_entry_before h)
      in stub_run lab fn (lab ''vm_enter_aarch64'') vm_enter_aarch64 (h1\<lparr>hx := (hx h1)(30 := vm_entry_return pc)\<rparr>))"

definition vm_entry_end :: "(string \<Rightarrow> u64) \<Rightarrow> (u64 \<Rightarrow> host \<Rightarrow> host) \<Rightarrow> u64 \<Rightarrow> host \<Rightarrow> host \<times> u64 option" where
  "vm_entry_end lab fn pc h = stub_run lab fn (vm_entry_return pc) vm_entry_after h"

definition call_host :: "stub_line list" where
  "call_host =
     [SubSp 0x30, StpSp 19 20 0, StrSp 21 0x10, StpSp 29 30 0x20, FpFromSp 0x20, Line (Mov 19 0), Line (Mov 20 1), MovFromSp 21,
      Line (Mov 16 2), LdpQ 0 1 20 0, LdpQ 2 3 20 0x20, LdpQ 4 5 20 0x40, LdpQ 6 7 20 0x60,
      Line (Ldr 0 19 0), Line (Ldr 1 19 0x10), Line (Ldr 2 19 0x20), Line (Ldr 3 19 0x30), Line (Ldr 4 19 0x40),
      Line (Ldr 5 19 0x50), Line (Ldr 6 19 0x60), Line (Ldr 7 19 0x70), Line (Ldr 8 19 0x80), Line (Ldr 9 19 0x1f0), MovToSp 9, Blr 16,
      MovToSp 21, StpQ 0 1 20 0, StpQ 2 3 20 0x20, Line (Str 0 19 0), Line (Str 1 19 0x10),
      LdpSp 29 30 0x20, LdrSp 21 0x10, LdpSp 19 20 0, AddSp 0x30, Ret]"

section \<open>Code of a chain\<close>

text \<open>
  What is at the address of a handler: an event stub, or a lifted handler, a compiled function whose effect is a parameter and which ends by jumping to
  \<open>__remill_function_return\<close>.
\<close>

datatype vm_code = EventStub string | LiftedHandler "host \<Rightarrow> host"

record a64_vm =
  av_lab :: "string \<Rightarrow> u64"
  av_fn :: "u64 \<Rightarrow> host \<Rightarrow> host"
  av_code :: "u64 \<Rightarrow> vm_code option"
  av_cpu :: u64 \<comment> \<open>the state\<close>
  av_pcp :: u64 \<comment> \<open>where the program counter is\<close>
  av_sp :: u64 \<comment> \<open>the stack pointer in the chain\<close>

definition a64_code :: "a64_vm \<Rightarrow> u64 \<Rightarrow> host \<Rightarrow> (host \<times> u64) option" where
  "a64_code V t h =
     (case av_code V t of
        None \<Rightarrow> None
      | Some (EventStub n) \<Rightarrow>
          if n \<in> set event_names then (case stub_run (av_lab V) (av_fn V) t (event_vm n) h of (h', t') \<Rightarrow> map_option (Pair h') t') else None
      | Some (LiftedHandler f) \<Rightarrow>
          (case stub_run (av_lab V) (av_fn V) (av_lab V ''__remill_function_return'') remill_function_return (f h) of (h', t') \<Rightarrow> map_option (Pair h') t'))"

section \<open>Contracts\<close>

text \<open>A function of the host keeps what its calling convention protects, and does not write the frame of 48 bytes above the stack pointer.\<close>

definition aapcs :: "host \<Rightarrow> host \<Rightarrow> bool" where
  "aapcs h h' \<longleftrightarrow> hsp h' = hsp h \<and> (\<forall>n. 19 \<le> n \<and> n \<le> 29 \<longrightarrow> hx h' n = hx h n) \<and> (\<forall>n. 8 \<le> n \<and> n \<le> 15 \<longrightarrow> fst (hq h' n) = fst (hq h n))"

definition frame_kept :: "host \<Rightarrow> host \<Rightarrow> bool" where
  "frame_kept h h' \<longleftrightarrow> mem_read (hmem h') (hsp h) 48 = mem_read (hmem h) (hsp h) 48"

text \<open>What stays in the chain: the stack pointer, the state in x26, and the pointer to the program counter before the state.\<close>

definition in_vm :: "a64_vm \<Rightarrow> host \<Rightarrow> bool" where
  "in_vm V h \<longleftrightarrow> hsp h = av_sp V \<and> hx h 26 = av_cpu V \<and> load64 (hmem h) (av_cpu V - 16) = av_pcp V"

text \<open>What a handler is called with: state, program counter and instruction, at the address in the instruction, which is also in x27.\<close>

definition vm_ready :: "a64_vm \<Rightarrow> host \<times> u64 \<Rightarrow> bool" where
  "vm_ready V s = (case s of (h, t) \<Rightarrow>
     in_vm V h \<and> hx h 0 = av_cpu V \<and> hx h 1 = load64 (hmem h) (av_pcp V) \<and> hx h 2 = hx h 27 \<and> t = take_bit 59 (load64 (hmem h) (hx h 27)))"

definition vm_kept :: "host \<Rightarrow> host \<Rightarrow> bool" where
  "vm_kept h h' \<longleftrightarrow> hsp h' = hsp h \<and> (\<forall>n. 19 \<le> n \<and> n \<le> 29 \<and> n \<noteq> 27 \<longrightarrow> hx h' n = hx h n) \<and>
     (\<forall>n. 8 \<le> n \<and> n \<le> 15 \<longrightarrow> fst (hq h' n) = fst (hq h n)) \<and> frame_kept h h'"

text \<open>
  The functions the chain calls obey the calling convention; a lifted handler in addition passes its state and the new program counter on to
  \<open>__remill_function_return\<close>.
\<close>

definition obeys :: "a64_vm \<Rightarrow> (host \<Rightarrow> host) \<Rightarrow> host \<Rightarrow> bool" where
  "obeys V f h \<longleftrightarrow> aapcs h (f h) \<and> frame_kept h (f h) \<and> load64 (hmem (f h)) (av_cpu V - 16) = av_pcp V"

definition good_host :: "a64_vm \<Rightarrow> bool" where
  "good_host V \<longleftrightarrow> (\<forall>n \<in> set event_names. \<forall>h. in_vm V h \<longrightarrow> obeys V (av_fn V (av_lab V (''host_'' @ n))) h)"

definition good_lifted :: "a64_vm \<Rightarrow> bool" where
  "good_lifted V \<longleftrightarrow> (\<forall>t f h. av_code V t = Some (LiftedHandler f) \<longrightarrow> vm_ready V (h, t) \<longrightarrow>
     obeys V f h \<and> hx (f h) 0 = av_cpu V \<and> hx (f h) 1 = load64 (hmem (f h)) (av_pcp V))"

definition good_vm :: "a64_vm \<Rightarrow> bool" where
  "good_vm V \<longleftrightarrow> good_host V \<and> good_lifted V"

section \<open>What the stubs do\<close>

lemma vm_kept_refl: "vm_kept h h"
  by (simp add: vm_kept_def frame_kept_def)

lemma vm_kept_trans: "vm_kept h h' \<Longrightarrow> vm_kept h' h'' \<Longrightarrow> vm_kept h h''"
  by (simp add: vm_kept_def frame_kept_def)

lemmas stub_defs = extract_x16_lines_def event_vm_def remill_function_return_def vm_enter_aarch64_def

text \<open>An event stub calls the function of the host with state, zero and instruction, and goes on with the instruction it returns.\<close>

definition event_call :: "u64 \<Rightarrow> host \<Rightarrow> host" where
  "event_call pc h = h\<lparr>hx := (hx h)(0 := hx h 26, 1 := 0, 2 := hx h 27, 30 := 16 + pc)\<rparr>"

lemma event_run:
  fixes lab fn pc n h
  defines "r \<equiv> fn (lab (''host_'' @ n)) (event_call pc h)"
  defines "x16 \<equiv> take_bit 59 (load64 (hmem r) (hx r 0))"
  shows "stub_run lab fn pc (event_vm n) h =
    (r\<lparr>hx := (hx r)(27 := hx r 0, 0 := hx r 26, 1 := load64 (hmem r) (load64 (hmem r) (hx r 26 - 16)), 2 := hx r 0, 16 := x16)\<rparr>, Some x16)"
  by (simp add: stub_defs r_def x16_def event_call_def fun_upd_twist)

lemma return_run:
  "stub_run lab fn pc remill_function_return h =
    (h\<lparr>hx := (hx h)(27 := hx h 27 + 8, 2 := hx h 27 + 8, 16 := take_bit 59 (load64 (hmem h) (hx h 27 + 8)))\<rparr>,
     Some (take_bit 59 (load64 (hmem h) (hx h 27 + 8))))"
  by (simp add: stub_defs)

lemma a64_hands_over:
  assumes g: "good_vm V" and r: "vm_ready V (h, t)" and c: "a64_code V t h = Some (h', t')"
  shows "vm_kept h h' \<and> vm_ready V (h', t')"
proof (cases "av_code V t")
  case (Some k)
  show ?thesis
  proof (cases k)
    case (EventStub n)
    then have n: "n \<in> set event_names" using c Some by (auto simp: a64_code_def split: if_splits)
    define q where "q = av_fn V (av_lab V (''host_'' @ n)) (event_call t h)"
    have "in_vm V (event_call t h)" using r by (simp add: vm_ready_def in_vm_def event_call_def)
    then have "aapcs (event_call t h) q" "frame_kept (event_call t h) q" and p: "load64 (hmem q) (av_cpu V - 16) = av_pcp V"
      using g n by (simp_all add: good_vm_def good_host_def obeys_def q_def)
    then have q: "hsp q = hsp h" "\<forall>n. 19 \<le> n \<and> n \<le> 29 \<longrightarrow> hx q n = hx h n" "\<forall>n. 8 \<le> n \<and> n \<le> 15 \<longrightarrow> fst (hq q n) = fst (hq h n)"
      "mem_read (hmem q) (hsp h) 48 = mem_read (hmem h) (hsp h) 48" by (simp_all add: aapcs_def frame_kept_def event_call_def)
    have "hx q 26 = av_cpu V" "hsp q = av_sp V" using q(1,2) r by (simp_all add: vm_ready_def in_vm_def)
    with q p c n Some EventStub event_run [of "av_lab V" "av_fn V" t n h, folded q_def] show ?thesis
      by (auto simp: a64_code_def vm_kept_def vm_ready_def in_vm_def frame_kept_def)
  next
    case (LiftedHandler f)
    then have "obeys V f h" "hx (f h) 0 = av_cpu V" "hx (f h) 1 = load64 (hmem (f h)) (av_pcp V)"
      using g r Some by (simp_all add: good_vm_def good_lifted_def)
    moreover have "hx h 26 = av_cpu V" "hsp h = av_sp V" using r by (simp_all add: vm_ready_def in_vm_def)
    ultimately show ?thesis
      using c Some LiftedHandler by (auto simp: a64_code_def return_run vm_kept_def vm_ready_def in_vm_def obeys_def aapcs_def frame_kept_def)
  qed
qed (use c in \<open>simp add: a64_code_def\<close>)

interpretation a64_chain: handler_chain good_vm a64_code vm_ready "\<lambda>_. vm_kept"
  by unfold_locales (blast intro: vm_kept_refl vm_kept_trans dest: a64_hands_over)+

section \<open>Entering and leaving\<close>

lemma sep_sub:
  assumes "sep a n b k" and "i + l \<le> k"
  shows "sep a n (b + word_of_nat i) l"
proof -
  have k: "k = i + (l + (k - i - l))" using assms(2) by simp
  have "sep a n b (i + (l + (k - i - l)))" by (subst k [symmetric]) (rule assms(1))
  then show ?thesis using sep_split by blast
qed

lemma load64_of_read:
  assumes "mem_read m' a n = mem_read m a n" and "i + 8 \<le> n"
  shows "load64 m' (a + word_of_nat i) = load64 m (a + word_of_nat i)"
proof -
  have r: "mem_read x (a + word_of_nat i) 8 = take 8 (drop i (mem_read x a n))" for x
    using assms(2) by (intro nth_equalityI) (simp_all add: nth_mem_read algebra_simps)
  show ?thesis using assms(1) by (simp add: load64_def r)
qed

text \<open>The state in which the entry calls the function that gives the place of the guest's return address: six words are saved in its frame.\<close>

definition entry_call :: "u64 \<Rightarrow> host \<Rightarrow> host" where
  "entry_call pc h = (let sp = hsp h - 0x30 in
     h\<lparr>hsp := sp,
       hmem := store64 (store64 (store64 (store64 (store64 (store64 (hmem h) (sp + 0x10) (hx h 26)) (sp + 0x18) (hx h 27))
         (sp + 0x20) (hx h 29)) (sp + 0x28) (hx h 30)) sp (hx h 1)) (sp + 8) (hx h 3),
       hx := (hx h)(29 := sp + 0x20, 26 := hx h 0, 27 := hx h 2, 30 := 32 + pc)\<rparr>)"

lemma entry_before_run:
  fixes lab fn pc h
  defines "q \<equiv> fn (hx h 4) (entry_call pc h)"
  shows "fst (stub_run lab fn pc vm_entry_before h) =
    q\<lparr>hx := (hx q)(4 := hx q 0, 0 := hx q 26, 2 := hx q 27, 1 := load64 (hmem q) (hsp q), 3 := load64 (hmem q) (hsp q + 8))\<rparr>"
proof -
  obtain sp where sp: "hsp h = sp + 48" by (metis diff_add_cancel)
  let ?pre = "[SubSp 48, StpSp 26 27 16, StpSp 29 30 32, FpFromSp 32, Line (Mov 26 0), Line (Mov 27 2), StpSp 1 3 0, Blr 4]"
  have pre: "stub_run lab fn pc (?pre @ ls) h =
    stub_run lab fn (32 + pc) ls (fn (hx h 4) (entry_call pc h))" for ls
    by (simp add: entry_call_def sp Let_def)
  have s: "vm_entry_before = ?pre @ [Line (Mov 4 0), Line (Mov 0 26), Line (Mov 2 27), LdpSp 1 3 0]" by (simp add: vm_entry_before_def)
  have b: "stub_run lab fn pc vm_entry_before h = stub_run lab fn (32 + pc) [Line (Mov 4 0), Line (Mov 0 26), Line (Mov 2 27), LdpSp 1 3 0] q"
    unfolding s q_def by (rule pre)
  show ?thesis unfolding b by (simp add: fun_upd_twist)
qed

lemma entry_call_frame:
  fixes h pc
  defines "sp \<equiv> hsp h - 48" and "m \<equiv> hmem (entry_call pc h)"
  shows "load64 m (sp + 16) = hx h 26" "load64 m (sp + 24) = hx h 27" "load64 m (sp + 32) = hx h 29" "load64 m (sp + 40) = hx h 30"
    "load64 m sp = hx h 1" "load64 m (sp + 8) = hx h 3"
    "\<And>a n. sep a n sp 48 \<Longrightarrow> mem_read m a n = mem_read (hmem h) a n"
proof -
  have m: "m = store64 (store64 (store64 (store64 (store64 (store64 (hmem h) (sp + 0x10) (hx h 26)) (sp + 0x18) (hx h 27))
         (sp + 0x20) (hx h 29)) (sp + 0x28) (hx h 30)) sp (hx h 1)) (sp + 8) (hx h 3)" by (simp add: m_def entry_call_def sp_def Let_def)
  show "load64 m (sp + 16) = hx h 26" "load64 m (sp + 24) = hx h 27" "load64 m (sp + 32) = hx h 29" "load64 m (sp + 40) = hx h 30"
    "load64 m sp = hx h 1" "load64 m (sp + 8) = hx h 3" unfolding m by (simp_all add: load64_store64_sep sep_def)
  show "mem_read m a n = mem_read (hmem h) a n" if "sep a n sp 48" for a n
    using sep_sub [OF that, of 0 8] sep_sub [OF that, of 8 8] sep_sub [OF that, of 16 8] sep_sub [OF that, of 24 8] sep_sub [OF that, of 32 8] sep_sub [OF that, of 40 8]
    unfolding m by (simp add: store64_def mem_read_write_sep)
qed

lemma enter_run:
  "stub_run lab fn pc vm_enter_aarch64 h =
    (let m = store64 (store64 (hmem h) (hx h 3) (hx h 30)) (hx h 4) (hx h 30); t = take_bit 59 (load64 m (hx h 27)) in
     (h\<lparr>hmem := m, hx := (hx h)(16 := t)\<rparr>, Some t))"
  by (simp add: stub_defs Let_def)

lemma after_run:
  fixes h :: host
  assumes "load64 (hmem h) (hsp h + 16) = a" "load64 (hmem h) (hsp h + 24) = b" "load64 (hmem h) (hsp h + 32) = c" "load64 (hmem h) (hsp h + 40) = d"
  shows "stub_run lab fn pc vm_entry_after h = (h\<lparr>hsp := hsp h + 48, hx := (hx h)(29 := c, 30 := d, 26 := a, 27 := b)\<rparr>, Some d)"
  using assms by (simp add: vm_entry_after_def)

text \<open>A function of the host that writes only to \<open>k\<close> bytes of stack.\<close>

definition uses_stack :: "nat \<Rightarrow> host \<Rightarrow> host \<Rightarrow> bool" where
  "uses_stack k h h' \<longleftrightarrow> aapcs h h' \<and> (\<forall>a n. sep a n (hsp h - word_of_nat k) k \<longrightarrow> mem_read (hmem h') a n = mem_read (hmem h) a n)"

text \<open>
  What the entry reads and writes through pointers: the two places of the return address, the pointer to the program counter, the program counter, and
  the first instruction.
\<close>

definition entry_slots :: "host \<Rightarrow> u64 \<Rightarrow> u64 list" where
  "entry_slots h p = [hx h 3, p, hx h 0 - 16, load64 (hmem h) (hx h 0 - 16), hx h 2]"

lemma uses_stack_load64:
  assumes "uses_stack k h h'" and "sep a 8 (hsp h - word_of_nat k) k"
  shows "load64 (hmem h') a = load64 (hmem h) a"
  using assms by (simp add: uses_stack_def load64_def)

lemma entry_start_run:
  assumes q: "q = fn (hx h 4) (entry_call pc h)" and us: "uses_stack k (entry_call pc h) q" and k: "k + 48 \<le> 2 ^ 63"
    and ss: "slots_sep (entry_slots h (hx q 0))" and st: "\<forall>a\<in>set (entry_slots h (hx q 0)). sep a 8 (hsp h - 48 - word_of_nat k) (k + 48)"
  shows "\<exists>h2. vm_entry_start lab fn pc h = (h2, Some (take_bit 59 (load64 (hmem h2) (hx h 2)))) \<and> hsp h2 = hsp h - 48 \<and>
    hx h2 0 = hx h 0 \<and> hx h2 1 = hx h 1 \<and> hx h2 2 = hx h 2 \<and> hx h2 26 = hx h 0 \<and> hx h2 27 = hx h 2 \<and>
    (\<forall>n. 19 \<le> n \<and> n \<le> 28 \<and> n \<noteq> 26 \<and> n \<noteq> 27 \<longrightarrow> hx h2 n = hx h n) \<and> (\<forall>n. 8 \<le> n \<and> n \<le> 15 \<longrightarrow> fst (hq h2 n) = fst (hq h n)) \<and>
    load64 (hmem h2) (hx h 3) = vm_entry_return pc \<and> load64 (hmem h2) (hx q 0) = vm_entry_return pc \<and>
    (\<forall>a\<in>{hx h 0 - 16, load64 (hmem h) (hx h 0 - 16), hx h 2}. load64 (hmem h2) a = load64 (hmem h) a) \<and>
    load64 (hmem h2) (hsp h - 32) = hx h 26 \<and> load64 (hmem h2) (hsp h - 24) = hx h 27 \<and>
    load64 (hmem h2) (hsp h - 16) = hx h 29 \<and> load64 (hmem h2) (hsp h - 8) = hx h 30"
proof -
  define sp where "sp = hsp h - 48"
  let ?p = "hx q 0" and ?b = "sp - word_of_nat k" and ?ret = "vm_entry_return pc"
  note f = entry_call_frame [where h = h and pc = pc, folded sp_def]
  have sp: "hsp (entry_call pc h) = sp" by (simp add: entry_call_def sp_def Let_def)
  have x: "hx (entry_call pc h) 26 = hx h 0" "hx (entry_call pc h) 27 = hx h 2" "hq (entry_call pc h) = hq h"
    "\<forall>n. 19 \<le> n \<and> n \<le> 28 \<and> n \<noteq> 26 \<and> n \<noteq> 27 \<longrightarrow> hx (entry_call pc h) n = hx h n" by (simp_all add: entry_call_def Let_def)
  have qa: "hsp q = sp" "\<forall>n. 19 \<le> n \<and> n \<le> 29 \<longrightarrow> hx q n = hx (entry_call pc h) n" "\<forall>n. 8 \<le> n \<and> n \<le> 15 \<longrightarrow> fst (hq q n) = fst (hq h n)"
    using us sp x(3) by (simp_all add: uses_stack_def aapcs_def)
  have up: "load64 (hmem q) (sp + word_of_nat i) = load64 (hmem (entry_call pc h)) (sp + word_of_nat i)" if "i + 8 \<le> 48" for i
  proof (rule uses_stack_load64 [OF us], unfold sp)
    have "sep (?b + word_of_nat (k + i)) 8 (?b + word_of_nat 0) k" by (rule sep_offsets) (use k that in \<open>auto simp: off_sep_def\<close>)
    then show "sep (sp + word_of_nat i) 8 ?b k" by (simp add: algebra_simps)
  qed
  have out: "load64 (hmem q) a = load64 (hmem h) a" if "a \<in> set (entry_slots h ?p)" for a
  proof -
    have s: "sep a 8 ?b (k + 48)" using st that by (simp add: sp_def)
    have "load64 (hmem q) a = load64 (hmem (entry_call pc h)) a" by (rule uses_stack_load64 [OF us]) (use sep_split [OF s] sp in simp)
    moreover have "sep a 8 sp 48" using sep_split [OF s] by simp
    ultimately show ?thesis using f(7) by (simp add: load64_def)
  qed
  have fr: "sep (sp + word_of_nat i) 8 a 8" if "a \<in> set (entry_slots h ?p)" "i + 8 \<le> 48" for a i
  proof -
    have "sep a 8 ?b (k + 48)" using st that(1) by (simp add: sp_def)
    then have "sep a 8 (?b + word_of_nat (k + i)) 8" by (rule sep_sub) (use that(2) in simp)
    then show ?thesis by (simp add: sep_sym [of _ 8 a])
  qed
  let ?m = "store64 (store64 (hmem q) (hx h 3) ?ret) ?p ?ret"
  define h2 where "h2 = fst (vm_entry_start lab fn pc h)"
  have s0: "load64 (hmem q) sp = hx h 1" "load64 (hmem q) (sp + 8) = hx h 3" using up [of 0] up [of 8] f(5,6) by simp_all
  have q26: "hx q 26 = hx h 0" "hx q 27 = hx h 2" using qa(2) x(1,2) by simp_all
  have e: "vm_entry_start lab fn pc h = (h2, Some (take_bit 59 (load64 ?m (hx h 2))))" "hmem h2 = ?m" "hsp h2 = sp" "hq h2 = hq q"
    "hx h2 0 = hx h 0" "hx h2 1 = hx h 1" "hx h2 2 = hx h 2" "\<forall>n\<ge>19. n \<noteq> 30 \<longrightarrow> hx h2 n = hx q n"
    unfolding h2_def vm_entry_start_def entry_before_run q [symmetric] enter_run Let_def by (simp_all add: qa(1) q26 s0)
  have sl: "\<forall>a\<in>{hx h 0 - 16, load64 (hmem h) (hx h 0 - 16), hx h 2}. sep a 8 (hx h 3) 8 \<and> sep a 8 ?p 8" "sep (hx h 3) 8 ?p 8"
    using ss sep_sym by (auto simp: entry_slots_def)
  have "load64 ?m a = load64 (hmem h) a" if "a \<in> {hx h 0 - 16, load64 (hmem h) (hx h 0 - 16), hx h 2}" for a
    using that sl(1) out [of a] by (auto simp: load64_store64_sep entry_slots_def)
  moreover have "load64 ?m (hx h 3) = ?ret" using sl(2) by (simp add: load64_store64_sep)
  moreover have fm: "load64 ?m (sp + word_of_nat i) = load64 (hmem (entry_call pc h)) (sp + word_of_nat i)" if "i + 8 \<le> 48" for i
    using fr [OF _ that, of "hx h 3"] fr [OF _ that, of ?p] up [OF that] by (simp add: load64_store64_sep entry_slots_def)
  have "load64 ?m (hsp h - 32) = hx h 26" "load64 ?m (hsp h - 24) = hx h 27" "load64 ?m (hsp h - 16) = hx h 29" "load64 ?m (hsp h - 8) = hx h 30"
    using fm [of 16] fm [of 24] fm [of 32] fm [of 40] f(1-4) by (simp_all add: sp_def)
  ultimately show ?thesis using e qa q26 x(4) by (intro exI [of _ h2]) (simp add: sp_def)
qed

text \<open>
  C3: the host gets its context back from the guest.  When the function that gives the place of the guest's return address writes only to its stack, and
  the places the entry touches are apart from each other and from the stack, \<open>aether_vm_entry\<close> stores the address it continues at in both places and
  jumps to the handler of the first instruction, called with state, program counter and instruction.  From there on every handler of the chain, event stub or
  lifted, is called in this way, as long as the functions of the host and the lifted code obey the calling convention; and whenever control is back at the
  stored address, the rest of the entry returns to the caller with the stack pointer and all the registers the calling convention protects as they were.
\<close>

theorem host_context_survives:
  assumes "good_vm V" and V: "av_cpu V = hx h 0" "av_sp V = hsp h - 48" "av_pcp V = load64 (hmem h) (hx h 0 - 16)" and ret: "ret = vm_entry_return pc"
    and q: "q = av_fn V (hx h 4) (entry_call pc h)" and us: "uses_stack k (entry_call pc h) q" "k + 48 \<le> 2 ^ 63"
    and sl: "slots_sep (entry_slots h (hx q 0))" "\<forall>a\<in>set (entry_slots h (hx q 0)). sep a 8 (hsp h - 48 - word_of_nat k) (k + 48)"
    and pc: "load64 (hmem h) (load64 (hmem h) (hx h 0 - 16)) = hx h 1"
  shows "\<exists>h2 t. vm_entry_start (av_lab V) (av_fn V) pc h = (h2, Some t) \<and> hx h2 27 = hx h 2 \<and>
     load64 (hmem h2) (hx h 3) = ret \<and> load64 (hmem h2) (hx q 0) = ret \<and>
     (\<forall>h3 t3. vm_reach (a64_code V) ret (h2, t) (h3, t3) \<longrightarrow> vm_ready V (h3, t3) \<and>
        (t3 = ret \<longrightarrow> (\<exists>h4. vm_entry_end (av_lab V) (av_fn V) pc h3 = (h4, Some (hx h 30)) \<and> aapcs h h4)))"
proof -
  obtain h2 where e: "vm_entry_start (av_lab V) (av_fn V) pc h = (h2, Some (take_bit 59 (load64 (hmem h2) (hx h 2))))" "hsp h2 = hsp h - 48"
    "hx h2 0 = hx h 0" "hx h2 1 = hx h 1" "hx h2 2 = hx h 2" "hx h2 26 = hx h 0" "hx h2 27 = hx h 2"
    "\<forall>n. 19 \<le> n \<and> n \<le> 28 \<and> n \<noteq> 26 \<and> n \<noteq> 27 \<longrightarrow> hx h2 n = hx h n" "\<forall>n. 8 \<le> n \<and> n \<le> 15 \<longrightarrow> fst (hq h2 n) = fst (hq h n)"
    "load64 (hmem h2) (hx h 3) = ret" "load64 (hmem h2) (hx q 0) = ret"
    "\<forall>a\<in>{hx h 0 - 16, load64 (hmem h) (hx h 0 - 16), hx h 2}. load64 (hmem h2) a = load64 (hmem h) a"
    "load64 (hmem h2) (hsp h - 32) = hx h 26" "load64 (hmem h2) (hsp h - 24) = hx h 27"
    "load64 (hmem h2) (hsp h - 16) = hx h 29" "load64 (hmem h2) (hsp h - 8) = hx h 30"
    using entry_start_run [where lab = "av_lab V" and fn = "av_fn V", OF q us sl] ret by blast
  let ?t = "take_bit 59 (load64 (hmem h2) (hx h 2))"
  have r: "vm_ready V (h2, ?t)" using e(2-7,12) V pc by (simp add: vm_ready_def in_vm_def)
  have "\<exists>h4. vm_entry_end (av_lab V) (av_fn V) pc h3 = (h4, Some (hx h 30)) \<and> aapcs h h4" if "vm_kept h2 h3" for h3
  proof -
    have k: "hsp h3 = hsp h - 48" "mem_read (hmem h3) (hsp h - 48) 48 = mem_read (hmem h2) (hsp h - 48) 48"
      using that e(2) by (simp_all add: vm_kept_def frame_kept_def)
    have "load64 (hmem h3) (hsp h3 + 16) = hx h 26" "load64 (hmem h3) (hsp h3 + 24) = hx h 27" "load64 (hmem h3) (hsp h3 + 32) = hx h 29" "load64 (hmem h3) (hsp h3 + 40) = hx h 30"
      using load64_of_read [OF k(2), of 16] load64_of_read [OF k(2), of 24] load64_of_read [OF k(2), of 32] load64_of_read [OF k(2), of 40] e(13-16) k(1) by simp_all
    note a = after_run [OF this]
    have "hx h3 n = hx h n" if "19 \<le> n" "n \<le> 28" "n \<noteq> 26" "n \<noteq> 27" for n using \<open>vm_kept h2 h3\<close> e(8) that by (simp add: vm_kept_def)
    moreover have "fst (hq h3 n) = fst (hq h n)" if "8 \<le> n" "n \<le> 15" for n using \<open>vm_kept h2 h3\<close> e(9) that by (simp add: vm_kept_def)
    ultimately show ?thesis unfolding vm_entry_end_def a using k(1) by (auto simp: aapcs_def)
  qed
  then show ?thesis using e(1,7,10,11) a64_chain.chain_keeps [OF _ assms(1) r] by fastforce
qed

section \<open>Calling the host for the guest\<close>

text \<open>The state in which \<open>call_host\<close> calls the function of the host.\<close>

definition host_call_lines :: "stub_line list" where
  "host_call_lines = take 24 call_host"

definition host_call_state :: "u64 \<Rightarrow> host \<Rightarrow> host" where
  "host_call_state pc h = (let c = fold stub_step host_call_lines h in c\<lparr>hx := (hx c)(30 := 100 + pc)\<rparr>)"

lemma call_host_split: "stub_run lab fn pc call_host h = stub_run lab fn (100 + pc) (drop 25 call_host) (fn (hx h 2) (host_call_state pc h))"
proof -
  have "call_host = host_call_lines @ Blr 16 # drop 25 call_host" by (simp add: host_call_lines_def call_host_def)
  moreover have "stub_run lab fn pc (host_call_lines @ Blr 16 # ls) h = stub_run lab fn (100 + pc) ls (fn (hx h 2) (host_call_state pc h))" for ls
    by (simp add: host_call_state_def host_call_lines_def call_host_def Let_def)
  ultimately show ?thesis by metis
qed

lemma host_call_state_args:
  fixes pc h
  defines "c \<equiv> host_call_state pc h" and "sp \<equiv> hsp h - 48"
  assumes g: "sep (hx h 0) 0x1f8 sp 48" and v: "sep (hx h 1) 0x80 sp 48"
  shows "map (hx c) [0..<9] = map (\<lambda>n. load64 (hmem h) (hx h 0 + 16 * word_of_nat n)) [0..<9]"
    "map (hq c) [0..<8] = map (\<lambda>n. (load64 (hmem h) (hx h 1 + 16 * word_of_nat n), load64 (hmem h) (hx h 1 + 16 * word_of_nat n + 8))) [0..<8]"
    "hsp c = load64 (hmem h) (hx h 0 + 0x1f0)" "hx c 19 = hx h 0" "hx c 20 = hx h 1" "hx c 21 = sp" "\<forall>n. 22 \<le> n \<and> n \<le> 28 \<longrightarrow> hx c n = hx h n"
    "\<forall>n\<ge>8. hq c n = hq h n" "load64 (hmem c) sp = hx h 19" "load64 (hmem c) (sp + 8) = hx h 20" "load64 (hmem c) (sp + 16) = hx h 21"
    "load64 (hmem c) (sp + 32) = hx h 29" "load64 (hmem c) (sp + 40) = hx h 30" "\<And>a n. sep a n sp 48 \<Longrightarrow> mem_read (hmem c) a n = mem_read (hmem h) a n"
proof -
  let ?m = "store64 (store64 (store64 (store64 (store64 (hmem h) sp (hx h 19)) (sp + 8) (hx h 20)) (sp + 16) (hx h 21)) (sp + 32) (hx h 29)) (sp + 40) (hx h 30)"
  have sp: "hsp h = sp + 48" by (simp add: sp_def)
  have out: "mem_read ?m a n = mem_read (hmem h) a n" if "sep a n sp 48" for a n
    using sep_sub [OF that, of 0 8] sep_sub [OF that, of 8 8] sep_sub [OF that, of 16 8] sep_sub [OF that, of 32 8] sep_sub [OF that, of 40 8]
    by (simp add: store64_def mem_read_write_sep)
  have go: "load64 ?m (hx h 0 + word_of_nat i) = load64 (hmem h) (hx h 0 + word_of_nat i)" if "i + 8 \<le> 0x1f8" for i
    using out [of "hx h 0 + word_of_nat i" 8] sep_sub [OF g [unfolded sep_sym [of "hx h 0"]] that] sep_sym by (simp add: load64_def)
  have vo: "load64 ?m (hx h 1 + word_of_nat i) = load64 (hmem h) (hx h 1 + word_of_nat i)" if "i + 8 \<le> 0x80" for i
    using out [of "hx h 1 + word_of_nat i" 8] sep_sub [OF v [unfolded sep_sym [of "hx h 1"]] that] sep_sym by (simp add: load64_def)
  have m: "hmem c = ?m" by (simp add: c_def host_call_state_def host_call_lines_def call_host_def Let_def sp)
  have u: "[0..<9] = [0, 1, 2, 3, 4, 5, 6, 7, 8]" "[0..<8] = [0, 1, 2, 3, 4, 5, 6, 7]" by code_simp+
  have x: "map (hx c) [0..<9] = map (\<lambda>n. load64 ?m (hx h 0 + word_of_nat (16 * n))) [0..<9]" "hsp c = load64 ?m (hx h 0 + 0x1f0)"
    "hx c 19 = hx h 0" "hx c 20 = hx h 1" "hx c 21 = sp" "\<forall>n. 22 \<le> n \<and> n \<le> 28 \<longrightarrow> hx c n = hx h n"
    unfolding u by (simp_all add: c_def host_call_state_def host_call_lines_def call_host_def Let_def sp)
  have y: "map (hq c) [0..<8] = map (\<lambda>n. (load64 ?m (hx h 1 + word_of_nat (16 * n)), load64 ?m (hx h 1 + word_of_nat (16 * n + 8)))) [0..<8]" "\<forall>n\<ge>8. hq c n = hq h n"
    unfolding u by (simp_all add: c_def host_call_state_def host_call_lines_def call_host_def Let_def sp) (simp add: add.commute)
  have "load64 ?m (hx h 0 + word_of_nat (16 * n)) = load64 (hmem h) (hx h 0 + 16 * word_of_nat n)" if "n < 9" for n
    using go [of "16 * n"] that by simp
  then show "map (hx c) [0..<9] = map (\<lambda>n. load64 (hmem h) (hx h 0 + 16 * word_of_nat n)) [0..<9]" unfolding x(1) by simp
  have "load64 ?m (hx h 1 + word_of_nat (16 * n)) = load64 (hmem h) (hx h 1 + 16 * word_of_nat n) \<and>
      load64 ?m (hx h 1 + word_of_nat (16 * n + 8)) = load64 (hmem h) (hx h 1 + 16 * word_of_nat n + 8)" if "n < 8" for n
    using vo [of "16 * n"] vo [of "16 * n + 8"] that by (simp add: ac_simps)
  then show "map (hq c) [0..<8] = map (\<lambda>n. (load64 (hmem h) (hx h 1 + 16 * word_of_nat n), load64 (hmem h) (hx h 1 + 16 * word_of_nat n + 8))) [0..<8]"
    unfolding y(1) by simp
  show "hsp c = load64 (hmem h) (hx h 0 + 0x1f0)" using go [of "0x1f0"] x(2) by simp
  show "load64 (hmem c) sp = hx h 19" "load64 (hmem c) (sp + 8) = hx h 20" "load64 (hmem c) (sp + 16) = hx h 21"
    "load64 (hmem c) (sp + 32) = hx h 29" "load64 (hmem c) (sp + 40) = hx h 30" unfolding m by (simp_all add: load64_store64_sep sep_def)
  show "mem_read (hmem c) a n = mem_read (hmem h) a n" if "sep a n sp 48" for a n unfolding m by (rule out [OF that])
  show "hx c 19 = hx h 0" "hx c 20 = hx h 1" "hx c 21 = sp" "\<forall>n. 22 \<le> n \<and> n \<le> 28 \<longrightarrow> hx c n = hx h n" "\<forall>n\<ge>8. hq c n = hq h n" by (rule x y)+
qed

lemma call_host_after:
  fixes q :: host and sp g v :: u64
  assumes x: "hx q 19 = g" "hx q 20 = v" "hx q 21 = sp"
    and g: "sep g 0x1f8 sp 48" and v: "sep v 0x80 sp 48" and gv: "sep g 0x1f8 v 0x80"
    and l: "load64 (hmem q) sp = x19" "load64 (hmem q) (sp + 8) = x20" "load64 (hmem q) (sp + 16) = x21" "load64 (hmem q) (sp + 32) = x29" "load64 (hmem q) (sp + 40) = x30"
  shows "\<exists>m. stub_run lab fn pc (drop 25 call_host) q =
      (q\<lparr>hsp := sp + 48, hmem := m, hx := (hx q)(29 := x29, 30 := x30, 21 := x21, 19 := x19, 20 := x20)\<rparr>, Some x30) \<and>
    load64 m g = hx q 0 \<and> load64 m (g + 16) = hx q 1 \<and>
    map (\<lambda>n. (load64 m (v + 16 * word_of_nat n), load64 m (v + 16 * word_of_nat n + 8))) [0..<4] = map (hq q) [0..<4] \<and>
    (\<forall>a n. sep a n g 24 \<longrightarrow> sep a n v 64 \<longrightarrow> mem_read m a n = mem_read (hmem q) a n)"
proof -
  let ?mv = "store64 (store64 (store64 (store64 (store64 (store64 (store64 (store64 (hmem q) v (fst (hq q 0))) (v + 8) (snd (hq q 0)))
    (v + 16) (fst (hq q 1))) (v + 24) (snd (hq q 1))) (v + 32) (fst (hq q 2))) (v + 40) (snd (hq q 2))) (v + 48) (fst (hq q 3))) (v + 56) (snd (hq q 3))"
  let ?m = "store64 (store64 ?mv g (hx q 0)) (g + 16) (hx q 1)"
  have out: "mem_read ?m a n = mem_read (hmem q) a n" if "sep a n g 24" "sep a n v 64" for a n
    using sep_sub [OF that(1), of 0 8] sep_sub [OF that(1), of 16 8] sep_sub [OF that(2), of 0 8] sep_sub [OF that(2), of 8 8] sep_sub [OF that(2), of 16 8]
      sep_sub [OF that(2), of 24 8] sep_sub [OF that(2), of 32 8] sep_sub [OF that(2), of 40 8] sep_sub [OF that(2), of 48 8] sep_sub [OF that(2), of 56 8]
    by (simp add: store64_def mem_read_write_sep)
  have first: "sep a j b k" if "sep a n b k" "j \<le> n" for a b :: u64 and j n k
    using sep_sub [OF that(1) [unfolded sep_sym [of a]], of 0 j] that(2) by (simp add: sep_sym [of b])
  have gs: "sep g 24 sp 48" "sep v 64 sp 48" "sep g 24 v 64"
    using first [OF g] first [OF v] sep_sub [OF first [OF gv, of 24], of 0 64] by simp_all
  have fr: "load64 ?m (sp + word_of_nat i) = load64 (hmem q) (sp + word_of_nat i)" if "i + 8 \<le> 48" for i
  proof -
    have "mem_read ?m sp 48 = mem_read (hmem q) sp 48" by (rule out [OF gs(1,2) [unfolded sep_sym [of _ _ sp]]])
    from load64_of_read [OF this that] show ?thesis .
  qed
  have "stub_run lab fn pc (drop 25 call_host) q =
      (q\<lparr>hsp := sp + 48, hmem := ?m, hx := (hx q)(29 := x29, 30 := x30, 21 := x21, 19 := x19, 20 := x20)\<rparr>, Some x30)"
    using fr [of 0] fr [of 8] fr [of 16] fr [of 32] fr [of 40] l by (simp add: call_host_def x add.commute [of "24 :: u64"] add.commute [of "40 :: u64"] add.commute [of "56 :: u64"])
  moreover have gw: "sep (v + word_of_nat i) 8 g 8 \<and> sep (v + word_of_nat i) 8 (g + 16) 8" if "i + 8 \<le> 64" for i
  proof -
    have "sep g 24 (v + word_of_nat i) 8" by (rule sep_sub [OF gs(3) that])
    then have s: "sep (v + word_of_nat i) 8 g 24" by (rule sep_sym [THEN iffD1])
    show ?thesis using sep_sub [OF s, of 0 8] sep_sub [OF s, of 16 8] by simp
  qed
  have u: "[0..<4] = [0, 1, 2, 3]" by code_simp
  have "map (\<lambda>n. (load64 ?m (v + 16 * word_of_nat n), load64 ?m (v + 16 * word_of_nat n + 8))) [0..<4] = map (hq q) [0..<4]"
    unfolding u using gw [of 0] gw [of 8] gw [of 16] gw [of 24] gw [of 32] gw [of 40] gw [of 48] gw [of 56]
    by (simp add: load64_store64_sep sep_def add.commute [of "24 :: u64"] add.commute [of "40 :: u64"] add.commute [of "56 :: u64"])
  moreover have "load64 ?m g = hx q 0" by (simp add: load64_store64_sep sep_def)
  moreover have "load64 ?m (g + 16) = hx q 1" by simp
  ultimately show ?thesis using out by (intro exI [of _ ?m]) blast
qed

text \<open>
  C24: \<open>call_host\<close> calls a function of the host as the guest would.  When the state is apart from the frame and the vector registers from the others, the
  function is called with x0 to x8 and q0 to q7 of the guest on the guest's stack; and when it obeys the calling convention and leaves the
  frame alone, \<open>call_host\<close> returns to its caller with all protected registers as they were, x0, x1 and q0 to q3 of the guest are
  what the function returned, and the rest of the memory is as the function left it.
\<close>

theorem call_host_runs_function:
  assumes g: "sep (hx h 0) 0x1f8 (hsp h - 48) 48" and v: "sep (hx h 1) 0x80 (hsp h - 48) 48" and gv: "sep (hx h 0) 0x1f8 (hx h 1) 0x80"
    and c: "c = host_call_state pc h" and q: "q = fn (hx h 2) c" and a: "aapcs c q"
    and fr: "mem_read (hmem q) (hsp h - 48) 48 = mem_read (hmem c) (hsp h - 48) 48"
  shows "map (hx c) [0..<9] = map (\<lambda>n. load64 (hmem h) (hx h 0 + 16 * word_of_nat n)) [0..<9] \<and>
     map (hq c) [0..<8] = map (\<lambda>n. (load64 (hmem h) (hx h 1 + 16 * word_of_nat n), load64 (hmem h) (hx h 1 + 16 * word_of_nat n + 8))) [0..<8] \<and>
     hsp c = load64 (hmem h) (hx h 0 + 0x1f0) \<and>
     (\<exists>h'. stub_run lab fn pc call_host h = (h', Some (hx h 30)) \<and> aapcs h h' \<and>
        load64 (hmem h') (hx h 0) = hx q 0 \<and> load64 (hmem h') (hx h 0 + 16) = hx q 1 \<and>
        map (\<lambda>n. (load64 (hmem h') (hx h 1 + 16 * word_of_nat n), load64 (hmem h') (hx h 1 + 16 * word_of_nat n + 8))) [0..<4] = map (hq q) [0..<4] \<and>
        (\<forall>a n. sep a n (hx h 0) 24 \<longrightarrow> sep a n (hx h 1) 64 \<longrightarrow> mem_read (hmem h') a n = mem_read (hmem q) a n))"
proof -
  note A = host_call_state_args [OF g v, of pc, folded c]
  have x: "hx q 19 = hx h 0" "hx q 20 = hx h 1" "hx q 21 = hsp h - 48" using a A(4-6) by (simp_all add: aapcs_def)
  have l: "load64 (hmem q) (hsp h - 48 + word_of_nat i) = load64 (hmem c) (hsp h - 48 + word_of_nat i)" if "i + 8 \<le> 48" for i
    by (rule load64_of_read [OF fr that])
  have f: "load64 (hmem q) (hsp h - 48) = hx h 19" "load64 (hmem q) (hsp h - 48 + 8) = hx h 20" "load64 (hmem q) (hsp h - 48 + 16) = hx h 21"
    "load64 (hmem q) (hsp h - 48 + 32) = hx h 29" "load64 (hmem q) (hsp h - 48 + 40) = hx h 30"
    using l [of 0] l [of 8] l [of 16] l [of 32] l [of 40] A(9-13) by simp_all
  obtain m where m: "stub_run lab fn (100 + pc) (drop 25 call_host) q =
      (q\<lparr>hsp := hsp h - 48 + 48, hmem := m, hx := (hx q)(29 := hx h 29, 30 := hx h 30, 21 := hx h 21, 19 := hx h 19, 20 := hx h 20)\<rparr>, Some (hx h 30))"
    "load64 m (hx h 0) = hx q 0" "load64 m (hx h 0 + 16) = hx q 1"
    "map (\<lambda>n. (load64 m (hx h 1 + 16 * word_of_nat n), load64 m (hx h 1 + 16 * word_of_nat n + 8))) [0..<4] = map (hq q) [0..<4]"
    "\<forall>a n. sep a n (hx h 0) 24 \<longrightarrow> sep a n (hx h 1) 64 \<longrightarrow> mem_read m a n = mem_read (hmem q) a n"
    using call_host_after [OF x g v gv f, of lab fn "100 + pc"] by blast
  define h' where "h' = fst (stub_run lab fn (100 + pc) (drop 25 call_host) q)"
  have "hx q n = hx h n" if "22 \<le> n" "n \<le> 28" for n using a A(7) that by (simp add: aapcs_def)
  moreover have "fst (hq q n) = fst (hq h n)" if "8 \<le> n" "n \<le> 15" for n using a A(8) that by (simp add: aapcs_def)
  ultimately have "aapcs h h'" unfolding h'_def m(1) by (auto simp: aapcs_def)
  moreover have "stub_run lab fn pc call_host h = (h', Some (hx h 30))" unfolding call_host_split h'_def m(1) c [symmetric] q [symmetric] by simp
  moreover have "hmem h' = m" by (simp add: h'_def m(1))
  ultimately show ?thesis using A(1-3) m(2-5) by blast
qed

section \<open>An example\<close>

text \<open>
  A guest with two instructions, a lifted one that advances the program counter and an event before the host's address.
\<close>

definition advance_pc :: "host \<Rightarrow> host" where
  "advance_pc h = (let v = load64 (hmem h) 0x10100 + 4 in h\<lparr>hmem := store64 (hmem h) 0x10100 v, hx := (hx h)(1 := v)\<rparr>)"

definition host_fns :: "u64 \<Rightarrow> host \<Rightarrow> host" where
  "host_fns t h = (if t = 0x7000 then h\<lparr>hx := (hx h)(0 := 0x40000)\<rparr> else h\<lparr>hx := (hx h)(0 := hx h 2 + 8)\<rparr>)"

definition stub_vm0 :: a64_vm where
  "stub_vm0 = \<lparr>av_lab = (\<lambda>_. 0x8000), av_fn = host_fns,
     av_code = (\<lambda>t. if t = 0x5000 then Some (LiftedHandler advance_pc) else if t = 0x6000 then Some (EventStub ''event_insn_after'') else None),
     av_cpu = 0x10010, av_pcp = 0x10100, av_sp = 0x1FFFD0\<rparr>"

definition entry_host0 :: host where
  "entry_host0 = \<lparr>hx = (\<lambda>n. if n = 0 then 0x10010 else if n = 1 then 0x400 else if n = 2 then 0x20000 else if n = 3 then 0x30000 else if n = 4 then 0x7000
       else word_of_nat n), hq = (\<lambda>_. (0, 0)), hsp = 0x200000,
     hmem = store64 (store64 (store64 (store64 (store64 (\<lambda>_. 0) 0x10000 0x10100) 0x10100 0x400) 0x20000 0x5000) 0x20008 0x6000) 0x20010 0x9034\<rparr>"

lemma vm0_good: "good_vm stub_vm0"
proof -
  have s: "sep 0x1FFFD0 48 0x10100 8" "sep 0x10000 8 0x10100 8" by (simp_all add: sep_def)
  have "good_host stub_vm0"
    by (simp add: good_host_def obeys_def stub_vm0_def in_vm_def host_fns_def aapcs_def frame_kept_def)
  moreover have "good_lifted stub_vm0"
    using s by (auto simp: good_lifted_def obeys_def stub_vm0_def vm_ready_def in_vm_def advance_pc_def Let_def aapcs_def frame_kept_def store64_def mem_read_write_sep
        load64_def split: if_splits) (simp_all flip: store64_def load64_def)
  ultimately show ?thesis by (simp add: good_vm_def)
qed

lemma vm0_call: "hx (entry_call 0x9000 entry_host0) 27 = 0x20000" "hx (entry_call 0x9000 entry_host0) 26 = 0x10010" "hsp (entry_call 0x9000 entry_host0) = 0x1FFFD0"
  by (simp_all add: entry_call_def entry_host0_def Let_def)

lemma entry_host0_words: "load64 (hmem entry_host0) 0x20000 = 0x5000" "load64 (hmem entry_host0) 0x20008 = 0x6000" "load64 (hmem entry_host0) 0x20010 = 0x9034"
  "load64 (hmem entry_host0) 0x10000 = 0x10100" "load64 (hmem entry_host0) 0x10100 = 0x400"
  by (simp_all add: entry_host0_def load64_store64_sep sep_def)

lemma entry_host0_regs: "hx entry_host0 0 = 0x10010" "hx entry_host0 1 = 0x400" "hx entry_host0 2 = 0x20000" "hx entry_host0 3 = 0x30000" "hx entry_host0 4 = 0x7000"
  "hx entry_host0 30 = 30" "hsp entry_host0 = 0x200000"
  by (simp_all add: entry_host0_def)

text \<open>The chain of the example: both instructions, then the address at which the entry goes on.\<close>

lemma vm0_reach:
  assumes "hx h 27 = 0x20000" and "load64 (hmem h) 0x20008 = 0x6000" and "load64 (hmem h) 0x20010 = 0x9034"
  shows "\<exists>h3. vm_reach (a64_code stub_vm0) 0x9034 (h, 0x5000) (h3, 0x9034)"
proof -
  have m: "load64 (hmem (advance_pc h)) a = load64 (hmem h) a" if "sep a 8 0x10100 8" for a
    using that by (simp add: advance_pc_def Let_def load64_store64_sep)
  have x: "hx (advance_pc h) 27 = 0x20000" using assms(1) by (simp add: advance_pc_def Let_def)
  have "\<exists>h1. a64_code stub_vm0 0x5000 h = Some (h1, 0x6000) \<and> hmem h1 = hmem (advance_pc h) \<and> hx h1 27 = 0x20008"
    using assms(2) m [of "0x20008"] x by (simp add: a64_code_def stub_vm0_def return_run sep_def take_bit_eq_mod)
  then obtain h1 where h1: "a64_code stub_vm0 0x5000 h = Some (h1, 0x6000)" "hmem h1 = hmem (advance_pc h)" "hx h1 27 = 0x20008" by blast
  have "\<exists>h3. a64_code stub_vm0 0x6000 h1 = Some (h3, 0x9034)"
    using assms(3) m [of "0x20010"] h1(2,3) by (simp add: a64_code_def stub_vm0_def event_run event_names_def host_fns_def event_call_def sep_def take_bit_eq_mod)
  then obtain h3 where h3: "a64_code stub_vm0 0x6000 h1 = Some (h3, 0x9034)" by blast
  have "vm_reach (a64_code stub_vm0) 0x9034 (h, 0x5000) (h1, 0x6000)" by (rule vm_reach_step [where code = "a64_code stub_vm0", OF vm_reach_start _ h1(1)]) simp
  then have "vm_reach (a64_code stub_vm0) 0x9034 (h, 0x5000) (h3, 0x9034)" by (rule vm_reach_step [where code = "a64_code stub_vm0", OF _ _ h3]) simp
  then show ?thesis by blast
qed

lemma entry_call0_words:
  assumes "sep a 8 0x1FFFD0 48" and "sep a 8 0x30000 8" and "sep a 8 0x40000 8"
  shows "load64 (hmem (fst (vm_entry_start (av_lab stub_vm0) (av_fn stub_vm0) 0x9000 entry_host0))) a = load64 (hmem entry_host0) a"
proof -
  have "vm_entry_return 0x9000 = 0x9034" by (simp add: vm_entry_return_def vm_entry_before_def)
  then have "hmem (fst (vm_entry_start (av_lab stub_vm0) (av_fn stub_vm0) 0x9000 entry_host0)) =
      store64 (store64 (hmem (entry_call 0x9000 entry_host0)) 0x30000 0x9034) 0x40000 0x9034"
    using entry_call_frame(5,6) [where pc = "0x9000" and h = entry_host0]
    by (simp add: vm_entry_start_def entry_before_run enter_run stub_vm0_def host_fns_def entry_host0_regs vm0_call Let_def)
  moreover have "load64 (hmem (entry_call 0x9000 entry_host0)) a = load64 (hmem entry_host0) a"
    using entry_call_frame(7) [where a = a and n = 8 and pc = "0x9000" and h = entry_host0] assms(1) by (simp add: load64_def entry_host0_regs)
  ultimately show ?thesis using assms(2,3) by (simp add: load64_store64_sep)
qed

theorem host_context_survives_witness:
  "\<exists>h2 h3 h4. vm_entry_start (av_lab stub_vm0) (av_fn stub_vm0) 0x9000 entry_host0 = (h2, Some 0x5000) \<and> load64 (hmem h2) 0x40000 = 0x9034 \<and>
     vm_reach (a64_code stub_vm0) 0x9034 (h2, 0x5000) (h3, 0x9034) \<and>
     vm_entry_end (av_lab stub_vm0) (av_fn stub_vm0) 0x9000 h3 = (h4, Some 30) \<and> aapcs entry_host0 h4"
proof -
  let ?q = "av_fn stub_vm0 (hx entry_host0 4) (entry_call 0x9000 entry_host0)"
  have q0: "hx ?q 0 = 0x40000" by (simp add: stub_vm0_def host_fns_def entry_host0_regs)
  have us: "uses_stack 0 (entry_call 0x9000 entry_host0) ?q" by (simp add: uses_stack_def aapcs_def stub_vm0_def host_fns_def entry_host0_regs)
  have sl: "entry_slots entry_host0 (hx ?q 0) = [0x30000, 0x40000, 0x10000, 0x10100, 0x20000]" unfolding q0 by (simp add: entry_slots_def entry_host0_regs entry_host0_words)
  have ret: "0x9034 = vm_entry_return 0x9000" by (simp add: vm_entry_return_def vm_entry_before_def)
  have V: "av_cpu stub_vm0 = hx entry_host0 0" "av_sp stub_vm0 = hsp entry_host0 - 48" "av_pcp stub_vm0 = load64 (hmem entry_host0) (hx entry_host0 0 - 16)"
    and pc: "load64 (hmem entry_host0) (load64 (hmem entry_host0) (hx entry_host0 0 - 16)) = hx entry_host0 1"
    using entry_host0_regs entry_host0_words by (simp_all add: stub_vm0_def)
  have sl12: "slots_sep (entry_slots entry_host0 (hx ?q 0))" "\<forall>a\<in>set (entry_slots entry_host0 (hx ?q 0)). sep a 8 (hsp entry_host0 - 48 - word_of_nat 0) (0 + 48)"
    unfolding sl by (simp_all add: entry_host0_regs sep_def)
  from host_context_survives [OF vm0_good V ret refl us _ sl12 pc] obtain h2 t where
    e: "vm_entry_start (av_lab stub_vm0) (av_fn stub_vm0) 0x9000 entry_host0 = (h2, Some t)" "hx h2 27 = 0x20000" "load64 (hmem h2) (hx ?q 0) = 0x9034"
      "\<forall>h3 t3. vm_reach (a64_code stub_vm0) 0x9034 (h2, t) (h3, t3) \<longrightarrow> vm_ready stub_vm0 (h3, t3) \<and>
        (t3 = 0x9034 \<longrightarrow> (\<exists>h4. vm_entry_end (av_lab stub_vm0) (av_fn stub_vm0) 0x9000 h3 = (h4, Some (hx entry_host0 30)) \<and> aapcs entry_host0 h4))"
    unfolding entry_host0_regs(3) by auto
  have w: "load64 (hmem h2) a = load64 (hmem entry_host0) a" if "sep a 8 0x1FFFD0 48" "sep a 8 0x30000 8" "sep a 8 0x40000 8" for a
    using entry_call0_words [OF that] e(1) by simp
  have "vm_ready stub_vm0 (h2, t)" using e(4) vm_reach_start [of "a64_code stub_vm0" "0x9034" "(h2, t)"] by blast
  then have t: "t = 0x5000" using e(2) w [of "0x20000"] entry_host0_words(1) by (simp add: vm_ready_def sep_def take_bit_eq_mod)
  obtain h3 where "vm_reach (a64_code stub_vm0) 0x9034 (h2, 0x5000) (h3, 0x9034)"
    using vm0_reach [OF e(2)] w [of "0x20008"] w [of "0x20010"] entry_host0_words(2,3) by (auto simp: sep_def)
  then show ?thesis using e t q0 entry_host0_regs(6) by metis
qed

text \<open>A function of the host that adds two numbers, called for the guest.\<close>

definition add_fn :: "u64 \<Rightarrow> host \<Rightarrow> host" where
  "add_fn t h = h\<lparr>hx := (hx h)(0 := hx h 0 + hx h 1, 1 := 0)\<rparr>"

definition call_host0 :: host where
  "call_host0 = \<lparr>hx = (\<lambda>n. if n = 0 then 0x10000 else if n = 1 then 0x11000 else if n = 2 then 0x7000 else word_of_nat n), hq = (\<lambda>_. (0, 0)),
     hsp = 0x200000, hmem = store64 (store64 (\<lambda>_. 0) 0x10000 3) 0x10010 4\<rparr>"

theorem call_host_runs_function_witness:
  "\<exists>h'. stub_run (\<lambda>_. 0) add_fn 0x9000 call_host call_host0 = (h', Some 30) \<and> aapcs call_host0 h' \<and> load64 (hmem h') 0x10000 = 7"
proof -
  let ?c = "host_call_state 0x9000 call_host0"
  have r: "hx call_host0 0 = 0x10000" "hx call_host0 1 = 0x11000" "hsp call_host0 = 0x200000" "hx call_host0 30 = 30"
    "load64 (hmem call_host0) 0x10000 = 3" "load64 (hmem call_host0) 0x10010 = 4"
    by (simp_all add: call_host0_def load64_store64_sep sep_def)
  have s: "sep (hx call_host0 0) 0x1f8 (hsp call_host0 - 48) 48" "sep (hx call_host0 1) 0x80 (hsp call_host0 - 48) 48" "sep (hx call_host0 0) 0x1f8 (hx call_host0 1) 0x80"
    unfolding r by (simp_all add: sep_def)
  have "aapcs ?c (add_fn (hx call_host0 2) ?c)" by (simp add: add_fn_def aapcs_def)
  from call_host_runs_function [where fn = add_fn and lab = "\<lambda>_. 0", OF s refl refl this] obtain h' where
    w: "map (hx ?c) [0..<9] = map (\<lambda>n. load64 (hmem call_host0) (hx call_host0 0 + 16 * word_of_nat n)) [0..<9]"
      "stub_run (\<lambda>_. 0) add_fn 0x9000 call_host call_host0 = (h', Some 30)" "aapcs call_host0 h'" "load64 (hmem h') 0x10000 = hx ?c 0 + hx ?c 1"
    unfolding r by (auto simp: add_fn_def)
  have "hx ?c 0 = 3" "hx ?c 1 = 4" using arg_cong [OF w(1), of "\<lambda>xs. xs ! 0"] arg_cong [OF w(1), of "\<lambda>xs. xs ! 1"] r by simp_all
  with w show ?thesis by simp
qed

end
