(* ===== verification/EntryStubsX86.thy ===== *)
theory EntryStubsX86
  imports EntryStubs
begin

text \<open>
  The naked assembly functions of \<open>src/X86.cpp\<close> on an x86-64 host, for the calling conventions of Windows and of the other systems, and
  \<open>__remill_function_return\<close> of \<open>src/Intrinsic.cpp\<close>.  The lines are those of the native handlers with calls and return added; the bytes of a line, which
  fix the address a call pushes, and the functions called are parameters.
\<close>

section \<open>Lines and their meaning\<close>

record x86_host =
  xr :: "Register \<Rightarrow> u64"
  xv :: "nat \<Rightarrow> u64 \<times> u64"
  xmem :: mem

datatype x86_stub_line = Line86 x86_line | MovZero86 Register | CallFn string | CallReg Register | Ret86

fun x86_step :: "x86_line \<Rightarrow> x86_host \<Rightarrow> x86_host" where
  "x86_step (Push r) h = (let sp = xr h RSP - 8 in h\<lparr>xmem := store64 (xmem h) sp (xr h r), xr := (xr h)(RSP := sp)\<rparr>)"
| "x86_step (Pop r) h = h\<lparr>xr := (xr h)(RSP := xr h RSP + 8, r := load64 (xmem h) (xr h RSP))\<rparr>"
| "x86_step (SubRsp k) h = h\<lparr>xr := (xr h)(RSP := xr h RSP - word_of_nat k)\<rparr>"
| "x86_step (AddRsp k) h = h\<lparr>xr := (xr h)(RSP := xr h RSP + word_of_nat k)\<rparr>"
| "x86_step (MovRR s d) h = h\<lparr>xr := (xr h)(d := xr h s)\<rparr>"
| "x86_step (MovLd k b d) h = h\<lparr>xr := (xr h)(d := load64 (xmem h) (xr h b + of_int k))\<rparr>"
| "x86_step (MovSt s k b) h = h\<lparr>xmem := store64 (xmem h) (xr h b + of_int k) (xr h s)\<rparr>"
| "x86_step (AddImm k r) h = h\<lparr>xr := (xr h)(r := xr h r + word_of_nat k)\<rparr>"
| "x86_step (ShlImm k r) h = h\<lparr>xr := (xr h)(r := push_bit k (xr h r))\<rparr>"
| "x86_step (ShrImm k r) h = h\<lparr>xr := (xr h)(r := drop_bit k (xr h r))\<rparr>"
| "x86_step _ h = h"

text \<open>
  A call pushes the address of the next line; \<open>fn\<close> is the effect of the function from there to its return, which pops the address.
\<close>

definition push_ret :: "u64 \<Rightarrow> x86_host \<Rightarrow> x86_host" where
  "push_ret pc h = (let sp = xr h RSP - 8 in h\<lparr>xmem := store64 (xmem h) sp pc, xr := (xr h)(RSP := sp)\<rparr>)"

fun x86_stub_run :: "(x86_stub_line \<Rightarrow> u64) \<Rightarrow> (string \<Rightarrow> u64) \<Rightarrow> (u64 \<Rightarrow> x86_host \<Rightarrow> x86_host) \<Rightarrow> u64 \<Rightarrow> x86_stub_line list \<Rightarrow> x86_host \<Rightarrow> x86_host \<times> u64 option" where
  "x86_stub_run sz lab fn pc [] h = (h, None)"
| "x86_stub_run sz lab fn pc (l # ls) h =
     (let pc' = pc + sz l in
      case l of
        Line86 (JmpReg r) \<Rightarrow> (h, Some (xr h r))
      | Line86 l' \<Rightarrow> x86_stub_run sz lab fn pc' ls (x86_step l' h)
      | MovZero86 r \<Rightarrow> x86_stub_run sz lab fn pc' ls (h\<lparr>xr := (xr h)(r := 0)\<rparr>)
      | CallFn f \<Rightarrow> x86_stub_run sz lab fn pc' ls (fn (lab f) (push_ret pc' h))
      | CallReg r \<Rightarrow> x86_stub_run sz lab fn pc' ls (fn (xr h r) (push_ret pc' h))
      | Ret86 \<Rightarrow> (h\<lparr>xr := (xr h)(RSP := xr h RSP + 8)\<rparr>, Some (load64 (xmem h) (xr h RSP))))"

section \<open>The stubs\<close>

definition arg0 :: "bool \<Rightarrow> Register" where "arg0 w = (if w then RCX else RDI)"
definition arg1 :: "bool \<Rightarrow> Register" where "arg1 w = (if w then RDX else RSI)"
definition arg2 :: "bool \<Rightarrow> Register" where "arg2 w = (if w then R 8 else RDX)"
definition arg3 :: "bool \<Rightarrow> Register" where "arg3 w = (if w then R 9 else RCX)"

definition extract_r10_lines :: "x86_stub_line list" where
  "extract_r10_lines = [Line86 (MovLd 0 (R 13) (R 10)), Line86 (ShlImm 5 (R 10)), Line86 (ShrImm 5 (R 10))]"

definition event_vm_impl :: "bool \<Rightarrow> string \<Rightarrow> x86_stub_line list" where
  "event_vm_impl w n =
     [Line86 (MovRR (R 12) (arg0 w)), MovZero86 (arg1 w), Line86 (MovRR (R 13) (arg2 w)), CallFn (''host_'' @ n), Line86 (MovRR RAX (R 13)),
      Line86 (MovRR (R 12) (arg0 w)), Line86 (MovLd (-16) (R 12) (arg1 w)), Line86 (MovLd 0 (arg1 w) (arg1 w)), Line86 (MovRR (R 13) (arg2 w))] @ extract_r10_lines"

definition event_vm_x64 :: "bool \<Rightarrow> string \<Rightarrow> x86_stub_line list" where
  "event_vm_x64 w n =
     (if w then [Line86 (SubRsp 0x28)] @ event_vm_impl w n @ [Line86 (AddRsp 0x28), Line86 (JmpReg (R 10))]
      else [Line86 (Push RBP)] @ event_vm_impl w n @ [Line86 (Pop RBP), Line86 (JmpReg (R 10))])"

definition remill_function_return_x64 :: "bool \<Rightarrow> x86_stub_line list" where
  "remill_function_return_x64 w = [Line86 (AddImm 8 (R 13)), Line86 (MovRR (R 13) (arg2 w))] @ extract_r10_lines @ [Line86 (JmpReg (R 10))]"

definition vm_enter_x64 :: "bool \<Rightarrow> x86_stub_line list" where
  "vm_enter_x64 w = [Line86 (MovLd 0 RSP (R 10)), Line86 (MovSt (R 10) 0 (arg3 w)), Line86 (MovSt (R 10) 0 RAX)] @ extract_r10_lines @ [Line86 (JmpReg (R 10))]"

text \<open>\<open>aether_vm_entry\<close> around its call of \<open>vm_enter_x64\<close>.\<close>

definition vm_entry_before_x64 :: "bool \<Rightarrow> x86_stub_line list" where
  "vm_entry_before_x64 w =
     [Line86 (if w then MovLd 0x28 RSP RAX else MovRR (R 8) RAX),
      Line86 (Push RBP), Line86 (Push (R 12)), Line86 (Push (R 13)), Line86 (MovRR (arg0 w) (R 12)), Line86 (MovRR (arg2 w) (R 13)),
      Line86 (Push (arg1 w)), Line86 (Push (arg3 w))] @ (if w then [Line86 (SubRsp 0x20)] else []) @ [CallReg RAX] @
     (if w then [Line86 (AddRsp 0x20)] else []) @
     [Line86 (Pop (arg3 w)), Line86 (Pop (arg1 w)), Line86 (MovRR (R 12) (arg0 w)), Line86 (MovRR (R 13) (arg2 w))] @
     (if w then [Line86 (SubRsp 0x20)] else [])"

definition vm_entry_after_x64 :: "bool \<Rightarrow> x86_stub_line list" where
  "vm_entry_after_x64 w = [Line86 (AddRsp (if w then 0x28 else 8)), Line86 (Pop (R 13)), Line86 (Pop (R 12)), Line86 (Pop RBP), Ret86]"

definition vm_entry_return_x64 :: "(x86_stub_line \<Rightarrow> u64) \<Rightarrow> bool \<Rightarrow> u64 \<Rightarrow> u64" where
  "vm_entry_return_x64 sz w pc = fold (\<lambda>l a. a + sz l) (vm_entry_before_x64 w @ [CallFn ''vm_enter_x64'']) pc"

record x86_vm =
  xm_windows :: bool
  xm_size :: "x86_stub_line \<Rightarrow> u64"
  xm_lab :: "string \<Rightarrow> u64"
  xm_fn :: "u64 \<Rightarrow> x86_host \<Rightarrow> x86_host"
  xm_code :: "u64 \<Rightarrow> (string + (x86_host \<Rightarrow> x86_host)) option" \<comment> \<open>event stub or lifted handler\<close>
  xm_cpu :: u64
  xm_pcp :: u64
  xm_sp :: u64

definition vm_entry_start_x64 :: "x86_vm \<Rightarrow> u64 \<Rightarrow> x86_host \<Rightarrow> x86_host \<times> u64 option" where
  "vm_entry_start_x64 V pc h =
     (let w = xm_windows V; h1 = fst (x86_stub_run (xm_size V) (xm_lab V) (xm_fn V) pc (vm_entry_before_x64 w) h)
      in x86_stub_run (xm_size V) (xm_lab V) (xm_fn V) (xm_lab V ''vm_enter_x64'') (vm_enter_x64 w) (push_ret (vm_entry_return_x64 (xm_size V) w pc) h1))"

definition vm_entry_end_x64 :: "x86_vm \<Rightarrow> u64 \<Rightarrow> x86_host \<Rightarrow> x86_host \<times> u64 option" where
  "vm_entry_end_x64 V pc h =
     x86_stub_run (xm_size V) (xm_lab V) (xm_fn V) (vm_entry_return_x64 (xm_size V) (xm_windows V) pc) (vm_entry_after_x64 (xm_windows V)) h"

definition x64_code :: "x86_vm \<Rightarrow> u64 \<Rightarrow> x86_host \<Rightarrow> (x86_host \<times> u64) option" where
  "x64_code V t h =
     (case xm_code V t of
        None \<Rightarrow> None
      | Some (Inl n) \<Rightarrow>
          if n \<in> set event_names then
            (case x86_stub_run (xm_size V) (xm_lab V) (xm_fn V) t (event_vm_x64 (xm_windows V) n) h of (h', t') \<Rightarrow> map_option (Pair h') t')
          else None
      | Some (Inr f) \<Rightarrow>
          (case x86_stub_run (xm_size V) (xm_lab V) (xm_fn V) (xm_lab V ''__remill_function_return'') (remill_function_return_x64 (xm_windows V)) (f h) of
             (h', t') \<Rightarrow> map_option (Pair h') t'))"

section \<open>Contracts\<close>

text \<open>The first byte above the return address, and on Windows the space the callee may use, and memory from there on.\<close>

definition above :: "bool \<Rightarrow> x86_host \<Rightarrow> u64" where
  "above w h = xr h RSP + (if w then 0x28 else 8)"

definition above_kept :: "bool \<Rightarrow> nat \<Rightarrow> x86_host \<Rightarrow> x86_host \<Rightarrow> bool" where
  "above_kept w k h h' \<longleftrightarrow> mem_read (xmem h') (above w h) k = mem_read (xmem h) (above w h) k"

definition x86_abi :: "bool \<Rightarrow> x86_host \<Rightarrow> x86_host \<Rightarrow> bool" where
  "x86_abi w h h' \<longleftrightarrow> (\<forall>r. is_callee_saved_gpr w r \<longrightarrow> xr h' r = xr h r) \<and> (\<forall>n. w \<and> 6 \<le> n \<and> n \<le> 15 \<longrightarrow> xv h' n = xv h n)"

definition pcp_kept :: "x86_vm \<Rightarrow> x86_host \<Rightarrow> bool" where
  "pcp_kept V h \<longleftrightarrow> load64 (xmem h) (xm_cpu V - 16) = xm_pcp V"

definition vm_ready_x64 :: "x86_vm \<Rightarrow> x86_host \<times> u64 \<Rightarrow> bool" where
  "vm_ready_x64 V s = (case s of (h, t) \<Rightarrow> let w = xm_windows V in
     xr h RSP = xm_sp V \<and> xr h (R 12) = xm_cpu V \<and> pcp_kept V h \<and>
     xr h (arg0 w) = xm_cpu V \<and> xr h (arg1 w) = load64 (xmem h) (xm_pcp V) \<and> xr h (arg2 w) = xr h (R 13) \<and>
     t = take_bit 59 (load64 (xmem h) (xr h (R 13))))"

definition vm_kept_x64 :: "x86_vm \<Rightarrow> x86_host \<Rightarrow> x86_host \<Rightarrow> bool" where
  "vm_kept_x64 V h h' \<longleftrightarrow> (let w = xm_windows V in
     xr h' RSP = xr h RSP \<and> (\<forall>r. is_callee_saved_gpr w r \<and> r \<noteq> R 13 \<longrightarrow> xr h' r = xr h r) \<and>
     (\<forall>n. w \<and> 6 \<le> n \<and> n \<le> 15 \<longrightarrow> xv h' n = xv h n) \<and> above_kept w 32 h h')"

text \<open>
  A host function called from an event stub finds the stack pointer \<open>event_depth\<close> below that of the chain.  It pops its return address,
  obeys the calling convention and leaves the stack of its caller and the pointer to the program counter alone; a lifted handler likewise, and it passes on its
  state and the program counter.
\<close>

definition event_depth :: "bool \<Rightarrow> u64" where "event_depth w = (if w then 0x30 else 16)"

definition good_host_x64 :: "x86_vm \<Rightarrow> bool" where
  "good_host_x64 V \<longleftrightarrow> (\<forall>n \<in> set event_names. \<forall>c. let w = xm_windows V; q = xm_fn V (xm_lab V (''host_'' @ n)) c in
     xr c RSP = xm_sp V - event_depth w \<longrightarrow> xr c (R 12) = xm_cpu V \<longrightarrow> pcp_kept V c \<longrightarrow>
     x86_abi w c q \<and> xr q RSP = xr c RSP + 8 \<and> above_kept w (if w then 80 else 48) c q \<and> pcp_kept V q)"

definition good_lifted_x64 :: "x86_vm \<Rightarrow> bool" where
  "good_lifted_x64 V \<longleftrightarrow> (\<forall>t f h. let w = xm_windows V in xm_code V t = Some (Inr f) \<longrightarrow> vm_ready_x64 V (h, t) \<longrightarrow>
     x86_abi w h (f h) \<and> xr (f h) RSP = xr h RSP \<and> above_kept w 32 h (f h) \<and> pcp_kept V (f h) \<and>
     xr (f h) (arg0 w) = xm_cpu V \<and> xr (f h) (arg1 w) = load64 (xmem (f h)) (xm_pcp V))"

definition good_vm_x64 :: "x86_vm \<Rightarrow> bool" where
  "good_vm_x64 V \<longleftrightarrow> good_host_x64 V \<and> good_lifted_x64 V \<and> sep (xm_cpu V - 16) 8 (xm_sp V - 0x30) 0x30"

section \<open>What the stubs do\<close>

lemma shl_shr_5: "drop_bit 5 (push_bit 5 x) = take_bit 59 x" for x :: u64
  by (rule bit_eqI) (auto simp: bit_simps)

lemmas x86_stub_defs = extract_r10_lines_def event_vm_impl_def event_vm_x64_def remill_function_return_x64_def vm_enter_x64_def
  arg0_def arg1_def arg2_def arg3_def shl_shr_5

lemma vm_kept_x64_refl: "vm_kept_x64 V h h"
  by (simp add: vm_kept_x64_def above_kept_def Let_def)

lemma vm_kept_x64_trans: "vm_kept_x64 V h h' \<Longrightarrow> vm_kept_x64 V h' h'' \<Longrightarrow> vm_kept_x64 V h h''"
  by (simp add: vm_kept_x64_def above_kept_def above_def Let_def)

text \<open>The state in which an event stub calls the function of the host, with the return address \<open>ra\<close>.\<close>

definition event_call_x64 :: "bool \<Rightarrow> u64 \<Rightarrow> x86_host \<Rightarrow> x86_host" where
  "event_call_x64 w ra h = (let sp = xr h RSP in
     h\<lparr>xmem := store64 (if w then xmem h else store64 (xmem h) (sp - 8) (xr h RBP)) (sp - event_depth w) ra,
       xr := (xr h)(arg0 w := xr h (R 12), arg1 w := 0, arg2 w := xr h (R 13), RSP := sp - event_depth w)\<rparr>)"

lemmas saved_regs = is_callee_saved_gpr_def reg_defs

lemma saved_scratch:
  "is_callee_saved_gpr w r \<Longrightarrow> r \<noteq> arg0 w \<and> r \<noteq> arg1 w \<and> r \<noteq> arg2 w \<and> r \<noteq> arg3 w \<and> r \<noteq> R 10 \<and> r \<noteq> RSP \<and> r \<noteq> RAX"
  by (cases w) (auto simp: saved_regs arg0_def arg1_def arg2_def arg3_def)

lemma saved12: "is_callee_saved_gpr w (R 12)" "is_callee_saved_gpr w (R 13)" "is_callee_saved_gpr w RBP"
  by (simp_all add: is_callee_saved_gpr_def)

lemma regs_distinct: "distinct [arg0 w, arg1 w, arg2 w, arg3 w, R 10, R 12, R 13, RSP, RBP, RAX]"
  by (cases w) (simp_all add: arg0_def arg1_def arg2_def arg3_def reg_defs)

lemmas arg_ne = regs_distinct [simplified] regs_distinct [THEN distinct_rev [THEN iffD2], simplified]

lemma event_run_x64:
  obtains ra q h' where "q = fn (lab (''host_'' @ n)) (event_call_x64 w ra h)"
    "x86_stub_run sz lab fn pc (event_vm_x64 w n) h = (h', Some (take_bit 59 (load64 (xmem q) (xr q RAX))))"
    "xmem h' = xmem q" "xv h' = xv q" "xr h' RSP = xr q RSP + (if w then 0x28 else 8)" "xr h' (R 13) = xr q RAX" "xr h' (arg0 w) = xr q (R 12)"
    "xr h' (arg1 w) = load64 (xmem q) (load64 (xmem q) (xr q (R 12) - 16))" "xr h' (arg2 w) = xr q RAX"
    "\<forall>r. r \<notin> {R 13, arg0 w, arg1 w, arg2 w, R 10, RSP} \<longrightarrow> xr h' r = (if \<not> w \<and> r = RBP then load64 (xmem q) (xr q RSP) else xr q r)"
proof -
  let ?ra = "pc + sz (Line86 (if w then SubRsp 0x28 else Push RBP)) + sz (Line86 (MovRR (R 12) (arg0 w))) + sz (MovZero86 (arg1 w)) + sz (Line86 (MovRR (R 13) (arg2 w))) + sz (CallFn (''host_'' @ n))"
  define q where "q = fn (lab (''host_'' @ n)) (event_call_x64 w ?ra h)"
  let ?t = "take_bit 59 (load64 (xmem q) (xr q RAX))"
  let ?x = "(xr q)(R 13 := xr q RAX, arg0 w := xr q (R 12), arg1 w := load64 (xmem q) (load64 (xmem q) (xr q (R 12) - 16)), arg2 w := xr q RAX, R 10 := ?t)"
  let ?h = "q\<lparr>xr := if w then ?x(RSP := xr q RSP + 0x28) else ?x(RSP := xr q RSP + 8, RBP := load64 (xmem q) (xr q RSP))\<rparr>"
  have "x86_stub_run sz lab fn pc (event_vm_x64 w n) h = (?h, Some ?t)" unfolding q_def
    by (cases w) (simp_all add: x86_stub_defs push_ret_def event_call_x64_def event_depth_def Let_def reg_defs fun_upd_twist)
  then show thesis by (rule that [OF q_def]) (simp_all add: arg_ne)
qed

lemma return_run_x64:
  "x86_stub_run sz lab fn pc (remill_function_return_x64 w) h =
    (let i = xr h (R 13) + 8; t = take_bit 59 (load64 (xmem h) i) in
     (h\<lparr>xr := (xr h)(R 13 := i, arg2 w := i, R 10 := t)\<rparr>, Some t))"
  by (cases w) (simp_all add: x86_stub_defs Let_def reg_defs)

lemma load64_above: "above_kept w k h h' \<Longrightarrow> i + 8 \<le> k \<Longrightarrow> load64 (xmem h') (above w h + word_of_nat i) = load64 (xmem h) (above w h + word_of_nat i)"
  unfolding above_kept_def by (rule load64_of_read)

lemma mem_read_sub:
  assumes "mem_read m' a k = mem_read m a k" and "i + n \<le> k"
  shows "mem_read m' (a + word_of_nat i) n = mem_read m (a + word_of_nat i) n"
proof -
  have "mem_read x (a + word_of_nat i) n = take n (drop i (mem_read x a k))" for x
    using assms(2) by (intro nth_equalityI) (simp_all add: nth_mem_read algebra_simps)
  then show ?thesis by (simp add: assms(1))
qed

lemma event_call_pcp:
  assumes "good_vm_x64 V" and "vm_ready_x64 V (h, t)"
  shows "pcp_kept V (event_call_x64 (xm_windows V) ra h)"
proof -
  have s: "sep (xm_cpu V - 16) 8 (xm_sp V - 0x30) 0x30" and r: "xr h RSP = xm_sp V" "load64 (xmem h) (xm_cpu V - 16) = xm_pcp V"
    using assms by (simp_all add: good_vm_x64_def vm_ready_x64_def pcp_kept_def Let_def)
  have "sep (xm_cpu V - 16) 8 (xm_sp V - 0x30) 8" "sep (xm_cpu V - 16) 8 (xm_sp V - 16) 8" "sep (xm_cpu V - 16) 8 (xm_sp V - 8) 8"
    using sep_sub [OF s, of 0 8] sep_sub [OF s, of 32 8] sep_sub [OF s, of 40 8] by simp_all
  with r show ?thesis by (simp add: pcp_kept_def event_call_x64_def event_depth_def Let_def load64_store64_sep)
qed

lemma event_hands_over_x64:
  fixes V h t ra n
  defines "w \<equiv> xm_windows V" and "c \<equiv> event_call_x64 (xm_windows V) ra h"
  defines "q \<equiv> xm_fn V (xm_lab V (''host_'' @ n)) c"
  assumes g: "good_vm_x64 V" and r: "vm_ready_x64 V (h, t)" and n: "n \<in> set event_names"
  shows "xr q RSP = xr h RSP - event_depth w + 8" "xr q (R 12) = xm_cpu V" "pcp_kept V q" "above_kept w 32 h q"
    "\<forall>r. is_callee_saved_gpr w r \<longrightarrow> xr q r = xr h r" "\<forall>n. w \<and> 6 \<le> n \<and> n \<le> 15 \<longrightarrow> xv q n = xv h n"
    "\<not> w \<Longrightarrow> load64 (xmem q) (xr q RSP) = xr h RBP"
proof -
  have h: "xr h RSP = xm_sp V" "xr h (R 12) = xm_cpu V" using r by (simp_all add: vm_ready_x64_def Let_def)
  have c: "xr c RSP = xm_sp V - event_depth w" "xr c (R 12) = xm_cpu V" "pcp_kept V c"
    using event_call_pcp [OF g r, of ra, folded c_def] h by (simp_all add: c_def event_call_x64_def Let_def w_def x86_stub_defs) (simp_all add: reg_defs)
  have o: "x86_abi w c q" "xr q RSP = xr c RSP + 8" "above_kept w (if w then 80 else 48) c q" "pcp_kept V q"
    using g c n unfolding good_vm_x64_def good_host_x64_def q_def w_def Let_def by blast+
  show "xr q RSP = xr h RSP - event_depth w + 8" "pcp_kept V q" using o c h by simp_all
  have saved: "xr c r = xr h r" if "is_callee_saved_gpr w r" for r
    using that by (auto simp: c_def event_call_x64_def Let_def w_def x86_stub_defs saved_regs split: if_splits)
  then show s: "\<forall>r. is_callee_saved_gpr w r \<longrightarrow> xr q r = xr h r" using o(1) by (simp add: x86_abi_def)
  show "xr q (R 12) = xm_cpu V" using s h by (simp add: is_callee_saved_gpr_def)
  show "\<forall>n. w \<and> 6 \<le> n \<and> n \<le> 15 \<longrightarrow> xv q n = xv h n" using o(1) by (simp add: x86_abi_def c_def event_call_x64_def Let_def)
  have "mem_read (xmem q) (above w h) 32 = mem_read (xmem c) (above w h) 32"
    using mem_read_sub [OF o(3) [unfolded above_kept_def], of "if w then 48 else 16" 32] h(1) c(1)
    by (cases w) (simp_all add: above_def event_depth_def add.commute [of "8 :: u64"] add.commute [of "40 :: u64"])
  moreover have "mem_read (xmem c) (above w h) 32 = mem_read (xmem h) (above w h) 32"
    by (cases w) (simp_all add: c_def event_call_x64_def w_def above_def Let_def event_depth_def store64_def mem_read_write_sep sep_def)
  ultimately show "above_kept w 32 h q" by (simp add: above_kept_def)
  show "load64 (xmem q) (xr q RSP) = xr h RBP" if "\<not> w"
  proof -
    have "load64 (xmem q) (above w c) = load64 (xmem c) (above w c)" using load64_above [OF o(3), of 0] that by simp
    moreover have "load64 (xmem c) (above w c) = xr h RBP"
      using that by (simp add: c_def event_call_x64_def w_def above_def Let_def event_depth_def load64_store64_sep sep_def)
    ultimately show ?thesis using o(2) that by (simp add: above_def)
  qed
qed

lemma x64_hands_over:
  assumes g: "good_vm_x64 V" and r: "vm_ready_x64 V (h, t)" and c: "x64_code V t h = Some (h', t')"
  shows "vm_kept_x64 V h h' \<and> vm_ready_x64 V (h', t')"
proof -
  let ?w = "xm_windows V"
  obtain k where k: "xm_code V t = Some k" using c by (auto simp: x64_code_def split: option.splits)
  show ?thesis
  proof (cases k)
    case (Inl n)
    then have n: "n \<in> set event_names" using c k by (auto simp: x64_code_def split: if_splits)
    obtain ra q h0 where e: "q = xm_fn V (xm_lab V (''host_'' @ n)) (event_call_x64 ?w ra h)"
      "x86_stub_run (xm_size V) (xm_lab V) (xm_fn V) t (event_vm_x64 ?w n) h = (h0, Some (take_bit 59 (load64 (xmem q) (xr q RAX))))"
      "xmem h0 = xmem q" "xv h0 = xv q" "xr h0 RSP = xr q RSP + (if ?w then 0x28 else 8)" "xr h0 (R 13) = xr q RAX" "xr h0 (arg0 ?w) = xr q (R 12)"
      "xr h0 (arg1 ?w) = load64 (xmem q) (load64 (xmem q) (xr q (R 12) - 16))" "xr h0 (arg2 ?w) = xr q RAX"
      "\<forall>r. r \<notin> {R 13, arg0 ?w, arg1 ?w, arg2 ?w, R 10, RSP} \<longrightarrow> xr h0 r = (if \<not> ?w \<and> r = RBP then load64 (xmem q) (xr q RSP) else xr q r)"
      by (rule event_run_x64)
    note Q = event_hands_over_x64 [OF g r n, of ra, folded e(1)]
    have h: "xr h RSP = xm_sp V" using r by (simp add: vm_ready_x64_def Let_def)
    have h': "h' = h0" "t' = take_bit 59 (load64 (xmem q) (xr q RAX))" using c k Inl n e(2) by (simp_all add: x64_code_def)
    have d: "xr h0 RSP = xm_sp V" using Q(1) h e(5) by (simp add: event_depth_def)
    have x: "xr h0 r = xr h r" if "is_callee_saved_gpr ?w r" "r \<noteq> R 13" for r
      using e(10) Q(5,7) that saved_scratch [OF that(1)] by simp
    have "xr h0 (R 12) = xm_cpu V" using x [OF saved12(1)] r by (simp add: arg_ne vm_ready_x64_def Let_def)
    then show ?thesis unfolding h' using x d Q(2-4,6) h e(3,4,6-9) by (simp add: vm_kept_x64_def vm_ready_x64_def pcp_kept_def above_kept_def above_def Let_def)
  next
    case (Inr f)
    let ?f = "f h"
    have f: "x86_abi ?w h ?f" "xr ?f RSP = xr h RSP" "above_kept ?w 32 h ?f" "pcp_kept V ?f" "xr ?f (arg0 ?w) = xm_cpu V" "xr ?f (arg1 ?w) = load64 (xmem ?f) (xm_pcp V)"
      using g r k Inr unfolding good_vm_x64_def good_lifted_x64_def Let_def by blast+
    have h: "xr h RSP = xm_sp V" "xr h (R 12) = xm_cpu V" using r by (simp_all add: vm_ready_x64_def Let_def)
    from c k Inr have h': "h' = ?f\<lparr>xr := (xr ?f)(R 13 := xr ?f (R 13) + 8, arg2 ?w := xr ?f (R 13) + 8, R 10 := t')\<rparr>"
      "t' = take_bit 59 (load64 (xmem ?f) (xr ?f (R 13) + 8))"
      by (auto simp: x64_code_def return_run_x64 Let_def)
    have x: "xr h' RSP = xm_sp V" "xr h' (R 12) = xm_cpu V" "xr h' (arg0 ?w) = xm_cpu V" "xr h' (arg1 ?w) = load64 (xmem ?f) (xm_pcp V)"
      "xr h' (arg2 ?w) = xr h' (R 13)" "xr h' (R 13) = xr ?f (R 13) + 8" "xmem h' = xmem ?f" "xv h' = xv ?f"
      using f h saved12 unfolding h'(1) by (simp_all add: arg_ne x86_abi_def)
    have "xr h' r = xr h r" if "is_callee_saved_gpr ?w r" "r \<noteq> R 13" for r
      using f(1) that saved_scratch [OF that(1)] unfolding h'(1) by (simp add: x86_abi_def)
    then show ?thesis using x f h h'(2) by (simp add: vm_kept_x64_def vm_ready_x64_def pcp_kept_def above_kept_def above_def x86_abi_def Let_def)
  qed
qed

interpretation x64_chain: handler_chain good_vm_x64 x64_code vm_ready_x64 vm_kept_x64
  by unfold_locales (blast intro: vm_kept_x64_refl vm_kept_x64_trans dest: x64_hands_over)+

section \<open>Entering and leaving\<close>

text \<open>The function that gives the place of the guest's return address, and the state in which the entry calls it.\<close>

definition vm_retaddr_x64 :: "bool \<Rightarrow> x86_host \<Rightarrow> u64" where
  "vm_retaddr_x64 w h = (if w then load64 (xmem h) (xr h RSP + 0x28) else xr h (R 8))"

definition entry_depth :: "bool \<Rightarrow> nat" where "entry_depth w = (if w then 80 else 48)"

definition entry_call_x64 :: "bool \<Rightarrow> u64 \<Rightarrow> x86_host \<Rightarrow> x86_host" where
  "entry_call_x64 w ra h = (let sp = xr h RSP in
     h\<lparr>xmem := store64 (store64 (store64 (store64 (store64 (store64 (xmem h) (sp - 8) (xr h RBP)) (sp - 16) (xr h (R 12))) (sp - 24) (xr h (R 13)))
         (sp - 32) (xr h (arg1 w))) (sp - 40) (xr h (arg3 w))) (sp - word_of_nat (entry_depth w)) ra,
       xr := (xr h)(RAX := vm_retaddr_x64 w h, R 12 := xr h (arg0 w), R 13 := xr h (arg2 w), RSP := sp - word_of_nat (entry_depth w))\<rparr>)"

lemma entry_before_run_x64:
  obtains ra q h1 where "q = fn (vm_retaddr_x64 w h) (entry_call_x64 w ra h)" "fst (x86_stub_run sz lab fn pc (vm_entry_before_x64 w) h) = h1"
    "xmem h1 = xmem q" "xv h1 = xv q" "xr h1 RSP = xr q RSP + 16" "xr h1 (arg0 w) = xr q (R 12)" "xr h1 (arg2 w) = xr q (R 13)"
    "xr h1 (arg3 w) = load64 (xmem q) (xr q RSP + (if w then 0x20 else 0))" "xr h1 (arg1 w) = load64 (xmem q) (xr q RSP + (if w then 0x20 else 0) + 8)"
    "\<forall>r. r \<notin> {arg0 w, arg1 w, arg2 w, arg3 w, RSP} \<longrightarrow> xr h1 r = xr q r"
proof -
  let ?pre = "[Line86 (if w then MovLd 0x28 RSP RAX else MovRR (R 8) RAX), Line86 (Push RBP), Line86 (Push (R 12)), Line86 (Push (R 13)),
     Line86 (MovRR (arg0 w) (R 12)), Line86 (MovRR (arg2 w) (R 13)), Line86 (Push (arg1 w)), Line86 (Push (arg3 w))] @
     (if w then [Line86 (SubRsp 0x20)] else []) @ [CallReg RAX]"
  let ?post = "(if w then [Line86 (AddRsp 0x20)] else []) @
     [Line86 (Pop (arg3 w)), Line86 (Pop (arg1 w)), Line86 (MovRR (R 12) (arg0 w)), Line86 (MovRR (R 13) (arg2 w))] @ (if w then [Line86 (SubRsp 0x20)] else [])"
  let ?ra = "fold (\<lambda>l a. a + sz l) ?pre pc"
  define q where "q = fn (vm_retaddr_x64 w h) (entry_call_x64 w ?ra h)"
  have pre: "x86_stub_run sz lab fn pc (?pre @ ls) h = x86_stub_run sz lab fn ?ra ls q" for ls
    unfolding q_def
    by (cases w) (simp_all add: vm_retaddr_x64_def entry_call_x64_def entry_depth_def push_ret_def arg0_def arg1_def arg2_def arg3_def Let_def reg_defs fun_upd_twist)
  have "vm_entry_before_x64 w = ?pre @ ?post" by (cases w) (simp_all add: vm_entry_before_x64_def)
  then have run: "x86_stub_run sz lab fn pc (vm_entry_before_x64 w) h = x86_stub_run sz lab fn ?ra ?post q" using pre [of ?post] by (simp only:)
  show thesis by (rule that [OF q_def refl]; unfold run; cases w; simp add: arg0_def arg1_def arg2_def arg3_def reg_defs add.commute [of "32 :: u64"])
qed

lemma enter_run_x64:
  "x86_stub_run sz lab fn pc (vm_enter_x64 w) h =
    (let r = load64 (xmem h) (xr h RSP); m = store64 (store64 (xmem h) (xr h (arg3 w)) r) (xr h RAX) r; t = take_bit 59 (load64 m (xr h (R 13))) in
     (h\<lparr>xmem := m, xr := (xr h)(R 10 := t)\<rparr>, Some t))"
  by (cases w) (simp_all add: x86_stub_defs Let_def reg_defs)

lemma after_run_x64:
  fixes h :: x86_host and w :: bool
  defines "a \<equiv> xr h RSP + (if w then 0x28 else 8)"
  obtains h' where "x86_stub_run sz lab fn pc (vm_entry_after_x64 w) h = (h', Some (load64 (xmem h) (a + 24)))"
    "xr h' RSP = a + 32" "xr h' (R 13) = load64 (xmem h) a" "xr h' (R 12) = load64 (xmem h) (a + 8)" "xr h' RBP = load64 (xmem h) (a + 16)"
    "\<forall>r. r \<notin> {RSP, R 12, R 13, RBP} \<longrightarrow> xr h' r = xr h r" "xv h' = xv h" "xmem h' = xmem h"
proof -
  let ?r = "x86_stub_run sz lab fn pc (vm_entry_after_x64 w) h"
  have "?r = (fst ?r, Some (load64 (xmem h) (a + 24)))"
    by (cases w) (simp_all add: vm_entry_after_x64_def a_def reg_defs add.commute [of _ "xr h 33"])
  then show thesis by (rule that; cases w; simp add: vm_entry_after_x64_def a_def reg_defs add.commute [of _ "xr h 33"])
qed

text \<open>A function that writes only to \<open>k\<close> bytes of stack, to the place of its return address and to the space its caller provides.\<close>

definition uses_stack_x64 :: "bool \<Rightarrow> nat \<Rightarrow> x86_host \<Rightarrow> x86_host \<Rightarrow> bool" where
  "uses_stack_x64 w k c q \<longleftrightarrow> x86_abi w c q \<and> xr q RSP = xr c RSP + 8 \<and>
     (\<forall>a n. sep a n (xr c RSP - word_of_nat k) (k + (if w then 0x28 else 8)) \<longrightarrow> mem_read (xmem q) a n = mem_read (xmem c) a n)"

definition entry_slots_x64 :: "bool \<Rightarrow> x86_host \<Rightarrow> u64 \<Rightarrow> u64 list" where
  "entry_slots_x64 w h p = [xr h (arg3 w), p, xr h (arg0 w) - 16, load64 (xmem h) (xr h (arg0 w) - 16), xr h (arg2 w)]"

lemma entry_call_frame_x64:
  fixes w ra h
  defines "s \<equiv> xr h RSP" and "m \<equiv> xmem (entry_call_x64 w ra h)"
  shows "load64 m (s - 8) = xr h RBP" "load64 m (s - 16) = xr h (R 12)" "load64 m (s - 24) = xr h (R 13)" "load64 m (s - 32) = xr h (arg1 w)" "load64 m (s - 40) = xr h (arg3 w)"
    "load64 m s = load64 (xmem h) s" "\<And>a n. sep a n (s - word_of_nat (entry_depth w)) (entry_depth w) \<Longrightarrow> mem_read m a n = mem_read (xmem h) a n"
proof -
  have m: "m = store64 (store64 (store64 (store64 (store64 (store64 (xmem h) (s - 8) (xr h RBP)) (s - 16) (xr h (R 12))) (s - 24) (xr h (R 13)))
         (s - 32) (xr h (arg1 w))) (s - 40) (xr h (arg3 w))) (s - word_of_nat (entry_depth w)) ra" by (simp add: m_def entry_call_x64_def s_def Let_def)
  show "load64 m (s - 8) = xr h RBP" "load64 m (s - 16) = xr h (R 12)" "load64 m (s - 24) = xr h (R 13)" "load64 m (s - 32) = xr h (arg1 w)" "load64 m (s - 40) = xr h (arg3 w)"
    "load64 m s = load64 (xmem h) s" unfolding m by (cases w; simp add: entry_depth_def load64_store64_sep sep_def)+
  show "mem_read m a n = mem_read (xmem h) a n" if a: "sep a n (s - word_of_nat (entry_depth w)) (entry_depth w)" for a n
  proof -
    have "sep a n (s - word_of_nat j) 8" if "8 \<le> j" "j \<le> entry_depth w" for j
      using sep_sub [OF a, of "entry_depth w - j" 8] that by (simp add: of_nat_diff)
    from this [of 8] this [of 16] this [of 24] this [of 32] this [of 40] this [of "entry_depth w"] show ?thesis
      unfolding m by (cases w) (simp_all add: entry_depth_def store64_def mem_read_write_sep)
  qed
qed

text \<open>What the function leaves: the six words from the saved registers to the caller's return address, and all memory that is apart from the stack.\<close>

lemma entry_called_x64:
  fixes w ra h q k
  defines "s \<equiv> xr h RSP" and "c \<equiv> entry_call_x64 w ra h"
  assumes us: "uses_stack_x64 w k c q" and k: "k + 96 \<le> 2 ^ 63"
  shows "xr q RSP = s - word_of_nat (entry_depth w) + 8" "xr q (R 12) = xr h (arg0 w)" "xr q (R 13) = xr h (arg2 w)" "xv q n = xv h n \<or> \<not> (w \<and> 6 \<le> n \<and> n \<le> 15)"
    "\<forall>r. is_callee_saved_gpr w r \<and> r \<noteq> R 12 \<and> r \<noteq> R 13 \<longrightarrow> xr q r = xr h r"
    "load64 (xmem q) (s - 8) = xr h RBP" "load64 (xmem q) (s - 16) = xr h (R 12)" "load64 (xmem q) (s - 24) = xr h (R 13)"
    "load64 (xmem q) (s - 32) = xr h (arg1 w)" "load64 (xmem q) (s - 40) = xr h (arg3 w)" "load64 (xmem q) s = load64 (xmem h) s"
    "\<And>a n. sep a n (s - word_of_nat (entry_depth w) - word_of_nat k) (k + entry_depth w) \<Longrightarrow> mem_read (xmem q) a n = mem_read (xmem h) a n"
proof -
  let ?b = "s - word_of_nat (entry_depth w) - word_of_nat k"
  have c: "xr c RSP = s - word_of_nat (entry_depth w)" "xr c (R 12) = xr h (arg0 w)" "xr c (R 13) = xr h (arg2 w)" "xv c = xv h"
    by (simp_all add: c_def entry_call_x64_def s_def Let_def arg_ne)
  have cs: "xr c r = xr h r" if "is_callee_saved_gpr w r" "r \<noteq> R 12" "r \<noteq> R 13" for r
    using that saved_scratch [OF that(1)] by (simp add: c_def entry_call_x64_def Let_def)
  show "xr q RSP = s - word_of_nat (entry_depth w) + 8" "xr q (R 12) = xr h (arg0 w)" "xr q (R 13) = xr h (arg2 w)" "xv q n = xv h n \<or> \<not> (w \<and> 6 \<le> n \<and> n \<le> 15)"
    "\<forall>r. is_callee_saved_gpr w r \<and> r \<noteq> R 12 \<and> r \<noteq> R 13 \<longrightarrow> xr q r = xr h r"
    using us c cs saved12 by (auto simp: uses_stack_x64_def x86_abi_def)
  have d: "k + (if w then 0x28 else 8) = k + entry_depth w - 40" "40 \<le> entry_depth w" "entry_depth w \<le> 80" by (simp_all add: entry_depth_def)
  have kept: "mem_read (xmem q) a n = mem_read (xmem c) a n" if "sep a n ?b (k + entry_depth w - 40)" for a n
    using us that unfolding uses_stack_x64_def d(1) c(1) by blast
  have l: "load64 (xmem q) (s - 40 + word_of_nat i) = load64 (xmem c) (s - 40 + word_of_nat i)" if "i + 8 \<le> 48" for i
  proof -
    have "sep (?b + word_of_nat (k + entry_depth w - 40 + i)) 8 (?b + word_of_nat 0) (k + entry_depth w - 40)"
      by (rule sep_offsets) (use k that d in \<open>auto simp: off_sep_def\<close>)
    moreover have "?b + word_of_nat (k + entry_depth w - 40 + i) = s - 40 + word_of_nat i" using d(2) by (simp add: of_nat_diff)
    moreover have "?b + word_of_nat 0 = ?b" by simp
    ultimately have "sep (s - 40 + word_of_nat i) 8 ?b (k + entry_depth w - 40)" by (simp only:)
    from kept [OF this] show ?thesis by (simp only: load64_def)
  qed
  note F = entry_call_frame_x64 [where w = w and ra = ra and h = h, folded s_def c_def]
  show "load64 (xmem q) (s - 8) = xr h RBP" "load64 (xmem q) (s - 16) = xr h (R 12)" "load64 (xmem q) (s - 24) = xr h (R 13)"
    "load64 (xmem q) (s - 32) = xr h (arg1 w)" "load64 (xmem q) (s - 40) = xr h (arg3 w)" "load64 (xmem q) s = load64 (xmem h) s"
    using l [of 32] l [of 24] l [of 16] l [of 8] l [of 0] l [of 40] F(1-6) by simp_all
  show "mem_read (xmem q) a n = mem_read (xmem h) a n" if a: "sep a n ?b (k + entry_depth w)" for a n
  proof -
    have "sep a n ?b (k + entry_depth w - 40)" using sep_sub [OF a, of 0 "k + entry_depth w - 40"] d by simp
    moreover have "sep a n (s - word_of_nat (entry_depth w)) (entry_depth w)" using sep_sub [OF a, of k "entry_depth w"] by simp
    ultimately show ?thesis using kept F(7) by simp
  qed
qed

text \<open>Places apart from the stack of the entry are apart from the return address in the chain, which is apart from the words to restore.\<close>

lemma entry_slot_sep:
  fixes s a :: u64
  assumes a: "sep a 8 (s - word_of_nat (entry_depth w) - word_of_nat k) (k + entry_depth w + 8)"
  shows "sep a 8 (s - word_of_nat (entry_depth w) - word_of_nat k) (k + entry_depth w)" "sep a 8 (s - (if w then 64 else 32)) 8"
    "j \<le> 24 \<Longrightarrow> sep (s - word_of_nat j) 8 a 8"
proof -
  show "sep a 8 (s - word_of_nat (entry_depth w) - word_of_nat k) (k + entry_depth w)" using sep_sub [OF a, of 0 "k + entry_depth w"] by simp
  show "sep a 8 (s - (if w then 64 else 32)) 8" using sep_sub [OF a, of "k + 16" 8] by (cases w) (simp_all add: entry_depth_def algebra_simps)
  show "sep (s - word_of_nat j) 8 a 8" if "j \<le> 24"
  proof -
    have "j \<le> entry_depth w" using that by (simp add: entry_depth_def)
    then have "sep a 8 (s - word_of_nat j) 8" using sep_sub [OF a, of "k + entry_depth w - j" 8] by (simp add: of_nat_diff algebra_simps)
    then show ?thesis by (rule sep_sym [THEN iffD1])
  qed
qed

lemma frame_apart:
  fixes s :: u64
  assumes "j \<le> 24"
  shows "sep (s - word_of_nat j) 8 (s - (if w then 64 else 32)) 8"
proof -
  let ?S = "s - (if w then 64 else 32)"
  have "sep (?S + word_of_nat ((if w then 64 else 32) - j)) 8 (?S + word_of_nat 0) 8" by (rule sep_offsets) (use assms in \<open>auto simp: off_sep_def\<close>)
  moreover have "?S + word_of_nat ((if w then 64 else 32) - j) = s - word_of_nat j" using assms by (cases w) (simp_all add: of_nat_diff)
  moreover have "?S + word_of_nat 0 = ?S" by simp
  ultimately show ?thesis by (simp only:)
qed

lemma entry_start_run_x64:
  fixes V h k p pc
  defines "w \<equiv> xm_windows V" and "s \<equiv> xr h RSP" and "ret \<equiv> vm_entry_return_x64 (xm_size V) (xm_windows V) pc"
  assumes fnp: "\<And>ra. let c = entry_call_x64 w ra h; q = xm_fn V (vm_retaddr_x64 w h) c in uses_stack_x64 w k c q \<and> xr q RAX = p"
    and k: "k + 96 \<le> 2 ^ 63" and ss: "slots_sep (entry_slots_x64 w h p)"
    and st: "\<forall>a\<in>set (entry_slots_x64 w h p). sep a 8 (s - word_of_nat (entry_depth w) - word_of_nat k) (k + entry_depth w + 8)"
  obtains h2 where "vm_entry_start_x64 V pc h = (h2, Some (take_bit 59 (load64 (xmem h2) (xr h (arg2 w)))))"
    "xr h2 RSP = s - (if w then 64 else 32)" "xr h2 (R 12) = xr h (arg0 w)" "xr h2 (R 13) = xr h (arg2 w)" "xr h2 (arg0 w) = xr h (arg0 w)"
    "xr h2 (arg1 w) = xr h (arg1 w)" "xr h2 (arg2 w) = xr h (arg2 w)" "\<forall>r. is_callee_saved_gpr w r \<and> r \<noteq> R 12 \<and> r \<noteq> R 13 \<longrightarrow> xr h2 r = xr h r"
    "\<forall>n. w \<and> 6 \<le> n \<and> n \<le> 15 \<longrightarrow> xv h2 n = xv h n" "load64 (xmem h2) (xr h (arg3 w)) = ret" "load64 (xmem h2) p = ret"
    "\<forall>a\<in>{xr h (arg0 w) - 16, load64 (xmem h) (xr h (arg0 w) - 16), xr h (arg2 w)}. load64 (xmem h2) a = load64 (xmem h) a"
    "load64 (xmem h2) (s - 24) = xr h (R 13)" "load64 (xmem h2) (s - 16) = xr h (R 12)" "load64 (xmem h2) (s - 8) = xr h RBP" "load64 (xmem h2) s = load64 (xmem h) s"
proof -
  let ?d = "entry_depth w" and ?fn = "xm_fn V" and ?b = "s - word_of_nat (entry_depth w) - word_of_nat k" and ?S = "s - (if w then 64 else 32)"
  obtain ra q h1 where e: "q = ?fn (vm_retaddr_x64 w h) (entry_call_x64 w ra h)" "fst (x86_stub_run (xm_size V) (xm_lab V) ?fn pc (vm_entry_before_x64 w) h) = h1"
    "xmem h1 = xmem q" "xv h1 = xv q" "xr h1 RSP = xr q RSP + 16" "xr h1 (arg0 w) = xr q (R 12)" "xr h1 (arg2 w) = xr q (R 13)"
    "xr h1 (arg3 w) = load64 (xmem q) (xr q RSP + (if w then 0x20 else 0))" "xr h1 (arg1 w) = load64 (xmem q) (xr q RSP + (if w then 0x20 else 0) + 8)"
    "\<forall>r. r \<notin> {arg0 w, arg1 w, arg2 w, arg3 w, RSP} \<longrightarrow> xr h1 r = xr q r"
    by (rule entry_before_run_x64)
  have us: "uses_stack_x64 w k (entry_call_x64 w ra h) q" and p: "xr q RAX = p" using fnp [of ra] e(1) by (simp_all add: Let_def)
  note Q = entry_called_x64 [OF us k, folded s_def]
  have qs: "xr q RSP + (if w then 0x20 else 0) = s - 40" "xr q RSP + (if w then 0x20 else 0) + 8 = s - 32" "xr q RSP + 8 = ?S"
    using Q(1) by (simp_all add: entry_depth_def)
  have out: "load64 (xmem q) a = load64 (xmem h) a" and so: "sep a 8 ?S 8" and sf: "j \<le> 24 \<Longrightarrow> sep (s - word_of_nat j) 8 a 8"
    if "a \<in> set (entry_slots_x64 w h p)" for a j
    using entry_slot_sep [OF bspec [OF st that]] Q(12) by (simp_all add: load64_def)
  let ?h0 = "push_ret ret h1"
  have h1s: "xr h1 RSP - 8 = ?S" unfolding e(5) qs(3) [symmetric] by simp
  have h0: "xmem ?h0 = store64 (xmem q) ?S ret" "xr ?h0 RSP = ?S" "\<forall>r. r \<noteq> RSP \<longrightarrow> xr ?h0 r = xr h1 r" "xv ?h0 = xv q"
    unfolding push_ret_def Let_def h1s by (simp_all add: e(3,4))
  have x0: "xr ?h0 (arg3 w) = xr h (arg3 w)" "xr ?h0 RAX = p" "xr ?h0 (R 13) = xr h (arg2 w)" "xr ?h0 (R 12) = xr h (arg0 w)" "xr ?h0 (arg0 w) = xr h (arg0 w)"
    "xr ?h0 (arg1 w) = xr h (arg1 w)" "xr ?h0 (arg2 w) = xr h (arg2 w)"
    using h0(3) e(6-10) qs(1,2) p Q(2,3,9,10) by (simp_all add: arg_ne)
  have xs: "xr ?h0 r = xr h r" if "is_callee_saved_gpr w r" "r \<noteq> R 12" "r \<noteq> R 13" for r
    using h0(3) e(10) Q(5) that saved_scratch [OF that(1)] by simp
  have rw: "ret = vm_entry_return_x64 (xm_size V) w pc" by (simp add: ret_def w_def)
  let ?m = "store64 (store64 (store64 (xmem q) ?S ret) (xr h (arg3 w)) ret) p ret"
  have run: "vm_entry_start_x64 V pc h = (let t = take_bit 59 (load64 ?m (xr h (arg2 w))) in (?h0\<lparr>xmem := ?m, xr := (xr ?h0)(R 10 := t)\<rparr>, Some t))"
    unfolding vm_entry_start_x64_def Let_def w_def [symmetric] rw [symmetric] enter_run_x64 e(2)
    by (simp add: h0 x0)
  let ?h2 = "?h0\<lparr>xmem := ?m, xr := (xr ?h0)(R 10 := take_bit 59 (load64 ?m (xr h (arg2 w))))\<rparr>"
  have sl: "\<forall>a\<in>{xr h (arg0 w) - 16, load64 (xmem h) (xr h (arg0 w) - 16), xr h (arg2 w)}. sep a 8 (xr h (arg3 w)) 8 \<and> sep a 8 p 8" "sep (xr h (arg3 w)) 8 p 8"
    using ss sep_sym by (auto simp: entry_slots_x64_def)
  have lm: "load64 ?m a = load64 (xmem h) a" if "a \<in> {xr h (arg0 w) - 16, load64 (xmem h) (xr h (arg0 w) - 16), xr h (arg2 w)}" for a
  proof -
    have m: "a \<in> set (entry_slots_x64 w h p)" using that by (auto simp: entry_slots_x64_def)
    then show ?thesis using that sl(1) out [OF m] so [OF m] by (auto simp: load64_store64_sep)
  qed
  have fr: "load64 ?m (s - word_of_nat j) = load64 (xmem q) (s - word_of_nat j)" if "j \<le> 24" for j
  proof -
    have "sep (s - word_of_nat j) 8 ?S 8" by (rule frame_apart [OF that])
    then show ?thesis using sf [OF _ that, of p] sf [OF _ that, of "xr h (arg3 w)"] by (simp add: load64_store64_sep entry_slots_x64_def)
  qed
  have f: "load64 ?m (s - 24) = xr h (R 13)" "load64 ?m (s - 16) = xr h (R 12)" "load64 ?m (s - 8) = xr h RBP" "load64 ?m s = load64 (xmem h) s"
    using fr [of 24] fr [of 16] fr [of 8] fr [of 0] Q(6-8,11) by simp_all
  have p3: "load64 ?m (xr h (arg3 w)) = ret" "load64 ?m p = ret" using sl(2) by (simp_all add: load64_store64_sep)
  have xv: "\<forall>n. w \<and> 6 \<le> n \<and> n \<le> 15 \<longrightarrow> xv ?h2 n = xv h n" using Q(4) h0(4) by auto
  have "\<forall>r. is_callee_saved_gpr w r \<and> r \<noteq> R 12 \<and> r \<noteq> R 13 \<longrightarrow> xr ?h2 r = xr h r" using xs saved_scratch by auto
  with xv show thesis using run lm f p3 h0(2) x0 by (intro that [of ?h2]) (simp_all add: Let_def arg_ne)
qed

text \<open>
  C4: the host gets its context back from the guest also on x86-64, in both calling conventions.  When the function that gives the place of the guest's
  return address writes only to its stack, and the places the entry touches are apart from each other and from the stack,
  \<open>aether_vm_entry\<close> stores the address it continues at in both places and jumps to the handler of the first instruction.  Every handler of the chain is called
  with state, program counter and instruction in the argument registers and with the stack pointer of the first one; and whenever control is back at the stored
  address, the rest of the entry returns to the caller's return address with that address popped and all the registers the convention protects as they were.
\<close>

theorem host_context_survives_x64:
  assumes g: "good_vm_x64 V" and w: "w = xm_windows V" and s: "s = xr h RSP" and ret: "ret = vm_entry_return_x64 (xm_size V) w pc"
    and V: "xm_cpu V = xr h (arg0 w)" "xm_sp V = s - (if w then 64 else 32)" "xm_pcp V = load64 (xmem h) (xr h (arg0 w) - 16)"
    and fnp: "\<And>ra. let c = entry_call_x64 w ra h; q = xm_fn V (vm_retaddr_x64 w h) c in uses_stack_x64 w k c q \<and> xr q RAX = p"
    and k: "k + 96 \<le> 2 ^ 63" and ss: "slots_sep (entry_slots_x64 w h p)"
    and st: "\<forall>a\<in>set (entry_slots_x64 w h p). sep a 8 (s - word_of_nat (entry_depth w) - word_of_nat k) (k + entry_depth w + 8)"
    and pc: "load64 (xmem h) (load64 (xmem h) (xr h (arg0 w) - 16)) = xr h (arg1 w)"
  shows "\<exists>h2 t. vm_entry_start_x64 V pc h = (h2, Some t) \<and> xr h2 (R 13) = xr h (arg2 w) \<and>
     load64 (xmem h2) (xr h (arg3 w)) = ret \<and> load64 (xmem h2) p = ret \<and>
     (\<forall>h3 t3. vm_reach (x64_code V) ret (h2, t) (h3, t3) \<longrightarrow> vm_ready_x64 V (h3, t3) \<and>
        (t3 = ret \<longrightarrow> (\<exists>h4. vm_entry_end_x64 V pc h3 = (h4, Some (load64 (xmem h) s)) \<and> xr h4 RSP = s + 8 \<and> x86_abi w h h4)))"
proof -
  obtain h2 where e: "vm_entry_start_x64 V pc h = (h2, Some (take_bit 59 (load64 (xmem h2) (xr h (arg2 w)))))"
    "xr h2 RSP = s - (if w then 64 else 32)" "xr h2 (R 12) = xr h (arg0 w)" "xr h2 (R 13) = xr h (arg2 w)" "xr h2 (arg0 w) = xr h (arg0 w)"
    "xr h2 (arg1 w) = xr h (arg1 w)" "xr h2 (arg2 w) = xr h (arg2 w)" "\<forall>r. is_callee_saved_gpr w r \<and> r \<noteq> R 12 \<and> r \<noteq> R 13 \<longrightarrow> xr h2 r = xr h r"
    "\<forall>n. w \<and> 6 \<le> n \<and> n \<le> 15 \<longrightarrow> xv h2 n = xv h n" "load64 (xmem h2) (xr h (arg3 w)) = ret" "load64 (xmem h2) p = ret"
    "\<forall>a\<in>{xr h (arg0 w) - 16, load64 (xmem h) (xr h (arg0 w) - 16), xr h (arg2 w)}. load64 (xmem h2) a = load64 (xmem h) a"
    "load64 (xmem h2) (s - 24) = xr h (R 13)" "load64 (xmem h2) (s - 16) = xr h (R 12)" "load64 (xmem h2) (s - 8) = xr h RBP" "load64 (xmem h2) s = load64 (xmem h) s"
    using entry_start_run_x64 [OF fnp [unfolded w s] k ss [unfolded w] st [unfolded w s]] unfolding w s ret by blast
  let ?t = "take_bit 59 (load64 (xmem h2) (xr h (arg2 w)))"
  have r: "vm_ready_x64 V (h2, ?t)" using e(2-7,12) V pc w by (simp add: vm_ready_x64_def pcp_kept_def Let_def)
  have "\<exists>h4. vm_entry_end_x64 V pc h3 = (h4, Some (load64 (xmem h) s)) \<and> xr h4 RSP = s + 8 \<and> x86_abi w h h4" if kept: "vm_kept_x64 V h2 h3" for h3
  proof -
    have k3: "xr h3 RSP + (if w then 0x28 else 8) = s - 24" "above w h2 = s - 24" using kept e(2) w by (simp_all add: vm_kept_x64_def above_def Let_def)
    have a: "above_kept w 32 h2 h3" using kept w by (simp add: vm_kept_x64_def Let_def)
    have l: "load64 (xmem h3) (s - 24) = xr h (R 13)" "load64 (xmem h3) (s - 24 + 8) = xr h (R 12)" "load64 (xmem h3) (s - 24 + 16) = xr h RBP"
      "load64 (xmem h3) (s - 24 + 24) = load64 (xmem h) s"
      using load64_above [OF a, of 0] load64_above [OF a, of 8] load64_above [OF a, of 16] load64_above [OF a, of 24] e(13-16) k3(2) by simp_all
    obtain h4 where h4: "vm_entry_end_x64 V pc h3 = (h4, Some (load64 (xmem h3) (s - 24 + 24)))" "xr h4 RSP = s - 24 + 32" "xr h4 (R 13) = load64 (xmem h3) (s - 24)"
      "xr h4 (R 12) = load64 (xmem h3) (s - 24 + 8)" "xr h4 RBP = load64 (xmem h3) (s - 24 + 16)" "\<forall>r. r \<notin> {RSP, R 12, R 13, RBP} \<longrightarrow> xr h4 r = xr h3 r" "xv h4 = xv h3"
      unfolding vm_entry_end_x64_def w [symmetric] using after_run_x64 [where w = w and h = h3, unfolded k3(1)] by blast
    have "xr h4 r = xr h r" if "is_callee_saved_gpr w r" for r
    proof (cases "r \<in> {R 12, R 13, RBP}")
      case False
      then have "xr h4 r = xr h3 r" "xr h3 r = xr h2 r" "xr h2 r = xr h r"
        using h4(6) kept e(8) that saved_scratch [OF that] w by (auto simp: vm_kept_x64_def Let_def)
      then show ?thesis by simp
    qed (use h4(3-5) l in auto)
    moreover have "xv h4 n = xv h n" if "w \<and> 6 \<le> n \<and> n \<le> 15" for n using h4(7) kept e(9) that w by (simp add: vm_kept_x64_def Let_def)
    ultimately show ?thesis using h4(1,2) l(4) by (simp add: x86_abi_def)
  qed
  then show ?thesis using e(1,4,10,11) x64_chain.chain_keeps [OF _ g r] by fastforce
qed

section \<open>An example\<close>

text \<open>As on AArch64: a lifted instruction, an event, and the address at which the entry goes on.\<close>

definition advance_pc_x64 :: "x86_host \<Rightarrow> x86_host" where
  "advance_pc_x64 h = (let v = load64 (xmem h) 0x10100 + 4 in h\<lparr>xmem := store64 (xmem h) 0x10100 v, xr := (xr h)(RSI := v)\<rparr>)"

definition host_fns_x64 :: "u64 \<Rightarrow> x86_host \<Rightarrow> x86_host" where
  "host_fns_x64 t h = h\<lparr>xr := (xr h)(RAX := (if t = 0x7000 then 0x40000 else xr h RDX + 8), RSP := xr h RSP + 8)\<rparr>"

definition vm0_x64 :: x86_vm where
  "vm0_x64 = \<lparr>xm_windows = False, xm_size = (\<lambda>_. 4), xm_lab = (\<lambda>_. 0x8000), xm_fn = host_fns_x64,
     xm_code = (\<lambda>t. if t = 0x5000 then Some (Inr advance_pc_x64) else if t = 0x6000 then Some (Inl ''event_insn_after'') else None),
     xm_cpu = 0x10010, xm_pcp = 0x10100, xm_sp = 0x1FFFE0\<rparr>"

definition x64_host0 :: x86_host where
  "x64_host0 = \<lparr>xr = (\<lambda>r. if r = RDI then 0x10010 else if r = RSI then 0x400 else if r = RDX then 0x20000 else if r = RCX then 0x30000 else if r = R 8 then 0x7000
       else if r = RSP then 0x200000 else of_int r), xv = (\<lambda>_. (0, 0)),
     xmem = store64 (store64 (store64 (store64 (store64 (store64 (\<lambda>_. 0) 0x10000 0x10100) 0x10100 0x400) 0x20000 0x5000) 0x20008 0x6000) 0x20010 0x9038) 0x200000 0x1234\<rparr>"

lemma x64_host0_words: "load64 (xmem x64_host0) 0x20000 = 0x5000" "load64 (xmem x64_host0) 0x20008 = 0x6000" "load64 (xmem x64_host0) 0x20010 = 0x9038"
  "load64 (xmem x64_host0) 0x10000 = 0x10100" "load64 (xmem x64_host0) 0x10100 = 0x400" "load64 (xmem x64_host0) 0x200000 = 0x1234"
  by (simp_all add: x64_host0_def load64_store64_sep sep_def)

lemma x64_host0_regs: "xr x64_host0 (arg0 False) = 0x10010" "xr x64_host0 (arg1 False) = 0x400" "xr x64_host0 (arg2 False) = 0x20000" "xr x64_host0 (arg3 False) = 0x30000"
  "xr x64_host0 (R 8) = 0x7000" "xr x64_host0 RSP = 0x200000"
  by (simp_all add: x64_host0_def arg0_def arg1_def arg2_def arg3_def reg_defs)

lemma vm0_x64_good: "good_vm_x64 vm0_x64"
proof -
  have s: "sep 0x1FFFE8 32 0x10100 8" "sep 0x10000 8 0x10100 8" by (simp_all add: sep_def)
  have ab: "x86_abi False h (h\<lparr>xr := (xr h)(RAX := a, RSP := b)\<rparr>)" "x86_abi False h (h\<lparr>xmem := m, xr := (xr h)(RSI := a)\<rparr>)" for h a b m
    by (simp_all add: x86_abi_def saved_regs)
  have "good_host_x64 vm0_x64"
    using ab(1) by (simp add: good_host_x64_def vm0_x64_def host_fns_x64_def above_kept_def pcp_kept_def)
  moreover have "good_lifted_x64 vm0_x64"
    using s ab(2) by (auto simp: good_lifted_x64_def vm0_x64_def vm_ready_x64_def advance_pc_x64_def Let_def above_kept_def above_def pcp_kept_def arg0_def arg1_def
        load64_store64_sep store64_def mem_read_write_sep split: if_splits) (simp_all add: reg_defs load64_store64_sep flip: store64_def)
  moreover have "sep (xm_cpu vm0_x64 - 16) 8 (xm_sp vm0_x64 - 0x30) 0x30" by (simp add: vm0_x64_def sep_def)
  ultimately show ?thesis by (simp add: good_vm_x64_def)
qed

lemma vm0_reach_x64:
  assumes "xr h (R 13) = 0x20000" and "xr h RSP = 0x1FFFE0" and "load64 (xmem h) 0x20008 = 0x6000" and "load64 (xmem h) 0x20010 = 0x9038"
  shows "\<exists>h3. vm_reach (x64_code vm0_x64) 0x9038 (h, 0x5000) (h3, 0x9038)"
proof -
  have "\<exists>h1. x64_code vm0_x64 0x5000 h = Some (h1, 0x6000) \<and> xmem h1 = xmem (advance_pc_x64 h) \<and> xr h1 (R 13) = 0x20008 \<and> xr h1 RSP = 0x1FFFE0"
    using assms by (simp add: x64_code_def vm0_x64_def return_run_x64 advance_pc_x64_def arg2_def Let_def load64_store64_sep sep_def take_bit_eq_mod reg_defs)
  then obtain h1 where h1: "x64_code vm0_x64 0x5000 h = Some (h1, 0x6000)" "xmem h1 = xmem (advance_pc_x64 h)" "xr h1 (R 13) = 0x20008" "xr h1 RSP = 0x1FFFE0" by blast
  obtain ra q h0 where e: "q = host_fns_x64 0x8000 (event_call_x64 False ra h1)"
    "x86_stub_run (\<lambda>_. 4) (\<lambda>_. 0x8000) host_fns_x64 0x6000 (event_vm_x64 False ''event_insn_after'') h1 = (h0, Some (take_bit 59 (load64 (xmem q) (xr q RAX))))"
    by (rule event_run_x64)
  have "xr q RAX = 0x20010" using h1(3) by (simp add: e(1) host_fns_x64_def event_call_x64_def Let_def arg0_def arg1_def arg2_def reg_defs)
  moreover have "load64 (xmem q) 0x20010 = 0x9038"
    using h1(2,4) assms(4) by (simp add: e(1) host_fns_x64_def event_call_x64_def Let_def event_depth_def advance_pc_x64_def load64_store64_sep sep_def)
  ultimately have h3: "x64_code vm0_x64 0x6000 h1 = Some (h0, 0x9038)" using e(2) by (simp add: x64_code_def vm0_x64_def event_names_def take_bit_eq_mod)
  have "vm_reach (x64_code vm0_x64) 0x9038 (h, 0x5000) (h1, 0x6000)" by (rule vm_reach_step [where code = "x64_code vm0_x64", OF vm_reach_start _ h1(1)]) simp
  then have "vm_reach (x64_code vm0_x64) 0x9038 (h, 0x5000) (h0, 0x9038)" by (rule vm_reach_step [where code = "x64_code vm0_x64", OF _ _ h3]) simp
  then show ?thesis by blast
qed

lemma entry_words_x64:
  assumes "sep a 8 0x1FFFD0 48" and "sep a 8 0x30000 8" and "sep a 8 0x40000 8"
  shows "load64 (xmem (fst (vm_entry_start_x64 vm0_x64 0x9000 x64_host0))) a = load64 (xmem x64_host0) a"
proof -
  obtain ra q h1 where e: "q = host_fns_x64 (vm_retaddr_x64 False x64_host0) (entry_call_x64 False ra x64_host0)"
    "fst (x86_stub_run (\<lambda>_. 4) (\<lambda>_. 0x8000) host_fns_x64 0x9000 (vm_entry_before_x64 False) x64_host0) = h1"
    "xmem h1 = xmem q" "xr h1 RSP = xr q RSP + 16" "xr h1 (arg3 False) = load64 (xmem q) (xr q RSP + (if False then 0x20 else 0))"
    "\<forall>r. r \<notin> {arg0 False, arg1 False, arg2 False, arg3 False, RSP} \<longrightarrow> xr h1 r = xr q r"
    by (rule entry_before_run_x64)
  have q: "xmem q = xmem (entry_call_x64 False ra x64_host0)" "xr q RSP = 0x1FFFD8" "xr q RAX = 0x40000"
    by (simp_all add: e(1) host_fns_x64_def vm_retaddr_x64_def x64_host0_regs entry_call_x64_def entry_depth_def Let_def) (simp_all add: reg_defs)
  note F = entry_call_frame_x64 [where w = False and ra = ra and h = x64_host0, unfolded x64_host0_regs entry_depth_def, simplified, folded q(1)]
  have h1: "xr h1 RSP = 0x1FFFE8" "xr h1 (arg3 False) = 0x30000" "xr h1 RAX = 0x40000"
    using e(4-6) q(2,3) F(5) by (simp_all add: arg_ne)
  have m: "xmem (fst (vm_entry_start_x64 vm0_x64 0x9000 x64_host0)) =
      (let r = vm_entry_return_x64 (\<lambda>_. 4) False 0x9000 in store64 (store64 (store64 (xmem q) 0x1FFFE0 r) 0x30000 r) 0x40000 r)"
    using e(2) h1 e(3) unfolding vm_entry_start_x64_def enter_run_x64 Let_def by (simp add: vm0_x64_def push_ret_def Let_def arg_ne)
  have "sep a 8 0x1FFFE0 8" using sep_sub [OF assms(1), of 16 8] by simp
  moreover have "load64 (xmem q) a = load64 (xmem x64_host0) a" using F(7) assms(1) by (simp add: load64_def)
  ultimately show ?thesis unfolding m Let_def using assms(2,3) by (simp add: load64_store64_sep)
qed

theorem host_context_survives_x64_witness:
  "\<exists>h2 h3 h4. vm_entry_start_x64 vm0_x64 0x9000 x64_host0 = (h2, Some 0x5000) \<and> load64 (xmem h2) 0x40000 = 0x9038 \<and>
     vm_reach (x64_code vm0_x64) 0x9038 (h2, 0x5000) (h3, 0x9038) \<and>
     vm_entry_end_x64 vm0_x64 0x9000 h3 = (h4, Some 0x1234) \<and> xr h4 RSP = 0x200008 \<and> x86_abi False x64_host0 h4"
proof -
  have w: "False = xm_windows vm0_x64" by (simp add: vm0_x64_def)
  have ret: "0x9038 = vm_entry_return_x64 (xm_size vm0_x64) False 0x9000" by (simp add: vm0_x64_def vm_entry_return_x64_def vm_entry_before_x64_def)
  have V: "xm_cpu vm0_x64 = xr x64_host0 (arg0 False)" "xm_sp vm0_x64 = 0x200000 - (if False then 64 else 32)"
    "xm_pcp vm0_x64 = load64 (xmem x64_host0) (xr x64_host0 (arg0 False) - 16)"
    and pc: "load64 (xmem x64_host0) (load64 (xmem x64_host0) (xr x64_host0 (arg0 False) - 16)) = xr x64_host0 (arg1 False)"
    by (simp_all add: x64_host0_regs x64_host0_words) (simp_all add: vm0_x64_def)
  have fnp: "let c = entry_call_x64 False ra x64_host0; q = xm_fn vm0_x64 (vm_retaddr_x64 False x64_host0) c in uses_stack_x64 False 0 c q \<and> xr q RAX = 0x40000" for ra
    by (simp add: vm0_x64_def host_fns_x64_def vm_retaddr_x64_def x64_host0_regs uses_stack_x64_def x86_abi_def Let_def) (simp add: saved_regs)
  have sl: "entry_slots_x64 False x64_host0 0x40000 = [0x30000, 0x40000, 0x10000, 0x10100, 0x20000]" by (simp add: entry_slots_x64_def x64_host0_regs x64_host0_words)
  have sl12: "slots_sep (entry_slots_x64 False x64_host0 0x40000)"
    "\<forall>a\<in>set (entry_slots_x64 False x64_host0 0x40000). sep a 8 (0x200000 - word_of_nat (entry_depth False) - word_of_nat 0) (0 + entry_depth False + 8)"
    unfolding sl by (simp_all add: sep_def entry_depth_def)
  from host_context_survives_x64 [OF vm0_x64_good w x64_host0_regs(6) [symmetric] ret V fnp _ sl12 pc] obtain h2 t where
    e: "vm_entry_start_x64 vm0_x64 0x9000 x64_host0 = (h2, Some t)" "xr h2 (R 13) = 0x20000" "load64 (xmem h2) 0x40000 = 0x9038"
      "\<forall>h3 t3. vm_reach (x64_code vm0_x64) 0x9038 (h2, t) (h3, t3) \<longrightarrow> vm_ready_x64 vm0_x64 (h3, t3) \<and>
        (t3 = 0x9038 \<longrightarrow> (\<exists>h4. vm_entry_end_x64 vm0_x64 0x9000 h3 = (h4, Some (load64 (xmem x64_host0) 0x200000)) \<and> xr h4 RSP = 0x200000 + 8 \<and> x86_abi False x64_host0 h4))"
    unfolding x64_host0_regs(3) by auto
  have m: "load64 (xmem h2) a = load64 (xmem x64_host0) a" if "sep a 8 0x1FFFD0 48" "sep a 8 0x30000 8" "sep a 8 0x40000 8" for a
    using entry_words_x64 [OF that] e(1) by simp
  have r: "vm_ready_x64 vm0_x64 (h2, t)" using e(4) vm_reach_start [of "x64_code vm0_x64" "0x9038" "(h2, t)"] by blast
  then have t: "t = 0x5000" using e(2) m [of "0x20000"] x64_host0_words(1) by (simp add: vm_ready_x64_def Let_def sep_def take_bit_eq_mod)
  have "xr h2 RSP = 0x1FFFE0" using r by (simp add: vm_ready_x64_def Let_def vm0_x64_def)
  then obtain h3 where "vm_reach (x64_code vm0_x64) 0x9038 (h2, 0x5000) (h3, 0x9038)"
    using vm0_reach_x64 [OF e(2)] m [of "0x20008"] m [of "0x20010"] x64_host0_words(2,3) by (auto simp: sep_def)
  then show ?thesis using e t x64_host0_words(6) by fastforce
qed

end
