(* ===== verification/Spec2Isabelle.thy ===== *)
theory Spec2Isabelle
  imports InterpMeta DebugServer Lifter EntryStubsX86
begin

text \<open>
  AetherVM: a verification development.

  AetherVM runs guest code for AArch64 or x86-64 inside a host process.  A binary is lifted
  to one native \<open>handler\<close> per opcode; the \<open>Orchestrator\<close> turns its functions into lists of handler
  entries that execution walks through, with host events between them; the \<open>OpcodeEngine\<close>
  executes single opcodes, through Remill semantics functions, a few hand-written interpreters or
  native code generated on the fly; guest registers live in Remill's \<open>State\<close> object inside the
  thread's \<open>CPUState\<close>.

  \<^bold>\<open>Theories and sources.\<close>
  \<^item> \<open>Prelude\<close>: result type, little-endian bytes, the process memory and separation of ranges.
  \<^item> \<open>Utils\<close> (\<open>include/Utils.h\<close>, \<open>src/Utils.cpp\<close>): binary search, alignment, hashes, 128-bit keys, splitting.
  \<^item> \<open>Registers\<close> (\<open>include/Register.h\<close>): the numbering, as the declaration list of the enumeration.
  \<^item> \<open>CPUState\<close> (\<open>src/CPUState.h\<close>, \<open>src/CPUState.cpp\<close>): register access of both guests over a \<open>State\<close> whose
    layout is a parameter with the properties the sources assert; the two register files
    are interpretations of one locale.
  \<^item> \<open>StateOffsets\<close> (\<open>src/AArch64.cpp\<close>, \<open>src/X86.cpp\<close>, \<open>src/OpcodeEngine.cpp\<close>): \<open>offset_reg\<close> by number and by name, and
    the name tables of the interpreter.
  \<^item> \<open>Orchestrator\<close> (\<open>src/Orchestrator.h\<close>, \<open>src/Orchestrator.cpp\<close>): encoding, lookup and caches.
  \<^item> \<open>OperandLift\<close> (\<open>src/OpcodeEngine.cpp\<close>): evaluation of instruction operands and their identifiers.
  \<^item> \<open>MetaOperand\<close> (\<open>src/IMetaData.h\<close>, \<open>src/OpcodeEngine.cpp\<close>, \<open>src/InterpMetaData.cpp\<close>): operands as metadata.
  \<^item> \<open>GuestMemory\<close> (\<open>src/Memory.h\<close>, \<open>src/Memory.cpp\<close>): the reserved guest range.
  \<^item> \<open>McInst\<close> (\<open>src/OpcodeAArch64.cpp\<close>): the interpreted AArch64 stack instructions.
  \<^item> \<open>NativeHandler\<close> (\<open>src/Lifter.cpp\<close>, \<open>src/UtilsAArch64.cpp\<close>): the code of native handlers and its meaning.
  \<^item> \<open>OpcodeChain\<close> (\<open>ios/OpcodeEngine.cpp\<close>, \<open>src/UtilsAArch64.cpp\<close>): chains of functions around a compiled-in opcode.
  \<^item> \<open>PrebuiltOpcode\<close> (\<open>src/UtilsAArch64.cpp\<close>, \<open>ios/OpcodeEngine.cpp\<close>, \<open>src/OpcodeEngine.cpp\<close>): the table of compiled-in
    opcodes, its generator, renamed registers and the choice of a handler.
  \<^item> \<open>Lifter\<close> (\<open>src/Lifter.cpp\<close>, \<open>src/Handler.cpp\<close>): tables of semantics functions and intrinsics, the function made for
    an opcode, and installing the generated code.
  \<^item> \<open>OpcodeEngine\<close> (\<open>src/OpcodeEngine.h\<close>, \<open>src/OpcodeEngine.cpp\<close>): handlers, their tables and their execution.
  \<^item> \<open>OpcodeInvariants\<close>: reachable engines, prefetched code, and the pages of generated code.
  \<^item> \<open>MetaFile\<close> (\<open>src/IMetaData.h\<close>): the structures of a metadata file as bytes.
  \<^item> \<open>PreEncoder\<close> (\<open>src/PreEncoder.h\<close>, \<open>src/PreEncoder.cpp\<close>): encoding a binary ahead of time, and checking a file.
  \<^item> \<open>InterpMeta\<close> (\<open>src/InterpMetaData.h\<close>, \<open>src/InterpMetaData.cpp\<close>): execution from metadata files.
  \<^item> \<open>Execution\<close> (\<open>src/Event.cpp\<close>, \<open>src/BinaryEngine.h\<close>, \<open>src/Orchestrator.h\<close>): events and threaded execution of handler words.
  \<^item> \<open>EntryStubs\<close>, \<open>EntryStubsX86\<close> (\<open>src/AArch64.cpp\<close>, \<open>src/X86.cpp\<close>, \<open>src/Intrinsic.cpp\<close>): the naked assembly functions
    between host and guest; the chains of both hosts are interpretations of one locale.
  \<^item> \<open>Intrinsic\<close> (\<open>src/Intrinsic.cpp\<close>): memory accesses, atomic operations, floating-point environment and system
    calls of lifted code.
  \<^item> \<open>Facade\<close> (\<open>src/AetherVM.cpp\<close>, \<open>src/BinaryEngine.cpp\<close>): the interface of the engine.
  \<^item> \<open>Debugger\<close> (\<open>lldb/src/Process.cpp\<close>, \<open>lldb/src/Thread.cpp\<close>, the handlers of \<open>lldb/src/Debugger.cpp\<close>): threads and breakpoints
    of a debugged guest, and a step relation of guest threads and server requests.
  \<^item> \<open>DebugRegisters\<close> (\<open>lldb/src/Context.cpp\<close>): the register tables of the debugger and access through them.
  \<^item> \<open>DebugServer\<close> (\<open>lldb/src/Debugger.cpp\<close>): the description of the target and its transfer to the client.

  \<^bold>\<open>State and errors.\<close>  State is passed explicitly, as records named after the source's classes.  Operations that
  can abort, read outside an array, call a null pointer or leave the language's defined behaviour return
  the sum type \<open>res\<close>, whose left values name the fault.

  \<^bold>\<open>What is proved.\<close>  Properties of one component are in its theory, right after the definitions they need: agreement of the
  optimised parts with plain definitions (caches, tables, generated code, converted metadata), round trips
  (registers, memory, files, transfers), invariants of every reachable engine and every debugging session, and the
  behaviour of the error paths.  The property that spans all of them, from raw code to its return, is below.

  \<^bold>\<open>Bounds and fuel.\<close>  Machine integers are words of the source's width.  Three functions take fuel.  The evaluation of metadata
  expressions follows indices of an array; the depth of the converted expression is enough.
  Threaded execution and the functions above it take a step per handler word; the length of the function's words is
  enough.  A transfer to the debugger takes a request per byte and one more.

  \<^bold>\<open>Not modelled.\<close>  Decoding and lifting by Remill and code generation by LLVM (\<open>src/Lifter.cpp\<close>),
  the platform layer, the start of the debugging server, the generated tables of semantics functions,
  scripts, tools and samples.
\<close>

section \<open>From raw code to its return\<close>

text \<open>
  C1: executing raw code runs it to its return.  For an object with one function made of ordinary
  lifted instructions and a return, with callbacks that let every instruction continue, \<open>execute\<close> loads it behind the
  committed memory, encodes it beside what was loaded before, starts it, and succeeds once it was given a step per handler word:
  the thread state it leaves is what the events and the instructions make, in order, of the start state, when that ends with
  the program counter at the return address.  The attached binary is restored and lookups stay right.
\<close>

theorem raw_code_runs_to_return:
  assumes "b_functions bin = [(a, f)]" and "b_imageBase bin = 0" and "insns f = g @ [t]"
    and "vmbase = guestAvailable (m_memory M)" and "vmbase + a \<noteq> 0"
    and "sz = align_up (sum_list (map (sect_size \<circ> snd) (b_sections bin))) (os_page_size (w_os W))"
    and "load_sections W bin vmbase (b_sections bin) (M\<lparr>m_binary := Some bin,
        m_memory := snd (commit (m_memory M) (os_page_commit (w_os W) vmbase sz) vmbase sz)\<rparr>) = Some (Inr M1)"
    and "E = encode_env W vmbase M1" and "H = machine_host W M1" and "env_match H E" and "straight_function E g t"
    and "bin_ok E [(a, f)]" and "orch_good (m_orch M)"
    and "\<forall>v n p. hits (m_orch M) v n p \<longrightarrow> v < hd (insn_addrs E [(a, f)]) \<or> fend f + vmbase \<le> v"
    and "run_function H E (g @ [t]) (start_cpu W (m_pe M) (vmbase + a) (m_cpu M1)) = Some c'" and "pc_of c' = retaddr c'"
    and "length (concat (block_words E [(a, f)])) \<le> fuel"
  shows "\<exists>M'. execute_raw fuel W (Some bin) M = Some (Inr (True, M')) \<and> m_cpu M' = c' \<and> m_binary M' = m_binary M \<and> orch_good (m_orch M')"
proof -
  have kept: "m_orch M1 = m_orch M" "m_pe M1 = m_pe M" using load_sections_setup [OF assms(7)] by (simp_all add: same_setup_def)
  have disj: "\<forall>v n p. hits (m_orch M) v n p \<longrightarrow> v < hd (insn_addrs E [(a, f)]) \<or> fend (snd (last [(a, f)])) + env_addend E \<le> v"
    using assms(14) by (simp add: assms(8) encode_env_def)
  obtain s where s: "encode E [(a, f)] (m_orch M) = Inr s" using encode_good [OF assms(13,12) disj] by blast
  have addend: "vmbase + a = a + env_addend E" by (simp add: assms(8) encode_env_def)
  obtain s' where s': "find_insn (vmbase + a) s = Inr (At (length (basicblocks (m_orch M))) 0, s')" "orch_good s'"
      "words_at s' (length (basicblocks (m_orch M))) 0 (concat (block_words E [(a, f)]))"
    using encoded_function_found(2) [OF assms(11,3,12,13) _ s] disj unfolding addend by auto
  note run = function_runs [OF assms(10,11,3) s'(3) assms(15,16,17)]
  have orch: "orchBinary W bin vmbase (M\<lparr>m_binary := Some bin\<rparr>) = Some (Inr (M1\<lparr>m_orch := s\<rparr>))"
    by (rule orchBinary_unfold [OF assms(6)]) (use assms(1,2,7,8) s kept in simp_all)
  have host: "machine_host W (M1\<lparr>m_orch := s\<rparr>) = H" by (simp add: machine_host_def assms(9))
  have "startVM fuel W (vmbase + a) (M1\<lparr>m_orch := s\<rparr>) = Some (Inr (True, set_cpu c' (M1\<lparr>m_orch := s'\<rparr>)))"
    using run s'(1) by (simp add: startVM_def enter_vm_def host kept)
  from execute_raw_unfold [OF assms(1,2,4) orch assms(5) this] s'(2) show ?thesis by (simp add: set_cpu_def)
qed

text \<open>One return instruction, whose handler sets the program counter to the return address.\<close>

definition ret_insn :: bin_insn where
  "ret_insn = \<lparr>fnoff = 0, insn_oplen = 4, insn_ty = RET, comins = 0, opbytes = [1, 2, 3, 6]\<rparr>"

definition ret_func :: bin_func where
  "ret_func = \<lparr>insns = [ret_insn], fend = 0x44\<rparr>"

definition ret_object :: binary where
  "ret_object = \<lparr>b_imageBase = 0, b_sections = [], b_addrBuff = (\<lambda>_. 0), b_isCode = (\<lambda>_. False), b_fileBuffer = 0,
     b_functions = [(0x40, ret_func)]\<rparr>"

definition ret_world :: world where
  "ret_world = (world0 True)\<lparr>w_host := host0\<lparr>he_run := (\<lambda>_ c. c\<lparr>mem := store64 (mem c) (pcptr c) (retaddr c)\<rparr>)\<rparr>\<rparr>"

definition ret_env :: enc_env where
  "ret_env = env_x\<lparr>env_addend := 0x10010000\<rparr>"

theorem raw_code_runs_to_return_witness:
  "\<exists>M'. execute_raw 10 ret_world (Some ret_object) machine0 = Some (Inr (True, M'))"
proof -
  let ?M1 = "machine0\<lparr>m_binary := Some ret_object\<rparr>"
  let ?H = "host0\<lparr>he_run := (\<lambda>_ c. c\<lparr>mem := store64 (mem c) (pcptr c) (retaddr c)\<rparr>)\<rparr>"
  define c where "c = start_cpu ret_world (m_pe machine0) (0x10010000 + 0x40) (m_cpu ?M1)"
  define c' where "c' = c\<lparr>mem := store64 (mem c) (pcptr c) (retaddr c)\<rparr>"
  have vm: "0x10010000 = guestAvailable (m_memory machine0)" by (simp add: machine0_def guestAvailable_def)
  have E: "ret_env = encode_env ret_world 0x10010000 ?M1"
    by (simp add: ret_env_def encode_env_def ret_world_def world0_def machine0_def env_x_def env0_def host0_def)
  have H: "?H = machine_host ret_world ?M1" by (simp add: machine_host_def ret_world_def world0_def machine0_def host0_def)
  have m: "env_match ?H ret_env" using host0_match by (simp add: env_match_def ret_env_def)
  have sf: "straight_function ret_env [] ret_insn" by code_simp
  have ok: "bin_ok ret_env [(0x40, ret_func)]" by code_simp
  have good: "orch_good (m_orch machine0)" by (simp add: machine0_def orch_good_def orch0_def hits_def)
  have disj: "\<forall>v n p. hits (m_orch machine0) v n p \<longrightarrow> v < hd (insn_addrs ret_env [(0x40, ret_func)]) \<or> fend ret_func + 0x10010000 \<le> v"
    by (simp add: machine0_def hits_def orch0_def)
  have len: "length (concat (block_words ret_env [(0x40, ret_func)])) \<le> 10" by code_simp
  have cfg: "env_cfg ret_env = cfg0" by (simp add: ret_env_def env_x_def env0_def)
  have run: "run_function ?H ret_env ([] @ [ret_insn]) (start_cpu ret_world (m_pe machine0) (0x10010000 + 0x40) (m_cpu ?M1)) = Some c'"
    by (fold c_def) (simp add: run_function_def cfg cfg0_def observe_def host0_def ref_insn_def c'_def Let_def)
  have load: "load_sections ret_world ret_object 0x10010000 (b_sections ret_object) (machine0\<lparr>m_binary := Some ret_object,
        m_memory := snd (commit (m_memory machine0) (os_page_commit (w_os ret_world) 0x10010000 0) 0x10010000 0)\<rparr>) = Some (Inr ?M1)"
    by (simp add: ret_object_def machine0_def commit_def GUEST_SIZE_def)
  have sz: "0 = align_up (sum_list (map (sect_size \<circ> snd) (b_sections ret_object))) (os_page_size (w_os ret_world))"
    by (simp add: ret_object_def align_up_def ret_world_def world0_def os0_def)
  have pc: "pc_of c' = retaddr c'" by (simp add: pc_of_def c'_def)
  from raw_code_runs_to_return [OF _ _ _ vm _ sz load E H m sf ok good disj run pc len]
  show ?thesis by (auto simp: ret_object_def ret_func_def)
qed

end
